(* ===== verification/Prelude.thy ===== *)
theory Prelude
  imports Main "HOL-Library.AList" "HOL-Library.Word" "HOL-Library.Multiset"
begin

text \<open>
  Shared vocabulary of the development: byte strings, the \<open>anyhow\<close> result type, the
  hash maps of the Rust standard library, 64-bit unsigned arithmetic with its wrap-around written
  out, the counting-semaphore interface, and the generic lemmas the component theories use.

  A \<open>HashMap\<close> is an association list with distinct keys. Its iteration order is
  unspecified in Rust; the list order stands for whichever order an execution sees, and the
  theorems about iterated results speak of sets or of lookups only.
\<close>

section \<open>Types\<close>

type_synonym byte = "8 word"
type_synonym bytes = "byte list"

text \<open>\<open>anyhow::Result\<close>: the error is its message.\<close>

type_synonym 'a anyhow = "string + 'a"

type_synonym ('k, 'v) hash_map = "('k \<times> 'v) list"

text \<open>An HTTP status code.\<close>

type_synonym status = nat

abbreviation st_OK :: status where "st_OK \<equiv> 200"
abbreviation st_NO_CONTENT :: status where "st_NO_CONTENT \<equiv> 204"
abbreviation st_BAD_REQUEST :: status where "st_BAD_REQUEST \<equiv> 400"
abbreviation st_UNAUTHORIZED :: status where "st_UNAUTHORIZED \<equiv> 401"
abbreviation st_FORBIDDEN :: status where "st_FORBIDDEN \<equiv> 403"
abbreviation st_NOT_FOUND :: status where "st_NOT_FOUND \<equiv> 404"
abbreviation st_METHOD_NOT_ALLOWED :: status where "st_METHOD_NOT_ALLOWED \<equiv> 405"
abbreviation st_REQUEST_TIMEOUT :: status where "st_REQUEST_TIMEOUT \<equiv> 408"
abbreviation st_CONFLICT :: status where "st_CONFLICT \<equiv> 409"
abbreviation st_PAYLOAD_TOO_LARGE :: status where "st_PAYLOAD_TOO_LARGE \<equiv> 413"
abbreviation st_UNPROCESSABLE_ENTITY :: status where "st_UNPROCESSABLE_ENTITY \<equiv> 422"
abbreviation st_TOO_MANY_REQUESTS :: status where "st_TOO_MANY_REQUESTS \<equiv> 429"
abbreviation st_HEADER_FIELDS_TOO_LARGE :: status where "st_HEADER_FIELDS_TOO_LARGE \<equiv> 431"
abbreviation st_INTERNAL_SERVER_ERROR :: status where "st_INTERNAL_SERVER_ERROR \<equiv> 500"
abbreviation st_BAD_GATEWAY :: status where "st_BAD_GATEWAY \<equiv> 502"
abbreviation st_SERVICE_UNAVAILABLE :: status where "st_SERVICE_UNAVAILABLE \<equiv> 503"
abbreviation st_GATEWAY_TIMEOUT :: status where "st_GATEWAY_TIMEOUT \<equiv> 504"

text \<open>What \<open>tokio::time::timeout\<close> returns: the future's value, or that the time elapsed.\<close>

datatype 'a timed = Done 'a | Elapsed

section \<open>Unsigned 64-bit arithmetic\<close>

text \<open>
  \<open>usize\<close> and \<open>u64\<close> values are natural numbers below \<^term>\<open>2 ^ 64 :: nat\<close>. The plain
  operators wrap around in a release build; the checked operators return \<open>None\<close>.
\<close>

named_theorems usize_simps \<open>exactness of 64-bit arithmetic where it does not wrap\<close>

definition wrap_add :: "nat \<Rightarrow> nat \<Rightarrow> nat" where
  "wrap_add a b = (a + b) mod 2 ^ 64"

definition wrap_sub :: "nat \<Rightarrow> nat \<Rightarrow> nat" where
  "wrap_sub a b = (if b \<le> a then a - b else 2 ^ 64 + a - b)"

definition checked_add :: "nat \<Rightarrow> nat \<Rightarrow> nat option" where
  "checked_add a b = (if a + b < 2 ^ 64 then Some (a + b) else None)"

definition checked_mul :: "nat \<Rightarrow> nat \<Rightarrow> nat option" where
  "checked_mul a b = (if a * b < 2 ^ 64 then Some (a * b) else None)"

definition checked_sub :: "nat \<Rightarrow> nat \<Rightarrow> nat option" where
  "checked_sub a b = (if b \<le> a then Some (a - b) else None)"

lemma wrap_add_exact [usize_simps]: "a + b < 2 ^ 64 \<Longrightarrow> wrap_add a b = a + b"
  by (simp add: wrap_add_def)

lemma wrap_sub_exact [usize_simps]: "b \<le> a \<Longrightarrow> wrap_sub a b = a - b"
  by (simp add: wrap_sub_def)

lemma wrap_add_less: "wrap_add a b < 2 ^ 64"
  by (simp add: wrap_add_def)

section \<open>Hash maps\<close>

text \<open>
  What the rest of the development relies on of a keyed map: lookups after an insertion or a
  removal, the entry count, and that both keep the well-formedness.
\<close>

locale keyed_map =
  fixes lookup :: "'m \<Rightarrow> 'k \<Rightarrow> 'v option"
    and upsert :: "'k \<Rightarrow> 'v \<Rightarrow> 'm \<Rightarrow> 'm"
    and discard :: "'k \<Rightarrow> 'm \<Rightarrow> 'm"
    and count_of :: "'m \<Rightarrow> nat"
    and wf_map :: "'m \<Rightarrow> bool"
  assumes lookup_upsert: "lookup (upsert k v m) k' = (if k' = k then Some v else lookup m k')"
    and lookup_discard: "lookup (discard k m) k' = (if k' = k then None else lookup m k')"
    and wf_upsert: "wf_map m \<Longrightarrow> wf_map (upsert k v m)"
    and wf_discard: "wf_map m \<Longrightarrow> wf_map (discard k m)"
    and count_upsert: "wf_map m \<Longrightarrow>
      count_of (upsert k v m) = (if lookup m k = None then Suc (count_of m) else count_of m)"
    and count_discard: "wf_map m \<Longrightarrow>
      count_of (discard k m) = (if lookup m k = None then count_of m else count_of m - 1)"
begin

lemma lookup_upsert_all:
  "lookup (fold (\<lambda>(k, v). upsert k v) kvs m) k =
     (case map_of (rev kvs) k of None \<Rightarrow> lookup m k | Some v \<Rightarrow> Some v)"
proof (induction kvs arbitrary: m)
  case Nil
  show ?case by simp
next
  case (Cons kv kvs)
  then show ?case
    by (cases kv) (auto simp: lookup_upsert map_add_def split: option.splits)
qed

lemma wf_upsert_all: "wf_map m \<Longrightarrow> wf_map (fold (\<lambda>(k, v). upsert k v) kvs m)"
  by (induction kvs arbitrary: m) (auto intro: wf_upsert)

lemma lookup_discard_all:
  "lookup (fold discard ks m) k = (if k \<in> set ks then None else lookup m k)"
  by (induction ks arbitrary: m) (auto simp: lookup_discard)

lemma wf_discard_all: "wf_map m \<Longrightarrow> wf_map (fold discard ks m)"
  by (induction ks arbitrary: m) (auto intro: wf_discard)

end

abbreviation hm_get :: "('k, 'v) hash_map \<Rightarrow> 'k \<Rightarrow> 'v option" where
  "hm_get \<equiv> map_of"

abbreviation hm_insert :: "'k \<Rightarrow> 'v \<Rightarrow> ('k, 'v) hash_map \<Rightarrow> ('k, 'v) hash_map" where
  "hm_insert \<equiv> AList.update"

abbreviation hm_remove :: "'k \<Rightarrow> ('k, 'v) hash_map \<Rightarrow> ('k, 'v) hash_map" where
  "hm_remove \<equiv> AList.delete"

abbreviation hm_keys :: "('k, 'v) hash_map \<Rightarrow> 'k list" where
  "hm_keys m \<equiv> map fst m"

abbreviation hm_wf :: "('k, 'v) hash_map \<Rightarrow> bool" where
  "hm_wf m \<equiv> distinct (map fst m)"

lemma hm_get_None: "map_of m k = None \<longleftrightarrow> k \<notin> fst ` set m"
  by (simp add: map_of_eq_None_iff)

lemma hm_get_Some_iff: "hm_wf m \<Longrightarrow> map_of m k = Some v \<longleftrightarrow> (k, v) \<in> set m"
  by (rule map_of_eq_Some_iff)

lemma hm_length_insert:
  "length (AList.update k v m) = (if map_of m k = None then Suc (length m) else length m)"
  by (induction m) auto

lemma hm_length_remove:
  "hm_wf m \<Longrightarrow> length (AList.delete k m) = (if map_of m k = None then length m else length m - 1)"
proof (induction m)
  case Nil
  show ?case by simp
next
  case (Cons kv m)
  then show ?case
    by (cases m) (auto simp: map_of_eq_None_iff image_iff delete_id)
qed

interpretation hm: keyed_map map_of AList.update AList.delete length
  "\<lambda>m. distinct (map fst m)"
  by unfold_locales
    (auto simp: update_conv delete_conv' distinct_update distinct_delete
       hm_length_insert hm_length_remove)

text \<open>A total over the values: the byte accounting of the cache and of the module registry.\<close>

definition hm_total :: "('v \<Rightarrow> nat) \<Rightarrow> ('k, 'v) hash_map \<Rightarrow> nat" where
  "hm_total f m = sum_list (map (f \<circ> snd) m)"

lemma hm_total_Nil [simp]: "hm_total f [] = 0"
  by (simp add: hm_total_def)

lemma hm_total_Cons [simp]: "hm_total f (kv # m) = f (snd kv) + hm_total f m"
  by (simp add: hm_total_def)

lemma hm_total_remove:
  assumes "hm_wf m" "map_of m k = Some v"
  shows "hm_total f m = f v + hm_total f (AList.delete k m)"
  using assms by (induction m) (auto simp: delete_id image_iff map_of_eq_None_iff rev_image_eqI)

lemma hm_total_insert_new:
  "map_of m k = None \<Longrightarrow> hm_total f (AList.update k v m) = hm_total f m + f v"
  by (induction m) auto

lemma hm_total_insert_old:
  assumes "hm_wf m" "map_of m k = Some u"
  shows "hm_total f (AList.update k v m) + f u = hm_total f m + f v"
  using assms by (induction m) (auto split: if_splits)

lemma hm_total_member: "map_of m k = Some v \<Longrightarrow> f v \<le> hm_total f m"
  by (induction m) (auto split: if_splits)

lemma hm_keys_remove: "fst ` set (AList.delete k m) = fst ` set m - {k}"
  by (metis AList.delete_keys list.set_map set_removeAll)

lemma sum_list_mset_cong: "mset xs = mset ys \<Longrightarrow> sum_list (map f xs) = sum_list (map f ys)"
  for f :: "'a \<Rightarrow> nat"
  by (simp flip: sum_mset_sum_list)

lemma hm_total_map_of:
  assumes "hm_wf m" "distinct ks" "set ks = fst ` set m"
  shows "sum_list (map (\<lambda>k. f (the (map_of m k))) ks) = hm_total f m"
proof -
  have "mset ks = mset (map fst m)"
    using assms set_eq_iff_mset_eq_distinct [of ks "map fst m"] by simp
  then have "sum_list (map (\<lambda>k. f (the (map_of m k))) ks) =
      sum_list (map (\<lambda>k. f (the (map_of m k))) (map fst m))"
    by (rule sum_list_mset_cong)
  also have "\<dots> = hm_total f m"
    unfolding hm_total_def map_map o_def
    using assms(1) by (intro arg_cong [where f = sum_list] map_cong) auto
  finally show ?thesis .
qed

text \<open>The items the values of a map hold together, as a multiset.\<close>

definition hm_items :: "('v \<Rightarrow> 'a list) \<Rightarrow> ('k, 'v) hash_map \<Rightarrow> 'a list" where
  "hm_items f m = concat (map (f \<circ> snd) m)"

lemma hm_items_Nil [simp]: "hm_items f [] = []"
  by (simp add: hm_items_def)

lemma hm_items_Cons [simp]: "hm_items f (kv # m) = f (snd kv) @ hm_items f m"
  by (simp add: hm_items_def)

lemma hm_items_remove:
  "hm_wf m \<Longrightarrow> map_of m k = Some v \<Longrightarrow> mset (hm_items f m) = mset (f v @ hm_items f (hm_remove k m))"
  by (induction m) (auto simp: delete_id image_iff map_of_eq_None_iff rev_image_eqI)

lemma hm_items_insert:
  "hm_wf m \<Longrightarrow> mset (hm_items f (hm_insert k v m)) = mset (f v @ hm_items f (hm_remove k m))"
  by (induction m) (auto simp: delete_id image_iff map_of_eq_None_iff rev_image_eqI)

lemma hm_items_length: "(\<And>v. length (f v) \<le> 1) \<Longrightarrow> length (hm_items f m) \<le> length m"
proof (induction m)
  case (Cons kv m)
  have "length (f (snd kv)) \<le> 1" "length (hm_items f m) \<le> length m"
    by (rule Cons.prems, rule Cons.IH, rule Cons.prems)
  then show ?case by simp
qed simp

lemma hm_items_member: "x \<in> set (hm_items f m) \<longleftrightarrow> (\<exists>(k, v) \<in> set m. x \<in> set (f v))"
  by (induction m) auto

section \<open>Transition systems\<close>

text \<open>
  The states a program can be in, given where it starts and what one step may do, and the rule
  every component invariant is proved with.
\<close>

inductive reaches :: "('s \<Rightarrow> bool) \<Rightarrow> ('s \<Rightarrow> 's \<Rightarrow> bool) \<Rightarrow> 's \<Rightarrow> bool"
  for init :: "'s \<Rightarrow> bool" and step :: "'s \<Rightarrow> 's \<Rightarrow> bool" where
  reaches_init: "init s \<Longrightarrow> reaches init step s"
| reaches_step: "reaches init step s \<Longrightarrow> step s s' \<Longrightarrow> reaches init step s'"

lemma reaches_steps: "step\<^sup>*\<^sup>* s s' \<Longrightarrow> reaches init step s \<Longrightarrow> reaches init step s'"
  by (induction rule: rtranclp_induct) (blast intro: reaches_step)+

locale invariant_system =
  fixes init :: "'s \<Rightarrow> bool" and step :: "'s \<Rightarrow> 's \<Rightarrow> bool" and inv :: "'s \<Rightarrow> bool"
  assumes inv_init: "init s \<Longrightarrow> inv s"
    and inv_step: "inv s \<Longrightarrow> step s s' \<Longrightarrow> inv s'"
begin

lemma inv_reaches: "reaches init step s \<Longrightarrow> inv s"
  by (induction rule: reaches.induct) (blast intro: inv_init inv_step)+

lemma inv_steps: "step\<^sup>*\<^sup>* s s' \<Longrightarrow> inv s \<Longrightarrow> inv s'"
  by (induction rule: rtranclp_induct) (blast intro: inv_step)+

end

text \<open>
  A detailed system that simulates an abstract one: each of its steps is a sequence of abstract
  steps on the abstraction. Invariants of the abstract system then hold of the abstraction.
\<close>

locale simulation = invariant_system +
  fixes cinit :: "'c \<Rightarrow> bool" and cstep :: "'c \<Rightarrow> 'c \<Rightarrow> bool" and cinv :: "'c \<Rightarrow> bool"
    and abs :: "'c \<Rightarrow> 's"
  assumes cinit_inv: "cinit c \<Longrightarrow> cinv c"
    and cinit_abs: "cinit c \<Longrightarrow> init (abs c)"
    and cstep_inv: "cinv c \<Longrightarrow> cstep c c' \<Longrightarrow> cinv c'"
    and cstep_abs: "cinv c \<Longrightarrow> cstep c c' \<Longrightarrow> step\<^sup>*\<^sup>* (abs c) (abs c')"
begin

lemma concrete_inv: "reaches cinit cstep c \<Longrightarrow> cinv c"
  by (induction rule: reaches.induct) (blast intro: cinit_inv cstep_inv)+

lemma simulated: "reaches cinit cstep c \<Longrightarrow> reaches init step (abs c)"
proof (induction rule: reaches.induct)
  case (reaches_init c)
  then show ?case by (intro reaches.reaches_init cinit_abs)
next
  case (reaches_step c c')
  have "step\<^sup>*\<^sup>* (abs c) (abs c')"
    using concrete_inv [OF reaches_step.hyps(1)] reaches_step.hyps(2) by (rule cstep_abs)
  then show ?case using reaches_step.IH by (rule reaches_steps)
qed

lemma abs_inv: "reaches cinit cstep c \<Longrightarrow> inv (abs c)"
  using simulated by (rule inv_reaches)

end

section \<open>Counting semaphores\<close>

text \<open>
  The program never looks inside a \<open>tokio::sync::Semaphore\<close>: it owns permits, and the
  semaphore says whether another one may be issued. A model state holds the number of permits
  issued and not yet dropped; \<open>sem_admits capacity held\<close> is the answer of \<open>try_acquire\<close> and
  \<open>sem_available capacity held\<close> that of \<open>available_permits\<close>. Both are arguments of the
  definitions that use them, and the documented behaviour is the locale \<open>semaphore_spec\<close>.
\<close>

record semaphore_api =
  sem_admits :: "nat \<Rightarrow> nat \<Rightarrow> bool"
  sem_available :: "nat \<Rightarrow> nat \<Rightarrow> nat"

locale semaphore_spec =
  fixes sem :: semaphore_api
  assumes sem_admits_iff: "sem_admits sem capacity held \<longleftrightarrow> held < capacity"
    and sem_available_eq: "held \<le> capacity \<Longrightarrow> sem_available sem capacity held = capacity - held"
begin

lemma acquire_bounded: "held \<le> capacity \<Longrightarrow> sem_admits sem capacity held \<Longrightarrow> Suc held \<le> capacity"
  by (simp add: sem_admits_iff)

lemma in_use_eq:
  "held \<le> capacity \<Longrightarrow> capacity < 2 ^ 64 \<Longrightarrow> wrap_sub capacity (sem_available sem capacity held) = held"
  by (simp add: sem_available_eq wrap_sub_def)

end

definition counting_semaphore :: semaphore_api where
  "counting_semaphore = \<lparr>sem_admits = (\<lambda>capacity held. held < capacity),
     sem_available = (\<lambda>capacity held. capacity - held)\<rparr>"

interpretation counting: semaphore_spec counting_semaphore
  by unfold_locales (simp_all add: counting_semaphore_def)

section \<open>Lists and strings\<close>

lemma distinct_filter_eq: "distinct xs \<Longrightarrow> filter (\<lambda>x. x = d) xs = (if d \<in> set xs then [d] else [])"
  by (induction xs) auto

text \<open>\<open>str::strip_prefix\<close>.\<close>

fun strip_prefix :: "'a list \<Rightarrow> 'a list \<Rightarrow> 'a list option" where
  "strip_prefix [] s = Some s"
| "strip_prefix (p # ps) [] = None"
| "strip_prefix (p # ps) (c # s) = (if p = c then strip_prefix ps s else None)"

lemma strip_prefix_Some_iff: "strip_prefix p s = Some r \<longleftrightarrow> s = p @ r"
  by (induction p s rule: strip_prefix.induct) auto

lemma strip_prefix_append [simp]: "strip_prefix p (p @ r) = Some r"
  by (simp add: strip_prefix_Some_iff)

text \<open>\<open>str::split_once\<close>: the parts around the first occurrence of a character.\<close>

fun split_once :: "'a \<Rightarrow> 'a list \<Rightarrow> ('a list \<times> 'a list) option" where
  "split_once c [] = None"
| "split_once c (x # xs) =
     (if x = c then Some ([], xs)
      else map_option (\<lambda>(a, b). (x # a, b)) (split_once c xs))"

lemma split_once_Some_iff:
  "split_once c s = Some (a, b) \<longleftrightarrow> s = a @ c # b \<and> c \<notin> set a"
proof (induction s arbitrary: a)
  case Nil
  show ?case by simp
next
  case (Cons x s)
  show ?case
  proof (cases a)
    case Nil
    then show ?thesis by (auto split: option.splits)
  next
    case (Cons y a')
    with Cons.IH [of a'] show ?thesis by (auto split: option.splits)
  qed
qed

lemma split_once_None_iff: "split_once c s = None \<longleftrightarrow> c \<notin> set s"
  by (induction s) auto

text \<open>Decimal rendering, as \<open>format!\<close> prints an unsigned integer.\<close>

fun show_nat :: "nat \<Rightarrow> string" where
  "show_nat n =
     (if n < 10 then [char_of (48 + n)] else show_nat (n div 10) @ [char_of (48 + n mod 10)])"

declare show_nat.simps [simp del]

end
