(* ===== verification/DispatchMetrics.thy ===== *)
theory DispatchMetrics
  imports Prelude
begin

text \<open>
  \<open>src/components/execution-host/src/dispatch_metrics.rs\<close>: the host-wide accounting of dispatch
  work. The state keeps the counts under the mutex and what the prometheus package was told:
  gauges hold the last value set, counters the number of increments per label, histograms the
  number of observations. The guards \<open>QueuedWork\<close>, \<open>TaskRecord\<close> and \<open>Execution\<close> are values; their
  \<open>drop\<close> is an operation the owner performs exactly once.
\<close>

section \<open>Definitions\<close>

definition WORK_STATES :: "string list" where
  "WORK_STATES = [''queued'', ''tracked'', ''completed_uncollected'', ''running'', ''terminating'']"

definition CAPACITIES :: "string list" where
  "CAPACITIES = [''queued'', ''execution'', ''tracked'']"

definition QUEUE_OUTCOMES :: "string list" where
  "QUEUE_OUTCOMES = [''admitted'', ''expired'', ''unknown_route'', ''module_unavailable'', ''error'',
     ''shutdown'', ''other'']"

record work_counts =
  wc_queued :: nat
  wc_tracked :: nat
  wc_completed_uncollected :: nat
  wc_running :: nat
  wc_terminating :: nat
  wc_limits :: "nat list option"
  wc_high_water :: "nat list"
  wc_stopped_at :: "nat option"
  wc_drain_finished :: bool

record dispatch_metrics =
  counts :: work_counts
  work_gauge :: "string \<Rightarrow> int"
  limit_gauge :: "string \<Rightarrow> int"
  high_water_gauge :: "string \<Rightarrow> int"
  capacity_breaches :: "string \<Rightarrow> nat"
  accounting_errors :: "string \<Rightarrow> nat"
  admissions_after_stop :: nat
  finished_total :: "string \<Rightarrow> nat"
  reaped_total :: "string \<Rightarrow> nat"
  queue_exits :: "string \<Rightarrow> nat"
  queue_wait_count :: nat
  execution_duration_count :: nat
  cancellation_to_exit_count :: nat
  drain_duration_count :: nat
  draining_gauge :: int

definition inc_label :: "string \<Rightarrow> (string \<Rightarrow> nat) \<Rightarrow> string \<Rightarrow> nat" where
  "inc_label l c = c(l := Suc (c l))"

text \<open>\<open>as_gauge\<close>: a count as a signed 64-bit gauge value, saturating.\<close>

definition as_gauge :: "nat \<Rightarrow> int" where
  "as_gauge n = (if n < 2 ^ 63 then int n else 2 ^ 63 - 1)"

definition dispatch_new :: dispatch_metrics where
  "dispatch_new =
     \<lparr>counts = \<lparr>wc_queued = 0, wc_tracked = 0, wc_completed_uncollected = 0, wc_running = 0,
        wc_terminating = 0, wc_limits = None, wc_high_water = [0, 0, 0], wc_stopped_at = None,
        wc_drain_finished = False\<rparr>,
      work_gauge = (\<lambda>_. 0), limit_gauge = (\<lambda>_. 0), high_water_gauge = (\<lambda>_. 0),
      capacity_breaches = (\<lambda>_. 0), accounting_errors = (\<lambda>_. 0), admissions_after_stop = 0,
      finished_total = (\<lambda>_. 0), reaped_total = (\<lambda>_. 0), queue_exits = (\<lambda>_. 0),
      queue_wait_count = 0, execution_duration_count = 0, cancellation_to_exit_count = 0,
      drain_duration_count = 0, draining_gauge = 0\<rparr>"

text \<open>Occupancy of a capacity: the \<open>match\<close> on the index in \<open>configure\<close> and \<open>record_capacity\<close>.\<close>

definition wc_occupancy :: "work_counts \<Rightarrow> nat \<Rightarrow> nat" where
  "wc_occupancy c kind =
     (if kind = 0 then wc_queued c
      else if kind = 1 then wc_running c + wc_terminating c
      else wc_tracked c)"

definition configure :: "nat \<Rightarrow> nat \<Rightarrow> nat \<Rightarrow> dispatch_metrics \<Rightarrow> dispatch_metrics" where
  "configure queue_limit execution_limit task_limit m =
     (let ls = [queue_limit, execution_limit, task_limit];
          m = m\<lparr>counts := (counts m)\<lparr>wc_limits := Some ls\<rparr>\<rparr>
      in fold (\<lambda>(i, kind, limit) m.
            let m = m\<lparr>limit_gauge := (limit_gauge m)(kind := as_gauge limit)\<rparr> in
            if wc_occupancy (counts m) i > limit
            then m\<lparr>capacity_breaches := inc_label kind (capacity_breaches m)\<rparr> else m)
           (zip [0 ..< 3] (zip CAPACITIES ls)) m)"

definition publish_counts :: "dispatch_metrics \<Rightarrow> dispatch_metrics" where
  "publish_counts m =
     (let c = counts m;
          values = [wc_queued c, wc_tracked c, wc_completed_uncollected c, wc_running c, wc_terminating c]
      in m\<lparr>work_gauge := fold (\<lambda>(state, v) g. g(state := as_gauge v)) (zip WORK_STATES values) (work_gauge m)\<rparr>)"

definition record_capacity :: "nat \<Rightarrow> dispatch_metrics \<Rightarrow> dispatch_metrics" where
  "record_capacity kind m =
     (let v = wc_occupancy (counts m) kind;
          m = (if v > wc_high_water (counts m) ! kind
               then m\<lparr>counts := (counts m)\<lparr>wc_high_water := (wc_high_water (counts m))[kind := v]\<rparr>,
                      high_water_gauge := (high_water_gauge m)(CAPACITIES ! kind := as_gauge v)\<rparr>
               else m)
      in if (case wc_limits (counts m) of None \<Rightarrow> False | Some ls \<Rightarrow> v > ls ! kind)
         then m\<lparr>capacity_breaches := inc_label (CAPACITIES ! kind) (capacity_breaches m)\<rparr>
         else m)"

text \<open>
  \<open>decrement\<close>: the count to lower is given by its reader and its writer; lowering a zero count
  leaves it and reports an accounting error for the state.
\<close>

definition decrement ::
  "(work_counts \<Rightarrow> nat) \<Rightarrow> ((nat \<Rightarrow> nat) \<Rightarrow> work_counts \<Rightarrow> work_counts) \<Rightarrow> string
     \<Rightarrow> dispatch_metrics \<Rightarrow> dispatch_metrics" where
  "decrement get upd state m =
     (case checked_sub (get (counts m)) 1 of
        Some v \<Rightarrow> m\<lparr>counts := upd (\<lambda>_. v) (counts m)\<rparr>
      | None \<Rightarrow> m\<lparr>accounting_errors := inc_label state (accounting_errors m)\<rparr>)"

subsection \<open>Guards\<close>

record queued_work = queued_outcome :: string
record task_record = task_outcome :: string
record execution = terminating_at :: "nat option"

definition metrics_queued :: "dispatch_metrics \<Rightarrow> queued_work \<times> dispatch_metrics" where
  "metrics_queued m =
     (let m = m\<lparr>counts := (counts m)\<lparr>wc_queued := Suc (wc_queued (counts m))\<rparr>\<rparr>
      in (\<lparr>queued_outcome = ''shutdown''\<rparr>, record_capacity 0 (publish_counts m)))"

definition task_started :: "dispatch_metrics \<Rightarrow> task_record \<times> dispatch_metrics" where
  "task_started m =
     (let m = m\<lparr>counts := (counts m)\<lparr>wc_tracked := Suc (wc_tracked (counts m))\<rparr>\<rparr>;
          m = (if wc_stopped_at (counts m) \<noteq> None
               then m\<lparr>admissions_after_stop := Suc (admissions_after_stop m)\<rparr> else m)
      in (\<lparr>task_outcome = ''cancelled''\<rparr>, record_capacity 2 (publish_counts m)))"

definition reaped_outcome :: "string \<Rightarrow> string" where
  "reaped_outcome outcome = (if outcome \<in> {''ok'', ''panic'', ''cancelled''} then outcome else ''other'')"

definition task_reaped :: "string \<Rightarrow> dispatch_metrics \<Rightarrow> dispatch_metrics" where
  "task_reaped outcome m =
     (let m = decrement wc_tracked wc_tracked_update ''tracked'' m;
          m = decrement wc_completed_uncollected wc_completed_uncollected_update ''completed_uncollected'' m;
          m = publish_counts m
      in m\<lparr>reaped_total := inc_label (reaped_outcome outcome) (reaped_total m)\<rparr>)"

definition execution_started :: "dispatch_metrics \<Rightarrow> execution \<times> dispatch_metrics" where
  "execution_started m =
     (let m = m\<lparr>counts := (counts m)\<lparr>wc_running := Suc (wc_running (counts m))\<rparr>\<rparr>
      in (\<lparr>terminating_at = None\<rparr>, record_capacity 1 (publish_counts m)))"

definition dispatch_stopped :: "nat \<Rightarrow> dispatch_metrics \<Rightarrow> dispatch_metrics" where
  "dispatch_stopped now m =
     (if wc_stopped_at (counts m) = None
      then m\<lparr>counts := (counts m)\<lparr>wc_stopped_at := Some now\<rparr>, draining_gauge := 1\<rparr> else m)"

definition drain_finished :: "dispatch_metrics \<Rightarrow> dispatch_metrics" where
  "drain_finished m =
     (if wc_stopped_at (counts m) \<noteq> None \<and> \<not> wc_drain_finished (counts m)
      then m\<lparr>counts := (counts m)\<lparr>wc_drain_finished := True\<rparr>,
             drain_duration_count := Suc (drain_duration_count m), draining_gauge := 0\<rparr>
      else m)"

definition queued_set_outcome :: "string \<Rightarrow> queued_work \<Rightarrow> queued_work" where
  "queued_set_outcome outcome q =
     q\<lparr>queued_outcome := (if outcome \<in> set QUEUE_OUTCOMES then outcome else ''other'')\<rparr>"

definition queued_drop :: "queued_work \<Rightarrow> dispatch_metrics \<Rightarrow> dispatch_metrics" where
  "queued_drop q m =
     (let m = publish_counts (decrement wc_queued wc_queued_update ''queued'' m)
      in m\<lparr>queue_wait_count := Suc (queue_wait_count m),
           queue_exits := inc_label (queued_outcome q) (queue_exits m)\<rparr>)"

definition bounded_outcome :: "string \<Rightarrow> string" where
  "bounded_outcome outcome =
     (if outcome \<in> {''ok'', ''success''} then ''success''
      else if outcome \<in> {''timeout'', ''error'', ''panic'', ''cancelled'', ''rejected''} then outcome
      else ''other'')"

definition task_set_outcome :: "string \<Rightarrow> task_record \<Rightarrow> task_record" where
  "task_set_outcome outcome t = t\<lparr>task_outcome := bounded_outcome outcome\<rparr>"

definition task_drop :: "bool \<Rightarrow> task_record \<Rightarrow> dispatch_metrics \<Rightarrow> dispatch_metrics" where
  "task_drop panicking t m =
     (let m = publish_counts
            (m\<lparr>counts := (counts m)\<lparr>wc_completed_uncollected := Suc (wc_completed_uncollected (counts m))\<rparr>\<rparr>)
      in m\<lparr>finished_total := inc_label (if panicking then ''panic'' else task_outcome t) (finished_total m)\<rparr>)"

definition execution_terminating :: "nat \<Rightarrow> execution \<Rightarrow> dispatch_metrics \<Rightarrow> execution \<times> dispatch_metrics" where
  "execution_terminating now e m =
     (if terminating_at e = None
      then
        (let m = decrement wc_running wc_running_update ''running'' m;
             m = m\<lparr>counts := (counts m)\<lparr>wc_terminating := Suc (wc_terminating (counts m))\<rparr>\<rparr>
         in (e\<lparr>terminating_at := Some now\<rparr>, publish_counts m))
      else (e, m))"

definition execution_drop :: "execution \<Rightarrow> dispatch_metrics \<Rightarrow> dispatch_metrics" where
  "execution_drop e m =
     (let m = (if terminating_at e \<noteq> None
               then (decrement wc_terminating wc_terminating_update ''terminating'' m)
                      \<lparr>cancellation_to_exit_count := Suc (cancellation_to_exit_count m)\<rparr>
               else decrement wc_running wc_running_update ''running'' m);
          m = publish_counts m
      in m\<lparr>execution_duration_count := Suc (execution_duration_count m)\<rparr>)"

section \<open>What each operation does to the counts\<close>

named_theorems dispatch_simps \<open>effect of the dispatch accounting operations\<close>

lemma publish_counts_frame [simp]:
  "counts (publish_counts m) = counts m"
  "accounting_errors (publish_counts m) = accounting_errors m"
  "capacity_breaches (publish_counts m) = capacity_breaches m"
  "admissions_after_stop (publish_counts m) = admissions_after_stop m"
  "high_water_gauge (publish_counts m) = high_water_gauge m"
  by (simp_all add: publish_counts_def Let_def)

lemma record_capacity_frame [simp]:
  "wc_queued (counts (record_capacity k m)) = wc_queued (counts m)"
  "wc_tracked (counts (record_capacity k m)) = wc_tracked (counts m)"
  "wc_completed_uncollected (counts (record_capacity k m)) = wc_completed_uncollected (counts m)"
  "wc_running (counts (record_capacity k m)) = wc_running (counts m)"
  "wc_terminating (counts (record_capacity k m)) = wc_terminating (counts m)"
  "wc_stopped_at (counts (record_capacity k m)) = wc_stopped_at (counts m)"
  "wc_limits (counts (record_capacity k m)) = wc_limits (counts m)"
  "accounting_errors (record_capacity k m) = accounting_errors m"
  "admissions_after_stop (record_capacity k m) = admissions_after_stop m"
  "work_gauge (record_capacity k m) = work_gauge m"
  by (simp_all add: record_capacity_def Let_def)

text \<open>The five counts as one value, and a metrics state without accounting errors.\<close>

definition wc_vec :: "dispatch_metrics \<Rightarrow> nat \<times> nat \<times> nat \<times> nat \<times> nat" where
  "wc_vec m =
     (wc_queued (counts m), wc_tracked (counts m), wc_completed_uncollected (counts m),
      wc_running (counts m), wc_terminating (counts m))"

definition no_errors :: "dispatch_metrics \<Rightarrow> bool" where
  "no_errors m \<longleftrightarrow> accounting_errors m = (\<lambda>_. 0)"

lemma dispatch_vec [dispatch_simps]:
  "wc_vec m = (q, t, c, r, z) \<Longrightarrow> wc_vec (snd (metrics_queued m)) = (Suc q, t, c, r, z)"
  "wc_vec m = (q, t, c, r, z) \<Longrightarrow> wc_vec (snd (task_started m)) = (q, Suc t, c, r, z)"
  "wc_vec m = (q, t, c, r, z) \<Longrightarrow> wc_vec (snd (execution_started m)) = (q, t, c, Suc r, z)"
  "wc_vec m = (q, t, c, r, z) \<Longrightarrow> wc_vec (task_drop p g m) = (q, t, Suc c, r, z)"
  "wc_vec m = (Suc q, t, c, r, z) \<Longrightarrow> wc_vec (queued_drop w m) = (q, t, c, r, z)"
  "wc_vec m = (q, Suc t, Suc c, r, z) \<Longrightarrow> wc_vec (task_reaped u m) = (q, t, c, r, z)"
  "wc_vec m = (q, t, c, Suc r, z) \<Longrightarrow> terminating_at e = None \<Longrightarrow>
     wc_vec (snd (execution_terminating now e m)) = (q, t, c, r, Suc z)"
  "wc_vec m = (q, t, c, Suc r, z) \<Longrightarrow> terminating_at e = None \<Longrightarrow>
     wc_vec (execution_drop e m) = (q, t, c, r, z)"
  "wc_vec m = (q, t, c, r, Suc z) \<Longrightarrow> terminating_at e \<noteq> None \<Longrightarrow>
     wc_vec (execution_drop e m) = (q, t, c, r, z)"
  "wc_vec (dispatch_stopped now m) = wc_vec m"
  "wc_vec (drain_finished m) = wc_vec m"
  by (auto simp: wc_vec_def metrics_queued_def task_started_def execution_started_def task_drop_def
      queued_drop_def task_reaped_def execution_terminating_def execution_drop_def decrement_def
      checked_sub_def dispatch_stopped_def drain_finished_def Let_def)

lemma dispatch_no_errors [dispatch_simps]:
  "no_errors m \<Longrightarrow> no_errors (snd (metrics_queued m))"
  "no_errors m \<Longrightarrow> no_errors (snd (task_started m))"
  "no_errors m \<Longrightarrow> no_errors (snd (execution_started m))"
  "no_errors m \<Longrightarrow> no_errors (task_drop p g m)"
  "no_errors m \<Longrightarrow> wc_vec m = (Suc q, t, c, r, z) \<Longrightarrow> no_errors (queued_drop w m)"
  "no_errors m \<Longrightarrow> wc_vec m = (q, Suc t, Suc c, r, z) \<Longrightarrow> no_errors (task_reaped u m)"
  "no_errors m \<Longrightarrow> wc_vec m = (q, t, c, Suc r, z) \<Longrightarrow> no_errors (snd (execution_terminating now e m))"
  "no_errors m \<Longrightarrow> wc_vec m = (q, t, c, Suc r, z) \<Longrightarrow> terminating_at e = None \<Longrightarrow> no_errors (execution_drop e m)"
  "no_errors m \<Longrightarrow> wc_vec m = (q, t, c, r, Suc z) \<Longrightarrow> terminating_at e \<noteq> None \<Longrightarrow> no_errors (execution_drop e m)"
  "no_errors m \<Longrightarrow> no_errors (dispatch_stopped now m)"
  "no_errors m \<Longrightarrow> no_errors (drain_finished m)"
  by (auto simp: no_errors_def wc_vec_def metrics_queued_def task_started_def execution_started_def
      task_drop_def queued_drop_def task_reaped_def execution_terminating_def execution_drop_def
      decrement_def checked_sub_def dispatch_stopped_def drain_finished_def Let_def)

text \<open>Only the stop sets the stop time, and only a task started after it counts as late.\<close>

lemma dispatch_stop_frame [simp]:
  "wc_stopped_at (counts (snd (metrics_queued m))) = wc_stopped_at (counts m)"
  "wc_stopped_at (counts (snd (task_started m))) = wc_stopped_at (counts m)"
  "wc_stopped_at (counts (snd (execution_started m))) = wc_stopped_at (counts m)"
  "wc_stopped_at (counts (task_drop p g m)) = wc_stopped_at (counts m)"
  "wc_stopped_at (counts (queued_drop w m)) = wc_stopped_at (counts m)"
  "wc_stopped_at (counts (task_reaped u m)) = wc_stopped_at (counts m)"
  "wc_stopped_at (counts (snd (execution_terminating now e m))) = wc_stopped_at (counts m)"
  "wc_stopped_at (counts (execution_drop e m)) = wc_stopped_at (counts m)"
  "wc_stopped_at (counts (drain_finished m)) = wc_stopped_at (counts m)"
  "wc_stopped_at (counts (dispatch_stopped now m)) \<noteq> None"
  by (simp_all add: metrics_queued_def task_started_def execution_started_def task_drop_def
      queued_drop_def task_reaped_def execution_terminating_def execution_drop_def decrement_def
      drain_finished_def dispatch_stopped_def Let_def split: option.split)

lemma dispatch_admissions [simp]:
  "admissions_after_stop (snd (metrics_queued m)) = admissions_after_stop m"
  "wc_stopped_at (counts m) = None \<Longrightarrow> admissions_after_stop (snd (task_started m)) = admissions_after_stop m"
  "admissions_after_stop (snd (execution_started m)) = admissions_after_stop m"
  "admissions_after_stop (task_drop p g m) = admissions_after_stop m"
  "admissions_after_stop (queued_drop w m) = admissions_after_stop m"
  "admissions_after_stop (task_reaped u m) = admissions_after_stop m"
  "admissions_after_stop (snd (execution_terminating now e m)) = admissions_after_stop m"
  "admissions_after_stop (execution_drop e m) = admissions_after_stop m"
  "admissions_after_stop (drain_finished m) = admissions_after_stop m"
  "admissions_after_stop (dispatch_stopped now m) = admissions_after_stop m"
  by (simp_all add: metrics_queued_def task_started_def execution_started_def task_drop_def
      queued_drop_def task_reaped_def execution_terminating_def execution_drop_def decrement_def
      drain_finished_def dispatch_stopped_def Let_def split: option.split)

section \<open>The ledger of owners\<close>

text \<open>
  The guards the rest of the host owns, as counts: queued messages, tracked tasks whose record is
  alive, records dropped but not yet collected, running and terminating executions. A step of the
  ledger is one accounting operation by an owner that has the guard it uses; \<open>configure\<close> is called
  once, by the constructor of the supervisor.
\<close>

record ledger =
  lg :: dispatch_metrics
  o_queued :: nat
  o_tasks :: nat
  o_completed :: nat
  o_running :: nat
  o_terminating :: nat

definition ledger_init :: "ledger \<Rightarrow> bool" where
  "ledger_init l \<longleftrightarrow> l = \<lparr>lg = dispatch_new, o_queued = 0, o_tasks = 0, o_completed = 0, o_running = 0,
     o_terminating = 0\<rparr>"

inductive ledger_step :: "ledger \<Rightarrow> ledger \<Rightarrow> bool" where
  lg_configure: "wc_limits (counts (lg l)) = None \<Longrightarrow>
    ledger_step l (l\<lparr>lg := configure a b c (lg l)\<rparr>)"
| lg_queued: "ledger_step l (l\<lparr>lg := snd (metrics_queued (lg l)), o_queued := Suc (o_queued l)\<rparr>)"
| lg_dequeued: "o_queued l = Suc n \<Longrightarrow> ledger_step l (l\<lparr>lg := queued_drop q (lg l), o_queued := n\<rparr>)"
| lg_task: "ledger_step l (l\<lparr>lg := snd (task_started (lg l)), o_tasks := Suc (o_tasks l)\<rparr>)"
| lg_task_drop: "o_tasks l = Suc n \<Longrightarrow>
    ledger_step l (l\<lparr>lg := task_drop p t (lg l), o_tasks := n, o_completed := Suc (o_completed l)\<rparr>)"
| lg_reaped: "o_completed l = Suc n \<Longrightarrow> ledger_step l (l\<lparr>lg := task_reaped u (lg l), o_completed := n\<rparr>)"
| lg_execution: "ledger_step l (l\<lparr>lg := snd (execution_started (lg l)), o_running := Suc (o_running l)\<rparr>)"
| lg_terminating: "o_running l = Suc n \<Longrightarrow> terminating_at e = None \<Longrightarrow>
    ledger_step l (l\<lparr>lg := snd (execution_terminating now e (lg l)), o_running := n,
      o_terminating := Suc (o_terminating l)\<rparr>)"
| lg_execution_exit: "o_running l = Suc n \<Longrightarrow> terminating_at e = None \<Longrightarrow>
    ledger_step l (l\<lparr>lg := execution_drop e (lg l), o_running := n\<rparr>)"
| lg_terminating_exit: "o_terminating l = Suc n \<Longrightarrow> terminating_at e \<noteq> None \<Longrightarrow>
    ledger_step l (l\<lparr>lg := execution_drop e (lg l), o_terminating := n\<rparr>)"
| lg_stopped: "ledger_step l (l\<lparr>lg := dispatch_stopped now (lg l)\<rparr>)"
| lg_drained: "ledger_step l (l\<lparr>lg := drain_finished (lg l)\<rparr>)"

subsection \<open>Invariant\<close>

definition wc_published :: "dispatch_metrics \<Rightarrow> bool" where
  "wc_published m \<longleftrightarrow> map (work_gauge m) WORK_STATES =
     map as_gauge [wc_queued (counts m), wc_tracked (counts m), wc_completed_uncollected (counts m),
       wc_running (counts m), wc_terminating (counts m)]"

text \<open>
  High-water marks cover the occupancy and are published; a breach is counted exactly where the
  occupancy is above the limit now, or was so earlier.
\<close>

definition wm_base :: "dispatch_metrics \<Rightarrow> nat \<Rightarrow> bool" where
  "wm_base m k \<longleftrightarrow>
     length (wc_high_water (counts m)) = 3 \<and>
     high_water_gauge m (CAPACITIES ! k) = as_gauge (wc_high_water (counts m) ! k) \<and>
     (0 < capacity_breaches m (CAPACITIES ! k) \<longrightarrow>
        (\<exists>ls. wc_limits (counts m) = Some ls \<and> ls ! k < wc_high_water (counts m) ! k))"

definition wm_cover :: "dispatch_metrics \<Rightarrow> nat \<Rightarrow> bool" where
  "wm_cover m k \<longleftrightarrow>
     wc_occupancy (counts m) k \<le> wc_high_water (counts m) ! k \<and>
     (\<forall>ls. wc_limits (counts m) = Some ls \<longrightarrow> ls ! k < wc_occupancy (counts m) k \<longrightarrow>
        0 < capacity_breaches m (CAPACITIES ! k))"

definition watermark_ok :: "dispatch_metrics \<Rightarrow> nat \<Rightarrow> bool" where
  "watermark_ok m k \<longleftrightarrow> wm_base m k \<and> wm_cover m k"

definition ledger_inv :: "ledger \<Rightarrow> bool" where
  "ledger_inv l \<longleftrightarrow>
     wc_vec (lg l) = (o_queued l, o_tasks l + o_completed l, o_completed l, o_running l, o_terminating l) \<and>
     no_errors (lg l) \<and> wc_published (lg l) \<and> (\<forall>k<3. watermark_ok (lg l) k)"

lemma publish_counts_published: "wc_published (publish_counts m)"
  by (simp add: wc_published_def publish_counts_def WORK_STATES_def Let_def)

lemma wc_published_cong:
  "work_gauge m' = work_gauge m \<Longrightarrow> wc_vec m' = wc_vec m \<Longrightarrow> wc_published m' = wc_published m"
  by (simp add: wc_published_def wc_vec_def)

lemma record_capacity_vec [simp]: "wc_vec (record_capacity k m) = wc_vec m"
  by (simp add: wc_vec_def)

lemma record_capacity_published [simp]: "wc_published (record_capacity k m) = wc_published m"
  by (rule wc_published_cong) simp_all

lemma capacities_distinct: "j < 3 \<Longrightarrow> k < 3 \<Longrightarrow> CAPACITIES ! j = CAPACITIES ! k \<longleftrightarrow> j = k"
  by (auto simp: CAPACITIES_def less_Suc_eq numeral_3_eq_3)

text \<open>What an operation that does not raise an occupancy keeps.\<close>

definition wm_frame :: "dispatch_metrics \<Rightarrow> dispatch_metrics \<Rightarrow> bool" where
  "wm_frame m m' \<longleftrightarrow>
     wc_high_water (counts m') = wc_high_water (counts m) \<and> wc_limits (counts m') = wc_limits (counts m) \<and>
     high_water_gauge m' = high_water_gauge m \<and> capacity_breaches m' = capacity_breaches m"

lemma wm_base_frame: "wm_frame m m' \<Longrightarrow> wm_base m' k = wm_base m k"
  by (simp add: wm_frame_def wm_base_def)

lemma wm_cover_frame:
  "wm_frame m m' \<Longrightarrow> wc_occupancy (counts m') k \<le> wc_occupancy (counts m) k \<Longrightarrow> wm_cover m k \<Longrightarrow> wm_cover m' k"
  by (auto simp: wm_frame_def wm_cover_def)

lemma record_capacity_base:
  "j < 3 \<Longrightarrow> k < 3 \<Longrightarrow> wm_base m j \<Longrightarrow> wm_base (record_capacity k m) j"
  by (auto simp: wm_base_def record_capacity_def Let_def inc_label_def nth_list_update capacities_distinct
      split: option.splits if_splits)

lemma record_capacity_occupancy [simp]: "wc_occupancy (counts (record_capacity k m)) j = wc_occupancy (counts m) j"
  by (simp add: wc_occupancy_def)

lemma record_capacity_cover:
  assumes "j < 3" "k < 3" "wm_base m k" "j \<noteq> k \<Longrightarrow> wm_cover m j"
  shows "wm_cover (record_capacity k m) j"
  using assms
  by (cases "j = k")
    (auto simp: wm_cover_def wm_base_def record_capacity_def Let_def inc_label_def wc_occupancy_def
      capacities_distinct split: option.splits if_splits)

lemma watermark_raise:
  assumes "\<And>i. i < 3 \<Longrightarrow> watermark_ok m i" "wm_frame m m'" "k < 3" "j < 3"
    and "j \<noteq> k \<Longrightarrow> wc_occupancy (counts m') j \<le> wc_occupancy (counts m) j"
  shows "watermark_ok (record_capacity k m') j"
  using assms wm_base_frame [OF assms(2)] wm_cover_frame [OF assms(2)]
  by (simp add: watermark_ok_def record_capacity_base record_capacity_cover)

lemma watermark_keep:
  assumes "watermark_ok m j" "wm_frame m m'" "wc_occupancy (counts m') j \<le> wc_occupancy (counts m) j"
  shows "watermark_ok m' j"
  using assms wm_base_frame [OF assms(2)] wm_cover_frame [OF assms(2)] by (simp add: watermark_ok_def)

lemma dispatch_published [dispatch_simps]:
  "wc_published (snd (metrics_queued m))"
  "wc_published (snd (task_started m))"
  "wc_published (snd (execution_started m))"
  "wc_published (task_drop p g m)"
  "wc_published (queued_drop w m)"
  "wc_published (task_reaped u m)"
  "wc_published m \<Longrightarrow> wc_published (snd (execution_terminating now e m))"
  "wc_published (execution_drop e m)"
  "wc_published m \<Longrightarrow> wc_published (dispatch_stopped now m)"
  "wc_published m \<Longrightarrow> wc_published (drain_finished m)"
  by (simp_all add: metrics_queued_def task_started_def execution_started_def task_drop_def
      queued_drop_def task_reaped_def execution_terminating_def execution_drop_def
      dispatch_stopped_def drain_finished_def publish_counts_def wc_published_def WORK_STATES_def Let_def)

lemma decrement_wm_frame:
  "wm_frame m (decrement wc_queued wc_queued_update l m)"
  "wm_frame m (decrement wc_tracked wc_tracked_update l m)"
  "wm_frame m (decrement wc_completed_uncollected wc_completed_uncollected_update l m)"
  "wm_frame m (decrement wc_running wc_running_update l m)"
  "wm_frame m (decrement wc_terminating wc_terminating_update l m)"
  by (simp_all add: wm_frame_def decrement_def split: option.splits)

lemma wc_occupancy_vec:
  "wc_vec m = (q, t, c, r, z) \<Longrightarrow> wc_occupancy (counts m) k = (if k = 0 then q else if k = 1 then r + z else t)"
  by (auto simp: wc_vec_def wc_occupancy_def)

lemma dispatch_wm_frame [dispatch_simps]:
  "wm_frame m (task_drop p g m)"
  "wm_frame m (queued_drop w m)"
  "wm_frame m (task_reaped u m)"
  "wm_frame m (snd (execution_terminating now e m))"
  "wm_frame m (execution_drop e m)"
  "wm_frame m (dispatch_stopped now m)"
  "wm_frame m (drain_finished m)"
  by (auto simp: task_drop_def queued_drop_def task_reaped_def execution_terminating_def execution_drop_def
      dispatch_stopped_def drain_finished_def wm_frame_def decrement_def Let_def split: option.splits)

lemma dispatch_watermark:
  assumes ok: "\<And>i. i < 3 \<Longrightarrow> watermark_ok m i" and j: "j < 3"
  shows "watermark_ok (snd (metrics_queued m)) j"
    and "watermark_ok (snd (task_started m)) j"
    and "watermark_ok (snd (execution_started m)) j"
  unfolding metrics_queued_def task_started_def execution_started_def Let_def snd_conv
  by (rule watermark_raise [OF ok _ _ j]; insert j; auto simp: wm_frame_def wc_occupancy_def)+

lemma configure_counts:
  "counts (configure a b c m) = (counts m)\<lparr>wc_limits := Some [a, b, c]\<rparr>"
  "accounting_errors (configure a b c m) = accounting_errors m"
  "work_gauge (configure a b c m) = work_gauge m"
  "high_water_gauge (configure a b c m) = high_water_gauge m"
  by (simp_all add: configure_def Let_def CAPACITIES_def upt_rec)

lemma configure_admissions [simp]: "admissions_after_stop (configure a b c m) = admissions_after_stop m"
  by (simp add: configure_def Let_def CAPACITIES_def upt_rec)

lemma configure_frame:
  "wc_vec (configure a b c m) = wc_vec m" "no_errors (configure a b c m) = no_errors m"
  "wc_published (configure a b c m) = wc_published m"
  by (simp_all add: configure_counts wc_vec_def no_errors_def wc_published_def)

lemma configure_breaches:
  assumes "j < 3"
  shows "capacity_breaches (configure a b c m) (CAPACITIES ! j) = capacity_breaches m (CAPACITIES ! j) +
    (if wc_occupancy (counts m) j > [a, b, c] ! j then 1 else 0)"
proof -
  have "j = 0 \<or> j = 1 \<or> j = 2" using assms by auto
  then show ?thesis
    by (elim disjE) (simp_all add: configure_def Let_def CAPACITIES_def inc_label_def wc_occupancy_def upt_rec)
qed

lemma configure_watermark:
  assumes ok: "watermark_ok m j" and j: "j < 3" and none: "wc_limits (counts m) = None"
  shows "watermark_ok (configure a b c m) j"
proof -
  have "capacity_breaches m (CAPACITIES ! j) = 0 \<and> wc_occupancy (counts m) j \<le> wc_high_water (counts m) ! j"
    using ok none by (auto simp: watermark_ok_def wm_base_def wm_cover_def)
  then show ?thesis
    using ok none
    by (auto simp: watermark_ok_def wm_base_def wm_cover_def configure_breaches [OF j] configure_counts
        wc_occupancy_def split: if_splits)
qed

lemma ledger_init_inv: "ledger_init l \<Longrightarrow> ledger_inv l"
  by (simp add: ledger_init_def ledger_inv_def dispatch_new_def wc_vec_def no_errors_def wc_published_def
      WORK_STATES_def as_gauge_def watermark_ok_def wm_base_def wm_cover_def wc_occupancy_def less_Suc_eq
      numeral_3_eq_3)

lemma ledger_step_inv:
  assumes inv: "ledger_inv l" and step: "ledger_step l l'"
  shows "ledger_inv l'"
proof -
  have vec: "wc_vec (lg l) = (o_queued l, o_tasks l + o_completed l, o_completed l, o_running l, o_terminating l)"
    and ne: "no_errors (lg l)" and pub: "wc_published (lg l)" and wm: "\<And>k. k < 3 \<Longrightarrow> watermark_ok (lg l) k"
    using inv by (simp_all add: ledger_inv_def)
  note keep = watermark_keep [OF wm]
  show ?thesis
    using step vec ne pub
  proof cases
    case (lg_configure a b c)
    then show ?thesis
      using vec ne pub by (simp add: ledger_inv_def configure_frame configure_watermark [OF wm])
  qed (auto simp: ledger_inv_def dispatch_simps dispatch_watermark [OF wm] wc_occupancy_vec intro!: keep)
qed

interpretation ledger_system: invariant_system ledger_init ledger_step ledger_inv
  by unfold_locales (blast intro: ledger_init_inv ledger_step_inv)+

lemma ledger_balanced:
  assumes "ledger_inv l"
  shows "map (work_gauge (lg l)) WORK_STATES =
      map as_gauge [o_queued l, o_tasks l + o_completed l, o_completed l, o_running l, o_terminating l]"
    and "accounting_errors (lg l) = (\<lambda>_. 0)"
  using assms by (auto simp: ledger_inv_def wc_published_def wc_vec_def no_errors_def)

subsection \<open>Owners that keep to the limits\<close>

text \<open>
  The ledger of a host whose owners never exceed the configured limits and start no task after the
  stop: every step leads to a state within the limits and leaves the late admissions alone. Then
  no breach and no late admission is ever counted.
\<close>

definition within :: "nat \<Rightarrow> nat \<Rightarrow> nat \<Rightarrow> ledger \<Rightarrow> bool" where
  "within a b c l \<longleftrightarrow> o_queued l \<le> a \<and> o_running l + o_terminating l \<le> b \<and> o_tasks l + o_completed l \<le> c"

definition bounded_init :: "nat \<Rightarrow> nat \<Rightarrow> nat \<Rightarrow> ledger \<Rightarrow> bool" where
  "bounded_init a b c l \<longleftrightarrow> l = \<lparr>lg = configure a b c dispatch_new, o_queued = 0, o_tasks = 0, o_completed = 0,
     o_running = 0, o_terminating = 0\<rparr>"

definition bounded_step :: "nat \<Rightarrow> nat \<Rightarrow> nat \<Rightarrow> ledger \<Rightarrow> ledger \<Rightarrow> bool" where
  "bounded_step a b c l l' \<longleftrightarrow> ledger_step l l' \<and> within a b c l' \<and>
     admissions_after_stop (lg l') = admissions_after_stop (lg l)"

definition bounded_inv :: "nat \<Rightarrow> nat \<Rightarrow> nat \<Rightarrow> ledger \<Rightarrow> bool" where
  "bounded_inv a b c l \<longleftrightarrow> ledger_inv l \<and> within a b c l \<and> admissions_after_stop (lg l) = 0 \<and> wc_limits (counts (lg l)) = Some [a, b, c] \<and>
     (\<forall>k<3. wc_high_water (counts (lg l)) ! k \<le> [a, b, c] ! k)"

lemma record_capacity_high_water:
  "k < length (wc_high_water (counts m)) \<Longrightarrow>
     wc_high_water (counts (record_capacity j m)) ! k \<le> max (wc_high_water (counts m) ! k) (wc_occupancy (counts m) k)"
  by (cases "j = k") (auto simp: record_capacity_def Let_def)

lemma record_capacity_length [simp]:
  "length (wc_high_water (counts (record_capacity j m))) = length (wc_high_water (counts m))"
  by (simp add: record_capacity_def Let_def)

lemma wm_frame_hw:
  "wm_frame m m' \<Longrightarrow> wc_high_water (counts m') = wc_high_water (counts m)"
  "wm_frame m m' \<Longrightarrow> wc_limits (counts m') = wc_limits (counts m)"
  by (simp_all add: wm_frame_def)

lemma raising_high_water:
  assumes "k < length (wc_high_water (counts m))"
  shows "wc_high_water (counts (snd (metrics_queued m))) ! k \<le>
      max (wc_high_water (counts m) ! k) (wc_occupancy (counts (snd (metrics_queued m))) k)"
    and "wc_high_water (counts (snd (task_started m))) ! k \<le>
      max (wc_high_water (counts m) ! k) (wc_occupancy (counts (snd (task_started m))) k)"
    and "wc_high_water (counts (snd (execution_started m))) ! k \<le>
      max (wc_high_water (counts m) ! k) (wc_occupancy (counts (snd (execution_started m))) k)"
  unfolding metrics_queued_def task_started_def execution_started_def Let_def snd_conv record_capacity_occupancy
  by (rule order_trans [OF record_capacity_high_water]; insert assms; simp)+

lemma raising_limits:
  "wc_limits (counts (snd (metrics_queued m))) = wc_limits (counts m)"
  "wc_limits (counts (snd (task_started m))) = wc_limits (counts m)"
  "wc_limits (counts (snd (execution_started m))) = wc_limits (counts m)"
  by (simp_all add: metrics_queued_def task_started_def execution_started_def Let_def)

lemma ledger_step_high_water:
  assumes "ledger_step l l'" "wc_limits (counts (lg l)) = Some ls" "k < length (wc_high_water (counts (lg l)))"
  shows "wc_high_water (counts (lg l')) ! k \<le> max (wc_high_water (counts (lg l)) ! k) (wc_occupancy (counts (lg l')) k)
    \<and> wc_limits (counts (lg l')) = Some ls"
  using assms
  by cases (simp_all add: raising_high_water raising_limits wm_frame_hw [OF dispatch_wm_frame(1)]
      wm_frame_hw [OF dispatch_wm_frame(2)] wm_frame_hw [OF dispatch_wm_frame(3)] wm_frame_hw [OF dispatch_wm_frame(4)]
      wm_frame_hw [OF dispatch_wm_frame(5)] wm_frame_hw [OF dispatch_wm_frame(6)] wm_frame_hw [OF dispatch_wm_frame(7)])

lemma within_occupancy:
  assumes "ledger_inv l" "within a b c l" "k < 3"
  shows "wc_occupancy (counts (lg l)) k \<le> [a, b, c] ! k"
proof -
  have "k = 0 \<or> k = 1 \<or> k = 2" using assms(3) by auto
  then show ?thesis using assms by (auto simp: ledger_inv_def within_def wc_occupancy_vec)
qed

lemma bounded_init_inv: "bounded_init a b c l \<Longrightarrow> bounded_inv a b c l"
proof -
  assume l: "bounded_init a b c l"
  let ?l0 = "l\<lparr>lg := dispatch_new\<rparr>"
  have "ledger_step ?l0 (?l0\<lparr>lg := configure a b c (lg ?l0)\<rparr>)"
    by (rule ledger_step.lg_configure) (simp add: dispatch_new_def)
  moreover have "ledger_init ?l0" using l by (simp add: bounded_init_def ledger_init_def)
  ultimately have "ledger_inv l"
    using l ledger_step_inv ledger_init_inv by (fastforce simp: bounded_init_def)
  moreover have "[0, 0, 0] ! k \<le> [a, b, c] ! k" if "k < 3" for k
    using that by (auto simp: less_Suc_eq numeral_3_eq_3)
  ultimately show ?thesis
    using l by (auto simp: bounded_inv_def bounded_init_def within_def configure_counts dispatch_new_def)
qed

lemma bounded_step_inv:
  assumes inv: "bounded_inv a b c l" and step: "bounded_step a b c l l'"
  shows "bounded_inv a b c l'"
proof -
  have l': "ledger_inv l'"
    using inv step ledger_step_inv [of l l'] by (simp add: bounded_inv_def bounded_step_def)
  have len: "length (wc_high_water (counts (lg l))) = 3"
  proof -
    have "watermark_ok (lg l) 0" using inv by (simp add: bounded_inv_def ledger_inv_def)
    then show ?thesis by (simp add: watermark_ok_def wm_base_def)
  qed
  have hw: "wc_high_water (counts (lg l')) ! k \<le> max (wc_high_water (counts (lg l)) ! k) (wc_occupancy (counts (lg l')) k)
      \<and> wc_limits (counts (lg l')) = Some [a, b, c]" if "k < 3" for k
    using ledger_step_high_water [of l l' "[a, b, c]" k] that len inv step
    by (simp add: bounded_inv_def bounded_step_def)
  have "wc_high_water (counts (lg l')) ! k \<le> [a, b, c] ! k" if k: "k < 3" for k
    using hw [OF k] within_occupancy [OF l' _ k, of a b c] inv step k
    by (auto simp: bounded_inv_def bounded_step_def)
  then show ?thesis
    using l' inv step hw [of 0] by (simp add: bounded_inv_def bounded_step_def)
qed

interpretation bounded_ledger: invariant_system "bounded_init a b c" "bounded_step a b c" "bounded_inv a b c" for a b c
  by unfold_locales (blast intro: bounded_init_inv bounded_step_inv)+

lemma bounded_no_breach:
  assumes "bounded_inv a b c l" "k < 3"
  shows "capacity_breaches (lg l) (CAPACITIES ! k) = 0"
proof (rule ccontr)
  assume "capacity_breaches (lg l) (CAPACITIES ! k) \<noteq> 0"
  then have "[a, b, c] ! k < wc_high_water (counts (lg l)) ! k"
    using assms by (auto simp: bounded_inv_def ledger_inv_def watermark_ok_def wm_base_def)
  then show False using assms by (auto simp: bounded_inv_def)
qed

lemma bounded_stepI:
  "ledger_step l l' \<Longrightarrow> within a b c l' \<Longrightarrow> admissions_after_stop (lg l') = admissions_after_stop (lg l) \<Longrightarrow>
     bounded_step a b c l l'"
  by (simp add: bounded_step_def)

lemma bounded_steps_within: "(bounded_step a b c)\<^sup>*\<^sup>* l l' \<Longrightarrow> within a b c l \<Longrightarrow> within a b c l'"
  by (induction rule: rtranclp_induct) (simp_all add: bounded_step_def)

section \<open>Properties\<close>

text \<open>
  C32 (invariant). However queueing, task and execution guards are created and dropped, the
  published work gauges are exactly the numbers of live owners, no accounting error is ever
  reported, the published high-water marks are never below the occupancy, and a capacity breach is
  on the counters whenever an occupancy is above its limit, and only if its high-water mark went
  above it.
\<close>

theorem dispatch_accounting_exact:
  assumes "reaches ledger_init ledger_step l" "k < 3"
  shows "map (work_gauge (lg l)) WORK_STATES =
      map as_gauge [o_queued l, o_tasks l + o_completed l, o_completed l, o_running l, o_terminating l]
    \<and> accounting_errors (lg l) = (\<lambda>_. 0)
    \<and> wc_occupancy (counts (lg l)) k = [o_queued l, o_running l + o_terminating l, o_tasks l + o_completed l] ! k
    \<and> wc_occupancy (counts (lg l)) k \<le> wc_high_water (counts (lg l)) ! k
    \<and> high_water_gauge (lg l) (CAPACITIES ! k) = as_gauge (wc_high_water (counts (lg l)) ! k)
    \<and> (\<forall>ls. wc_limits (counts (lg l)) = Some ls \<longrightarrow> ls ! k < wc_occupancy (counts (lg l)) k \<longrightarrow>
        0 < capacity_breaches (lg l) (CAPACITIES ! k))
    \<and> (0 < capacity_breaches (lg l) (CAPACITIES ! k) \<longrightarrow>
        (\<exists>ls. wc_limits (counts (lg l)) = Some ls \<and> ls ! k < wc_high_water (counts (lg l)) ! k))"
proof -
  have inv: "ledger_inv l" using ledger_system.inv_reaches [OF assms(1)] .
  have "k = 0 \<or> k = 1 \<or> k = 2" using assms(2) by auto
  then have "wc_occupancy (counts (lg l)) k = [o_queued l, o_running l + o_terminating l, o_tasks l + o_completed l] ! k"
    using inv by (auto simp: ledger_inv_def wc_occupancy_vec)
  moreover have "watermark_ok (lg l) k" using inv assms(2) by (simp add: ledger_inv_def)
  ultimately show ?thesis
    using ledger_balanced [OF inv] by (simp add: watermark_ok_def wm_base_def wm_cover_def)
qed

text \<open>A host with one execution limit on which two executions start.\<close>

lemma sample_ledger:
  "\<exists>l. reaches ledger_init ledger_step l \<and> o_running l = 2 \<and> wc_limits (counts (lg l)) = Some [1, 1, 1]"
proof -
  let ?l0 = "\<lparr>lg = dispatch_new, o_queued = 0, o_tasks = 0, o_completed = 0, o_running = 0, o_terminating = 0\<rparr>"
  have "reaches ledger_init ledger_step ?l0" by (rule reaches_init) (simp add: ledger_init_def)
  then have "reaches ledger_init ledger_step (?l0\<lparr>lg := configure 1 1 1 (lg ?l0)\<rparr>)"
    by (rule reaches_step) (rule ledger_step.lg_configure, simp add: dispatch_new_def)
  from reaches_step [OF reaches_step [OF this ledger_step.lg_execution] ledger_step.lg_execution]
  show ?thesis
    by (intro exI conjI, assumption) (simp_all add: execution_started_def Let_def configure_counts)
qed

theorem dispatch_accounting_exact_witness:
  "\<exists>l. reaches ledger_init ledger_step l \<and> 0 < capacity_breaches (lg l) (CAPACITIES ! 1)
     \<and> accounting_errors (lg l) = (\<lambda>_. 0)"
proof -
  obtain l where r: "reaches ledger_init ledger_step l" and n: "o_running l = 2"
    and ls: "wc_limits (counts (lg l)) = Some [1, 1, 1]"
    using sample_ledger by blast
  have "0 < capacity_breaches (lg l) (CAPACITIES ! 1) \<and> accounting_errors (lg l) = (\<lambda>_. 0)"
    using dispatch_accounting_exact [OF r, of 1] n ls by simp
  with r show ?thesis by blast
qed

end
