(* ===== verification/PreparationMetrics.thy ===== *)
theory PreparationMetrics
  imports DispatchMetrics
begin

text \<open>
  \<open>src/components/execution-host/src/preparation_metrics.rs\<close>: the accounting of module preparation.
  A submission waits for admission; an admitted preparation is a state shared by its worker and by
  the control handle that may terminate it. As in \<open>DispatchMetrics\<close>, gauges hold the last value set
  and counters and histograms the number of updates.
\<close>

section \<open>Definitions\<close>

definition PREP_WORK_STATES :: "string list" where
  "PREP_WORK_STATES = [''admission_wait'', ''queued'', ''preparing'', ''compiling'', ''terminating'']"

definition PREP_CAPACITIES :: "string list" where
  "PREP_CAPACITIES = [''queued'', ''active'', ''tracked'', ''compiling'']"

datatype work_state = Queued | Preparing | Compiling | Terminating

fun work_index :: "work_state \<Rightarrow> nat" where
  "work_index Queued = 1"
| "work_index Preparing = 2"
| "work_index Compiling = 3"
| "work_index Terminating = 4"

datatype prep_outcome = PrepSuccess | PrepError | PrepTimeout | PrepCancelled | PrepPanic

fun prep_label :: "prep_outcome \<Rightarrow> string" where
  "prep_label PrepSuccess = ''success''"
| "prep_label PrepError = ''error''"
| "prep_label PrepTimeout = ''timeout''"
| "prep_label PrepCancelled = ''cancelled''"
| "prep_label PrepPanic = ''panic''"

record prep_counts =
  pc_work :: "nat list"
  pc_compiling :: nat
  pc_limits :: "nat list"
  pc_high_water :: "nat list"

record prep_metrics =
  pm_counts :: prep_counts
  pm_work :: "string \<Rightarrow> int"
  pm_limits :: "string \<Rightarrow> int"
  pm_occupancy :: "string \<Rightarrow> int"
  pm_high_water :: "string \<Rightarrow> int"
  pm_breaches :: "string \<Rightarrow> nat"
  pm_errors :: "string \<Rightarrow> nat"
  pm_submissions :: "string \<Rightarrow> nat"
  pm_finished :: "string \<Rightarrow> nat"
  pm_compilation_finished :: "string \<Rightarrow> nat"
  pm_admission_wait :: nat
  pm_queue_wait :: nat
  pm_compilation_duration :: nat
  pm_compilation_overrun :: nat

definition prep_new :: "nat \<Rightarrow> nat \<Rightarrow> prep_metrics" where
  "prep_new record_limit active_limit =
     (let ls = [record_limit, active_limit, record_limit, active_limit]
      in \<lparr>pm_counts = \<lparr>pc_work = [0, 0, 0, 0, 0], pc_compiling = 0, pc_limits = ls, pc_high_water = [0, 0, 0, 0]\<rparr>,
          pm_work = (\<lambda>_. 0),
          pm_limits = fold (\<lambda>(kind, l) g. g(kind := as_gauge l)) (zip PREP_CAPACITIES ls) (\<lambda>_. 0),
          pm_occupancy = (\<lambda>_. 0), pm_high_water = (\<lambda>_. 0), pm_breaches = (\<lambda>_. 0), pm_errors = (\<lambda>_. 0),
          pm_submissions = (\<lambda>_. 0), pm_finished = (\<lambda>_. 0), pm_compilation_finished = (\<lambda>_. 0),
          pm_admission_wait = 0, pm_queue_wait = 0, pm_compilation_duration = 0, pm_compilation_overrun = 0\<rparr>)"

text \<open>The occupancy of a capacity, the \<open>values\<close> of \<open>publish_counts\<close> and the \<open>match\<close> of \<open>record_capacity\<close>.\<close>

definition prep_occupancy :: "prep_counts \<Rightarrow> nat list" where
  "prep_occupancy c =
     (let active = sum_list (drop 2 (pc_work c))
      in [pc_work c ! 1, active, pc_work c ! 1 + active, pc_compiling c])"

definition prep_note :: "nat \<Rightarrow> string \<Rightarrow> nat \<Rightarrow> prep_metrics \<Rightarrow> prep_metrics" where
  "prep_note i kind v m =
     (let m = m\<lparr>pm_occupancy := (pm_occupancy m)(kind := as_gauge v)\<rparr>
      in if v > pc_high_water (pm_counts m) ! i
         then m\<lparr>pm_counts := (pm_counts m)\<lparr>pc_high_water := (pc_high_water (pm_counts m))[i := v]\<rparr>,
                pm_high_water := (pm_high_water m)(kind := as_gauge v)\<rparr>
         else m)"

definition prep_publish :: "prep_metrics \<Rightarrow> prep_metrics" where
  "prep_publish m =
     (let m = m\<lparr>pm_work := fold (\<lambda>(state, v) g. g(state := as_gauge v)) (zip PREP_WORK_STATES (pc_work (pm_counts m))) (pm_work m)\<rparr>
      in fold (\<lambda>(i, kind, v). prep_note i kind v)
           (zip [0 ..< 4] (zip PREP_CAPACITIES (prep_occupancy (pm_counts m)))) m)"

definition prep_record_capacity :: "nat \<Rightarrow> prep_metrics \<Rightarrow> prep_metrics" where
  "prep_record_capacity kind m =
     (if prep_occupancy (pm_counts m) ! kind > pc_limits (pm_counts m) ! kind
      then m\<lparr>pm_breaches := inc_label (PREP_CAPACITIES ! kind) (pm_breaches m)\<rparr> else m)"

definition accounting_error :: "string \<Rightarrow> prep_metrics \<Rightarrow> prep_metrics" where
  "accounting_error state m = m\<lparr>pm_errors := inc_label state (pm_errors m)\<rparr>"

text \<open>\<open>decrement\<close> of an entry of the work array, and of the compilation count.\<close>

definition prep_decrement :: "nat \<Rightarrow> prep_metrics \<Rightarrow> prep_metrics" where
  "prep_decrement k m =
     (case checked_sub (pc_work (pm_counts m) ! k) 1 of
        Some v \<Rightarrow> m\<lparr>pm_counts := (pm_counts m)\<lparr>pc_work := (pc_work (pm_counts m))[k := v]\<rparr>\<rparr>
      | None \<Rightarrow> accounting_error (PREP_WORK_STATES ! k) m)"

definition prep_decrement_compiling :: "prep_metrics \<Rightarrow> prep_metrics" where
  "prep_decrement_compiling m =
     (case checked_sub (pc_compiling (pm_counts m)) 1 of
        Some v \<Rightarrow> m\<lparr>pm_counts := (pm_counts m)\<lparr>pc_compiling := v\<rparr>\<rparr>
      | None \<Rightarrow> accounting_error ''compiling'' m)"

definition prep_increment :: "nat \<Rightarrow> prep_metrics \<Rightarrow> prep_metrics" where
  "prep_increment k m =
     m\<lparr>pm_counts := (pm_counts m)\<lparr>pc_work := (pc_work (pm_counts m))[k := Suc (pc_work (pm_counts m) ! k)]\<rparr>\<rparr>"

definition prep_transition :: "work_state \<Rightarrow> work_state \<Rightarrow> prep_metrics \<Rightarrow> prep_metrics" where
  "prep_transition from to m =
     (let m = prep_publish (prep_increment (work_index to) (prep_decrement (work_index from) m))
      in if to = Preparing \<and> from = Queued then prep_record_capacity 1 m else m)"

subsection \<open>Submissions\<close>

record submission =
  sub_outcome :: string
  sub_completed :: bool

definition prep_submission :: "prep_metrics \<Rightarrow> submission \<times> prep_metrics" where
  "prep_submission m =
     (\<lparr>sub_outcome = ''cancelled'', sub_completed = False\<rparr>, prep_publish (prep_increment 0 m))"

definition submission_complete :: "submission \<Rightarrow> prep_metrics \<Rightarrow> prep_metrics" where
  "submission_complete s m =
     (let m = prep_decrement 0 m
      in m\<lparr>pm_admission_wait := Suc (pm_admission_wait m),
           pm_submissions := inc_label (sub_outcome s) (pm_submissions m)\<rparr>)"

record prep_state =
  ps_stage :: "work_state option"
  ps_compilation_started_at :: "nat option"
  ps_terminating_at :: "nat option"
  ps_cancellation :: "prep_outcome option"
  ps_outcome :: prep_outcome

definition submission_admitted :: "submission \<Rightarrow> prep_metrics \<Rightarrow> prep_state \<times> prep_metrics" where
  "submission_admitted s m =
     (let s = s\<lparr>sub_outcome := ''admitted'', sub_completed := True\<rparr>;
          m = prep_publish (prep_increment 1 (submission_complete s m));
          m = prep_record_capacity 2 (prep_record_capacity 0 m)
      in (\<lparr>ps_stage = Some Queued, ps_compilation_started_at = None, ps_terminating_at = None,
           ps_cancellation = None, ps_outcome = PrepCancelled\<rparr>, m))"

definition submission_drop :: "submission \<Rightarrow> prep_metrics \<Rightarrow> prep_metrics" where
  "submission_drop s m = (if sub_completed s then m else prep_publish (submission_complete s m))"

definition submission_timed_out :: "submission \<Rightarrow> prep_metrics \<Rightarrow> prep_metrics" where
  "submission_timed_out s m = submission_drop (s\<lparr>sub_outcome := ''timeout''\<rparr>) m"

definition submission_closed :: "submission \<Rightarrow> prep_metrics \<Rightarrow> prep_metrics" where
  "submission_closed s m = submission_drop (s\<lparr>sub_outcome := ''closed''\<rparr>) m"

subsection \<open>Preparations\<close>

definition prep_terminate ::
  "prep_outcome \<Rightarrow> nat \<Rightarrow> prep_state \<times> prep_metrics \<Rightarrow> prep_state \<times> prep_metrics" where
  "prep_terminate outcome at = (\<lambda>(s, m).
     (case ps_stage s of
        None \<Rightarrow> (s, m)
      | Some stage \<Rightarrow>
          if ps_cancellation s \<noteq> None then (s, m)
          else
            (let s = s\<lparr>ps_cancellation := Some outcome\<rparr>
             in if stage \<in> {Preparing, Compiling}
                then (s\<lparr>ps_terminating_at := Some at, ps_stage := Some Terminating\<rparr>,
                      prep_transition stage Terminating m)
                else (s, m))))"

definition control_compilation_finished ::
  "prep_outcome \<Rightarrow> prep_state \<times> prep_metrics \<Rightarrow> prep_state \<times> prep_metrics" where
  "control_compilation_finished outcome = (\<lambda>(s, m).
     (case ps_compilation_started_at s of
        None \<Rightarrow> (s, accounting_error ''compiling'' m)
      | Some _ \<Rightarrow>
          (let s = s\<lparr>ps_compilation_started_at := None\<rparr>;
               outcome = (case ps_cancellation s of Some u \<Rightarrow> u | None \<Rightarrow> outcome);
               m = m\<lparr>pm_compilation_duration := Suc (pm_compilation_duration m),
                     pm_compilation_finished := inc_label (prep_label outcome) (pm_compilation_finished m)\<rparr>;
               m = (if ps_terminating_at s \<noteq> None
                    then m\<lparr>pm_compilation_overrun := Suc (pm_compilation_overrun m)\<rparr> else m);
               s = s\<lparr>ps_terminating_at := None\<rparr>
           in (s, prep_publish (prep_decrement_compiling m)))))"

definition prep_activate :: "prep_state \<times> prep_metrics \<Rightarrow> prep_state \<times> prep_metrics" where
  "prep_activate = (\<lambda>(s, m).
     if ps_stage s \<noteq> Some Queued then (s, accounting_error ''queued'' m)
     else (s\<lparr>ps_stage := Some Preparing\<rparr>,
           prep_transition Queued Preparing (m\<lparr>pm_queue_wait := Suc (pm_queue_wait m)\<rparr>)))"

definition prep_compiling :: "nat \<Rightarrow> prep_state \<times> prep_metrics \<Rightarrow> prep_state \<times> prep_metrics" where
  "prep_compiling now = (\<lambda>(s, m).
     if ps_stage s \<noteq> Some Preparing \<and> \<not> (ps_stage s = Some Terminating \<and> ps_cancellation s \<noteq> None)
     then (s, accounting_error ''compiling'' m)
     else
       (let s = s\<lparr>ps_compilation_started_at := Some now\<rparr>;
            nxt = (if ps_cancellation s \<noteq> None then Terminating else Compiling);
            m = (if ps_stage s = Some Preparing then prep_transition Preparing nxt m else m);
            s = s\<lparr>ps_stage := Some nxt\<rparr>;
            m = m\<lparr>pm_counts := (pm_counts m)\<lparr>pc_compiling := Suc (pc_compiling (pm_counts m))\<rparr>\<rparr>
        in (s, prep_record_capacity 3 (prep_publish m))))"

definition prep_compilation_finished ::
  "prep_outcome \<Rightarrow> prep_state \<times> prep_metrics \<Rightarrow> prep_state \<times> prep_metrics" where
  "prep_compilation_finished outcome sm =
     (case control_compilation_finished outcome sm of
        (s, m) \<Rightarrow>
          if ps_stage s = Some Compiling
          then (s\<lparr>ps_stage := Some Preparing\<rparr>, prep_transition Compiling Preparing m)
          else (s, m))"

definition prep_finish :: "prep_outcome \<Rightarrow> prep_state \<Rightarrow> prep_state" where
  "prep_finish outcome s = s\<lparr>ps_outcome := outcome\<rparr>"

definition prep_drop :: "bool \<Rightarrow> prep_state \<times> prep_metrics \<Rightarrow> prep_state \<times> prep_metrics" where
  "prep_drop panicking = (\<lambda>(s, m).
     (case ps_stage s of
        None \<Rightarrow> (s, m)
      | Some stage \<Rightarrow>
          (let outcome = (case ps_cancellation s of Some u \<Rightarrow> u | None \<Rightarrow> if panicking then PrepPanic else ps_outcome s);
               (s, m) = (if ps_compilation_started_at s \<noteq> None then control_compilation_finished outcome (s, m) else (s, m));
               m = (if stage = Queued then m\<lparr>pm_queue_wait := Suc (pm_queue_wait m)\<rparr> else m);
               m = prep_publish (prep_decrement (work_index stage) m)
           in (s\<lparr>ps_stage := None\<rparr>, m\<lparr>pm_finished := inc_label (prep_label outcome) (pm_finished m)\<rparr>))))"

section \<open>What each operation does to the counts\<close>

definition prep_base :: "prep_metrics \<Rightarrow> bool" where
  "prep_base m \<longleftrightarrow>
     length (pc_high_water (pm_counts m)) = 4 \<and>
     map (pm_high_water m) PREP_CAPACITIES = map as_gauge (pc_high_water (pm_counts m)) \<and>
     (\<forall>k<4. 0 < pm_breaches m (PREP_CAPACITIES ! k) \<longrightarrow>
        pc_limits (pm_counts m) ! k < pc_high_water (pm_counts m) ! k)"

definition prep_breached :: "nat set \<Rightarrow> prep_metrics \<Rightarrow> bool" where
  "prep_breached K m \<longleftrightarrow>
     (\<forall>k<4. k \<notin> K \<longrightarrow> pc_limits (pm_counts m) ! k < prep_occupancy (pm_counts m) ! k \<longrightarrow>
        0 < pm_breaches m (PREP_CAPACITIES ! k))"

definition prep_published :: "prep_metrics \<Rightarrow> bool" where
  "prep_published m \<longleftrightarrow>
     map (pm_work m) PREP_WORK_STATES = map as_gauge (pc_work (pm_counts m)) \<and>
     map (pm_occupancy m) PREP_CAPACITIES = map as_gauge (prep_occupancy (pm_counts m)) \<and>
     (\<forall>k<4. prep_occupancy (pm_counts m) ! k \<le> pc_high_water (pm_counts m) ! k)"

lemma less_4: "k < (4 :: nat) \<longleftrightarrow> k = 0 \<or> k = 1 \<or> k = 2 \<or> k = 3"
  by auto

lemma all_less_4: "(\<forall>k<4. P k) \<longleftrightarrow> P 0 \<and> P 1 \<and> P 2 \<and> P (3 :: nat)"
  by (auto simp: less_4)

lemma length_4: "length xs = 4 \<longleftrightarrow> (\<exists>a b c d. xs = [a, b, c, d])"
  by (auto simp: length_Suc_conv numeral_eq_Suc)

lemma prep_capacities_distinct:
  "j < 4 \<Longrightarrow> k < 4 \<Longrightarrow> PREP_CAPACITIES ! j = PREP_CAPACITIES ! k \<longleftrightarrow> j = k"
  by (auto simp: PREP_CAPACITIES_def less_4)

lemma prep_note_frame [simp]:
  "pc_work (pm_counts (prep_note i kind v m)) = pc_work (pm_counts m)"
  "pc_compiling (pm_counts (prep_note i kind v m)) = pc_compiling (pm_counts m)"
  "pc_limits (pm_counts (prep_note i kind v m)) = pc_limits (pm_counts m)"
  "pm_errors (prep_note i kind v m) = pm_errors m"
  "pm_breaches (prep_note i kind v m) = pm_breaches m"
  "pm_submissions (prep_note i kind v m) = pm_submissions m"
  "pm_finished (prep_note i kind v m) = pm_finished m"
  "pm_work (prep_note i kind v m) = pm_work m"
  "pm_occupancy (prep_note i kind v m) = (pm_occupancy m)(kind := as_gauge v)"
  "pc_high_water (pm_counts (prep_note i kind v m)) =
     (pc_high_water (pm_counts m))[i := max (pc_high_water (pm_counts m) ! i) v]"
  by (simp_all add: prep_note_def Let_def)

lemma prep_note_base:
  assumes "prep_base m" "i < 4"
  shows "prep_base (prep_note i (PREP_CAPACITIES ! i) v m)"
proof -
  obtain p q r s where h: "pc_high_water (pm_counts m) = [p, q, r, s]"
    using assms by (auto simp: length_4 prep_base_def)
  from assms(2) show ?thesis
    unfolding less_4 using assms(1)
    by (elim disjE) (auto simp: prep_base_def prep_note_def Let_def PREP_CAPACITIES_def all_less_4 h)
qed

lemma prep_publish_eq:
  "prep_publish m =
     (let m = m\<lparr>pm_work := fold (\<lambda>(state, v) g. g(state := as_gauge v)) (zip PREP_WORK_STATES (pc_work (pm_counts m))) (pm_work m)\<rparr>;
          occ = prep_occupancy (pm_counts m)
      in prep_note 3 (PREP_CAPACITIES ! 3) (occ ! 3) (prep_note 2 (PREP_CAPACITIES ! 2) (occ ! 2)
           (prep_note 1 (PREP_CAPACITIES ! 1) (occ ! 1) (prep_note 0 (PREP_CAPACITIES ! 0) (occ ! 0) m))))"
  by (simp add: prep_publish_def PREP_CAPACITIES_def prep_occupancy_def upt_rec Let_def numeral_2_eq_2 numeral_3_eq_3)

lemma prep_publish_frame [simp]:
  "pc_work (pm_counts (prep_publish m)) = pc_work (pm_counts m)"
  "pc_compiling (pm_counts (prep_publish m)) = pc_compiling (pm_counts m)"
  "pc_limits (pm_counts (prep_publish m)) = pc_limits (pm_counts m)"
  "pm_errors (prep_publish m) = pm_errors m"
  "pm_breaches (prep_publish m) = pm_breaches m"
  "pm_submissions (prep_publish m) = pm_submissions m"
  "pm_finished (prep_publish m) = pm_finished m"
  by (simp_all add: prep_publish_eq Let_def)

lemma prep_occupancy_publish [simp]:
  "prep_occupancy (pm_counts (prep_publish m)) = prep_occupancy (pm_counts m)"
  by (simp add: prep_occupancy_def)

lemma prep_record_frame [simp]:
  "pm_counts (prep_record_capacity k m) = pm_counts m"
  "pm_errors (prep_record_capacity k m) = pm_errors m"
  "pm_submissions (prep_record_capacity k m) = pm_submissions m"
  "pm_finished (prep_record_capacity k m) = pm_finished m"
  by (simp_all add: prep_record_capacity_def)

lemma prep_occupancy_length [simp]: "length (prep_occupancy c) = 4"
  by (simp add: prep_occupancy_def Let_def)

lemma prep_publish_published:
  assumes "length (pc_work (pm_counts m)) = 5" "length (pc_high_water (pm_counts m)) = 4"
  shows "prep_published (prep_publish m)"
proof -
  obtain a b c d e where w: "pc_work (pm_counts m) = [a, b, c, d, e]"
    using assms(1) by (auto simp: length_Suc_conv numeral_eq_Suc)
  obtain p q r s where h: "pc_high_water (pm_counts m) = [p, q, r, s]"
    using assms(2) by (auto simp: length_4)
  have "prep_occupancy (pm_counts m) = [b, c + (d + e), b + (c + (d + e)), pc_compiling (pm_counts m)]"
    by (simp add: prep_occupancy_def w Let_def)
  then show ?thesis
    by (simp add: prep_published_def all_less_4)
      (simp add: prep_publish_eq Let_def PREP_WORK_STATES_def PREP_CAPACITIES_def w h)
qed

lemma prep_publish_base: "prep_base m \<Longrightarrow> prep_base (prep_publish m)"
  unfolding prep_publish_eq Let_def
  by (intro prep_note_base) (simp_all add: prep_base_def)

text \<open>
  A state of the metrics that agrees with its gauges; \<open>K\<close> holds the capacities whose breach is not
  recorded yet.
\<close>

definition prep_sound :: "nat set \<Rightarrow> prep_metrics \<Rightarrow> bool" where
  "prep_sound K m \<longleftrightarrow> prep_base m \<and> prep_published m \<and> prep_breached K m"

lemma prep_publish_sound:
  assumes "prep_base m" "prep_breached K m" "length (pc_work (pm_counts m)) = 5"
  shows "prep_sound K (prep_publish m)"
  using assms prep_publish_base [OF assms(1)] prep_publish_published [OF assms(3)]
  by (simp add: prep_sound_def prep_breached_def) (simp add: prep_base_def)

lemma prep_record_sound:
  assumes "prep_sound (insert k K) m" "k < 4"
  shows "prep_sound K (prep_record_capacity k m)"
  using assms
  by (fastforce simp: prep_sound_def prep_base_def prep_published_def prep_breached_def prep_record_capacity_def
      inc_label_def prep_capacities_distinct)

text \<open>Operations before the publication change the work counts only.\<close>

definition prep_frame :: "prep_metrics \<Rightarrow> prep_metrics \<Rightarrow> bool" where
  "prep_frame m m' \<longleftrightarrow>
     pc_high_water (pm_counts m') = pc_high_water (pm_counts m) \<and> pc_limits (pm_counts m') = pc_limits (pm_counts m) \<and>
     pm_high_water m' = pm_high_water m \<and> pm_breaches m' = pm_breaches m"

lemma prep_republish:
  assumes "prep_sound {} m" "prep_frame m m'" "length (pc_work (pm_counts m')) = 5"
    and "\<And>k. k < 4 \<Longrightarrow> k \<notin> K \<Longrightarrow> prep_occupancy (pm_counts m') ! k \<le> prep_occupancy (pm_counts m) ! k"
  shows "prep_sound K (prep_publish m')"
proof (rule prep_publish_sound [OF _ _ assms(3)])
  show "prep_base m'" using assms(1,2) by (simp add: prep_sound_def prep_base_def prep_frame_def)
  show "prep_breached K m'"
    unfolding prep_breached_def
  proof (intro allI impI)
    fix k :: nat
    assume k: "k < 4" "k \<notin> K" "pc_limits (pm_counts m') ! k < prep_occupancy (pm_counts m') ! k"
    then have "pc_limits (pm_counts m) ! k < prep_occupancy (pm_counts m) ! k"
      using assms(2) assms(4) [OF k(1,2)] by (simp add: prep_frame_def)
    with k assms(1,2) show "0 < pm_breaches m' (PREP_CAPACITIES ! k)"
      by (simp add: prep_sound_def prep_breached_def prep_frame_def)
  qed
qed

section \<open>The ledger of preparations\<close>

text \<open>
  The submissions that wait and the preparations whose work guard is alive. A step is one
  accounting operation: the worker follows its own order (queued, active, compiling, compiled),
  while the control handle may terminate the work at any point and the guard may be dropped at any
  point.
\<close>

definition staged :: "work_state \<Rightarrow> prep_state multiset \<Rightarrow> nat" where
  "staged st ps = size (filter_mset (\<lambda>s. ps_stage s = Some st) ps)"

definition compilations :: "prep_state multiset \<Rightarrow> nat" where
  "compilations ps = size (filter_mset (\<lambda>s. ps_compilation_started_at s \<noteq> None) ps)"

lemma staged_add [simp]:
  "staged st {#} = 0"
  "staged st (add_mset s ps) = (if ps_stage s = Some st then Suc (staged st ps) else staged st ps)"
  by (simp_all add: staged_def)

lemma compilations_add [simp]:
  "compilations {#} = 0"
  "compilations (add_mset s ps) = (if ps_compilation_started_at s \<noteq> None then Suc (compilations ps) else compilations ps)"
  by (simp_all add: compilations_def)

definition prep_wf :: "prep_state \<Rightarrow> bool" where
  "prep_wf s \<longleftrightarrow>
     ps_stage s \<noteq> None \<and>
     (ps_compilation_started_at s \<noteq> None \<longrightarrow> ps_stage s \<in> {Some Compiling, Some Terminating}) \<and>
     (ps_stage s = Some Compiling \<longrightarrow> ps_compilation_started_at s \<noteq> None \<and> ps_cancellation s = None) \<and>
     (ps_stage s = Some Terminating \<longrightarrow> ps_cancellation s \<noteq> None)"

definition finished_sum :: "prep_metrics \<Rightarrow> nat" where
  "finished_sum m = sum_list (map (\<lambda>u. pm_finished m (prep_label u)) [PrepSuccess, PrepError, PrepTimeout, PrepCancelled, PrepPanic])"

definition prep_balanced :: "nat \<Rightarrow> prep_state multiset \<Rightarrow> prep_metrics \<Rightarrow> bool" where
  "prep_balanced w ps m \<longleftrightarrow>
     pc_work (pm_counts m) = [w, staged Queued ps, staged Preparing ps, staged Compiling ps, staged Terminating ps] \<and>
     pc_compiling (pm_counts m) = compilations ps \<and> pm_errors m = (\<lambda>_. 0) \<and>
     pm_submissions m ''admitted'' = size ps + finished_sum m \<and> prep_sound {} m"

lemma finished_sum_inc:
  "finished_sum (m\<lparr>pm_finished := inc_label (prep_label u) f\<rparr>) = Suc (finished_sum (m\<lparr>pm_finished := f\<rparr>))"
  by (cases u) (simp_all add: finished_sum_def inc_label_def)

lemma prep_occupancy_work:
  "pc_work c = [a, b, p, q, r] \<Longrightarrow> prep_occupancy c = [b, p + (q + r), b + (p + (q + r)), pc_compiling c]"
  by (simp add: prep_occupancy_def Let_def)

lemmas prep_count_defs = prep_increment_def prep_decrement_def prep_decrement_compiling_def checked_sub_def
  prep_frame_def finished_sum_def

lemma submission_balanced:
  assumes "prep_balanced w ps m"
  shows "prep_balanced (Suc w) ps (snd (prep_submission m))"
proof -
  have "prep_sound {} (prep_publish (prep_increment 0 m))"
    by (rule prep_republish [of m])
      (insert assms, auto simp: prep_balanced_def prep_count_defs prep_occupancy_work)
  then show ?thesis using assms by (simp add: prep_balanced_def prep_submission_def prep_count_defs)
qed

lemma submission_drop_balanced:
  assumes "prep_balanced (Suc w) ps m" "\<not> sub_completed s" "sub_outcome s \<noteq> ''admitted''"
  shows "prep_balanced w ps (submission_drop s m)"
proof -
  have "prep_sound {} (prep_publish (submission_complete s m))"
    by (rule prep_republish [of m])
      (insert assms, auto simp: prep_balanced_def submission_complete_def prep_count_defs prep_occupancy_work Let_def)
  then show ?thesis
    using assms by (simp add: prep_balanced_def submission_drop_def submission_complete_def prep_count_defs Let_def
        inc_label_def)
qed

lemma submission_admitted_balanced:
  assumes "prep_balanced (Suc w) ps m" "submission_admitted s m = (p, m')"
  shows "prep_balanced w (add_mset p ps) m' \<and> prep_wf p \<and> ps_stage p = Some Queued \<and> ps_compilation_started_at p = None"
proof -
  let ?s = "s\<lparr>sub_outcome := ''admitted'', sub_completed := True\<rparr>"
  have "prep_sound {0, 2} (prep_publish (prep_increment 1 (submission_complete ?s m)))"
    by (rule prep_republish [of m])
      (insert assms, auto simp: prep_balanced_def submission_complete_def prep_count_defs prep_occupancy_work Let_def less_4)
  then have "prep_sound {} m'"
    using assms(2) by (auto simp: submission_admitted_def Let_def intro!: prep_record_sound)
  then show ?thesis
    using assms by (auto simp: prep_balanced_def submission_admitted_def submission_complete_def prep_count_defs
        Let_def inc_label_def prep_wf_def)
qed

lemma transition_work:
  assumes "pc_work (pm_counts m) = [a, b, c, d, e]" "0 < pc_work (pm_counts m) ! work_index from"
  shows "pc_work (pm_counts (prep_increment (work_index to) (prep_decrement (work_index from) m))) =
      (let ws = [a, b, c, d, e][work_index from := [a, b, c, d, e] ! work_index from - 1]
       in ws[work_index to := Suc (ws ! work_index to)])"
    and "prep_frame m (prep_increment (work_index to) (prep_decrement (work_index from) m))"
    and "pc_compiling (pm_counts (prep_increment (work_index to) (prep_decrement (work_index from) m))) = pc_compiling (pm_counts m)"
  using assms by (simp_all add: prep_count_defs Let_def)

lemma transition_sound:
  assumes "prep_sound {} m" "pc_work (pm_counts m) = [a, b, c, d, e]" "0 < pc_work (pm_counts m) ! work_index from"
    and "to \<noteq> Queued" "from = Queued \<Longrightarrow> to = Preparing"
  shows "prep_sound {} (prep_transition from to m)"
proof -
  let ?K = "if to = Preparing \<and> from = Queued then {1} else {} :: nat set"
  note w = transition_work [OF assms(2,3), of to]
  have "prep_sound ?K (prep_publish (prep_increment (work_index to) (prep_decrement (work_index from) m)))"
  proof (rule prep_republish [OF assms(1) w(2)])
    show "length (pc_work (pm_counts (prep_increment (work_index to) (prep_decrement (work_index from) m)))) = 5"
      unfolding w(1) Let_def length_list_update by simp
    fix k :: nat
    assume "k < 4" "k \<notin> ?K"
    with assms(3,4,5) show "prep_occupancy (pm_counts (prep_increment (work_index to) (prep_decrement (work_index from) m))) ! k
        \<le> prep_occupancy (pm_counts m) ! k"
      unfolding prep_occupancy_def w(1,3) assms(2) less_4
      by (cases "from"; cases to) (auto simp: Let_def)
  qed
  then show ?thesis
    by (auto simp: prep_transition_def Let_def intro!: prep_record_sound split: if_splits)
qed

lemma transition_frame [simp]:
  "0 < pc_work (pm_counts m) ! work_index from \<Longrightarrow> pm_errors (prep_transition from to m) = pm_errors m"
  "pc_compiling (pm_counts (prep_transition from to m)) = pc_compiling (pm_counts m)"
  "pm_submissions (prep_transition from to m) = pm_submissions m"
  "pm_finished (prep_transition from to m) = pm_finished m"
  by (simp_all add: prep_transition_def prep_count_defs accounting_error_def Let_def)

lemma transition_balanced:
  assumes "prep_balanced w (add_mset s ps) m" "ps_stage s = Some from"
    and "to \<noteq> Queued" "from = Queued \<Longrightarrow> to = Preparing"
    and "ps_stage s' = Some to" "ps_compilation_started_at s' = ps_compilation_started_at s"
  shows "prep_balanced w (add_mset s' ps) (prep_transition from to m)"
proof -
  have pos: "0 < pc_work (pm_counts m) ! work_index from"
    using assms(1,2) by (cases "from") (simp_all add: prep_balanced_def)
  have work: "pc_work (pm_counts m) = [w, staged Queued (add_mset s ps), staged Preparing (add_mset s ps),
      staged Compiling (add_mset s ps), staged Terminating (add_mset s ps)]"
    using assms(1) by (simp add: prep_balanced_def)
  have "prep_sound {} (prep_transition from to m)"
    by (rule transition_sound [OF _ work pos]) (insert assms, simp_all add: prep_balanced_def)
  moreover have "pc_work (pm_counts (prep_transition from to m)) =
      [w, staged Queued (add_mset s' ps), staged Preparing (add_mset s' ps),
        staged Compiling (add_mset s' ps), staged Terminating (add_mset s' ps)]"
    unfolding prep_transition_def Let_def
    using transition_work(1) [OF work pos, of to] assms(2-5) by (cases "from"; cases to) (simp_all add: Let_def)
  ultimately show ?thesis
    using assms(1,6) pos by (simp add: prep_balanced_def finished_sum_def)
qed

lemma prep_balanced_cong:
  assumes "prep_balanced w ps m" "pm_counts m' = pm_counts m" "pm_work m' = pm_work m" "pm_occupancy m' = pm_occupancy m"
    and "pm_high_water m' = pm_high_water m" "pm_breaches m' = pm_breaches m" "pm_errors m' = pm_errors m"
    and "pm_submissions m' = pm_submissions m" "pm_finished m' = pm_finished m"
  shows "prep_balanced w ps m'"
  using assms
  by (simp add: prep_balanced_def finished_sum_def prep_sound_def prep_base_def prep_published_def prep_breached_def)

text \<open>Only the stage and the running compilation of a preparation matter to the balance.\<close>

lemma prep_balanced_swap:
  "ps_stage s' = ps_stage s \<Longrightarrow> ps_compilation_started_at s' = ps_compilation_started_at s \<Longrightarrow>
     prep_balanced w (add_mset s ps) m \<Longrightarrow> prep_balanced w (add_mset s' ps) m"
  by (simp add: prep_balanced_def)

lemma terminate_balanced:
  assumes "prep_balanced w (add_mset s ps) m" "prep_wf s" "prep_terminate u at (s, m) = (s', m')"
  shows "prep_balanced w (add_mset s' ps) m' \<and> prep_wf s'
    \<and> (ps_stage s' = Some Queued \<longleftrightarrow> ps_stage s = Some Queued)
    \<and> ps_compilation_started_at s' = ps_compilation_started_at s \<and> ps_cancellation s' \<noteq> None"
proof -
  obtain st where st: "ps_stage s = Some st" using assms(2) by (auto simp: prep_wf_def)
  show ?thesis
  proof (cases "ps_cancellation s = None \<and> st \<in> {Preparing, Compiling}")
    case True
    then have "s' = s\<lparr>ps_cancellation := Some u, ps_terminating_at := Some at, ps_stage := Some Terminating\<rparr>"
      "m' = prep_transition st Terminating m"
      using assms(3) st by (auto simp: prep_terminate_def Let_def)
    moreover from this True have "prep_balanced w (add_mset s' ps) m'"
      using transition_balanced [OF assms(1) st, of Terminating s'] by auto
    ultimately show ?thesis using assms(2) st True by (auto simp: prep_wf_def)
  next
    case False
    then have "m' = m" "s' = (if ps_cancellation s = None then s\<lparr>ps_cancellation := Some u\<rparr> else s)"
      using assms(3) st by (auto simp: prep_terminate_def Let_def split: if_splits)
    then show ?thesis
      using assms(1,2) st False prep_balanced_swap [of s' s w ps m] by (auto simp: prep_wf_def)
  qed
qed

lemma control_finished_balanced:
  assumes "prep_balanced w (add_mset s ps) m" "ps_compilation_started_at s \<noteq> None"
    and "control_compilation_finished u (s, m) = (s', m')"
  shows "prep_balanced w (add_mset s' ps) m' \<and> s' = s\<lparr>ps_compilation_started_at := None, ps_terminating_at := None\<rparr>"
proof -
  obtain m1 where m1: "m' = prep_publish (prep_decrement_compiling m1)" "pm_counts m1 = pm_counts m"
      "pm_high_water m1 = pm_high_water m" "pm_breaches m1 = pm_breaches m" "pm_errors m1 = pm_errors m"
      "pm_submissions m1 = pm_submissions m" "pm_finished m1 = pm_finished m"
    and s': "s' = s\<lparr>ps_compilation_started_at := None, ps_terminating_at := None\<rparr>"
    using assms(2,3) by (auto simp: control_compilation_finished_def Let_def split: if_splits)
  have "prep_sound {} m'"
    unfolding m1(1)
    by (rule prep_republish [of m])
      (insert assms(1,2) m1, auto simp: prep_balanced_def prep_count_defs prep_occupancy_work less_4)
  then show ?thesis
    using assms(1,2) m1 s' by (auto simp: prep_balanced_def prep_count_defs)
qed

lemma activate_balanced:
  assumes "prep_balanced w (add_mset s ps) m" "prep_wf s" "ps_stage s = Some Queued" "prep_activate (s, m) = (s', m')"
  shows "prep_balanced w (add_mset s' ps) m' \<and> prep_wf s' \<and> ps_stage s' = Some Preparing
    \<and> ps_compilation_started_at s' = None \<and> ps_cancellation s' = ps_cancellation s"
proof -
  let ?m = "m\<lparr>pm_queue_wait := Suc (pm_queue_wait m)\<rparr>"
  have "prep_balanced w (add_mset s ps) ?m" using assms(1) by (rule prep_balanced_cong) simp_all
  from transition_balanced [OF this assms(3), of Preparing s'] show ?thesis
    using assms(2-4) by (auto simp: prep_activate_def prep_wf_def)
qed

lemma compiling_count_balanced:
  assumes "prep_balanced w (add_mset s ps) m" "ps_compilation_started_at s = None"
    and "ps_stage s' = ps_stage s" "ps_compilation_started_at s' \<noteq> None"
  shows "prep_balanced w (add_mset s' ps)
    (prep_record_capacity 3 (prep_publish (m\<lparr>pm_counts := (pm_counts m)\<lparr>pc_compiling := Suc (pc_compiling (pm_counts m))\<rparr>\<rparr>)))"
proof -
  have "prep_sound {3} (prep_publish (m\<lparr>pm_counts := (pm_counts m)\<lparr>pc_compiling := Suc (pc_compiling (pm_counts m))\<rparr>\<rparr>))"
    by (rule prep_republish [of m])
      (insert assms(1), auto simp: prep_balanced_def prep_count_defs prep_occupancy_work less_4)
  from prep_record_sound [OF this] show ?thesis
    using assms by (simp add: prep_balanced_def finished_sum_def)
qed

lemma compiling_balanced:
  assumes "prep_balanced w (add_mset s ps) m" "prep_wf s" "ps_stage s \<in> {Some Preparing, Some Terminating}"
    and "ps_compilation_started_at s = None" "prep_compiling now (s, m) = (s', m')"
  shows "prep_balanced w (add_mset s' ps) m' \<and> prep_wf s' \<and> ps_compilation_started_at s' = Some now
    \<and> ps_cancellation s' = ps_cancellation s"
proof -
  let ?nxt = "if ps_cancellation s \<noteq> None then Terminating else Compiling"
  let ?m1 = "if ps_stage s = Some Preparing then prep_transition Preparing ?nxt m else m"
  have s': "s' = s\<lparr>ps_compilation_started_at := Some now, ps_stage := Some ?nxt\<rparr>"
    and m': "m' = prep_record_capacity 3 (prep_publish (?m1\<lparr>pm_counts := (pm_counts ?m1)\<lparr>pc_compiling := Suc (pc_compiling (pm_counts ?m1))\<rparr>\<rparr>))"
    using assms(2-5) by (auto simp: prep_compiling_def Let_def prep_wf_def split: if_splits)
  have "prep_balanced w (add_mset (s\<lparr>ps_stage := Some ?nxt\<rparr>) ps) ?m1"
  proof (cases "ps_stage s = Some Preparing")
    case True
    then show ?thesis using transition_balanced [OF assms(1) True, of ?nxt "s\<lparr>ps_stage := Some ?nxt\<rparr>"] by simp
  next
    case False
    then show ?thesis using assms(1,2,3) prep_balanced_swap [of "s\<lparr>ps_stage := Some ?nxt\<rparr>" s] by (auto simp: prep_wf_def)
  qed
  from compiling_count_balanced [OF this, of s'] show ?thesis
    unfolding m' using assms(2,4) s' by (simp add: prep_wf_def)
qed

lemma compilation_finished_balanced:
  assumes "prep_balanced w (add_mset s ps) m" "prep_wf s" "ps_compilation_started_at s \<noteq> None"
    and "prep_compilation_finished u (s, m) = (s', m')"
  shows "prep_balanced w (add_mset s' ps) m' \<and> prep_wf s' \<and> ps_compilation_started_at s' = None
    \<and> ps_stage s' \<in> {Some Preparing, Some Terminating} \<and> ps_cancellation s' = ps_cancellation s"
proof -
  obtain s1 m1 where c: "control_compilation_finished u (s, m) = (s1, m1)" by fastforce
  note b = control_finished_balanced [OF assms(1,3) c]
  show ?thesis
  proof (cases "ps_stage s = Some Compiling")
    case True
    then have "s' = s1\<lparr>ps_stage := Some Preparing\<rparr>" "m' = prep_transition Compiling Preparing m1"
      using assms(4) b by (auto simp: prep_compilation_finished_def c)
    then show ?thesis
      using transition_balanced [of w s1 ps m1 Compiling Preparing s'] b True by (auto simp: prep_wf_def)
  next
    case False
    then show ?thesis using assms(2,3,4) b by (auto simp: prep_compilation_finished_def c prep_wf_def)
  qed
qed

lemma finish_balanced:
  "prep_balanced w (add_mset s ps) m \<Longrightarrow> prep_balanced w (add_mset (prep_finish u s) ps) m"
  "prep_wf s \<Longrightarrow> prep_wf (prep_finish u s)"
  by (simp_all add: prep_finish_def prep_balanced_def prep_wf_def)

lemma exit_balanced:
  assumes "prep_balanced w (add_mset s ps) m" "ps_stage s = Some st" "ps_compilation_started_at s = None"
  shows "prep_balanced w ps
    ((prep_publish (prep_decrement (work_index st) m))\<lparr>pm_finished := inc_label (prep_label u) (pm_finished m)\<rparr>)"
proof -
  have "prep_sound {} (prep_publish (prep_decrement (work_index st) m))"
    by (rule prep_republish [of m]; insert assms(1,2); cases st)
      (auto simp: prep_balanced_def prep_count_defs prep_occupancy_work less_4)
  moreover have "finished_sum ((prep_publish (prep_decrement (work_index st) m))\<lparr>pm_finished := inc_label (prep_label u) (pm_finished m)\<rparr>)
      = Suc (finished_sum m)"
    unfolding finished_sum_inc by (simp add: finished_sum_def)
  ultimately show ?thesis
    using assms by (cases st) (simp_all add: prep_balanced_def prep_count_defs prep_sound_def prep_base_def
        prep_published_def prep_breached_def)
qed

lemma drop_balanced:
  assumes "prep_balanced w (add_mset s ps) m" "prep_wf s" "prep_drop panicking (s, m) = (s', m')"
  shows "prep_balanced w ps m' \<and> ps_stage s' = None"
proof -
  obtain st where st: "ps_stage s = Some st" using assms(2) by (auto simp: prep_wf_def)
  let ?u = "case ps_cancellation s of Some u \<Rightarrow> u | None \<Rightarrow> if panicking then PrepPanic else ps_outcome s"
  obtain s1 m1 where c: "(if ps_compilation_started_at s \<noteq> None then control_compilation_finished ?u (s, m) else (s, m)) = (s1, m1)"
    by fastforce
  have b: "prep_balanced w (add_mset s1 ps) m1" "ps_stage s1 = Some st" "ps_compilation_started_at s1 = None"
    using assms(1) c st control_finished_balanced [OF assms(1), of ?u s1 m1] by (auto split: if_splits)
  let ?m2 = "if st = Queued then m1\<lparr>pm_queue_wait := Suc (pm_queue_wait m1)\<rparr> else m1"
  have "prep_balanced w (add_mset s1 ps) ?m2" by (rule prep_balanced_cong [OF b(1)]) simp_all
  moreover have "s' = s1\<lparr>ps_stage := None\<rparr>"
    "m' = (prep_publish (prep_decrement (work_index st) ?m2))\<lparr>pm_finished := inc_label (prep_label ?u) (pm_finished ?m2)\<rparr>"
    using assms(3) st c by (auto simp: prep_drop_def Let_def prep_decrement_def accounting_error_def split: option.splits)
  ultimately show ?thesis using exit_balanced [of w s1 ps ?m2 st ?u] b by simp
qed

lemma image_mset_single_iff: "image_mset f M = {#y#} \<longleftrightarrow> (\<exists>x. M = {#x#} \<and> f x = y)"
proof (cases M)
  case (add x N)
  then show ?thesis by auto
qed simp

subsection \<open>Steps of the ledger\<close>

record prep_ledger =
  pl :: prep_metrics
  pl_waiting :: nat
  pl_works :: "prep_state multiset"

definition prep_ledger_init :: "nat \<Rightarrow> nat \<Rightarrow> prep_ledger \<Rightarrow> bool" where
  "prep_ledger_init r a l \<longleftrightarrow> l = \<lparr>pl = prep_new r a, pl_waiting = 0, pl_works = {#}\<rparr>"

inductive prep_ledger_step :: "prep_ledger \<Rightarrow> prep_ledger \<Rightarrow> bool" where
  pl_submission: "prep_ledger_step l (l\<lparr>pl := snd (prep_submission (pl l)), pl_waiting := Suc (pl_waiting l)\<rparr>)"
| pl_admitted: "pl_waiting l = Suc n \<Longrightarrow> submission_admitted s (pl l) = (p, m) \<Longrightarrow>
    prep_ledger_step l (l\<lparr>pl := m, pl_waiting := n, pl_works := add_mset p (pl_works l)\<rparr>)"
| pl_abandoned: "pl_waiting l = Suc n \<Longrightarrow> \<not> sub_completed s \<Longrightarrow> sub_outcome s \<noteq> ''admitted'' \<Longrightarrow>
    prep_ledger_step l (l\<lparr>pl := submission_drop s (pl l), pl_waiting := n\<rparr>)"
| pl_terminate: "pl_works l = add_mset s ps \<Longrightarrow> prep_terminate u at (s, pl l) = (s', m) \<Longrightarrow>
    prep_ledger_step l (l\<lparr>pl := m, pl_works := add_mset s' ps\<rparr>)"
| pl_activate: "pl_works l = add_mset s ps \<Longrightarrow> ps_stage s = Some Queued \<Longrightarrow> prep_activate (s, pl l) = (s', m) \<Longrightarrow>
    prep_ledger_step l (l\<lparr>pl := m, pl_works := add_mset s' ps\<rparr>)"
| pl_compiling: "pl_works l = add_mset s ps \<Longrightarrow> ps_stage s \<in> {Some Preparing, Some Terminating} \<Longrightarrow>
    ps_compilation_started_at s = None \<Longrightarrow> prep_compiling now (s, pl l) = (s', m) \<Longrightarrow>
    prep_ledger_step l (l\<lparr>pl := m, pl_works := add_mset s' ps\<rparr>)"
| pl_compiled: "pl_works l = add_mset s ps \<Longrightarrow> ps_compilation_started_at s \<noteq> None \<Longrightarrow>
    prep_compilation_finished u (s, pl l) = (s', m) \<Longrightarrow>
    prep_ledger_step l (l\<lparr>pl := m, pl_works := add_mset s' ps\<rparr>)"
| pl_finish: "pl_works l = add_mset s ps \<Longrightarrow> prep_ledger_step l (l\<lparr>pl_works := add_mset (prep_finish u s) ps\<rparr>)"
| pl_drop: "pl_works l = add_mset s ps \<Longrightarrow> prep_drop panicking (s, pl l) = (s', m) \<Longrightarrow>
    prep_ledger_step l (l\<lparr>pl := m, pl_works := ps\<rparr>)"

definition prep_ledger_inv :: "prep_ledger \<Rightarrow> bool" where
  "prep_ledger_inv l \<longleftrightarrow> prep_balanced (pl_waiting l) (pl_works l) (pl l) \<and> (\<forall>s \<in># pl_works l. prep_wf s)"

lemma prep_ledger_init_inv: "prep_ledger_init r a l \<Longrightarrow> prep_ledger_inv l"
  by (simp add: prep_ledger_init_def prep_ledger_inv_def prep_balanced_def prep_new_def Let_def finished_sum_def
      prep_sound_def prep_base_def prep_published_def prep_breached_def prep_occupancy_def PREP_WORK_STATES_def
      PREP_CAPACITIES_def as_gauge_def all_less_4)

lemma prep_ledger_step_inv:
  assumes "prep_ledger_inv l" "prep_ledger_step l l'"
  shows "prep_ledger_inv l'"
  using assms(2,1)
proof cases
  case pl_submission
  then show ?thesis using assms(1) submission_balanced by (simp add: prep_ledger_inv_def)
next
  case (pl_admitted n s p m)
  then show ?thesis using assms(1) submission_admitted_balanced [of n "pl_works l" "pl l" s p m]
    by (simp add: prep_ledger_inv_def)
next
  case (pl_abandoned n s)
  then show ?thesis using assms(1) submission_drop_balanced by (simp add: prep_ledger_inv_def)
qed (auto simp: prep_ledger_inv_def finish_balanced
    dest: terminate_balanced activate_balanced compiling_balanced compilation_finished_balanced drop_balanced)

interpretation prep_ledger: invariant_system "prep_ledger_init r a" prep_ledger_step prep_ledger_inv for r a
  by unfold_locales (blast intro: prep_ledger_init_inv prep_ledger_step_inv)+

subsection \<open>Owners that keep to the limits\<close>

definition prep_within :: "prep_metrics \<Rightarrow> bool" where
  "prep_within m \<longleftrightarrow> (\<forall>k<4. prep_occupancy (pm_counts m) ! k \<le> pc_limits (pm_counts m) ! k)"

lemma record_quiet: "prep_within m \<Longrightarrow> k < 4 \<Longrightarrow> prep_record_capacity k m = m"
  by (auto simp: prep_within_def prep_record_capacity_def not_less)

lemma prep_count_limits [simp]:
  "pc_limits (pm_counts (prep_decrement k m)) = pc_limits (pm_counts m)"
  "pc_limits (pm_counts (prep_increment k m)) = pc_limits (pm_counts m)"
  "pc_limits (pm_counts (prep_decrement_compiling m)) = pc_limits (pm_counts m)"
  "pm_breaches (prep_decrement k m) = pm_breaches m"
  "pm_breaches (prep_increment k m) = pm_breaches m"
  "pm_breaches (prep_decrement_compiling m) = pm_breaches m"
  by (simp_all add: prep_count_defs accounting_error_def split: option.split)

lemma prep_within_record [simp]: "prep_within (prep_record_capacity k m) = prep_within m"
  by (simp add: prep_within_def)

lemma transition_quiet:
  "pc_limits (pm_counts (prep_transition from to m)) = pc_limits (pm_counts m)"
  "prep_within (prep_transition from to m) \<or> to \<noteq> Preparing \<or> from \<noteq> Queued \<Longrightarrow>
     pm_breaches (prep_transition from to m) = pm_breaches m"
  by (auto simp: prep_transition_def Let_def record_quiet split: if_splits)

lemma control_finished_quiet:
  "pc_limits (pm_counts (snd (control_compilation_finished u (s, m)))) = pc_limits (pm_counts m)"
  "pm_breaches (snd (control_compilation_finished u (s, m))) = pm_breaches m"
  by (simp_all add: control_compilation_finished_def accounting_error_def Let_def split: option.split)

lemma submission_complete_quiet [simp]:
  "pc_limits (pm_counts (submission_complete s m)) = pc_limits (pm_counts m)"
  "pm_breaches (submission_complete s m) = pm_breaches m"
  by (simp_all add: submission_complete_def Let_def)

lemma submission_quiet:
  "pc_limits (pm_counts (snd (prep_submission m))) = pc_limits (pm_counts m)"
  "pm_breaches (snd (prep_submission m)) = pm_breaches m"
  "pc_limits (pm_counts (submission_drop s m)) = pc_limits (pm_counts m)"
  "pm_breaches (submission_drop s m) = pm_breaches m"
  "pc_limits (pm_counts (snd (submission_admitted s m))) = pc_limits (pm_counts m)"
  "prep_within (snd (submission_admitted s m)) \<Longrightarrow> pm_breaches (snd (submission_admitted s m)) = pm_breaches m"
  by (simp_all add: prep_submission_def submission_drop_def submission_admitted_def Let_def record_quiet)

lemma work_quiet:
  "pc_limits (pm_counts (snd (prep_terminate u at (s, m)))) = pc_limits (pm_counts m)"
  "pm_breaches (snd (prep_terminate u at (s, m))) = pm_breaches m"
  "pc_limits (pm_counts (snd (prep_activate (s, m)))) = pc_limits (pm_counts m)"
  "prep_within (snd (prep_activate (s, m))) \<Longrightarrow> pm_breaches (snd (prep_activate (s, m))) = pm_breaches m"
  by (auto simp: prep_terminate_def prep_activate_def accounting_error_def transition_quiet Let_def
      split: option.split if_splits)

lemma compile_quiet:
  "pc_limits (pm_counts (snd (prep_compiling now (s, m)))) = pc_limits (pm_counts m)"
  "prep_within (snd (prep_compiling now (s, m))) \<Longrightarrow> pm_breaches (snd (prep_compiling now (s, m))) = pm_breaches m"
  "pc_limits (pm_counts (snd (prep_compilation_finished u (s, m)))) = pc_limits (pm_counts m)"
  "pm_breaches (snd (prep_compilation_finished u (s, m))) = pm_breaches m"
  using control_finished_quiet [of u s m]
  by (auto simp: prep_compiling_def prep_compilation_finished_def accounting_error_def transition_quiet record_quiet
      Let_def split: prod.splits if_splits)

lemma drop_quiet:
  "pc_limits (pm_counts (snd (prep_drop b (s, m)))) = pc_limits (pm_counts m)"
  "pm_breaches (snd (prep_drop b (s, m))) = pm_breaches m"
proof -
  have "pc_limits (pm_counts (snd (prep_drop b (s, m)))) = pc_limits (pm_counts m) \<and>
      pm_breaches (snd (prep_drop b (s, m))) = pm_breaches m"
    using control_finished_quiet [of "case ps_cancellation s of Some u \<Rightarrow> u | None \<Rightarrow> if b then PrepPanic else ps_outcome s" s m]
    by (auto simp: prep_drop_def Let_def split: option.splits prod.splits if_splits)
  then show "pc_limits (pm_counts (snd (prep_drop b (s, m)))) = pc_limits (pm_counts m)"
    "pm_breaches (snd (prep_drop b (s, m))) = pm_breaches m" by simp_all
qed

lemma prep_ledger_step_limits:
  assumes "prep_ledger_step l l'"
  shows "pc_limits (pm_counts (pl l')) = pc_limits (pm_counts (pl l))"
  using assms
  by cases (auto simp: submission_quiet dest!: arg_cong [where f = snd],
      (metis submission_quiet work_quiet compile_quiet drop_quiet)+)

lemma prep_ledger_step_quiet:
  assumes "prep_ledger_step l l'" "prep_within (pl l')"
  shows "pm_breaches (pl l') = pm_breaches (pl l)"
  using assms
  by cases (auto simp: submission_quiet dest!: arg_cong [where f = snd],
      (metis submission_quiet work_quiet compile_quiet drop_quiet)+)

text \<open>The owners are within the limits on records and on active work.\<close>

definition owners_within :: "nat \<Rightarrow> nat \<Rightarrow> prep_state multiset \<Rightarrow> bool" where
  "owners_within r a ps \<longleftrightarrow> size ps \<le> r \<and> size ps - staged Queued ps \<le> a \<and> compilations ps \<le> a"

definition prep_bounded_step :: "nat \<Rightarrow> nat \<Rightarrow> prep_ledger \<Rightarrow> prep_ledger \<Rightarrow> bool" where
  "prep_bounded_step r a l l' \<longleftrightarrow> prep_ledger_step l l' \<and> owners_within r a (pl_works l')"

definition prep_bounded_inv :: "nat \<Rightarrow> nat \<Rightarrow> prep_ledger \<Rightarrow> bool" where
  "prep_bounded_inv r a l \<longleftrightarrow> prep_ledger_inv l \<and> owners_within r a (pl_works l) \<and>
     pc_limits (pm_counts (pl l)) = [r, a, r, a] \<and> pm_breaches (pl l) = (\<lambda>_. 0)"

lemma prep_ledger_occupancy:
  assumes "prep_ledger_inv l"
  shows "prep_occupancy (pm_counts (pl l)) =
    (let works = pl_works l;
         active = staged Preparing works + staged Compiling works + staged Terminating works
     in [staged Queued works, active, staged Queued works + active, compilations works])"
  using assms by (simp add: prep_ledger_inv_def prep_balanced_def prep_occupancy_def Let_def)

lemma staged_total:
  "(\<forall>s \<in># ps. ps_stage s \<noteq> None) \<Longrightarrow>
     staged Queued ps + (staged Preparing ps + staged Compiling ps + staged Terminating ps) = size ps"
proof (induction ps)
  case (add s ps)
  then obtain st where "ps_stage s = Some st" by auto
  with add show ?case by (cases st) simp_all
qed simp

lemma owners_within_metrics:
  assumes "prep_ledger_inv l" "owners_within r a (pl_works l)" "pc_limits (pm_counts (pl l)) = [r, a, r, a]"
  shows "prep_within (pl l)"
proof -
  have "\<forall>s \<in># pl_works l. ps_stage s \<noteq> None" using assms(1) by (auto simp: prep_ledger_inv_def prep_wf_def)
  from staged_total [OF this] show ?thesis
    using assms by (auto simp: prep_within_def prep_ledger_occupancy Let_def owners_within_def all_less_4)
qed

interpretation prep_bounded: invariant_system "prep_ledger_init r a" "prep_bounded_step r a" "prep_bounded_inv r a" for r a
proof unfold_locales
  fix l
  assume "prep_ledger_init r a l"
  then show "prep_bounded_inv r a l"
    using prep_ledger_init_inv [of r a l]
    by (simp add: prep_bounded_inv_def prep_ledger_init_def prep_new_def owners_within_def Let_def)
next
  fix l l'
  assume l: "prep_bounded_inv r a l" and step: "prep_bounded_step r a l l'"
  have inv': "prep_ledger_inv l'" and lim: "pc_limits (pm_counts (pl l')) = [r, a, r, a]"
    using l step prep_ledger_step_inv [of l l'] prep_ledger_step_limits [of l l']
    by (simp_all add: prep_bounded_inv_def prep_bounded_step_def)
  have "prep_within (pl l')"
    using owners_within_metrics [OF inv' _ lim] step by (simp add: prep_bounded_step_def)
  then show "prep_bounded_inv r a l'"
    using inv' lim l step prep_ledger_step_quiet [of l l'] by (simp add: prep_bounded_inv_def prep_bounded_step_def)
qed

section \<open>Properties\<close>

text \<open>
  C33 (invariant). However submissions are admitted, time out or are dropped, and however the worker
  of a preparation and its control handle interleave, the published gauges are the numbers of
  submissions and preparations in each state and of running compilations, no accounting error is
  ever reported, every admitted preparation is live or counted exactly once as finished, the
  published high-water marks cover the occupancy, and a breach is on the counters whenever an
  occupancy is above its limit and only if its high-water mark went above it.
\<close>

theorem preparation_accounting_exact:
  assumes "reaches (prep_ledger_init r a) prep_ledger_step l" "k < 4"
  shows "map (pm_work (pl l)) PREP_WORK_STATES =
      map as_gauge (pl_waiting l # map (\<lambda>st. staged st (pl_works l)) [Queued, Preparing, Compiling, Terminating])
    \<and> map (pm_occupancy (pl l)) PREP_CAPACITIES =
        map as_gauge [staged Queued (pl_works l), size (pl_works l) - staged Queued (pl_works l),
          size (pl_works l), compilations (pl_works l)]
    \<and> pm_errors (pl l) = (\<lambda>_. 0)
    \<and> pm_submissions (pl l) ''admitted'' = size (pl_works l) + finished_sum (pl l)
    \<and> prep_occupancy (pm_counts (pl l)) ! k \<le> pc_high_water (pm_counts (pl l)) ! k
    \<and> pm_high_water (pl l) (PREP_CAPACITIES ! k) = as_gauge (pc_high_water (pm_counts (pl l)) ! k)
    \<and> (pc_limits (pm_counts (pl l)) ! k < prep_occupancy (pm_counts (pl l)) ! k \<longrightarrow>
        0 < pm_breaches (pl l) (PREP_CAPACITIES ! k))
    \<and> (0 < pm_breaches (pl l) (PREP_CAPACITIES ! k) \<longrightarrow>
        pc_limits (pm_counts (pl l)) ! k < pc_high_water (pm_counts (pl l)) ! k)"
proof -
  have inv: "prep_ledger_inv l" using prep_ledger.inv_reaches [OF assms(1)] .
  then have b: "prep_balanced (pl_waiting l) (pl_works l) (pl l)" and wf: "\<forall>s \<in># pl_works l. ps_stage s \<noteq> None"
    by (auto simp: prep_ledger_inv_def prep_wf_def)
  then have sound: "prep_base (pl l)" "prep_published (pl l)" "prep_breached {} (pl l)"
    by (simp_all add: prep_balanced_def prep_sound_def)
  have len: "length PREP_CAPACITIES = 4" by (simp add: PREP_CAPACITIES_def)
  have "pm_high_water (pl l) (PREP_CAPACITIES ! k) = as_gauge (pc_high_water (pm_counts (pl l)) ! k)"
    using assms(2) sound(1) len by (auto simp: prep_base_def dest!: arg_cong [where f = "\<lambda>xs. xs ! k"])
  moreover have "staged Preparing (pl_works l) + staged Compiling (pl_works l) + staged Terminating (pl_works l)
      = size (pl_works l) - staged Queued (pl_works l)"
    using staged_total [OF wf] by simp
  ultimately show ?thesis
    using b sound assms(2) prep_ledger_occupancy [OF inv] staged_total [OF wf]
    by (simp add: prep_balanced_def prep_base_def prep_published_def prep_breached_def Let_def)
qed

text \<open>A preparation that is terminated while it compiles, and whose compiler then returns.\<close>

lemma sample_preparation:
  "\<exists>l. reaches (prep_ledger_init 2 1) prep_ledger_step l \<and> pl_waiting l = 0
     \<and> image_mset ps_stage (pl_works l) = {#Some Terminating#}"
proof -
  define l0 where "l0 = \<lparr>pl = prep_new 2 1, pl_waiting = 0, pl_works = {#}\<rparr>"
  have r0: "reaches (prep_ledger_init 2 1) prep_ledger_step l0" by (rule reaches_init) (simp add: prep_ledger_init_def l0_def)
  define l1 where "l1 = l0\<lparr>pl := snd (prep_submission (pl l0)), pl_waiting := Suc (pl_waiting l0)\<rparr>"
  have r1: "reaches (prep_ledger_init 2 1) prep_ledger_step l1"
    using r0 prep_ledger_step.pl_submission unfolding l1_def by (rule reaches_step)
  let ?p = "\<lparr>ps_stage = Some Queued, ps_compilation_started_at = None, ps_terminating_at = None,
      ps_cancellation = None, ps_outcome = PrepCancelled\<rparr>"
  obtain m where m: "submission_admitted (fst (prep_submission (pl l0))) (pl l1) = (?p, m)"
    by (simp add: submission_admitted_def Let_def)
  define l2 where "l2 = l1\<lparr>pl := m, pl_waiting := 0, pl_works := add_mset ?p (pl_works l1)\<rparr>"
  have r2: "reaches (prep_ledger_init 2 1) prep_ledger_step l2"
    unfolding l2_def by (rule reaches_step [OF r1], rule prep_ledger_step.pl_admitted [OF _ m]) (simp add: l1_def l0_def)
  obtain m3 where m3: "prep_activate (?p, m) = (?p\<lparr>ps_stage := Some Preparing\<rparr>, m3)" by (simp add: prep_activate_def)
  have r3: "reaches (prep_ledger_init 2 1) prep_ledger_step
      (l2\<lparr>pl := m3, pl_works := add_mset (?p\<lparr>ps_stage := Some Preparing\<rparr>) {#}\<rparr>)"
    by (rule reaches_step [OF r2], rule prep_ledger_step.pl_activate [of _ ?p])
      (insert m3, simp_all add: l2_def l1_def l0_def)
  obtain s4 m4 where m4: "prep_terminate PrepTimeout 30 (?p\<lparr>ps_stage := Some Preparing\<rparr>, m3) = (s4, m4)"
      "ps_stage s4 = Some Terminating"
    by (simp add: prep_terminate_def)
  have "reaches (prep_ledger_init 2 1) prep_ledger_step (l2\<lparr>pl := m4, pl_works := add_mset s4 {#}\<rparr>)"
    using prep_ledger_step.pl_terminate [of "l2\<lparr>pl := m3, pl_works := add_mset (?p\<lparr>ps_stage := Some Preparing\<rparr>) {#}\<rparr>"] m4(1)
    by (intro reaches_step [OF r3]) fastforce
  with m4(2) show ?thesis
    by (intro exI [of _ "l2\<lparr>pl := m4, pl_works := add_mset s4 {#}\<rparr>"]) (simp add: l2_def)
qed

theorem preparation_accounting_exact_witness:
  "\<exists>l. reaches (prep_ledger_init 2 1) prep_ledger_step l \<and> pm_errors (pl l) = (\<lambda>_. 0)
     \<and> pm_work (pl l) ''terminating'' = 1 \<and> pm_submissions (pl l) ''admitted'' = Suc (finished_sum (pl l))"
proof -
  obtain l where r: "reaches (prep_ledger_init 2 1) prep_ledger_step l"
    and works: "image_mset ps_stage (pl_works l) = {#Some Terminating#}"
    using sample_preparation by blast
  obtain s where s: "pl_works l = {#s#}" "ps_stage s = Some Terminating"
    using works by (auto simp: image_mset_single_iff)
  show ?thesis
    using preparation_accounting_exact [OF r, of 0] r s
    by (intro exI [of _ l]) (simp add: PREP_WORK_STATES_def as_gauge_def)
qed

end
