(* ===== verification/AppRegistry.thy ===== *)
theory AppRegistry
  imports Prelude "HOL-Library.Char_ord" "HOL-Library.List_Lexorder" "HOL-Library.Product_Lexorder"
begin

text \<open>
  \<open>src/components/execution-host/src/config.rs\<close>: the registry that maps every NATS topic to the
  function it dispatches to, the application of full snapshots and incremental updates to it, and
  the plan of module and pool changes each of them returns. The message types are those of
  \<open>proto/configsync/v1/configsync.proto\<close> with the fields the host reads. The lock around the map
  is poisoned when a writer panicked; every operation then returns the error of the source.
\<close>

section \<open>Definitions\<close>

datatype world_type = WorldMessage | WorldHttp

record metric_definition =
  md_name :: string
  md_type :: int
  md_label_keys :: "string list"

record sql_user_config =
  su_username :: string
  su_connection_url :: string

record function_config =
  fc_name :: string
  fc_module_ref :: string
  fc_world_type :: int
  fc_topic :: "string option"
  fc_sql_username :: "string option"

record application_config =
  ac_name :: string
  ac_namespace :: string
  ac_functions :: "function_config list"
  ac_sql_users :: "sql_user_config list"
  ac_key_value :: bool
  ac_metrics :: "metric_definition list"

record app_update =
  au_app_config :: "application_config option"
  au_delete :: bool

record function_entry =
  fe_app_name :: string
  fe_app_namespace :: string
  fe_function_name :: string
  fe_module_ref :: string
  fe_world_type :: world_type
  fe_sql_username :: "string option"
  fe_kv_enabled :: bool
  fe_metrics :: "metric_definition list"

record config_diff =
  modules_to_load :: "(string \<times> string \<times> string \<times> string) list"
  modules_to_evict :: "(string \<times> string \<times> string) list"
  pools_to_create :: "(string \<times> string \<times> string \<times> string) list"
  pools_to_evict_apps :: "(string \<times> string) list"

record app_registry =
  reg_entries :: "(string, function_entry) hash_map"
  reg_poisoned :: bool

definition app_registry_new :: app_registry where
  "app_registry_new = \<lparr>reg_entries = [], reg_poisoned = False\<rparr>"

text \<open>\<open>WorldType::try_from\<close>, generated from the protocol's enumeration.\<close>

definition world_type_try_from :: "int \<Rightarrow> world_type option" where
  "world_type_try_from n = (if n = 0 then Some WorldMessage else if n = 1 then Some WorldHttp else None)"

definition function_entry_from :: "application_config \<Rightarrow> function_config \<Rightarrow> function_entry" where
  "function_entry_from app f =
     \<lparr>fe_app_name = ac_name app, fe_app_namespace = ac_namespace app, fe_function_name = fc_name f,
      fe_module_ref = fc_module_ref f,
      fe_world_type = (case world_type_try_from (fc_world_type f) of Some w \<Rightarrow> w | None \<Rightarrow> WorldMessage),
      fe_sql_username = fc_sql_username f, fe_kv_enabled = ac_key_value app, fe_metrics = ac_metrics app\<rparr>"

definition entry_key :: "function_entry \<Rightarrow> string \<times> string \<times> string" where
  "entry_key e = (fe_app_namespace e, fe_app_name e, fe_function_name e)"

definition entry_load :: "function_entry \<Rightarrow> string \<times> string \<times> string \<times> string" where
  "entry_load e = (fe_app_namespace e, fe_app_name e, fe_function_name e, fe_module_ref e)"

definition of_app :: "application_config \<Rightarrow> function_entry \<Rightarrow> bool" where
  "of_app app e \<longleftrightarrow> fe_app_namespace e = ac_namespace app \<and> fe_app_name e = ac_name app"

definition app_pools :: "application_config \<Rightarrow> (string \<times> string \<times> string \<times> string) list" where
  "app_pools app =
     map (\<lambda>u. (ac_namespace app, ac_name app, su_username u, su_connection_url u)) (ac_sql_users app)"

text \<open>The loop over the functions of one application: those with a topic are inserted in order.\<close>

fun insert_functions ::
  "application_config \<Rightarrow> function_config list \<Rightarrow> (string, function_entry) hash_map
     \<Rightarrow> (string, function_entry) hash_map" where
  "insert_functions app [] m = m"
| "insert_functions app (f # fs) m =
     insert_functions app fs
       (case fc_topic f of Some t \<Rightarrow> hm_insert t (function_entry_from app f) m | None \<Rightarrow> m)"

definition apply_full_config ::
  "application_config list \<Rightarrow> app_registry \<Rightarrow> config_diff anyhow \<times> app_registry" where
  "apply_full_config apps reg =
     (if reg_poisoned reg then (Inl ''AppRegistry lock poisoned'', reg)
      else
        (let incoming = fold (\<lambda>app m. insert_functions app (ac_functions app) m) apps [];
             create = concat (map app_pools apps);
             evict = map (entry_key \<circ> snd) (filter (\<lambda>(t, _). hm_get incoming t = None) (reg_entries reg));
             evict_apps = remdups_adj (sort (map (\<lambda>(ns, app, _). (ns, app)) evict));
             load = map (entry_load \<circ> snd) incoming
         in (Inr \<lparr>modules_to_load = load, modules_to_evict = evict, pools_to_create = create,
                  pools_to_evict_apps = evict_apps\<rparr>,
             reg\<lparr>reg_entries := fold (\<lambda>(t, e). hm_insert t e) incoming []\<rparr>)))"

text \<open>The two removal loops of \<open>apply_incremental\<close>: every entry of the application leaves the map.\<close>

definition app_topics :: "application_config \<Rightarrow> (string, function_entry) hash_map \<Rightarrow> string list" where
  "app_topics app m = map fst (filter (\<lambda>(_, e). of_app app e) m)"

fun remove_topics ::
  "string list \<Rightarrow> (string, function_entry) hash_map
     \<Rightarrow> (string \<times> string \<times> string) list \<times> (string, function_entry) hash_map" where
  "remove_topics [] m = ([], m)"
| "remove_topics (t # ts) m =
     (case hm_get m t of
        Some old \<Rightarrow> apfst ((#) (entry_key old)) (remove_topics ts (hm_remove t m))
      | None \<Rightarrow> remove_topics ts m)"

text \<open>The modules of other applications whose topic an upserted application takes over.\<close>

definition taken_over ::
  "application_config \<Rightarrow> (string, function_entry) hash_map \<Rightarrow> (string \<times> string \<times> string) list" where
  "taken_over app m =
     concat (map (\<lambda>f.
       (case fc_topic f of
          None \<Rightarrow> []
        | Some t \<Rightarrow>
            (case hm_get m t of
               None \<Rightarrow> []
             | Some old \<Rightarrow> if of_app app old then [] else [entry_key old])))
       (ac_functions app))"

definition functions_to_load :: "application_config \<Rightarrow> (string \<times> string \<times> string \<times> string) list" where
  "functions_to_load app =
     map (\<lambda>f. entry_load (function_entry_from app f)) (filter (\<lambda>f. fc_topic f \<noteq> None) (ac_functions app))"

definition apply_update ::
  "app_update \<Rightarrow> config_diff \<times> (string, function_entry) hash_map
     \<Rightarrow> config_diff \<times> (string, function_entry) hash_map" where
  "apply_update u = (\<lambda>(diff, m).
     (case au_app_config u of
        None \<Rightarrow> (diff, m)
      | Some app \<Rightarrow>
          (case remove_topics (app_topics app m) m of
             (evicted, m) \<Rightarrow>
               if au_delete u
               then (diff\<lparr>modules_to_evict := modules_to_evict diff @ evicted,
                          pools_to_evict_apps := pools_to_evict_apps diff @ [(ac_namespace app, ac_name app)]\<rparr>, m)
               else (diff\<lparr>modules_to_load := modules_to_load diff @ functions_to_load app,
                          modules_to_evict := modules_to_evict diff @ evicted @ taken_over app m,
                          pools_to_create := pools_to_create diff @ app_pools app,
                          pools_to_evict_apps := pools_to_evict_apps diff @ [(ac_namespace app, ac_name app)]\<rparr>,
                     insert_functions app (ac_functions app) m))))"

definition empty_diff :: config_diff where
  "empty_diff = \<lparr>modules_to_load = [], modules_to_evict = [], pools_to_create = [], pools_to_evict_apps = []\<rparr>"

definition apply_incremental :: "app_update list \<Rightarrow> app_registry \<Rightarrow> config_diff anyhow \<times> app_registry" where
  "apply_incremental updates reg =
     (if reg_poisoned reg then (Inl ''AppRegistry lock poisoned'', reg)
      else
        (case fold apply_update updates (empty_diff, reg_entries reg) of
           (diff, m) \<Rightarrow> (Inr diff, reg\<lparr>reg_entries := m\<rparr>)))"

definition topics :: "app_registry \<Rightarrow> string list anyhow" where
  "topics reg = (if reg_poisoned reg then Inl ''AppRegistry lock poisoned'' else Inr (hm_keys (reg_entries reg)))"

definition get_by_topic :: "string \<Rightarrow> app_registry \<Rightarrow> function_entry option anyhow" where
  "get_by_topic t reg =
     (if reg_poisoned reg then Inl ''AppRegistry lock poisoned'' else Inr (hm_get (reg_entries reg) t))"

definition all_app_metric_defs ::
  "app_registry \<Rightarrow> (string \<times> string \<times> metric_definition list) list anyhow" where
  "all_app_metric_defs reg =
     (if reg_poisoned reg then Inl ''AppRegistry lock poisoned''
      else
        (let seen = fold (\<lambda>(_, e) seen.
               let key = (fe_app_namespace e, fe_app_name e) in
               case hm_get seen key of None \<Rightarrow> hm_insert key (fe_metrics e) seen | Some _ \<Rightarrow> seen)
             (reg_entries reg) []
         in Inr (map (\<lambda>((ns, name), defs). (ns, name, defs)) seen)))"

section \<open>The abstract registry\<close>

text \<open>
  What a configuration means: a partial map from topics to functions. An application owns its
  topics; an update removes what the application had and adds what it has now, later functions
  winning over earlier ones on one topic.
\<close>

definition app_functions :: "application_config \<Rightarrow> (string \<times> function_entry) list" where
  "app_functions app =
     concat (map (\<lambda>f. case fc_topic f of Some t \<Rightarrow> [(t, function_entry_from app f)] | None \<Rightarrow> [])
       (ac_functions app))"

definition without_app :: "application_config \<Rightarrow> (string \<rightharpoonup> function_entry) \<Rightarrow> string \<rightharpoonup> function_entry" where
  "without_app app M = (\<lambda>t. case M t of None \<Rightarrow> None | Some e \<Rightarrow> if of_app app e then None else Some e)"

fun spec_update :: "app_update \<Rightarrow> (string \<rightharpoonup> function_entry) \<Rightarrow> string \<rightharpoonup> function_entry" where
  "spec_update u M =
     (case au_app_config u of
        None \<Rightarrow> M
      | Some app \<Rightarrow>
          if au_delete u then without_app app M
          else without_app app M ++ map_of (rev (app_functions app)))"

definition spec_full :: "application_config list \<Rightarrow> string \<rightharpoonup> function_entry" where
  "spec_full apps = map_of (rev (concat (map app_functions apps)))"

lemma without_app_Some: "without_app app M t = Some e \<longleftrightarrow> M t = Some e \<and> \<not> of_app app e"
  by (auto simp: without_app_def split: option.splits)

lemma insert_functions_fold:
  "insert_functions app fs m =
     fold (\<lambda>(t, e). hm_insert t e)
       (concat (map (\<lambda>f. case fc_topic f of Some t \<Rightarrow> [(t, function_entry_from app f)] | None \<Rightarrow> []) fs)) m"
  by (induction fs arbitrary: m) (auto split: option.splits)

lemma insert_functions_app:
  "insert_functions app (ac_functions app) m = fold (\<lambda>(t, e). hm_insert t e) (app_functions app) m"
  by (simp add: insert_functions_fold app_functions_def)

lemma get_fold_insert:
  "hm_get (fold (\<lambda>(t, e). hm_insert t e) kvs m) = map_of m ++ map_of (rev kvs)"
  by (rule ext) (simp add: hm.lookup_upsert_all map_add_def)

lemma fold_insert_apps:
  "fold (\<lambda>app m. insert_functions app (ac_functions app) m) apps m =
     fold (\<lambda>(t, e). hm_insert t e) (concat (map app_functions apps)) m"
  by (induction apps arbitrary: m) (simp_all add: insert_functions_app)

lemma remove_topics_map: "snd (remove_topics ts m) = fold hm_remove ts m"
  by (induction ts m rule: remove_topics.induct) (auto simp: delete_id map_of_eq_None_iff split: option.splits)

lemma get_remove_app:
  assumes "hm_wf m"
  shows "hm_get (snd (remove_topics (app_topics app m) m)) = without_app app (map_of m)"
  by (rule ext)
    (auto simp: remove_topics_map hm.lookup_discard_all app_topics_def without_app_def image_iff
      hm_get_Some_iff [OF assms] split: option.splits dest: map_of_SomeD eq_key_imp_eq_value [OF assms])

lemma wf_remove_topics: "hm_wf m \<Longrightarrow> hm_wf (snd (remove_topics ts m))"
  by (simp add: remove_topics_map hm.wf_discard_all)

lemma wf_insert_functions: "hm_wf m \<Longrightarrow> hm_wf (insert_functions app fs m)"
  by (simp add: insert_functions_fold hm.wf_upsert_all)

lemma apply_update_refines:
  assumes "hm_wf m"
  shows "hm_wf (snd (apply_update u (diff, m)))"
    and "hm_get (snd (apply_update u (diff, m))) = spec_update u (hm_get m)"
  using assms
  by (auto simp: apply_update_def insert_functions_app get_fold_insert get_remove_app wf_remove_topics
      hm.wf_upsert_all split_beta split: option.splits)

lemma apply_updates_refine:
  assumes "hm_wf m"
  shows "hm_wf (snd (fold apply_update us (diff, m)))
    \<and> hm_get (snd (fold apply_update us (diff, m))) = fold spec_update us (hm_get m)"
  using assms
proof (induction us arbitrary: diff m)
  case Nil
  then show ?case by simp
next
  case (Cons u us)
  obtain diff' m' where s: "apply_update u (diff, m) = (diff', m')" by fastforce
  show ?case
    using Cons.IH [of m' diff'] apply_update_refines [OF Cons.prems, of u diff] s by simp
qed

lemma full_config_entries:
  assumes "\<not> reg_poisoned reg"
  shows "hm_get (reg_entries (snd (apply_full_config apps reg))) = spec_full apps"
    and "hm_wf (reg_entries (snd (apply_full_config apps reg)))"
proof -
  have wf: "hm_wf (fold (\<lambda>(t, e). hm_insert t e) kvs [])" for kvs :: "(string \<times> function_entry) list"
    by (rule hm.wf_upsert_all) simp
  have same: "map_of (rev (m :: (string, function_entry) hash_map)) = map_of m" if "hm_wf m" for m
    using that by (intro map_of_inject_set [THEN iffD2]) (simp_all add: rev_map [symmetric])
  show "hm_get (reg_entries (snd (apply_full_config apps reg))) = spec_full apps"
    using assms same [OF wf]
    by (simp add: apply_full_config_def fold_insert_apps Let_def get_fold_insert spec_full_def)
  show "hm_wf (reg_entries (snd (apply_full_config apps reg)))"
    using assms wf by (simp add: apply_full_config_def Let_def)
qed

lemma of_app_entry [simp]: "of_app app (function_entry_from app f)"
  by (simp add: of_app_def function_entry_from_def)

lemma set_app_functions:
  "(t, e) \<in> set (app_functions app) \<longleftrightarrow>
     (\<exists>f\<in>set (ac_functions app). fc_topic f = Some t \<and> e = function_entry_from app f)"
  by (force simp: app_functions_def split: option.splits)

lemma spec_full_owner:
  assumes "spec_full apps t = Some e"
  shows "\<exists>app\<in>set apps. of_app app e"
proof -
  have "(t, e) \<in> set (concat (map app_functions apps))"
    using map_of_SomeD [OF assms [unfolded spec_full_def]] by simp
  then obtain app f where "app \<in> set apps" "e = function_entry_from app f"
    by (auto simp: set_app_functions)
  then show ?thesis using of_app_entry by blast
qed

definition upsert_all :: "application_config list \<Rightarrow> app_update list" where
  "upsert_all apps = map (\<lambda>app. \<lparr>au_app_config = Some app, au_delete = False\<rparr>) apps"

lemma spec_full_snoc:
  assumes "(ac_namespace app, ac_name app) \<notin> (\<lambda>a. (ac_namespace a, ac_name a)) ` set apps"
  shows "spec_full (apps @ [app]) = spec_update \<lparr>au_app_config = Some app, au_delete = False\<rparr> (spec_full apps)"
proof -
  have "without_app app (spec_full apps) = spec_full apps"
    using assms spec_full_owner [of apps]
    by (intro ext) (auto simp: without_app_def of_app_def split: option.split dest!: spec_full_owner)
  then show ?thesis by (simp add: spec_full_def)
qed

lemma spec_full_incremental:
  assumes "distinct (map (\<lambda>a. (ac_namespace a, ac_name a)) apps)"
  shows "spec_full apps = fold spec_update (upsert_all apps) Map.empty"
  using assms
proof (induction apps rule: rev_induct)
  case Nil
  show ?case by (simp add: spec_full_def upsert_all_def)
next
  case (snoc app apps)
  then show ?case by (simp add: spec_full_snoc upsert_all_def del: spec_update.simps)
qed

section \<open>The module plan\<close>

definition reg_keys :: "(string \<rightharpoonup> function_entry) \<Rightarrow> (string \<times> string \<times> string) set" where
  "reg_keys M = entry_key ` ran M"

text \<open>What the plan does to a set of loaded modules: the evictions first, then the loads.\<close>

definition plan_modules ::
  "config_diff \<Rightarrow> (string \<times> string \<times> string) set \<Rightarrow> (string \<times> string \<times> string) set" where
  "plan_modules diff L =
     (L - set (modules_to_evict diff)) \<union> (\<lambda>(ns, app, f, _). (ns, app, f)) ` set (modules_to_load diff)"

text \<open>No function is registered under two topics.\<close>

definition one_topic :: "(string \<rightharpoonup> function_entry) \<Rightarrow> bool" where
  "one_topic M \<longleftrightarrow> (\<forall>t t' e e'. M t = Some e \<longrightarrow> M t' = Some e' \<longrightarrow> entry_key e = entry_key e' \<longrightarrow> t = t')"

lemma set_remove_topics:
  "distinct ts \<Longrightarrow> set (fst (remove_topics ts m)) = entry_key ` {e. \<exists>t\<in>set ts. map_of m t = Some e}"
proof (induction ts m rule: remove_topics.induct)
  case (1 m)
  show ?case by simp
next
  case (2 t ts m)
  have keep: "(\<exists>u\<in>set ts. map_of (hm_remove t m) u = Some e) \<longleftrightarrow> (\<exists>u\<in>set ts. map_of m u = Some e)" for e
    using 2(3) by (auto simp: delete_conv')
  show ?case
    using 2 keep by (cases "hm_get m t") auto
qed

lemma set_app_topics: "hm_wf m \<Longrightarrow> set (app_topics app m) = {t. \<exists>e. map_of m t = Some e \<and> of_app app e}"
  by (force simp: app_topics_def hm_get_Some_iff)

lemma distinct_app_topics: "hm_wf m \<Longrightarrow> distinct (app_topics app m)"
  by (induction m) (auto simp: app_topics_def)

lemma evicted_keys:
  assumes "hm_wf m"
  shows "set (fst (remove_topics (app_topics app m) m)) = entry_key ` {e \<in> ran (map_of m). of_app app e}"
  unfolding set_remove_topics [OF distinct_app_topics [OF assms]] set_app_topics [OF assms]
  by (auto simp: ran_def)

lemma set_concat_map_iff: "x \<in> set (concat (map g ys)) \<longleftrightarrow> (\<exists>y\<in>set ys. x \<in> set (g y))"
  by simp

lemma set_taken_over:
  "set (taken_over app m) =
     entry_key ` {e. \<exists>t e'. (t, e') \<in> set (app_functions app) \<and> map_of m t = Some e \<and> \<not> of_app app e}"
proof -
  have one: "x \<in> set (case t of None \<Rightarrow> [] | Some t \<Rightarrow> (case hm_get m t of None \<Rightarrow> []
        | Some old \<Rightarrow> if of_app app old then [] else [entry_key old])) \<longleftrightarrow>
      (\<exists>u old. t = Some u \<and> hm_get m u = Some old \<and> \<not> of_app app old \<and> x = entry_key old)" for x t
    by (cases t; cases "hm_get m (the t)") auto
  have "x \<in> set (taken_over app m) \<longleftrightarrow> (\<exists>f\<in>set (ac_functions app). \<exists>t old.
      fc_topic f = Some t \<and> map_of m t = Some old \<and> \<not> of_app app old \<and> x = entry_key old)" for x
    unfolding taken_over_def set_concat_map_iff one by simp
  then show ?thesis by (simp add: set_app_functions set_eq_iff image_iff) blast
qed

lemma loaded_keys:
  "(\<lambda>(ns, app, f, _). (ns, app, f)) ` set (functions_to_load app) =
     entry_key ` {e. \<exists>t. (t, e) \<in> set (app_functions app)}"
proof -
  have key: "(\<lambda>(ns, app, f, _). (ns, app, f)) (entry_load e) = entry_key e" for e
    by (simp add: entry_load_def entry_key_def)
  have "{e. \<exists>t. (t, e) \<in> set (app_functions app)} =
      function_entry_from app ` {f \<in> set (ac_functions app). fc_topic f \<noteq> None}"
    by (auto simp: set_app_functions)
  then show ?thesis
    by (simp add: functions_to_load_def image_image key)
qed

lemma of_app_key: "entry_key e = entry_key e' \<Longrightarrow> of_app app e = of_app app e'"
  by (auto simp: entry_key_def of_app_def)

lemma ran_upsert:
  assumes "distinct (map fst kvs)"
  shows "ran (M ++ map_of (rev kvs)) = {e. \<exists>t. (t, e) \<in> set kvs} \<union> {e. \<exists>t. M t = Some e \<and> t \<notin> fst ` set kvs}"
proof -
  have d: "distinct (map fst (rev kvs))" using assms by (simp add: rev_map [symmetric])
  have "(M ++ map_of (rev kvs)) t = Some e \<longleftrightarrow> (t, e) \<in> set kvs \<or> (M t = Some e \<and> t \<notin> fst ` set kvs)" for t e
    using map_of_eq_Some_iff [OF d, of t e] map_of_eq_None_iff [of "rev kvs" t]
    by (auto simp: map_add_Some_iff)
  then show ?thesis by (auto simp: ran_def)
qed

lemma untouched_keys:
  assumes one: "one_topic M"
  shows "entry_key ` ran M - (entry_key ` {e \<in> ran M. of_app app e} \<union>
      entry_key ` {e. \<exists>t. t \<in> T \<and> M t = Some e \<and> \<not> of_app app e}) =
      entry_key ` {e. \<exists>t. M t = Some e \<and> \<not> of_app app e \<and> t \<notin> T}"
    (is "?lhs = ?rhs")
proof
  show "?lhs \<subseteq> ?rhs"
  proof
    fix k
    assume k: "k \<in> ?lhs"
    then obtain e t where e: "k = entry_key e" "M t = Some e" by (auto simp: ran_def)
    have "\<not> of_app app e" using k e by (blast intro: ranI)
    moreover have "t \<notin> T" using k e calculation by blast
    ultimately show "k \<in> ?rhs" using e by blast
  qed
  show "?rhs \<subseteq> ?lhs"
  proof (rule subsetI, elim imageE CollectE exE conjE)
    fix k e t
    assume k: "k = entry_key e" and e: "M t = Some e" "\<not> of_app app e" "t \<notin> T"
    have "k \<notin> entry_key ` {e \<in> ran M. of_app app e}"
      using k e(2) of_app_key by blast
    moreover have "k \<notin> entry_key ` {e. \<exists>t. t \<in> T \<and> M t = Some e \<and> \<not> of_app app e}"
      using k e one unfolding one_topic_def by blast
    ultimately show "k \<in> ?lhs" using k e(1) by (blast intro: ranI)
  qed
qed

lemma upsert_plan:
  assumes wf: "hm_wf m" and one: "one_topic (hm_get m)" and d: "distinct (map fst (app_functions app))"
    and upd: "au_app_config u = Some app" "\<not> au_delete u"
    and res: "apply_update u (empty_diff, m) = (diff, m')"
  shows "plan_modules diff (reg_keys (hm_get m)) = reg_keys (hm_get m')"
proof -
  let ?M = "hm_get m" and ?N = "app_functions app"
  have M': "hm_get m' = without_app app ?M ++ map_of (rev ?N)"
    using apply_update_refines(2) [OF wf, of u empty_diff] res upd by simp
  have new: "reg_keys (hm_get m') = entry_key ` {e. \<exists>t. (t, e) \<in> set ?N} \<union>
      entry_key ` {e. \<exists>t. ?M t = Some e \<and> \<not> of_app app e \<and> t \<notin> fst ` set ?N}"
    unfolding reg_keys_def M' ran_upsert [OF d] image_Un without_app_Some by simp
  have taken: "set (taken_over app (snd (remove_topics (app_topics app m) m))) =
      entry_key ` {e. \<exists>t. t \<in> fst ` set ?N \<and> ?M t = Some e \<and> \<not> of_app app e}"
    unfolding set_taken_over get_remove_app [OF wf]
    by (rule arg_cong [where f = "image entry_key"]) (force simp: without_app_Some)
  have plan: "plan_modules diff (reg_keys ?M) = (entry_key ` ran ?M - (entry_key ` {e \<in> ran ?M. of_app app e} \<union>
      entry_key ` {e. \<exists>t. t \<in> fst ` set ?N \<and> ?M t = Some e \<and> \<not> of_app app e})) \<union>
      entry_key ` {e. \<exists>t. (t, e) \<in> set ?N}"
    using res upd unfolding plan_modules_def reg_keys_def taken [symmetric] evicted_keys [OF wf, symmetric]
      loaded_keys [symmetric]
    by (auto simp: apply_update_def empty_diff_def split_beta)
  show ?thesis unfolding plan new untouched_keys [OF one] by (simp only: Un_commute)
qed

lemma delete_plan:
  assumes wf: "hm_wf m" and upd: "au_app_config u = Some app" "au_delete u"
    and res: "apply_update u (empty_diff, m) = (diff, m')"
  shows "plan_modules diff (reg_keys (hm_get m)) = reg_keys (hm_get m')"
proof -
  have M': "hm_get m' = without_app app (hm_get m)"
    using apply_update_refines(2) [OF wf, of u empty_diff] res upd by simp
  have "plan_modules diff (reg_keys (hm_get m)) =
      entry_key ` ran (hm_get m) - entry_key ` {e \<in> ran (hm_get m). of_app app e}"
    using res upd unfolding plan_modules_def reg_keys_def evicted_keys [OF wf, symmetric]
    by (auto simp: apply_update_def empty_diff_def split_beta)
  also have "\<dots> = reg_keys (hm_get m')"
    using of_app_key unfolding M' reg_keys_def ran_def without_app_Some by blast
  finally show ?thesis .
qed

section \<open>Properties\<close>

text \<open>
  C38 (refinement). The registry implements the abstract topic map: a full snapshot replaces it by
  the functions of the snapshot, an incremental batch applies its updates in order, the lookup by
  topic reads it, and the topics listed are exactly its domain.
\<close>

theorem registry_refines:
  assumes "hm_wf (reg_entries reg)" "\<not> reg_poisoned reg"
  shows "hm_get (reg_entries (snd (apply_full_config apps reg))) = spec_full apps
    \<and> hm_get (reg_entries (snd (apply_incremental us reg))) = fold spec_update us (hm_get (reg_entries reg))
    \<and> hm_wf (reg_entries (snd (apply_full_config apps reg))) \<and> hm_wf (reg_entries (snd (apply_incremental us reg)))
    \<and> get_by_topic t reg = Inr (hm_get (reg_entries reg) t)
    \<and> (\<exists>ts. topics reg = Inr ts \<and> distinct ts \<and> set ts = dom (hm_get (reg_entries reg)))"
  using assms full_config_entries [OF assms(2), of apps] apply_updates_refine [OF assms(1), of us empty_diff]
  by (simp add: apply_incremental_def get_by_topic_def topics_def split_beta dom_map_of_conv_image_fst
      del: spec_update.simps)

definition sample_app :: "string \<Rightarrow> string \<Rightarrow> application_config" where
  "sample_app name t =
     \<lparr>ac_name = name, ac_namespace = ''ns'',
      ac_functions = [\<lparr>fc_name = ''f'', fc_module_ref = ''ref'', fc_world_type = 0, fc_topic = Some t,
        fc_sql_username = None\<rparr>],
      ac_sql_users = [\<lparr>su_username = ''u'', su_connection_url = ''url1''\<rparr>], ac_key_value = False, ac_metrics = []\<rparr>"

theorem registry_refines_witness:
  "hm_get (reg_entries (snd (apply_incremental
      [\<lparr>au_app_config = Some (sample_app ''a'' ''t''), au_delete = False\<rparr>] app_registry_new))) ''t''
   = Some (function_entry_from (sample_app ''a'' ''t'') (hd (ac_functions (sample_app ''a'' ''t''))))"
  using registry_refines [of app_registry_new "[]"
      "[\<lparr>au_app_config = Some (sample_app ''a'' ''t''), au_delete = False\<rparr>]" "''t''"]
  by (simp add: app_registry_new_def app_functions_def sample_app_def without_app_def)

text \<open>
  C39 (equivalence). A snapshot and the stream agree: applying the full configuration gives the same
  topic map as upserting its applications one by one into an empty registry, whenever the
  snapshot names every application once.
\<close>

theorem full_equals_incremental:
  assumes "distinct (map (\<lambda>a. (ac_namespace a, ac_name a)) apps)" "\<not> reg_poisoned reg"
  shows "hm_get (reg_entries (snd (apply_full_config apps reg))) =
    hm_get (reg_entries (snd (apply_incremental (upsert_all apps) app_registry_new)))"
  using full_config_entries(1) [OF assms(2), of apps] spec_full_incremental [OF assms(1)]
    apply_updates_refine [of "[]" "upsert_all apps" empty_diff]
  by (simp add: apply_incremental_def app_registry_new_def split_beta del: spec_update.simps)

theorem full_equals_incremental_witness:
  "hm_get (reg_entries (snd (apply_full_config [sample_app ''a'' ''t'', sample_app ''b'' ''s''] app_registry_new))) =
   hm_get (reg_entries (snd (apply_incremental (upsert_all [sample_app ''a'' ''t'', sample_app ''b'' ''s''])
     app_registry_new)))"
  using full_equals_incremental [of "[sample_app ''a'' ''t'', sample_app ''b'' ''s'']" app_registry_new]
  by (simp add: sample_app_def app_registry_new_def)



text \<open>
  The eviction plan of a full snapshot is decided by topics alone: it evicts exactly
  the functions whose topic the snapshot does not list. In particular a function that lost its
  topic to another application is not evicted, although no topic refers to it any more.
\<close>

theorem full_plan_by_topic:
  assumes "hm_wf (reg_entries reg)" "\<not> reg_poisoned reg" "apply_full_config apps reg = (Inr diff, reg')"
  shows "set (modules_to_evict diff) = entry_key ` {e. \<exists>t. hm_get (reg_entries reg) t = Some e \<and> spec_full apps t = None}
    \<and> (one_topic (hm_get (reg_entries reg)) \<longrightarrow> hm_get (reg_entries reg) t = Some e \<longrightarrow> spec_full apps t \<noteq> None \<longrightarrow>
        entry_key e \<notin> set (modules_to_evict diff))"
proof -
  let ?in = "fold (\<lambda>app m. insert_functions app (ac_functions app) m) apps []"
  have inc: "hm_get ?in = spec_full apps" by (simp add: fold_insert_apps get_fold_insert spec_full_def)
  have "modules_to_evict diff = map (entry_key \<circ> snd) (filter (\<lambda>(t, _). hm_get ?in t = None) (reg_entries reg))"
    using assms(2,3) by (auto simp: apply_full_config_def Let_def)
  then have ev: "set (modules_to_evict diff) =
      entry_key ` {e. \<exists>t. hm_get (reg_entries reg) t = Some e \<and> spec_full apps t = None}"
    unfolding inc hm_get_Some_iff [OF assms(1)] by force
  moreover have "entry_key e \<notin> set (modules_to_evict diff)"
    if "one_topic (hm_get (reg_entries reg))" "hm_get (reg_entries reg) t = Some e" "spec_full apps t \<noteq> None"
  proof
    assume "entry_key e \<in> set (modules_to_evict diff)"
    then obtain e' t' where e': "entry_key e = entry_key e'" "hm_get (reg_entries reg) t' = Some e'" "spec_full apps t' = None"
      unfolding ev by blast
    then have "t = t'" using that(1,2) unfolding one_topic_def by blast
    then show False using e'(3) that(3) by simp
  qed
  ultimately show ?thesis by blast
qed

theorem full_plan_by_topic_witness:
  "modules_to_evict (projr (fst (apply_full_config [sample_app ''b'' ''t'']
     (snd (apply_full_config [sample_app ''a'' ''t''] app_registry_new))))) = []"
proof -
  let ?reg = "snd (apply_full_config [sample_app ''a'' ''t''] app_registry_new)"
  obtain diff reg' where r: "apply_full_config [sample_app ''b'' ''t''] ?reg = (Inr diff, reg')"
    by (simp add: apply_full_config_def app_registry_new_def Let_def)
  have reg: "reg_entries ?reg = [(''t'', function_entry_from (sample_app ''a'' ''t'') (hd (ac_functions (sample_app ''a'' ''t''))))]"
    "\<not> reg_poisoned ?reg"
    by (simp_all add: apply_full_config_def app_registry_new_def sample_app_def Let_def)
  have "spec_full [sample_app ''b'' ''t''] ''t'' \<noteq> None" by (simp add: spec_full_def app_functions_def sample_app_def)
  then have "set (modules_to_evict diff) = {}"
    using full_plan_by_topic [OF _ reg(2) r] reg(1) by (auto split: if_splits)
  then show ?thesis using r by simp
qed

end
