(* ===== verification/UserMetrics.thy ===== *)
theory UserMetrics
  imports AppRegistry
begin

text \<open>
  \<open>src/components/execution-host/src/metrics.rs\<close>: the counters of the platform and the metrics that
  applications declare. The \<open>prometheus\<close> package is the argument \<open>prom\<close>: making a vector of
  metrics from a name and label names, registering it, and updating the series of some label values,
  which panics (\<open>None\<close>) when their number is not that of the label names. What the code relies on of
  it is the locale \<open>prometheus_spec\<close>. A number of type \<open>f64\<close> is its bit pattern.
\<close>

section \<open>Definitions\<close>

type_synonym f64 = "64 word"

datatype metric_type = MetricCounter | MetricGauge

text \<open>\<open>MetricType::try_from\<close>, generated from the protocol's enumeration.\<close>

definition metric_type_try_from :: "int \<Rightarrow> metric_type option" where
  "metric_type_try_from n = (if n = 0 then Some MetricCounter else if n = 1 then Some MetricGauge else None)"

record ('v, 'r) prometheus =
  prom_new :: "metric_type \<Rightarrow> string \<Rightarrow> string list \<Rightarrow> string + 'v"
  prom_register :: "'v \<Rightarrow> 'r \<Rightarrow> string + 'r"
  prom_unregister :: "'v \<Rightarrow> 'r \<Rightarrow> string + 'r"
  prom_inc :: "string list \<Rightarrow> 'v \<Rightarrow> 'v option"
  prom_set :: "string list \<Rightarrow> f64 \<Rightarrow> 'v \<Rightarrow> 'v option"

datatype 'v user_metric = UserCounter 'v | UserGauge 'v

fun user_metric_vec :: "'v user_metric \<Rightarrow> 'v" where
  "user_metric_vec (UserCounter v) = v"
| "user_metric_vec (UserGauge v) = v"

record 'v user_metric_entry =
  ume_metric :: "'v user_metric"
  ume_label_keys :: "string list"

text \<open>The platform counters, by the method that records them.\<close>

datatype platform_counter =
  Compilations | EventsReceived | MessagesSent | KvReads | KvWrites | HttpRequestsReceived | DroppedMetricCalls

definition platform_counters :: "(platform_counter \<times> string \<times> string list) list" where
  "platform_counters =
     [(Compilations, ''wasm_host_module_compilations_total'', [''app_name'', ''app_namespace'', ''result'']),
      (EventsReceived, ''wasm_host_events_received_total'', [''app_name'', ''app_namespace'', ''trigger'']),
      (MessagesSent, ''wasm_host_messages_sent_total'', [''app_name'', ''app_namespace'']),
      (KvReads, ''wasm_host_kv_reads_total'', [''app_name'', ''app_namespace'']),
      (KvWrites, ''wasm_host_kv_writes_total'', [''app_name'', ''app_namespace'']),
      (HttpRequestsReceived, ''wasm_host_http_requests_received_total'', [''app_name'', ''app_namespace'', ''status'']),
      (DroppedMetricCalls, ''wasm_host_dropped_metric_calls_total'', [''app_name'', ''app_namespace'', ''reason''])]"

record ('v, 'r) metrics_registry =
  mr_registry :: 'r
  mr_user_metrics :: "(string, 'v user_metric_entry) hash_map"
  mr_poisoned :: bool
  mr_platform :: "(platform_counter, 'v) hash_map"

fun make_counters ::
  "('v, 'r) prometheus \<Rightarrow> (platform_counter \<times> string \<times> string list) list \<Rightarrow> string + (platform_counter, 'v) hash_map" where
  "make_counters prom [] = Inr []"
| "make_counters prom ((c, name, labels) # cs) =
     (case prom_new prom MetricCounter name labels of
        Inl e \<Rightarrow> Inl e
      | Inr v \<Rightarrow> (case make_counters prom cs of Inl e \<Rightarrow> Inl e | Inr vs \<Rightarrow> Inr ((c, v) # vs)))"

fun register_counters :: "('v, 'r) prometheus \<Rightarrow> (platform_counter, 'v) hash_map \<Rightarrow> 'r \<Rightarrow> string + 'r" where
  "register_counters prom [] g = Inr g"
| "register_counters prom ((_, v) # vs) g =
     (case prom_register prom v g of Inl e \<Rightarrow> Inl e | Inr g \<Rightarrow> register_counters prom vs g)"

text \<open>
  \<open>MetricsRegistry::new\<close>, from the registry in which the dispatch metrics and the process collector
  have been registered.
\<close>

definition metrics_new :: "('v, 'r) prometheus \<Rightarrow> (string + 'r) \<Rightarrow> string + ('v, 'r) metrics_registry" where
  "metrics_new prom base =
     (case base of
        Inl e \<Rightarrow> Inl e
      | Inr g \<Rightarrow>
          (case make_counters prom platform_counters of
             Inl e \<Rightarrow> Inl e
           | Inr vs \<Rightarrow>
               (case register_counters prom vs g of
                  Inl e \<Rightarrow> Inl e
                | Inr g \<Rightarrow> Inr \<lparr>mr_registry = g, mr_user_metrics = [], mr_poisoned = False, mr_platform = vs\<rparr>)))"

subsection \<open>Synchronisation with the applications\<close>

definition expected_metrics ::
  "(string \<times> string \<times> metric_definition list) list \<Rightarrow> (string, metric_definition) hash_map" where
  "expected_metrics apps = fold (\<lambda>(_, _, defs) m. fold (\<lambda>d. hm_insert (md_name d) d) defs m) apps []"

text \<open>A failed unregistration is logged only.\<close>

fun unregister_all ::
  "('v, 'r) prometheus \<Rightarrow> string list \<Rightarrow> ('v, 'r) metrics_registry \<Rightarrow> ('v, 'r) metrics_registry" where
  "unregister_all prom [] r = r"
| "unregister_all prom (n # ns) r =
     unregister_all prom ns
       (case hm_get (mr_user_metrics r) n of
          Some e \<Rightarrow>
            (case prom_unregister prom (user_metric_vec (ume_metric e)) (mr_registry r) of
               Inl _ \<Rightarrow> r
             | Inr g \<Rightarrow> r\<lparr>mr_registry := g\<rparr>)
        | None \<Rightarrow> r)"

definition user_metric_new :: "('v, 'r) prometheus \<Rightarrow> string \<Rightarrow> metric_definition \<Rightarrow> string + 'v user_metric_entry" where
  "user_metric_new prom name def =
     (let all_label_keys = [''app_name'', ''app_namespace''] @ md_label_keys def;
          type = (case metric_type_try_from (md_type def) of Some t \<Rightarrow> t | None \<Rightarrow> MetricCounter)
      in case prom_new prom type name all_label_keys of
           Inl e \<Rightarrow> Inl e
         | Inr v \<Rightarrow>
             Inr \<lparr>ume_metric = (case type of MetricCounter \<Rightarrow> UserCounter v | MetricGauge \<Rightarrow> UserGauge v),
                  ume_label_keys = md_label_keys def\<rparr>)"

fun register_expected ::
  "('v, 'r) prometheus \<Rightarrow> (string, metric_definition) hash_map \<Rightarrow> ('v, 'r) metrics_registry
     \<Rightarrow> unit anyhow \<times> ('v, 'r) metrics_registry" where
  "register_expected prom [] r = (Inr (), r)"
| "register_expected prom ((name, def) # es) r =
     (if hm_get (mr_user_metrics r) name \<noteq> None then register_expected prom es r
      else
        (case user_metric_new prom name def of
           Inl e \<Rightarrow> (Inl e, r)
         | Inr entry \<Rightarrow>
             (case prom_register prom (user_metric_vec (ume_metric entry)) (mr_registry r) of
                Inl e \<Rightarrow> (Inl e, r)
              | Inr g \<Rightarrow>
                  register_expected prom es
                    (r\<lparr>mr_registry := g, mr_user_metrics := hm_insert name entry (mr_user_metrics r)\<rparr>))))"

definition sync_user_metrics ::
  "('v, 'r) prometheus \<Rightarrow> (string \<times> string \<times> metric_definition list) list \<Rightarrow> ('v, 'r) metrics_registry
     \<Rightarrow> unit anyhow \<times> ('v, 'r) metrics_registry" where
  "sync_user_metrics prom apps r =
     (let expected = expected_metrics apps
      in if mr_poisoned r then (Inl ''user_metrics lock poisoned'', r)
         else
           (let to_remove = filter (\<lambda>n. hm_get expected n = None) (hm_keys (mr_user_metrics r));
                r = unregister_all prom to_remove r;
                r = r\<lparr>mr_user_metrics := fold hm_remove to_remove (mr_user_metrics r)\<rparr>
            in register_expected prom expected r))"

subsection \<open>Calls of guests\<close>

datatype drop_reason = UnknownMetric | WrongLabels

definition drop_reason_as_str :: "drop_reason \<Rightarrow> string" where
  "drop_reason_as_str d = (case d of UnknownMetric \<Rightarrow> ''unknown_metric'' | WrongLabels \<Rightarrow> ''wrong_labels'')"

text \<open>\<open>collect\<close> into a map: the last pair of a key stays.\<close>

definition collect_map :: "('k \<times> 'v) list \<Rightarrow> ('k, 'v) hash_map" where
  "collect_map kvs = fold (\<lambda>(k, v). hm_insert k v) kvs []"

fun declared_values :: "(string, string) hash_map \<Rightarrow> string list \<Rightarrow> string list option" where
  "declared_values m [] = Some []"
| "declared_values m (k # ks) =
     (case hm_get m k of
        Some v \<Rightarrow> map_option ((#) v) (declared_values m ks)
      | None \<Rightarrow> None)"

definition build_label_values ::
  "string \<Rightarrow> string \<Rightarrow> string list \<Rightarrow> (string \<times> string) list \<Rightarrow> string list option" where
  "build_label_values app_name app_namespace declared_keys guest_labels =
     (if length guest_labels \<noteq> length declared_keys then None
      else map_option (\<lambda>vs. app_name # app_namespace # vs) (declared_values (collect_map guest_labels) declared_keys))"

text \<open>The outer option is \<open>None\<close> when the call panics.\<close>

definition counter_increment ::
  "('v, 'r) prometheus \<Rightarrow> string \<Rightarrow> string \<Rightarrow> string \<Rightarrow> (string \<times> string) list \<Rightarrow> ('v, 'r) metrics_registry
     \<Rightarrow> ((drop_reason + unit) \<times> ('v, 'r) metrics_registry) option" where
  "counter_increment prom name app_name app_namespace labels r =
     (if mr_poisoned r then Some (Inl UnknownMetric, r)
      else case hm_get (mr_user_metrics r) name of
        None \<Rightarrow> Some (Inl UnknownMetric, r)
      | Some entry \<Rightarrow>
          (case ume_metric entry of
             UserGauge _ \<Rightarrow> Some (Inl WrongLabels, r)
           | UserCounter v \<Rightarrow>
               (case build_label_values app_name app_namespace (ume_label_keys entry) labels of
                  None \<Rightarrow> Some (Inl WrongLabels, r)
                | Some vals \<Rightarrow>
                    map_option (\<lambda>v. (Inr (), r\<lparr>mr_user_metrics :=
                        hm_insert name (entry\<lparr>ume_metric := UserCounter v\<rparr>) (mr_user_metrics r)\<rparr>))
                      (prom_inc prom vals v))))"

definition gauge_set ::
  "('v, 'r) prometheus \<Rightarrow> string \<Rightarrow> f64 \<Rightarrow> string \<Rightarrow> string \<Rightarrow> (string \<times> string) list \<Rightarrow> ('v, 'r) metrics_registry
     \<Rightarrow> ((drop_reason + unit) \<times> ('v, 'r) metrics_registry) option" where
  "gauge_set prom name level app_name app_namespace labels r =
     (if mr_poisoned r then Some (Inl UnknownMetric, r)
      else case hm_get (mr_user_metrics r) name of
        None \<Rightarrow> Some (Inl UnknownMetric, r)
      | Some entry \<Rightarrow>
          (case ume_metric entry of
             UserCounter _ \<Rightarrow> Some (Inl WrongLabels, r)
           | UserGauge v \<Rightarrow>
               (case build_label_values app_name app_namespace (ume_label_keys entry) labels of
                  None \<Rightarrow> Some (Inl WrongLabels, r)
                | Some vals \<Rightarrow>
                    map_option (\<lambda>v. (Inr (), r\<lparr>mr_user_metrics :=
                        hm_insert name (entry\<lparr>ume_metric := UserGauge v\<rparr>) (mr_user_metrics r)\<rparr>))
                      (prom_set prom vals level v))))"

subsection \<open>Platform counters\<close>

definition platform_inc ::
  "('v, 'r) prometheus \<Rightarrow> platform_counter \<Rightarrow> string list \<Rightarrow> ('v, 'r) metrics_registry \<Rightarrow> ('v, 'r) metrics_registry option" where
  "platform_inc prom c vals r =
     Option.bind (hm_get (mr_platform r) c)
       (\<lambda>v. map_option (\<lambda>v. r\<lparr>mr_platform := hm_insert c v (mr_platform r)\<rparr>) (prom_inc prom vals v))"

definition record_event where
  "record_event prom app_name app_namespace trigger = platform_inc prom EventsReceived [app_name, app_namespace, trigger]"

definition record_message_sent where
  "record_message_sent prom app_name app_namespace = platform_inc prom MessagesSent [app_name, app_namespace]"

definition record_kv_read where
  "record_kv_read prom app_name app_namespace = platform_inc prom KvReads [app_name, app_namespace]"

definition record_kv_write where
  "record_kv_write prom app_name app_namespace = platform_inc prom KvWrites [app_name, app_namespace]"

definition record_http_request where
  "record_http_request prom app_name app_namespace st =
     platform_inc prom HttpRequestsReceived [app_name, app_namespace, show_nat st]"

definition record_dropped_metric where
  "record_dropped_metric prom app_name app_namespace reason =
     platform_inc prom DroppedMetricCalls [app_name, app_namespace, drop_reason_as_str reason]"

text \<open>What the processes do to the registry, one operation at a time; an operation that panics has no step.\<close>

inductive metrics_step :: "('v, 'r) prometheus \<Rightarrow> ('v, 'r) metrics_registry \<Rightarrow> ('v, 'r) metrics_registry \<Rightarrow> bool"
  for prom where
  ms_sync: "sync_user_metrics prom apps r = (res, r') \<Longrightarrow> metrics_step prom r r'"
| ms_increment: "counter_increment prom name app ns labels r = Some (res, r') \<Longrightarrow> metrics_step prom r r'"
| ms_set: "gauge_set prom name level app ns labels r = Some (res, r') \<Longrightarrow> metrics_step prom r r'"
| ms_event: "record_event prom app ns trigger r = Some r' \<Longrightarrow> metrics_step prom r r'"
| ms_sent: "record_message_sent prom app ns r = Some r' \<Longrightarrow> metrics_step prom r r'"
| ms_read: "record_kv_read prom app ns r = Some r' \<Longrightarrow> metrics_step prom r r'"
| ms_write: "record_kv_write prom app ns r = Some r' \<Longrightarrow> metrics_step prom r r'"
| ms_http: "record_http_request prom app ns st r = Some r' \<Longrightarrow> metrics_step prom r r'"
| ms_dropped: "record_dropped_metric prom app ns reason r = Some r' \<Longrightarrow> metrics_step prom r r'"

lemmas record_defs = record_event_def record_message_sent_def record_kv_read_def record_kv_write_def
  record_http_request_def record_dropped_metric_def

section \<open>What the metrics package promises\<close>

datatype sample = Count nat | Level f64

fun sample_count :: "sample option \<Rightarrow> nat" where
  "sample_count (Some (Count n)) = n"
| "sample_count _ = 0"

locale prometheus_spec =
  fixes prom :: "('v, 'r) prometheus"
    and vec_labels :: "'v \<Rightarrow> string list"
    and vec_at :: "'v \<Rightarrow> string list \<Rightarrow> sample option"
  assumes new_labels: "prom_new prom k name labels = Inr v \<Longrightarrow> vec_labels v = labels"
    and new_distinct: "prom_new prom k name labels = Inr v \<Longrightarrow> distinct labels"
    and new_empty: "prom_new prom k name labels = Inr v \<Longrightarrow> vec_at v vals = None"
    and inc_arity: "prom_inc prom vals v = None \<longleftrightarrow> length vals \<noteq> length (vec_labels v)"
    and inc_labels: "prom_inc prom vals v = Some v' \<Longrightarrow> vec_labels v' = vec_labels v"
    and inc_at: "prom_inc prom vals v = Some v' \<Longrightarrow>
      vec_at v' = (vec_at v)(vals \<mapsto> Count (Suc (sample_count (vec_at v vals))))"
    and set_arity: "prom_set prom vals level v = None \<longleftrightarrow> length vals \<noteq> length (vec_labels v)"
    and set_labels: "prom_set prom vals level v = Some v' \<Longrightarrow> vec_labels v' = vec_labels v"
    and set_at: "prom_set prom vals level v = Some v' \<Longrightarrow> vec_at v' = (vec_at v)(vals \<mapsto> Level level)"

text \<open>A registered metric has the labels of the host and the declared ones; no declared one twice.\<close>

definition entry_typed :: "('v \<Rightarrow> string list) \<Rightarrow> 'v user_metric_entry \<Rightarrow> bool" where
  "entry_typed vec_labels e \<longleftrightarrow>
     vec_labels (user_metric_vec (ume_metric e)) = [''app_name'', ''app_namespace''] @ ume_label_keys e
     \<and> distinct (ume_label_keys e)"

definition platform_typed :: "('v \<Rightarrow> string list) \<Rightarrow> (platform_counter, 'v) hash_map \<Rightarrow> bool" where
  "platform_typed vec_labels vs \<longleftrightarrow>
     list_all (\<lambda>(c, _, labels). \<exists>v. hm_get vs c = Some v \<and> vec_labels v = labels) platform_counters"

definition metrics_wf :: "('v \<Rightarrow> string list) \<Rightarrow> ('v, 'r) metrics_registry \<Rightarrow> bool" where
  "metrics_wf vec_labels r \<longleftrightarrow>
     (\<forall>n e. hm_get (mr_user_metrics r) n = Some e \<longrightarrow> entry_typed vec_labels e)
     \<and> platform_typed vec_labels (mr_platform r) \<and> \<not> mr_poisoned r"

lemma metrics_wf_entry: "metrics_wf vec_labels r \<Longrightarrow> hm_get (mr_user_metrics r) n = Some e \<Longrightarrow> entry_typed vec_labels e"
  by (simp add: metrics_wf_def)

section \<open>Labels\<close>

lemma collect_map_get: "hm_get (collect_map kvs) k = map_of (rev kvs) k"
  unfolding collect_map_def by (simp add: hm.lookup_upsert_all split: option.split)

lemma declared_values_iff:
  "declared_values m ks = Some vs \<longleftrightarrow> set ks \<subseteq> fst ` set m \<and> vs = map (\<lambda>k. the (hm_get m k)) ks"
proof (induction ks arbitrary: vs)
  case (Cons k ks)
  show ?case
  proof (cases "hm_get m k")
    case None
    then have "k \<notin> fst ` set m" by (simp add: map_of_eq_None_iff)
    with None show ?thesis by simp
  next
    case (Some v)
    then have "k \<in> fst ` set m" by (metis map_of_eq_None_iff option.distinct(1))
    with Some Cons.IH [of "map (\<lambda>k. the (hm_get m k)) ks"] Cons.IH show ?thesis
      by (cases "set ks \<subseteq> fst ` set m") auto
  qed
qed auto

lemma collect_map_keys: "fst ` set (collect_map kvs) = fst ` set kvs"
proof -
  have "k \<in> fst ` set (collect_map kvs) \<longleftrightarrow> k \<in> fst ` set kvs" for k
    by (metis collect_map_get map_of_eq_None_iff set_rev)
  then show ?thesis by blast
qed

lemma keys_permuted:
  assumes "distinct ks" "length xs = length ks"
  shows "set ks \<subseteq> set xs \<longleftrightarrow> mset xs = mset ks"
proof
  assume sub: "set ks \<subseteq> set xs"
  have c: "card (set xs) \<le> card (set ks)"
    using assms card_length [of xs] by (simp add: distinct_card)
  with sub have eq: "set ks = set xs" by (intro card_seteq) auto
  then have "distinct xs" using assms by (metis card_distinct distinct_card)
  with eq assms(1) show "mset xs = mset ks" by (metis set_eq_iff_mset_eq_distinct)
next
  assume "mset xs = mset ks"
  then show "set ks \<subseteq> set xs" by (metis mset_eq_setD order_refl)
qed

lemma map_of_rev_distinct: "distinct (map fst kvs) \<Longrightarrow> map_of (rev kvs) = map_of kvs"
  by (rule map_of_eqI) (auto simp: map_of_eq_Some_iff rev_map [symmetric])

text \<open>
  With distinct declared keys a call is accepted exactly when its keys are the declared ones, each
  once, in any order.
\<close>

lemma build_label_values_iff:
  assumes "distinct ks"
  shows "build_label_values app ns ks labels = Some vals \<longleftrightarrow>
    mset (map fst labels) = mset ks \<and> vals = app # ns # map (\<lambda>k. the (map_of labels k)) ks"
proof (cases "length labels = length ks")
  case True
  have rev: "mset (map fst labels) = mset ks \<Longrightarrow> map_of (rev labels) = map_of labels"
    using assms by (metis map_of_rev_distinct mset_eq_imp_distinct_iff)
  have "build_label_values app ns ks labels = Some vals \<longleftrightarrow>
      set ks \<subseteq> set (map fst labels) \<and> vals = app # ns # map (\<lambda>k. the (map_of (rev labels) k)) ks"
    using True by (auto simp: build_label_values_def declared_values_iff collect_map_keys collect_map_get)
  also have "\<dots> \<longleftrightarrow> mset (map fst labels) = mset ks \<and> vals = app # ns # map (\<lambda>k. the (map_of labels k)) ks"
    unfolding keys_permuted [OF assms, of "map fst labels", simplified length_map, OF True]
    by (intro conj_cong refl) (simp add: rev del: mset_map)
  finally show ?thesis .
next
  case False
  then show ?thesis by (metis build_label_values_def length_map option.distinct(1) size_mset)
qed

section \<open>Well-formed registries\<close>

lemma unregister_all_keeps [simp]:
  "mr_user_metrics (unregister_all prom ns r) = mr_user_metrics r"
  "mr_platform (unregister_all prom ns r) = mr_platform r"
  "mr_poisoned (unregister_all prom ns r) = mr_poisoned r"
  by (induction prom ns r rule: unregister_all.induct) (auto split: option.splits sum.splits)

lemma register_expected_others [simp]:
  "mr_platform (snd (register_expected prom es r)) = mr_platform r"
  "mr_poisoned (snd (register_expected prom es r)) = mr_poisoned r"
  by (induction prom es r rule: register_expected.induct) (simp_all split: sum.splits)

lemma register_expected_keeps:
  "hm_get (mr_user_metrics r) n = Some e \<Longrightarrow> hm_get (mr_user_metrics (snd (register_expected prom es r))) n = Some e"
proof (induction es arbitrary: r)
  case (Cons x es)
  obtain name def where x: "x = (name, def)" by (cases x)
  have "hm_get (mr_user_metrics r) name = None \<Longrightarrow> n \<noteq> name" using Cons.prems by auto
  then show ?case using Cons x by (simp add: update_conv split: sum.splits)
qed simp

text \<open>A fresh entry made from a definition: its kind, its keys, and no series yet.\<close>

definition entry_fresh ::
  "('v \<Rightarrow> string list \<Rightarrow> sample option) \<Rightarrow> metric_definition \<Rightarrow> 'v user_metric_entry \<Rightarrow> bool" where
  "entry_fresh vec_at def e \<longleftrightarrow>
     ume_label_keys e = md_label_keys def
     \<and> ((\<exists>v. ume_metric e = UserGauge v) \<longleftrightarrow> md_type def = 1)
     \<and> vec_at (user_metric_vec (ume_metric e)) = Map.empty"

context prometheus_spec
begin

lemma make_counters_typed:
  "distinct (map fst cs) \<Longrightarrow> make_counters prom cs = Inr vs \<Longrightarrow>
     list_all (\<lambda>(c, _, labels). \<exists>v. hm_get vs c = Some v \<and> vec_labels v = labels) cs"
proof (induction cs arbitrary: vs)
  case (Cons x cs)
  obtain c name labels where x: "x = (c, name, labels)" by (cases x)
  from Cons.prems(2) x obtain v vs' where v: "prom_new prom MetricCounter name labels = Inr v"
    and vs': "make_counters prom cs = Inr vs'" and vs: "vs = (c, v) # vs'"
    by (auto split: sum.splits)
  have "list_all (\<lambda>(c, _, labels). \<exists>v. hm_get vs' c = Some v \<and> vec_labels v = labels) cs"
    using Cons.IH [OF _ vs'] Cons.prems(1) by simp
  moreover have "c \<notin> fst ` set cs" using Cons.prems(1) x by simp
  ultimately show ?case
    using new_labels [OF v] x vs by (force simp: list_all_iff)
qed simp

lemma metrics_new_wf:
  assumes "metrics_new prom base = Inr r"
  shows "metrics_wf vec_labels r"
proof -
  from assms obtain vs g where "make_counters prom platform_counters = Inr vs"
    "r = \<lparr>mr_registry = g, mr_user_metrics = [], mr_poisoned = False, mr_platform = vs\<rparr>"
    by (auto simp: metrics_new_def split: sum.splits)
  moreover from this have "platform_typed vec_labels vs"
    unfolding platform_typed_def by (intro make_counters_typed) (simp_all add: platform_counters_def)
  ultimately show ?thesis by (simp add: metrics_wf_def)
qed

lemma fresh_entry:
  assumes "user_metric_new prom name def = Inr e"
  shows "entry_typed vec_labels e" "entry_fresh vec_at def e"
proof -
  from assms obtain k v where v: "prom_new prom k name ([''app_name'', ''app_namespace''] @ md_label_keys def) = Inr v"
    and k: "k = (case metric_type_try_from (md_type def) of Some t \<Rightarrow> t | None \<Rightarrow> MetricCounter)"
    and e: "e = \<lparr>ume_metric = (case k of MetricCounter \<Rightarrow> UserCounter v | MetricGauge \<Rightarrow> UserGauge v),
      ume_label_keys = md_label_keys def\<rparr>"
    by (auto simp: user_metric_new_def Let_def split: sum.splits)
  show "entry_typed vec_labels e" "entry_fresh vec_at def e"
    using k e new_labels [OF v] new_distinct [OF v] new_empty [OF v]
    by (auto simp: entry_typed_def entry_fresh_def metric_type_try_from_def split: metric_type.splits if_splits)
qed

text \<open>What registration leaves behind: every name is old, or its entry is fresh from its definition.\<close>

lemma register_expected_get:
  assumes "hm_wf es" "hm_get (mr_user_metrics (snd (register_expected prom es r))) n = Some e"
  shows "hm_get (mr_user_metrics r) n = Some e \<or>
    (hm_get (mr_user_metrics r) n = None \<and> (\<exists>def. hm_get es n = Some def \<and> entry_typed vec_labels e \<and> entry_fresh vec_at def e))"
  using assms
proof (induction es arbitrary: r)
  case (Cons x es)
  obtain name def where x: "x = (name, def)" by (cases x)
  have fr: "name \<notin> fst ` set es" "hm_wf es" using Cons.prems(1) x by auto
  show ?case
  proof (cases "\<exists>entry g. hm_get (mr_user_metrics r) name = None \<and> user_metric_new prom name def = Inr entry
      \<and> prom_register prom (user_metric_vec (ume_metric entry)) (mr_registry r) = Inr g")
    case True
    then obtain entry g where new: "hm_get (mr_user_metrics r) name = None" "user_metric_new prom name def = Inr entry"
      "prom_register prom (user_metric_vec (ume_metric entry)) (mr_registry r) = Inr g" by blast
    let ?r = "r\<lparr>mr_registry := g, mr_user_metrics := hm_insert name entry (mr_user_metrics r)\<rparr>"
    have "hm_get (mr_user_metrics (snd (register_expected prom es ?r))) n = Some e"
      using Cons.prems(2) x new by simp
    from Cons.IH [OF fr(2) this] new(1) fresh_entry [OF new(2)] fr(1) show ?thesis
      by (auto simp: x update_conv split: if_splits)
  next
    case False
    show ?thesis
    proof (cases "hm_get (mr_user_metrics r) name")
      case None
      with False Cons.prems(2) x show ?thesis by (auto split: sum.splits)
    next
      case (Some old)
      then have "hm_get (mr_user_metrics (snd (register_expected prom es r))) n = Some e"
        using Cons.prems(2) x by simp
      from Cons.IH [OF fr(2) this] Some x show ?thesis by auto
    qed
  qed
qed simp

lemma register_expected_total:
  assumes "fst (register_expected prom es r) = Inr u" "hm_get es n \<noteq> None"
  shows "hm_get (mr_user_metrics (snd (register_expected prom es r))) n \<noteq> None"
  using assms
proof (induction prom es r rule: register_expected.induct)
  case (2 prom name def es r)
  show ?case
  proof (cases "hm_get (mr_user_metrics r) name")
    case None
    with 2(3) obtain entry g where new: "user_metric_new prom name def = Inr entry"
      "prom_register prom (user_metric_vec (ume_metric entry)) (mr_registry r) = Inr g"
      by (auto split: sum.splits)
    let ?r = "r\<lparr>mr_registry := g, mr_user_metrics := hm_insert name entry (mr_user_metrics r)\<rparr>"
    have "hm_get (mr_user_metrics (snd (register_expected prom es ?r))) name \<noteq> None"
      using register_expected_keeps [of ?r name entry] by (simp add: update_conv)
    moreover have "n \<noteq> name \<Longrightarrow> hm_get (mr_user_metrics (snd (register_expected prom es ?r))) n \<noteq> None"
      using 2 None new by simp
    ultimately show ?thesis using None new by (cases "n = name") simp_all
  next
    case (Some old)
    with 2 register_expected_keeps [OF Some] show ?thesis by (cases "n = name") auto
  qed
qed simp

end

section \<open>Synchronisation\<close>

text \<open>All definitions of all applications in order; a later one of the same name wins.\<close>

definition all_definitions :: "(string \<times> string \<times> metric_definition list) list \<Rightarrow> metric_definition list" where
  "all_definitions apps = concat (map (\<lambda>(_, _, defs). defs) apps)"

lemma expected_metrics_fold:
  "expected_metrics apps = fold (\<lambda>(k, v). hm_insert k v) (map (\<lambda>d. (md_name d, d)) (all_definitions apps)) []"
proof -
  have "fold (\<lambda>(_, _, defs) m. fold (\<lambda>d. hm_insert (md_name d) d) defs m) apps m =
      fold (\<lambda>(k, v). hm_insert k v) (map (\<lambda>d. (md_name d, d)) (all_definitions apps)) m" for m
    by (induction apps arbitrary: m) (auto simp: all_definitions_def fold_map comp_def)
  then show ?thesis by (simp add: expected_metrics_def)
qed

lemma expected_metrics_wf: "hm_wf (expected_metrics apps)"
  unfolding expected_metrics_fold by (rule hm.wf_upsert_all) simp

lemma expected_metrics_get:
  "hm_get (expected_metrics apps) n = map_of (rev (map (\<lambda>d. (md_name d, d)) (all_definitions apps))) n"
  unfolding expected_metrics_fold hm.lookup_upsert_all by (simp split: option.split)

text \<open>The registry between the two halves: what is no longer expected is gone.\<close>

lemma sync_removed:
  fixes r :: "('v, 'r) metrics_registry"
  assumes "\<not> mr_poisoned r"
  obtains s :: "('v, 'r) metrics_registry" where "sync_user_metrics prom apps r = register_expected prom (expected_metrics apps) s"
    "mr_platform s = mr_platform r" "\<not> mr_poisoned s"
    "\<And>n. hm_get (mr_user_metrics s) n = (if hm_get (expected_metrics apps) n = None then None else hm_get (mr_user_metrics r) n)"
proof -
  define gone where "gone = filter (\<lambda>n. hm_get (expected_metrics apps) n = None) (hm_keys (mr_user_metrics r))"
  define s where "s = (unregister_all prom gone r)\<lparr>mr_user_metrics := fold hm_remove gone (mr_user_metrics (unregister_all prom gone r))\<rparr>"
  have "hm_get (mr_user_metrics s) n = (if hm_get (expected_metrics apps) n = None then None else hm_get (mr_user_metrics r) n)" for n
    by (auto simp: s_def hm.lookup_discard_all gone_def map_of_eq_None_iff)
  moreover have "sync_user_metrics prom apps r = register_expected prom (expected_metrics apps) s"
    using assms by (simp add: sync_user_metrics_def s_def gone_def Let_def)
  ultimately show thesis using that [of s] assms by (simp add: s_def)
qed

context prometheus_spec
begin

lemma sync_get:
  assumes "\<not> mr_poisoned r" "sync_user_metrics prom apps r = (res, r')"
  shows "hm_get (mr_user_metrics r') n = Some e \<Longrightarrow>
      (\<exists>def. hm_get (expected_metrics apps) n = Some def \<and>
        (case hm_get (mr_user_metrics r) n of
           Some old \<Rightarrow> e = old
         | None \<Rightarrow> entry_typed vec_labels e \<and> entry_fresh vec_at def e))"
    and "hm_get (expected_metrics apps) n \<noteq> None \<Longrightarrow> hm_get (mr_user_metrics r) n = Some e \<Longrightarrow>
      hm_get (mr_user_metrics r') n = Some e"
    and "res = Inr u \<Longrightarrow> hm_get (expected_metrics apps) n \<noteq> None \<Longrightarrow> hm_get (mr_user_metrics r') n \<noteq> None"
    and "mr_platform r' = mr_platform r" "\<not> mr_poisoned r'"
proof -
  obtain s where s: "sync_user_metrics prom apps r = register_expected prom (expected_metrics apps) s"
    "mr_platform s = mr_platform r" "\<not> mr_poisoned s"
    "\<And>n. hm_get (mr_user_metrics s) n = (if hm_get (expected_metrics apps) n = None then None else hm_get (mr_user_metrics r) n)"
    by (rule sync_removed [OF assms(1), of prom apps]) auto
  have r': "r' = snd (register_expected prom (expected_metrics apps) s)"
    and res: "res = fst (register_expected prom (expected_metrics apps) s)" using assms(2) s(1) by simp_all
  show "mr_platform r' = mr_platform r" "\<not> mr_poisoned r'" using r' s by simp_all
  show "hm_get (mr_user_metrics r') n \<noteq> None" if "res = Inr u" "hm_get (expected_metrics apps) n \<noteq> None"
    using register_expected_total that res r' by metis
  show "hm_get (mr_user_metrics r') n = Some e"
    if "hm_get (expected_metrics apps) n \<noteq> None" "hm_get (mr_user_metrics r) n = Some e"
    unfolding r' by (rule register_expected_keeps) (simp add: s(4) that)
  show "\<exists>def. hm_get (expected_metrics apps) n = Some def \<and>
      (case hm_get (mr_user_metrics r) n of Some old \<Rightarrow> e = old
         | None \<Rightarrow> entry_typed vec_labels e \<and> entry_fresh vec_at def e)"
    if "hm_get (mr_user_metrics r') n = Some e"
    using register_expected_get [OF expected_metrics_wf that [unfolded r']]
    by (auto simp: s(4) split: if_splits option.splits)
qed

lemma sync_wf:
  assumes "metrics_wf vec_labels r" "sync_user_metrics prom apps r = (res, r')"
  shows "metrics_wf vec_labels r'"
proof -
  have np: "\<not> mr_poisoned r" using assms(1) by (simp add: metrics_wf_def)
  have "entry_typed vec_labels e" if "hm_get (mr_user_metrics r') n = Some e" for n e
    using sync_get(1) [OF np assms(2) that] assms(1) by (auto simp: metrics_wf_def split: option.splits)
  then show ?thesis using sync_get(4,5) [OF np assms(2)] assms(1) by (simp add: metrics_wf_def)
qed

end

section \<open>Guest calls\<close>

text \<open>The label values of a call, in the declared order behind the two that the host adds.\<close>

definition series_of :: "string \<Rightarrow> string \<Rightarrow> string list \<Rightarrow> (string \<times> string) list \<Rightarrow> string list" where
  "series_of app ns keys labels = app # ns # map (\<lambda>k. the (map_of labels k)) keys"

text \<open>The call names a registered metric of the kind, and gives each of its keys exactly once.\<close>

definition call_accepted ::
  "('v \<Rightarrow> 'v user_metric) \<Rightarrow> string \<Rightarrow> (string \<times> string) list \<Rightarrow> ('v, 'r) metrics_registry \<Rightarrow> bool" where
  "call_accepted kind name labels r \<longleftrightarrow>
     (\<exists>e v. hm_get (mr_user_metrics r) name = Some e \<and> ume_metric e = kind v
        \<and> mset (map fst labels) = mset (ume_label_keys e))"

text \<open>One series of one metric has a new sample and nothing else differs.\<close>

definition series_updated ::
  "('v \<Rightarrow> string list \<Rightarrow> sample option) \<Rightarrow> string \<Rightarrow> string \<Rightarrow> string \<Rightarrow> (string \<times> string) list \<Rightarrow> (sample option \<Rightarrow> sample)
     \<Rightarrow> ('v, 'r) metrics_registry \<Rightarrow> ('v, 'r) metrics_registry \<Rightarrow> bool" where
  "series_updated vec_at name app ns labels f r r' \<longleftrightarrow>
     mr_platform r' = mr_platform r \<and> mr_registry r' = mr_registry r \<and> mr_poisoned r' = mr_poisoned r
     \<and> (\<forall>n. n \<noteq> name \<longrightarrow> hm_get (mr_user_metrics r') n = hm_get (mr_user_metrics r) n)
     \<and> (\<exists>e e'. hm_get (mr_user_metrics r) name = Some e \<and> hm_get (mr_user_metrics r') name = Some e'
          \<and> ume_label_keys e' = ume_label_keys e
          \<and> (let vals = series_of app ns (ume_label_keys e) labels; at = vec_at (user_metric_vec (ume_metric e))
             in vec_at (user_metric_vec (ume_metric e')) = at(vals \<mapsto> f (at vals))))"

context prometheus_spec
begin

lemma increment_accepted:
  assumes "metrics_wf vec_labels r" "call_accepted UserCounter name labels r"
  shows "\<exists>r'. counter_increment prom name app ns labels r = Some (Inr (), r') \<and> metrics_wf vec_labels r'
    \<and> series_updated vec_at name app ns labels (\<lambda>x. Count (Suc (sample_count x))) r r'"
proof -
  obtain e v where e: "hm_get (mr_user_metrics r) name = Some e" "ume_metric e = UserCounter v"
    "mset (map fst labels) = mset (ume_label_keys e)" using assms(2) by (auto simp: call_accepted_def)
  have ty: "vec_labels v = [''app_name'', ''app_namespace''] @ ume_label_keys e" "distinct (ume_label_keys e)"
    using metrics_wf_entry [OF assms(1) e(1)] e(2) by (auto simp: entry_typed_def)
  define vals where "vals = series_of app ns (ume_label_keys e) labels"
  have b: "build_label_values app ns (ume_label_keys e) labels = Some vals"
    using e(3) unfolding build_label_values_iff [OF ty(2)] vals_def series_of_def by simp
  have "prom_inc prom vals v \<noteq> None" unfolding inc_arity by (simp add: ty vals_def series_of_def)
  then obtain v' where v': "prom_inc prom vals v = Some v'" by blast
  let ?r = "r\<lparr>mr_user_metrics := hm_insert name (e\<lparr>ume_metric := UserCounter v'\<rparr>) (mr_user_metrics r)\<rparr>"
  have "counter_increment prom name app ns labels r = Some (Inr (), ?r)"
    using assms(1) e b v' by (simp add: counter_increment_def metrics_wf_def)
  moreover have "metrics_wf vec_labels ?r"
    using assms(1) e ty inc_labels [OF v'] by (auto simp: metrics_wf_def entry_typed_def update_conv)
  moreover have "series_updated vec_at name app ns labels (\<lambda>x. Count (Suc (sample_count x))) r ?r"
    using e inc_at [OF v'] by (simp add: series_updated_def update_conv vals_def Let_def)
  ultimately show ?thesis by blast
qed

lemma increment_dropped:
  assumes "metrics_wf vec_labels r" "\<not> call_accepted UserCounter name labels r"
  shows "counter_increment prom name app ns labels r =
    Some (Inl (if hm_get (mr_user_metrics r) name = None then UnknownMetric else WrongLabels), r)"
proof (cases "hm_get (mr_user_metrics r) name")
  case None
  then show ?thesis by (simp add: counter_increment_def)
next
  case (Some e)
  then have "distinct (ume_label_keys e)" using assms(1) by (auto simp: metrics_wf_def entry_typed_def)
  then have "ume_metric e = UserCounter v \<Longrightarrow> build_label_values app ns (ume_label_keys e) labels = None" for v
    using assms(2) Some build_label_values_iff unfolding call_accepted_def by (metis not_None_eq)
  then show ?thesis
    using Some assms(1) by (simp add: counter_increment_def metrics_wf_def split: user_metric.split)
qed

lemma set_accepted:
  assumes "metrics_wf vec_labels r" "call_accepted UserGauge name labels r"
  shows "\<exists>r'. gauge_set prom name level app ns labels r = Some (Inr (), r') \<and> metrics_wf vec_labels r'
    \<and> series_updated vec_at name app ns labels (\<lambda>_. Level level) r r'"
proof -
  obtain e v where e: "hm_get (mr_user_metrics r) name = Some e" "ume_metric e = UserGauge v"
    "mset (map fst labels) = mset (ume_label_keys e)" using assms(2) by (auto simp: call_accepted_def)
  have ty: "vec_labels v = [''app_name'', ''app_namespace''] @ ume_label_keys e" "distinct (ume_label_keys e)"
    using metrics_wf_entry [OF assms(1) e(1)] e(2) by (auto simp: entry_typed_def)
  define vals where "vals = series_of app ns (ume_label_keys e) labels"
  have b: "build_label_values app ns (ume_label_keys e) labels = Some vals"
    using e(3) unfolding build_label_values_iff [OF ty(2)] vals_def series_of_def by simp
  have "prom_set prom vals level v \<noteq> None" unfolding set_arity by (simp add: ty vals_def series_of_def)
  then obtain v' where v': "prom_set prom vals level v = Some v'" by blast
  let ?r = "r\<lparr>mr_user_metrics := hm_insert name (e\<lparr>ume_metric := UserGauge v'\<rparr>) (mr_user_metrics r)\<rparr>"
  have "gauge_set prom name level app ns labels r = Some (Inr (), ?r)"
    using assms(1) e b v' by (simp add: gauge_set_def metrics_wf_def)
  moreover have "metrics_wf vec_labels ?r"
    using assms(1) e ty set_labels [OF v'] by (auto simp: metrics_wf_def entry_typed_def update_conv)
  moreover have "series_updated vec_at name app ns labels (\<lambda>_. Level level) r ?r"
    using e set_at [OF v'] by (simp add: series_updated_def update_conv vals_def Let_def)
  ultimately show ?thesis by blast
qed

lemma set_dropped:
  assumes "metrics_wf vec_labels r" "\<not> call_accepted UserGauge name labels r"
  shows "gauge_set prom name level app ns labels r =
    Some (Inl (if hm_get (mr_user_metrics r) name = None then UnknownMetric else WrongLabels), r)"
proof (cases "hm_get (mr_user_metrics r) name")
  case None
  then show ?thesis by (simp add: gauge_set_def)
next
  case (Some e)
  then have "distinct (ume_label_keys e)" using assms(1) by (auto simp: metrics_wf_def entry_typed_def)
  then have "ume_metric e = UserGauge v \<Longrightarrow> build_label_values app ns (ume_label_keys e) labels = None" for v
    using assms(2) Some build_label_values_iff unfolding call_accepted_def by (metis not_None_eq)
  then show ?thesis
    using Some assms(1) by (simp add: gauge_set_def metrics_wf_def split: user_metric.split)
qed

lemma guest_calls_total:
  assumes "metrics_wf vec_labels r"
  shows "\<exists>res r'. counter_increment prom name app ns labels r = Some (res, r') \<and> metrics_wf vec_labels r'"
    "\<exists>res r'. gauge_set prom name level app ns labels r = Some (res, r') \<and> metrics_wf vec_labels r'"
  using increment_accepted increment_dropped set_accepted set_dropped assms by meson+

lemma platform_inc_ok:
  assumes "metrics_wf vec_labels r" "(c, name, labels) \<in> set platform_counters" "length vals = length labels"
  shows "\<exists>r'. platform_inc prom c vals r = Some r' \<and> metrics_wf vec_labels r' \<and> mr_user_metrics r' = mr_user_metrics r"
proof -
  obtain v where v: "hm_get (mr_platform r) c = Some v" "vec_labels v = labels"
    using assms(1,2) by (auto simp: metrics_wf_def platform_typed_def list_all_iff)
  then obtain v' where v': "prom_inc prom vals v = Some v'"
    using assms(3) inc_arity [of vals v] by auto
  have "platform_typed vec_labels (hm_insert c v' (mr_platform r))"
    using assms(1) inc_labels [OF v'] v by (fastforce simp: metrics_wf_def platform_typed_def list_all_iff update_conv)
  then show ?thesis using assms(1) v v' by (simp add: platform_inc_def metrics_wf_def)
qed

lemma platform_recorded:
  assumes "metrics_wf vec_labels r" "list_ex (\<lambda>(k, _, labels). k = c \<and> length vals = length labels) platform_counters"
  shows "\<exists>r'. platform_inc prom c vals r = Some r' \<and> metrics_wf vec_labels r'"
  using platform_inc_ok [OF assms(1)] assms(2) by (fastforce simp: list_ex_iff)

lemma records_ok:
  assumes "metrics_wf vec_labels r"
  shows "\<exists>r'. record_event prom app ns trigger r = Some r' \<and> metrics_wf vec_labels r'"
    "\<exists>r'. record_message_sent prom app ns r = Some r' \<and> metrics_wf vec_labels r'"
    "\<exists>r'. record_kv_read prom app ns r = Some r' \<and> metrics_wf vec_labels r'"
    "\<exists>r'. record_kv_write prom app ns r = Some r' \<and> metrics_wf vec_labels r'"
    "\<exists>r'. record_http_request prom app ns st r = Some r' \<and> metrics_wf vec_labels r'"
    "\<exists>r'. record_dropped_metric prom app ns reason r = Some r' \<and> metrics_wf vec_labels r'"
  unfolding record_defs by (rule platform_recorded [OF assms]; simp add: platform_counters_def)+

lemma metrics_step_wf:
  assumes "metrics_wf vec_labels r" "metrics_step prom r r'"
  shows "metrics_wf vec_labels r'"
  using assms(2)
proof cases
  case (ms_sync apps res)
  then show ?thesis using sync_wf [OF assms(1)] by blast
next
  case (ms_increment name app ns labels res)
  then show ?thesis using increment_accepted increment_dropped assms(1)
    by (metis option.inject prod.inject)
next
  case (ms_set name level app ns labels res)
  then show ?thesis using set_accepted set_dropped assms(1) by (metis option.inject prod.inject)
qed (metis records_ok [OF assms(1)] option.inject)+

lemma metrics_reachable_wf:
  "reaches (\<lambda>r. metrics_new prom base = Inr r) (metrics_step prom) r \<Longrightarrow> metrics_wf vec_labels r"
  by (induction rule: reaches.induct) (blast intro: metrics_new_wf metrics_step_wf)+

end

section \<open>A plain metrics package\<close>

text \<open>Vectors with their series in a map, and a registry of names.\<close>

record plain_vec =
  pv_name :: string
  pv_labels :: "string list"
  pv_series :: "(string list, sample) hash_map"

definition plain_update :: "string list \<Rightarrow> (sample option \<Rightarrow> sample) \<Rightarrow> plain_vec \<Rightarrow> plain_vec option" where
  "plain_update vals f v =
     (if length vals = length (pv_labels v)
      then Some (v\<lparr>pv_series := hm_insert vals (f (hm_get (pv_series v) vals)) (pv_series v)\<rparr>) else None)"

definition plain_prom :: "(plain_vec, string list) prometheus" where
  "plain_prom =
     \<lparr>prom_new = (\<lambda>k name labels. if distinct labels then Inr \<lparr>pv_name = name, pv_labels = labels, pv_series = []\<rparr>
        else Inl ''duplicate label''),
      prom_register = (\<lambda>v g. if pv_name v \<in> set g then Inl ''duplicate metric'' else Inr (pv_name v # g)),
      prom_unregister = (\<lambda>v g. if pv_name v \<in> set g then Inr (removeAll (pv_name v) g) else Inl ''unknown metric''),
      prom_inc = (\<lambda>vals. plain_update vals (\<lambda>x. Count (Suc (sample_count x)))),
      prom_set = (\<lambda>vals level. plain_update vals (\<lambda>_. Level level))\<rparr>"

lemmas plain_defs = plain_prom_def plain_update_def

interpretation plain_spec: prometheus_spec plain_prom pv_labels "\<lambda>v. hm_get (pv_series v)"
  by unfold_locales (auto simp: plain_defs update_conv' split: if_splits)

definition sample_apps :: "(string \<times> string \<times> metric_definition list) list" where
  "sample_apps = [(''prod'', ''shop'', [\<lparr>md_name = ''hits'', md_type = 0, md_label_keys = [''path'', ''code'']\<rparr>])]"

definition sample_base :: "(plain_vec, string list) metrics_registry" where
  "sample_base =
     \<lparr>mr_registry = rev (map (\<lambda>(_, name, _). name) platform_counters), mr_user_metrics = [], mr_poisoned = False,
      mr_platform = map (\<lambda>(c, name, labels). (c, \<lparr>pv_name = name, pv_labels = labels, pv_series = []\<rparr>)) platform_counters\<rparr>"

definition sample_metrics :: "(plain_vec, string list) metrics_registry" where
  "sample_metrics = snd (sync_user_metrics plain_prom sample_apps sample_base)"

lemma sample_base_new: "metrics_new plain_prom (Inr []) = Inr sample_base"
  by (simp add: metrics_new_def plain_defs platform_counters_def sample_base_def)

lemmas sample_metrics_simps = sample_metrics_def sample_base_def sync_user_metrics_def expected_metrics_def sample_apps_def
  user_metric_new_def metric_type_try_from_def plain_defs Let_def platform_counters_def

lemma sample_metrics_hits:
  "hm_get (mr_user_metrics sample_metrics) ''hits'' =
     Some \<lparr>ume_metric = UserCounter \<lparr>pv_name = ''hits'', pv_labels = [''app_name'', ''app_namespace'', ''path'', ''code''],
        pv_series = []\<rparr>, ume_label_keys = [''path'', ''code'']\<rparr>"
  by (simp add: sample_metrics_simps)

lemma sample_metrics_sync: "sync_user_metrics plain_prom sample_apps sample_base = (Inr (), sample_metrics)"
  by (simp add: sample_metrics_simps)

lemma sample_metrics_reached:
  "reaches (\<lambda>r. metrics_new plain_prom (Inr []) = Inr r) (metrics_step plain_prom) sample_metrics"
  using sample_base_new sample_metrics_sync by (blast intro: reaches_init reaches_step ms_sync)

section \<open>Properties\<close>

text \<open>
  C26 (type). In every state the registry of metrics can reach, it is well typed: each metric of an
  application has the two labels of the host followed by its declared ones, without repetition.
  Hence no operation panics in the metrics package. A guest call is accepted exactly when it names a
  registered metric of the right kind and gives each declared label once, in any order; it then
  changes one series, whose first two labels are the caller's own application and namespace. Any
  other call is dropped with a reason and changes nothing.
\<close>

theorem guest_metrics_typed:
  assumes "prometheus_spec prom vec_labels vec_at"
    and "reaches (\<lambda>r. metrics_new prom base = Inr r) (metrics_step prom) r"
  shows "metrics_wf vec_labels r
    \<and> (if call_accepted UserCounter name labels r
       then \<exists>r'. counter_increment prom name app ns labels r = Some (Inr (), r')
         \<and> series_updated vec_at name app ns labels (\<lambda>x. Count (Suc (sample_count x))) r r'
       else \<exists>reason. counter_increment prom name app ns labels r = Some (Inl reason, r))
    \<and> (if call_accepted UserGauge name labels r
       then \<exists>r'. gauge_set prom name level app ns labels r = Some (Inr (), r')
         \<and> series_updated vec_at name app ns labels (\<lambda>_. Level level) r r'
       else \<exists>reason. gauge_set prom name level app ns labels r = Some (Inl reason, r))
    \<and> record_event prom app ns trigger r \<noteq> None \<and> record_message_sent prom app ns r \<noteq> None
    \<and> record_kv_read prom app ns r \<noteq> None \<and> record_kv_write prom app ns r \<noteq> None
    \<and> record_http_request prom app ns st r \<noteq> None \<and> record_dropped_metric prom app ns reason r \<noteq> None"
proof -
  note wf = prometheus_spec.metrics_reachable_wf [OF assms]
  note records = prometheus_spec.records_ok [OF assms(1) wf]
  have "\<exists>r'. record_event prom app ns trigger r = Some r'" "\<exists>r'. record_message_sent prom app ns r = Some r'"
    "\<exists>r'. record_kv_read prom app ns r = Some r'" "\<exists>r'. record_kv_write prom app ns r = Some r'"
    "\<exists>r'. record_http_request prom app ns st r = Some r'" "\<exists>r'. record_dropped_metric prom app ns reason r = Some r'"
    using records by blast+
  then show ?thesis
    using wf prometheus_spec.increment_accepted [OF assms(1) wf] prometheus_spec.increment_dropped [OF assms(1) wf]
      prometheus_spec.set_accepted [OF assms(1) wf] prometheus_spec.set_dropped [OF assms(1) wf]
    by (simp split: if_split) blast
qed

theorem guest_metrics_typed_witness:
  "call_accepted UserCounter ''hits'' [(''code'', ''200''), (''path'', ''/'')] sample_metrics
   \<and> (\<exists>r'. counter_increment plain_prom ''hits'' ''shop'' ''prod'' [(''code'', ''200''), (''path'', ''/'')] sample_metrics
      = Some (Inr (), r'))"
proof -
  have a: "call_accepted UserCounter ''hits'' [(''code'', ''200''), (''path'', ''/'')] sample_metrics"
    by (simp add: call_accepted_def sample_metrics_hits)
  show ?thesis
    using a guest_metrics_typed [OF plain_spec.prometheus_spec_axioms sample_metrics_reached,
      where name = "''hits''" and labels = "[(''code'', ''200''), (''path'', ''/'')]" and app = "''shop''" and ns = "''prod''"
        and level = 0 and trigger = "[]" and st = 0 and reason = UnknownMetric] by auto
qed



end
