(* ===== verification/Artifacts.thy ===== *)
theory Artifacts
  imports Prelude
begin

text \<open>
  \<open>src/lib/platform-common/src/artifacts.rs\<close>: the canonical digest of an artifact and the check
  that a byte string is the bounded Wasm binary a digest names. The SHA-256 function of the
  \<open>sha2\<close> package is an argument \<open>hash\<close>: the lower-case hexadecimal rendering of the digest of
  the bytes. What the code relies on of it is \<open>sha256_hex_spec\<close>.
\<close>

section \<open>Definitions\<close>

definition MAX_MANIFEST_BYTES :: nat where "MAX_MANIFEST_BYTES = 1024 * 1024"
definition MAX_WASM_BYTES :: nat where "MAX_WASM_BYTES = 16 * 1024 * 1024"
definition CACHE_MAX_BYTES :: nat where "CACHE_MAX_BYTES = 64 * 1024 * 1024"
definition CACHE_MAX_ENTRIES :: nat where "CACHE_MAX_ENTRIES = 256"

datatype digest = Sha256Digest string

fun digest_as_str :: "digest \<Rightarrow> string" where
  "digest_as_str (Sha256Digest s) = s"

definition is_ascii_digit :: "char \<Rightarrow> bool" where
  "is_ascii_digit c \<longleftrightarrow> (let n = of_char c :: nat in 48 \<le> n \<and> n \<le> 57)"

definition is_lower_hex :: "char \<Rightarrow> bool" where
  "is_lower_hex c \<longleftrightarrow> is_ascii_digit c \<or> (let n = of_char c :: nat in 97 \<le> n \<and> n \<le> 102)"

definition digest_parse :: "string \<Rightarrow> digest anyhow" where
  "digest_parse s =
     (case strip_prefix ''sha256:'' s of
        None \<Rightarrow> Inl ''artifact digest must use sha256''
      | Some hex \<Rightarrow>
          if length hex \<noteq> 64 \<or> \<not> list_all is_lower_hex hex
          then Inl ''artifact digest must contain 64 lowercase hexadecimal characters''
          else Inr (Sha256Digest s))"

definition digest_from_bytes :: "(bytes \<Rightarrow> string) \<Rightarrow> bytes \<Rightarrow> digest" where
  "digest_from_bytes hash b = Sha256Digest (''sha256:'' @ hash b)"

definition digest_verify :: "(bytes \<Rightarrow> string) \<Rightarrow> digest \<Rightarrow> bytes \<Rightarrow> unit anyhow" where
  "digest_verify hash d b =
     (if d \<noteq> digest_from_bytes hash b then Inl ''artifact digest mismatch'' else Inr ())"

text \<open>The magic number of binary Wasm: a zero byte and the letters \<open>asm\<close>.\<close>

definition wasm_magic :: bytes where
  "wasm_magic = [0, 0x61, 0x73, 0x6D]"

definition verify_wasm :: "(bytes \<Rightarrow> string) \<Rightarrow> digest \<Rightarrow> bytes \<Rightarrow> unit anyhow" where
  "verify_wasm hash d b =
     (if length b > MAX_WASM_BYTES then Inl ''Wasm artifact exceeds byte limit''
      else if length b < 8 \<or> take (length wasm_magic) b \<noteq> wasm_magic
      then Inl ''artifact is not binary Wasm''
      else digest_verify hash d b)"

text \<open>The digest function renders 32 bytes as 64 lower-case hexadecimal digits.\<close>

definition sha256_hex_spec :: "(bytes \<Rightarrow> string) \<Rightarrow> bool" where
  "sha256_hex_spec hash \<longleftrightarrow> (\<forall>b. length (hash b) = 64 \<and> list_all is_lower_hex (hash b))"

section \<open>Lemmas\<close>

lemma digest_of_str [simp]: "Sha256Digest (digest_as_str d) = d"
  by (cases d) simp

definition canonical_digest :: "string \<Rightarrow> bool" where
  "canonical_digest s \<longleftrightarrow>
     (\<exists>hex. s = ''sha256:'' @ hex \<and> length hex = 64 \<and> list_all is_lower_hex hex)"

lemma digest_parse_Inr_iff:
  "digest_parse s = Inr d \<longleftrightarrow> d = Sha256Digest s \<and> canonical_digest s"
  unfolding digest_parse_def canonical_digest_def
  by (auto simp: strip_prefix_Some_iff split: option.splits)

lemma digest_parse_as_str: "digest_parse s = Inr d \<Longrightarrow> digest_as_str d = s"
  by (simp add: digest_parse_Inr_iff)

lemma canonical_from_bytes: "sha256_hex_spec hash \<Longrightarrow> canonical_digest (digest_as_str (digest_from_bytes hash b))"
  by (simp add: canonical_digest_def digest_from_bytes_def sha256_hex_spec_def)

lemma digest_verify_Inr_iff: "digest_verify hash d b = Inr u \<longleftrightarrow> d = digest_from_bytes hash b"
  by (simp add: digest_verify_def)

lemma length_wasm_magic [simp]: "length wasm_magic = 4"
  by (simp add: wasm_magic_def)

lemma verify_wasm_Inr_iff:
  "verify_wasm hash d b = Inr u \<longleftrightarrow>
     8 \<le> length b \<and> length b \<le> MAX_WASM_BYTES \<and> take 4 b = wasm_magic \<and> d = digest_from_bytes hash b"
  by (auto simp: verify_wasm_def digest_verify_Inr_iff)

lemma verify_wasm_unique:
  "verify_wasm hash d b = Inr u \<Longrightarrow> verify_wasm hash d' b = Inr u' \<Longrightarrow> d = d'"
  by (simp add: verify_wasm_Inr_iff)

section \<open>Properties\<close>

text \<open>
  Parsing accepts exactly the canonical spelling: the digest of any byte string
  prints to a string that parses back to the same digest, a parsed digest prints to the string it
  was parsed from, and every accepted string is \<open>sha256:\<close> followed by 64 lower-case hexadecimal
  characters, so two different accepted strings are two different digests (no aliases).
\<close>

theorem digest_round_trip:
  assumes "sha256_hex_spec hash"
  shows "digest_parse (digest_as_str (digest_from_bytes hash b)) = Inr (digest_from_bytes hash b)
    \<and> (\<forall>s d. (digest_parse s = Inr d) = (canonical_digest s \<and> d = Sha256Digest s))
    \<and> (\<forall>s t d. digest_parse s = Inr d \<and> digest_parse t = Inr d \<longrightarrow> s = t)"
  using canonical_from_bytes [OF assms, of b]
  by (auto simp: digest_parse_Inr_iff)

theorem digest_round_trip_witness:
  "sha256_hex_spec (\<lambda>_. replicate 64 (CHR ''0'')) \<and>
   digest_parse (digest_as_str (digest_from_bytes (\<lambda>_. replicate 64 (CHR ''0'')) [1, 2])) =
     Inr (digest_from_bytes (\<lambda>_. replicate 64 (CHR ''0'')) [1, 2])"
proof -
  have h: "sha256_hex_spec (\<lambda>_. replicate 64 (CHR ''0''))"
    by (simp add: sha256_hex_spec_def list_all_iff is_lower_hex_def is_ascii_digit_def)
  show ?thesis using h digest_round_trip [OF h, of "[1, 2]"] by blast
qed

end
