(* ===== verification/Decimal.thy ===== *)
theory Decimal
  imports Artifacts
begin

text \<open>
  Numbers as text: how the standard library parses and prints integers, and the variables of the
  environment that hold them.
\<close>

section \<open>Definitions\<close>

text \<open>\<open>str::parse\<close> for an unsigned integer: an optional plus sign and at least one decimal digit.\<close>

fun parse_digits :: "nat \<Rightarrow> string \<Rightarrow> nat option" where
  "parse_digits acc [] = Some acc"
| "parse_digits acc (c # s) =
     (if is_ascii_digit c then parse_digits (acc * 10 + (of_char c - 48)) s else None)"

definition parse_unsigned :: "nat \<Rightarrow> string \<Rightarrow> nat option" where
  "parse_unsigned bits s =
     (let digits = (case strip_prefix ''+'' s of Some r \<Rightarrow> r | None \<Rightarrow> s)
      in if digits = [] then None
         else (case parse_digits 0 digits of Some v \<Rightarrow> if v < 2 ^ bits then Some v else None | None \<Rightarrow> None))"

datatype env_var = NotPresent | NotUnicode | Var string

definition ascii_bytes :: "string \<Rightarrow> bytes" where
  "ascii_bytes s = map of_char s"

definition show_int :: "int \<Rightarrow> string" where
  "show_int n = (if n < 0 then ''-'' @ show_nat (nat (- n)) else show_nat (nat n))"

text \<open>\<open>str::parse\<close> for a signed integer.\<close>

definition parse_signed :: "nat \<Rightarrow> string \<Rightarrow> int option" where
  "parse_signed bits s =
     (case strip_prefix ''-'' s of
        None \<Rightarrow> map_option int (parse_unsigned (bits - 1) s)
      | Some digits \<Rightarrow>
          if digits = [] then None
          else (case parse_digits 0 digits of
                  Some v \<Rightarrow> if v \<le> 2 ^ (bits - 1) then Some (- int v) else None
                | None \<Rightarrow> None))"

definition byte_chars :: "bytes \<Rightarrow> string" where
  "byte_chars b = map (\<lambda>x. char_of (unat x)) b"

section \<open>Printing and parsing\<close>

lemma parse_digits_append:
  "parse_digits acc (s @ t) = (case parse_digits acc s of None \<Rightarrow> None | Some v \<Rightarrow> parse_digits v t)"
  by (induction acc s rule: parse_digits.induct) simp_all

lemma digit_char: "d < 10 \<Longrightarrow> is_ascii_digit (char_of (48 + d)) \<and> of_char (char_of (48 + d) :: char) = (48 + d :: nat)"
  by (simp add: is_ascii_digit_def Let_def)

lemma show_nat_digits: "parse_digits 0 (show_nat n) = Some n"
proof (induction n rule: show_nat.induct)
  case (1 n)
  show ?case
  proof (cases "n < 10")
    case True
    then show ?thesis using digit_char [of n] by (simp add: show_nat.simps [of n])
  next
    case False
    then show ?thesis
      using 1 [OF False] digit_char [of "n mod 10"] by (simp add: show_nat.simps [of n] parse_digits_append)
  qed
qed

lemma show_nat_nonempty: "show_nat n \<noteq> []"
  by (subst show_nat.simps) simp

lemma show_nat_no_plus: "strip_prefix ''+'' (show_nat n) = None"
proof (rule ccontr)
  assume "strip_prefix ''+'' (show_nat n) \<noteq> None"
  then obtain r where "show_nat n = ''+'' @ r" by (auto simp: strip_prefix_Some_iff)
  then show False using show_nat_digits [of n] by (simp add: is_ascii_digit_def)
qed

lemma parse_unsigned_show: "n < 2 ^ bits \<Longrightarrow> parse_unsigned bits (show_nat n) = Some n"
  by (simp add: parse_unsigned_def Let_def show_nat_no_plus show_nat_nonempty show_nat_digits)

lemma show_nat_no_minus: "strip_prefix ''-'' (show_nat n) = None"
proof (rule ccontr)
  assume "strip_prefix ''-'' (show_nat n) \<noteq> None"
  then obtain r where "show_nat n = ''-'' @ r" by (auto simp: strip_prefix_Some_iff)
  then show False using show_nat_digits [of n] by (simp add: is_ascii_digit_def)
qed

lemma parse_signed_show:
  "- (2 ^ (bits - 1)) \<le> n \<Longrightarrow> n < 2 ^ (bits - 1) \<Longrightarrow> parse_signed bits (show_int n) = Some n"
proof (cases "n < 0")
  case True
  assume "- (2 ^ (bits - 1)) \<le> n"
  then have "nat (- n) \<le> 2 ^ (bits - 1)" by (simp add: nat_le_iff)
  with True show ?thesis
    by (simp add: parse_signed_def show_int_def show_nat_nonempty show_nat_digits)
next
  case False
  assume "n < 2 ^ (bits - 1)"
  then have "nat n < 2 ^ (bits - 1)" using False by (simp add: nat_less_iff)
  with False show ?thesis
    by (simp add: parse_signed_def show_int_def show_nat_no_minus parse_unsigned_show)
qed

lemma byte_chars_ascii: "byte_chars (ascii_bytes s) = s"
proof -
  have "unat (of_char c :: byte) = of_char c" for c
    by (subst of_nat_of_char [symmetric], subst unat_of_nat) (simp add: mod_less)
  then have "char_of (unat (of_char c :: byte)) = c" for c by simp
  then show ?thesis by (simp add: byte_chars_def ascii_bytes_def comp_def map_idI)
qed

end
