(* ===== verification/GatewayConfig.thy ===== *)
theory GatewayConfig
  imports Decimal
begin

text \<open>
  \<open>src/components/gateway/src/config.rs\<close>: the limits of the gateway, read from the environment.
  Numbers are parsed as the standard library parses unsigned integers of a given width.
\<close>

section \<open>Definitions\<close>

definition parse_limit :: "nat \<Rightarrow> string \<Rightarrow> string option \<Rightarrow> nat \<Rightarrow> nat \<Rightarrow> nat anyhow" where
  "parse_limit bits name v dflt maximum =
     (case (case v of
              Some s \<Rightarrow> (case parse_unsigned bits s of
                           None \<Rightarrow> Inl (name @ '' must be a positive integer'')
                         | Some n \<Rightarrow> Inr n)
            | None \<Rightarrow> Inr dflt) of
        Inl e \<Rightarrow> Inl e
      | Inr n \<Rightarrow>
          if n > 0 \<and> n \<le> maximum then Inr n
          else Inl (name @ '' must be between 1 and '' @ show_nat maximum))"

definition read_limit :: "(string \<Rightarrow> env_var) \<Rightarrow> nat \<Rightarrow> string \<Rightarrow> nat \<Rightarrow> nat \<Rightarrow> nat anyhow" where
  "read_limit env bits name dflt maximum =
     (case env name of
        Var s \<Rightarrow> parse_limit bits name (Some s) dflt maximum
      | NotPresent \<Rightarrow> parse_limit bits name None dflt maximum
      | NotUnicode \<Rightarrow> Inl (name @ '' must be a positive integer''))"

record request_limits =
  lim_in_flight :: nat
  lim_connections :: nat
  lim_body_bytes :: nat
  lim_payload_bytes :: nat
  lim_metadata_bytes :: nat
  lim_body_read_timeout :: nat
  lim_timeout :: nat

record gateway_config =
  cfg_operator_addr :: string
  cfg_gateway_id :: string
  cfg_requests :: request_limits
  cfg_http_port :: nat

text \<open>The seven limits in the order they are read; the first error ends the reading.\<close>

fun read_limits :: "(string \<Rightarrow> env_var) \<Rightarrow> (nat \<times> string \<times> nat \<times> nat) list \<Rightarrow> nat list anyhow" where
  "read_limits env [] = Inr []"
| "read_limits env ((bits, name, dflt, maximum) # rest) =
     (case read_limit env bits name dflt maximum of
        Inl e \<Rightarrow> Inl e
      | Inr n \<Rightarrow> map_sum id (Cons n) (read_limits env rest))"

definition limit_settings :: "(nat \<times> string \<times> nat \<times> nat) list" where
  "limit_settings =
     [(64, ''GATEWAY_MAX_IN_FLIGHT_REQUESTS'', 32, 256),
      (64, ''GATEWAY_MAX_CONNECTIONS'', 128, 4096),
      (64, ''GATEWAY_MAX_BODY_BYTES'', 128 * 1024, 1024 * 1024),
      (64, ''GATEWAY_MAX_PAYLOAD_BYTES'', 768 * 1024, 1024 * 1024),
      (64, ''GATEWAY_MAX_METADATA_BYTES'', 16 * 1024, 64 * 1024),
      (64, ''GATEWAY_BODY_READ_TIMEOUT_SECS'', 5, 300),
      (64, ''GATEWAY_TIMEOUT_SECS'', 30, 300),
      (16, ''HTTP_PORT'', 3000, 2 ^ 16 - 1)]"

definition config_from_env :: "(string \<Rightarrow> env_var) \<Rightarrow> gateway_config anyhow" where
  "config_from_env env =
     (case env ''OPERATOR_ADDR'' of
        Var addr \<Rightarrow>
          (case read_limits env limit_settings of
             Inl e \<Rightarrow> Inl e
           | Inr ns \<Rightarrow>
               Inr \<lparr>cfg_operator_addr = addr,
                    cfg_gateway_id = (case env ''HOSTNAME'' of Var h \<Rightarrow> h | _ \<Rightarrow> ''unknown''),
                    cfg_requests = \<lparr>lim_in_flight = ns ! 0, lim_connections = ns ! 1, lim_body_bytes = ns ! 2,
                      lim_payload_bytes = ns ! 3, lim_metadata_bytes = ns ! 4, lim_body_read_timeout = ns ! 5,
                      lim_timeout = ns ! 6\<rparr>,
                    cfg_http_port = ns ! 7\<rparr>)
      | _ \<Rightarrow> Inl ''OPERATOR_ADDR environment variable is required'')"

section \<open>Lemmas\<close>

lemma parse_limit_Inr: "parse_limit bits name v dflt maximum = Inr n \<Longrightarrow> 0 < n \<and> n \<le> maximum"
  by (auto simp: parse_limit_def split: option.splits if_splits)

lemma read_limit_Inr: "read_limit env bits name dflt maximum = Inr n \<Longrightarrow> 0 < n \<and> n \<le> maximum"
  by (auto simp: read_limit_def dest: parse_limit_Inr split: env_var.splits)

lemma read_limits_Inr:
  "read_limits env settings = Inr ns \<Longrightarrow>
     list_all2 (\<lambda>(bits, name, dflt, maximum) n. 0 < n \<and> n \<le> maximum \<and> read_limit env bits name dflt maximum = Inr n) settings ns"
proof (induction settings arbitrary: ns)
  case (Cons st settings)
  obtain bits name dflt maximum where st: "st = (bits, name, dflt, maximum)" by (cases st) auto
  from Cons.prems st obtain n ns' where n: "read_limit env bits name dflt maximum = Inr n" "read_limits env settings = Inr ns'" "ns = n # ns'"
    by (auto simp: map_sum_def split: sum.splits)
  then show ?case using Cons.IH [OF n(2)] read_limit_Inr [OF n(1)] st by simp
qed simp

lemma config_limits:
  assumes "config_from_env env = Inr cfg"
  shows "0 < lim_in_flight (cfg_requests cfg)" "lim_in_flight (cfg_requests cfg) \<le> 256"
    "0 < lim_connections (cfg_requests cfg)" "lim_connections (cfg_requests cfg) \<le> 4096"
    "0 < lim_body_bytes (cfg_requests cfg)" "lim_body_bytes (cfg_requests cfg) \<le> 1024 * 1024"
    "0 < lim_payload_bytes (cfg_requests cfg)" "lim_payload_bytes (cfg_requests cfg) \<le> 1024 * 1024"
    "0 < lim_metadata_bytes (cfg_requests cfg)" "lim_metadata_bytes (cfg_requests cfg) \<le> 64 * 1024"
    "0 < lim_body_read_timeout (cfg_requests cfg)" "lim_body_read_timeout (cfg_requests cfg) \<le> 300"
    "0 < lim_timeout (cfg_requests cfg)" "lim_timeout (cfg_requests cfg) \<le> 300"
    "0 < cfg_http_port cfg" "cfg_http_port cfg < 2 ^ 16"
proof -
  obtain ns where ns: "read_limits env limit_settings = Inr ns"
    and cfg: "cfg_requests cfg = \<lparr>lim_in_flight = ns ! 0, lim_connections = ns ! 1, lim_body_bytes = ns ! 2,
      lim_payload_bytes = ns ! 3, lim_metadata_bytes = ns ! 4, lim_body_read_timeout = ns ! 5, lim_timeout = ns ! 6\<rparr>"
      "cfg_http_port cfg = ns ! 7"
    using assms by (auto simp: config_from_env_def split: env_var.splits sum.splits)
  have "list_all2 (\<lambda>(bits, name, dflt, maximum) n. 0 < n \<and> n \<le> maximum) limit_settings ns"
    using read_limits_Inr [OF ns] by (rule list_all2_mono) auto
  then show "0 < lim_in_flight (cfg_requests cfg)" "lim_in_flight (cfg_requests cfg) \<le> 256"
    "0 < lim_connections (cfg_requests cfg)" "lim_connections (cfg_requests cfg) \<le> 4096"
    "0 < lim_body_bytes (cfg_requests cfg)" "lim_body_bytes (cfg_requests cfg) \<le> 1024 * 1024"
    "0 < lim_payload_bytes (cfg_requests cfg)" "lim_payload_bytes (cfg_requests cfg) \<le> 1024 * 1024"
    "0 < lim_metadata_bytes (cfg_requests cfg)" "lim_metadata_bytes (cfg_requests cfg) \<le> 64 * 1024"
    "0 < lim_body_read_timeout (cfg_requests cfg)" "lim_body_read_timeout (cfg_requests cfg) \<le> 300"
    "0 < lim_timeout (cfg_requests cfg)" "lim_timeout (cfg_requests cfg) \<le> 300"
    "0 < cfg_http_port cfg" "cfg_http_port cfg < 2 ^ 16"
    by (auto simp: limit_settings_def cfg list_all2_Cons1)
qed

section \<open>Properties\<close>

text \<open>
  Whatever the environment says, a configuration that is accepted has positive limits
  within their maxima; a printed number within the maximum of a setting reads back as itself, and
  zero, a number above the maximum and a text that is no number of the width are refused.
\<close>

theorem gateway_limits_bounded:
  "(config_from_env env = Inr cfg \<longrightarrow>
      0 < lim_in_flight (cfg_requests cfg) \<and> lim_in_flight (cfg_requests cfg) \<le> 256
      \<and> 0 < lim_connections (cfg_requests cfg) \<and> lim_connections (cfg_requests cfg) \<le> 4096
      \<and> 0 < lim_body_bytes (cfg_requests cfg) \<and> lim_body_bytes (cfg_requests cfg) \<le> 1024 * 1024
      \<and> 0 < lim_payload_bytes (cfg_requests cfg) \<and> lim_payload_bytes (cfg_requests cfg) \<le> 1024 * 1024
      \<and> 0 < lim_metadata_bytes (cfg_requests cfg) \<and> lim_metadata_bytes (cfg_requests cfg) \<le> 64 * 1024
      \<and> 0 < lim_body_read_timeout (cfg_requests cfg) \<and> lim_body_read_timeout (cfg_requests cfg) \<le> 300
      \<and> 0 < lim_timeout (cfg_requests cfg) \<and> lim_timeout (cfg_requests cfg) \<le> 300
      \<and> 0 < cfg_http_port cfg \<and> cfg_http_port cfg < 2 ^ 16)
    \<and> (n < 2 ^ bits \<longrightarrow>
        parse_limit bits name (Some (show_nat n)) dflt maximum =
          (if 0 < n \<and> n \<le> maximum then Inr n else Inl (name @ '' must be between 1 and '' @ show_nat maximum)))
    \<and> (parse_unsigned bits s = None \<longrightarrow>
        parse_limit bits name (Some s) dflt maximum = Inl (name @ '' must be a positive integer''))"
  using config_limits [of env cfg] by (auto simp: parse_limit_def parse_unsigned_show)

theorem gateway_limits_bounded_witness:
  "\<exists>cfg. config_from_env (\<lambda>v. if v = ''OPERATOR_ADDR'' then Var ''http://operator'' else if v = ''HTTP_PORT'' then Var ''8080'' else NotPresent) = Inr cfg
     \<and> cfg_http_port cfg = 8080 \<and> lim_in_flight (cfg_requests cfg) \<le> 256"
proof -
  let ?env = "\<lambda>v. if v = ''OPERATOR_ADDR'' then Var ''http://operator'' else if v = ''HTTP_PORT'' then Var ''8080'' else NotPresent"
  have "\<exists>cfg. config_from_env ?env = Inr cfg \<and> cfg_http_port cfg = 8080"
    by (simp add: config_from_env_def limit_settings_def read_limit_def parse_limit_def parse_unsigned_def is_ascii_digit_def)
  then show ?thesis using gateway_limits_bounded [of ?env] by blast
qed

end
