(* ===== verification/PendingReplies.thy ===== *)
theory PendingReplies
  imports GatewayConfig
begin

text \<open>
  \<open>src/components/gateway/src/nats.rs\<close>, the registry of pending replies: a request reserves an
  identifier and a one-shot channel, the reply session delivers by identifier, a dropped
  registration frees its slot, and retiring the session closes every channel. The channels of
  \<open>tokio::sync::oneshot\<close> are a list, so that a handle is a position in it.
\<close>

section \<open>Definitions\<close>

datatype request_error = Unavailable | PayloadTooLarge | RequestFailed | RequestTimeout

type_synonym reply = "request_error + bytes"

datatype oneshot = ChannelOpen | Sent reply | SenderDropped | ReceiverDropped

definition oneshot_send :: "reply \<Rightarrow> oneshot \<Rightarrow> bool \<times> oneshot" where
  "oneshot_send r c = (if c = ReceiverDropped then (False, c) else (True, Sent r))"

definition drop_sender :: "oneshot \<Rightarrow> oneshot" where
  "drop_sender c = (if c = ChannelOpen then SenderDropped else c)"

record pending =
  pd_capacity :: nat
  pd_next :: nat
  pd_retired :: bool
  pd_replies :: "(nat, nat) hash_map"
  pd_poisoned :: bool
  pd_channels :: "oneshot list"

definition pending_new :: "nat \<Rightarrow> pending" where
  "pending_new capacity = \<lparr>pd_capacity = capacity, pd_next = 0, pd_retired = False, pd_replies = [],
     pd_poisoned = False, pd_channels = []\<rparr>"

text \<open>A reservation: the identifier of the registration, and the handle of its receiver.\<close>

definition reserve :: "pending \<Rightarrow> (request_error + nat \<times> nat) \<times> pending" where
  "reserve p =
     (if pd_poisoned p then (Inl RequestFailed, p)
      else if pd_retired p \<or> pd_capacity p \<le> length (pd_replies p) then (Inl Unavailable, p)
      else case checked_add (pd_next p) 1 of
             None \<Rightarrow> (Inl RequestFailed, p)
           | Some next \<Rightarrow>
               (let h = length (pd_channels p) in
                (Inr (pd_next p, h),
                 p\<lparr>pd_next := next, pd_replies := hm_insert (pd_next p) h (pd_replies p),
                   pd_channels := pd_channels p @ [ChannelOpen]\<rparr>)))"

definition remove_reply :: "nat \<Rightarrow> pending \<Rightarrow> (request_error + nat option) \<times> pending" where
  "remove_reply i p =
     (if pd_poisoned p then (Inl RequestFailed, p)
      else (Inr (hm_get (pd_replies p) i), p\<lparr>pd_replies := hm_remove i (pd_replies p)\<rparr>))"

definition deliver :: "nat \<Rightarrow> reply \<Rightarrow> pending \<Rightarrow> (request_error + bool) \<times> pending" where
  "deliver i r p =
     (case remove_reply i p of
        (Inl e, p) \<Rightarrow> (Inl e, p)
      | (Inr None, p) \<Rightarrow> (Inr False, p)
      | (Inr (Some h), p) \<Rightarrow>
          (let c = oneshot_send r (pd_channels p ! h) in
           (Inr (fst c), p\<lparr>pd_channels := (pd_channels p)[h := snd c]\<rparr>)))"

definition retire :: "pending \<Rightarrow> (request_error + unit) \<times> pending" where
  "retire p =
     (if pd_poisoned p then (Inl RequestFailed, p)
      else (Inr (), p\<lparr>pd_retired := True, pd_replies := [],
              pd_channels := fold (\<lambda>h cs. cs[h := drop_sender (cs ! h)]) (map snd (pd_replies p)) (pd_channels p)\<rparr>))"

text \<open>The drop of a \<open>PendingReply\<close>, and of the receiver.\<close>

definition drop_pending :: "nat \<Rightarrow> pending \<Rightarrow> pending" where
  "drop_pending i p =
     (case remove_reply i p of
        (Inr (Some h), p) \<Rightarrow> p\<lparr>pd_channels := (pd_channels p)[h := drop_sender (pd_channels p ! h)]\<rparr>
      | (_, p) \<Rightarrow> p)"

definition drop_receiver :: "nat \<Rightarrow> pending \<Rightarrow> pending" where
  "drop_receiver h p = p\<lparr>pd_channels := (pd_channels p)[h := ReceiverDropped]\<rparr>"

text \<open>A request that ends, in whichever way, drops its receiver and then its registration.\<close>

definition release :: "nat \<Rightarrow> nat \<Rightarrow> pending \<Rightarrow> pending" where
  "release i h p = drop_pending i (drop_receiver h p)"

section \<open>The contract of the registry\<close>

text \<open>
  The registry is well formed when identifiers are below the next one, two identifiers never share
  a channel, and a registered channel has its sender. The guards are the registrations that are
  alive, identifier and handle: each registered identifier has one, and a guard without a
  registration has an answer or a closed channel.
\<close>

definition pending_wf :: "pending \<Rightarrow> bool" where
  "pending_wf p \<longleftrightarrow> hm_wf (pd_replies p) \<and> distinct (map snd (pd_replies p)) \<and> \<not> pd_poisoned p
     \<and> length (pd_replies p) \<le> pd_capacity p \<and> (pd_retired p \<longrightarrow> pd_replies p = [])
     \<and> (\<forall>(i, h) \<in> set (pd_replies p). i < pd_next p \<and> h < length (pd_channels p) \<and> pd_channels p ! h = ChannelOpen)"

definition guards_ok :: "(nat \<times> nat) list \<Rightarrow> pending \<Rightarrow> bool" where
  "guards_ok gs p \<longleftrightarrow> set (pd_replies p) \<subseteq> set gs \<and> distinct (map fst gs) \<and> distinct (map snd gs)
     \<and> (\<forall>(i, h) \<in> set gs. i < pd_next p \<and> h < length (pd_channels p)
          \<and> (pd_channels p ! h = ChannelOpen \<longrightarrow> (i, h) \<in> set (pd_replies p))
          \<and> pd_channels p ! h \<noteq> ReceiverDropped)"

lemma pending_wfD:
  assumes "pending_wf p"
  shows "hm_wf (pd_replies p)" "distinct (map snd (pd_replies p))" "\<not> pd_poisoned p"
    "length (pd_replies p) \<le> pd_capacity p" "pd_retired p \<Longrightarrow> pd_replies p = []"
    "(i, h) \<in> set (pd_replies p) \<Longrightarrow> i < pd_next p"
    "(i, h) \<in> set (pd_replies p) \<Longrightarrow> h < length (pd_channels p)"
    "(i, h) \<in> set (pd_replies p) \<Longrightarrow> pd_channels p ! h = ChannelOpen"
  using assms unfolding pending_wf_def by blast+

lemma guards_okD:
  assumes "guards_ok gs p"
  shows "set (pd_replies p) \<subseteq> set gs" "distinct (map fst gs)" "distinct (map snd gs)"
    "(i, h) \<in> set gs \<Longrightarrow> i < pd_next p" "(i, h) \<in> set gs \<Longrightarrow> h < length (pd_channels p)"
    "(i, h) \<in> set gs \<Longrightarrow> pd_channels p ! h = ChannelOpen \<Longrightarrow> (i, h) \<in> set (pd_replies p)"
    "(i, h) \<in> set gs \<Longrightarrow> pd_channels p ! h \<noteq> ReceiverDropped"
  using assms unfolding guards_ok_def by blast+

lemma guards_bound: "pending_wf p \<Longrightarrow> guards_ok gs p \<Longrightarrow> length (pd_replies p) \<le> length gs"
proof -
  assume w: "pending_wf p" and g: "guards_ok gs p"
  have "length (pd_replies p) = card (set (pd_replies p))"
    using pending_wfD(1) [OF w] by (simp add: distinct_card distinct_map)
  also have "\<dots> \<le> card (set gs)" using guards_okD(1) [OF g] by (simp add: card_mono)
  also have "\<dots> \<le> length gs" by (rule card_length)
  finally show ?thesis .
qed

lemma update_fresh: "k \<notin> fst ` set m \<Longrightarrow> hm_insert k v m = m @ [(k, v)]"
  by (induction m) auto

lemma reserve_Inr:
  assumes w: "pending_wf p" and g: "guards_ok gs p" and r: "reserve p = (Inr (i, h), p')"
  shows "pending_wf p' \<and> guards_ok ((i, h) # gs) p' \<and> pd_capacity p' = pd_capacity p \<and> i \<notin> fst ` set gs
    \<and> \<not> pd_retired p \<and> pd_retired p' = pd_retired p \<and> i = pd_next p \<and> pd_next p' = Suc i
    \<and> pd_channels p' ! h = ChannelOpen \<and> (\<forall>k < length (pd_channels p). pd_channels p' ! k = pd_channels p ! k)"
proof -
  from r have p': "p' = p\<lparr>pd_next := Suc (pd_next p), pd_replies := hm_insert (pd_next p) h (pd_replies p),
      pd_channels := pd_channels p @ [ChannelOpen]\<rparr>" and i: "i = pd_next p" and h: "h = length (pd_channels p)"
    and c: "\<not> pd_retired p" "length (pd_replies p) < pd_capacity p"
    by (auto simp: reserve_def Let_def checked_add_def split: if_splits option.splits)
  have new: "pd_next p \<notin> fst ` set (pd_replies p)" using pending_wfD(6) [OF w] by fastforce
  then have p'': "p' = p\<lparr>pd_next := Suc (pd_next p), pd_replies := pd_replies p @ [(pd_next p, length (pd_channels p))],
      pd_channels := pd_channels p @ [ChannelOpen]\<rparr>"
    unfolding p' h by (simp add: update_fresh)
  have "h \<notin> snd ` set (pd_replies p)" using pending_wfD(7) [OF w] h by fastforce
  then have "pending_wf p'" unfolding pending_wf_def p'' using pending_wfD [OF w] c h new
    by (auto simp: nth_append less_SucI)
  moreover have "guards_ok ((i, h) # gs) p'" unfolding guards_ok_def p'' i h
    using guards_okD [OF g] by (fastforce simp: nth_append less_SucI)
  moreover have "i \<notin> fst ` set gs" using guards_okD(4) [OF g] i by fastforce
  ultimately show ?thesis using i h c by (simp add: p'' nth_append)
qed

lemma reserve_Inl:
  assumes "pending_wf p" "reserve p = (Inl e, p')"
  shows "p' = p \<and> (e = Unavailable \<and> (pd_retired p \<or> length (pd_replies p) = pd_capacity p)
    \<or> e = RequestFailed \<and> 2 ^ 64 \<le> Suc (pd_next p))"
  using assms pending_wfD(3,4) [OF assms(1)]
  by (auto simp: reserve_def checked_add_def Let_def split: if_splits option.splits)

lemma deliver_absent:
  assumes "pending_wf p" "i \<notin> fst ` set (pd_replies p)"
  shows "deliver i r p = (Inr False, p)"
  using assms by (simp add: deliver_def remove_reply_def pending_wfD delete_id flip: map_of_eq_None_iff)

lemma deliver_present:
  assumes w: "pending_wf p" and m: "(i, h) \<in> set (pd_replies p)"
  shows "deliver i r p = (Inr True, p\<lparr>pd_replies := hm_remove i (pd_replies p), pd_channels := (pd_channels p)[h := Sent r]\<rparr>)"
proof -
  have "hm_get (pd_replies p) i = Some h" using m pending_wfD(1) [OF w] by simp
  then show ?thesis using pending_wfD(3) [OF w] pending_wfD(8) [OF w m]
    by (simp add: deliver_def remove_reply_def oneshot_send_def Let_def)
qed

text \<open>Taking a registration out, whatever its channel becomes.\<close>

lemma delete_set:
  assumes "hm_wf m" "(i, h) \<in> set m"
  shows "set (hm_remove i m) = set m - {(i, h)}"
  using assms by (auto simp: AList.delete_eq eq_key_imp_eq_value)

lemma distinct_snd_eq: "distinct (map snd m) \<Longrightarrow> (i, h) \<in> set m \<Longrightarrow> (j, h) \<in> set m \<Longrightarrow> j = i"
  by (induction m) (auto simp: rev_image_eqI)

lemma guard_unique:
  assumes "guards_ok gs p" "(i, h) \<in> set gs" "(j, k) \<in> set gs"
  shows "j = i \<longleftrightarrow> k = h"
  using assms guards_okD(2,3) [OF assms(1)] by (blast dest: distinct_snd_eq eq_key_imp_eq_value)

lemma pending_wf_taken:
  assumes w: "pending_wf p" and m: "(i, h) \<in> set (pd_replies p)"
  shows "pending_wf (p\<lparr>pd_replies := hm_remove i (pd_replies p), pd_channels := (pd_channels p)[h := c]\<rparr>)"
proof -
  note d = delete_set [OF pending_wfD(1) [OF w] m]
  have "(pd_channels p)[h := c] ! k = pd_channels p ! k" if "(j, k) \<in> set (pd_replies p)" "j \<noteq> i" for j k
    using m distinct_snd_eq [OF pending_wfD(2) [OF w]] that by (metis nth_list_update_neq)
  moreover have "distinct (map snd (hm_remove i (pd_replies p)))"
    using pending_wfD(2) [OF w] by (simp add: AList.delete_eq distinct_map_filter)
  moreover have "length (hm_remove i (pd_replies p)) \<le> pd_capacity p"
    by (rule le_trans [OF length_delete_le pending_wfD(4) [OF w]])
  ultimately show ?thesis unfolding pending_wf_def using pending_wfD [OF w] d
    by (auto simp: distinct_delete)
qed

lemma guards_ok_taken:
  assumes w: "pending_wf p" and g: "guards_ok gs p" and m: "(i, h) \<in> set (pd_replies p)"
    and c: "c \<noteq> ChannelOpen" "c \<noteq> ReceiverDropped"
  shows "guards_ok gs (p\<lparr>pd_replies := hm_remove i (pd_replies p), pd_channels := (pd_channels p)[h := c]\<rparr>)"
proof -
  note d = delete_set [OF pending_wfD(1) [OF w] m]
  have "(pd_channels p)[h := c] ! k = (if k = h then c else pd_channels p ! k)" for k
    using pending_wfD(7) [OF w m] by (simp add: nth_list_update)
  then show ?thesis unfolding guards_ok_def using guards_okD [OF g] d c
    by (auto split: if_splits)
qed

lemma deliver_guards:
  assumes w: "pending_wf p" and g: "guards_ok gs p" and d: "deliver i r p = (q, p')"
  shows "pending_wf p' \<and> guards_ok gs p' \<and> pd_capacity p' = pd_capacity p \<and> pd_retired p' = pd_retired p
    \<and> pd_next p' = pd_next p \<and> (\<exists>b. q = Inr b)
    \<and> (\<forall>(j, h) \<in> set gs. pd_channels p' ! h =
          (if j = i \<and> pd_channels p ! h = ChannelOpen then Sent r else pd_channels p ! h))"
proof (cases "i \<in> fst ` set (pd_replies p)")
  case False
  have "\<not> (j = i \<and> pd_channels p ! h = ChannelOpen)" if "(j, h) \<in> set gs" for j h
    using that False guards_okD(6) [OF g that] by force
  then show ?thesis using d w g unfolding deliver_absent [OF w False] by auto
next
  case True
  then obtain h where m: "(i, h) \<in> set (pd_replies p)" by auto
  from d have p': "p' = p\<lparr>pd_replies := hm_remove i (pd_replies p), pd_channels := (pd_channels p)[h := Sent r]\<rparr>" "q = Inr True"
    unfolding deliver_present [OF w m] by auto
  have "pd_channels p' ! k = (if j = i \<and> pd_channels p ! k = ChannelOpen then Sent r else pd_channels p ! k)"
    if "(j, k) \<in> set gs" for j k
  proof -
    have "(i, h) \<in> set gs" using m guards_okD(1) [OF g] by auto
    then have "j = i \<longleftrightarrow> k = h" using guard_unique [OF g] that by blast
    then show ?thesis using pending_wfD(7,8) [OF w m] by (simp add: p' nth_list_update)
  qed
  then show ?thesis using pending_wf_taken [OF w m] guards_ok_taken [OF w g m] by (auto simp: p')
qed

lemma drop_sender_open: "drop_sender c \<noteq> ChannelOpen"
  and drop_sender_received: "drop_sender c = ReceiverDropped \<longleftrightarrow> c = ReceiverDropped"
  by (auto simp: drop_sender_def)

lemma drop_senders_nth:
  "distinct hs \<Longrightarrow> set hs \<subseteq> {..<length cs} \<Longrightarrow> k < length cs \<Longrightarrow>
     fold (\<lambda>h cs. cs[h := drop_sender (cs ! h)]) hs cs ! k = (if k \<in> set hs then drop_sender (cs ! k) else cs ! k)"
  by (induction hs arbitrary: cs) (auto simp: nth_list_update)

lemma drop_senders_length [simp]:
  "length (fold (\<lambda>h cs. cs[h := drop_sender (cs ! h)]) hs cs) = length cs"
  by (induction hs arbitrary: cs) auto

lemma retire_guards:
  assumes w: "pending_wf p" and g: "guards_ok gs p" and d: "retire p = (q, p')"
  shows "pending_wf p' \<and> guards_ok gs p' \<and> pd_capacity p' = pd_capacity p \<and> pd_retired p' \<and> pd_next p' = pd_next p
    \<and> q = Inr () \<and> (\<forall>(j, h) \<in> set gs. pd_channels p' ! h = drop_sender (pd_channels p ! h))"
proof -
  let ?cs = "fold (\<lambda>h cs. cs[h := drop_sender (cs ! h)]) (map snd (pd_replies p)) (pd_channels p)"
  have p': "p' = p\<lparr>pd_retired := True, pd_replies := [], pd_channels := ?cs\<rparr>" "q = Inr ()"
    using d pending_wfD(3) [OF w] by (auto simp: retire_def)
  have n: "?cs ! k = (if k \<in> set (map snd (pd_replies p)) then drop_sender (pd_channels p ! k) else pd_channels p ! k)"
    if "k < length (pd_channels p)" for k
    using pending_wfD(2,7) [OF w] that by (intro drop_senders_nth) auto
  have c: "?cs ! h = drop_sender (pd_channels p ! h)" if "(j, h) \<in> set gs" for j h
  proof (cases "h \<in> set (map snd (pd_replies p))")
    case False
    then have "pd_channels p ! h \<noteq> ChannelOpen" using guards_okD(6) [OF g that] by force
    then show ?thesis using n [OF guards_okD(5) [OF g that]] False by (simp add: drop_sender_def)
  qed (simp add: n [OF guards_okD(5) [OF g that]])
  have "pending_wf p'" using pending_wfD(3) [OF w] by (simp add: p' pending_wf_def)
  moreover have "guards_ok gs p'" unfolding guards_ok_def
    using guards_okD [OF g] c by (auto simp: p' drop_sender_open drop_sender_received)
  ultimately show ?thesis using c by (auto simp: p')
qed

lemma release_eq:
  assumes w: "pending_wf p" and g: "guards_ok gs p" and m: "(i, h) \<in> set gs"
  shows "release i h p = p\<lparr>pd_replies := hm_remove i (pd_replies p), pd_channels := (pd_channels p)[h := ReceiverDropped]\<rparr>"
proof (cases "map_of (pd_replies p) i")
  case None
  then show ?thesis using pending_wfD(3) [OF w]
    by (simp add: release_def drop_receiver_def drop_pending_def remove_reply_def)
next
  case (Some k)
  then have "(i, k) \<in> set gs" using guards_okD(1) [OF g] by (auto dest: map_of_SomeD)
  then have "k = h" using guard_unique [OF g m] by blast
  then show ?thesis using Some pending_wfD(3) [OF w] guards_okD(5) [OF g m]
    by (simp add: release_def drop_receiver_def drop_pending_def remove_reply_def drop_sender_def)
qed

lemma release_guards:
  assumes w: "pending_wf p" and g: "guards_ok gs p" and m: "(i, h) \<in> set gs"
  shows "pending_wf (release i h p) \<and> guards_ok (remove1 (i, h) gs) (release i h p)
    \<and> pd_capacity (release i h p) = pd_capacity p \<and> pd_retired (release i h p) = pd_retired p
    \<and> pd_next (release i h p) = pd_next p
    \<and> (\<forall>(j, k) \<in> set (remove1 (i, h) gs). pd_channels (release i h p) ! k = pd_channels p ! k)"
proof -
  note u = guard_unique [OF g m]
  have r: "set (remove1 (i, h) gs) = set gs - {(i, h)}"
    using guards_okD(2) [OF g] by (simp add: distinct_map)
  have k: "(j, k) \<in> set gs - {(i, h)} \<Longrightarrow> j \<noteq> i \<and> k \<noteq> h" for j k using u by blast
  have rep: "set (hm_remove i (pd_replies p)) = set (pd_replies p) - {(i, h)}"
    using k guards_okD(1) [OF g] by (force simp: AList.delete_eq)
  have neq: "(pd_channels p)[h := ReceiverDropped] ! b = pd_channels p ! b" if "(a, b) \<in> set gs" "a \<noteq> i" for a b
    using k [of a b] that by simp
  have d: "distinct (map fst (remove1 (i, h) gs))" "distinct (map snd (remove1 (i, h) gs))"
    using guards_okD(2,3) [OF g] by (simp_all add: distinct_map inj_on_def r)
  have "pending_wf (release i h p)"
  proof (cases "(i, h) \<in> set (pd_replies p)")
    case True
    then show ?thesis unfolding release_eq [OF assms] by (rule pending_wf_taken [OF w])
  next
    case False
    then have i: "hm_remove i (pd_replies p) = pd_replies p" using k guards_okD(1) [OF g] by (intro delete_id) force
    show ?thesis unfolding release_eq [OF assms] pending_wf_def i
      using pending_wfD [OF w] False k guards_okD(1) [OF g] by (fastforce simp: nth_list_update)
  qed
  moreover have "guards_ok (remove1 (i, h) gs) (release i h p)" unfolding guards_ok_def r release_eq [OF assms]
    using guards_okD [OF g] k rep d neq by auto
  moreover have "pd_channels (release i h p) ! b = pd_channels p ! b" if "(a, b) \<in> set (remove1 (i, h) gs)" for a b
    using k [OF that [unfolded r]] by (simp add: release_eq [OF assms])
  moreover have "pd_capacity (release i h p) = pd_capacity p" "pd_retired (release i h p) = pd_retired p"
    "pd_next (release i h p) = pd_next p"
    by (simp_all add: release_eq [OF assms])
  ultimately show ?thesis by blast
qed

text \<open>
  What a request relies on of the registry, in terms of the guards alive: a reservation adds one
  guard, a delivery, a retirement and a release touch no other guard's channel, and a reservation is
  refused only by retirement, by as many guards as the capacity, or when identifiers run out.
\<close>

locale reply_registry =
  fixes reserve_in :: "'p \<Rightarrow> (request_error + nat \<times> nat) \<times> 'p"
    and deliver_in :: "nat \<Rightarrow> reply \<Rightarrow> 'p \<Rightarrow> (request_error + bool) \<times> 'p"
    and release_in :: "nat \<Rightarrow> nat \<Rightarrow> 'p \<Rightarrow> 'p"
    and holds :: "(nat \<times> nat) list \<Rightarrow> 'p \<Rightarrow> bool"
    and channel_in :: "'p \<Rightarrow> nat \<Rightarrow> oneshot"
    and room :: "'p \<Rightarrow> nat" and closed :: "'p \<Rightarrow> bool" and exhausted :: "'p \<Rightarrow> bool"
  assumes reserved: "holds gs p \<Longrightarrow> reserve_in p = (Inr (i, h), p') \<Longrightarrow>
      holds ((i, h) # gs) p' \<and> channel_in p' h = ChannelOpen \<and> room p' = room p \<and> closed p' = closed p
      \<and> (\<forall>(j, k) \<in> set gs. channel_in p' k = channel_in p k)"
    and refused: "holds gs p \<Longrightarrow> reserve_in p = (Inl e, p') \<Longrightarrow>
      p' = p \<and> (closed p \<or> room p \<le> length gs \<or> exhausted p)"
    and delivered: "holds gs p \<Longrightarrow> deliver_in i r p = (q, p') \<Longrightarrow>
      holds gs p' \<and> room p' = room p \<and> (\<exists>b. q = Inr b) \<and> closed p' = closed p
      \<and> (\<forall>(j, h) \<in> set gs. channel_in p' h =
           (if j = i \<and> channel_in p h = ChannelOpen then Sent r else channel_in p h))"
    and released: "holds gs p \<Longrightarrow> (i, h) \<in> set gs \<Longrightarrow>
      holds (remove1 (i, h) gs) (release_in i h p) \<and> room (release_in i h p) = room p \<and> closed (release_in i h p) = closed p
      \<and> (\<forall>(j, k) \<in> set (remove1 (i, h) gs). channel_in (release_in i h p) k = channel_in p k)"
begin

lemma reserve_admits:
  assumes "holds gs p" "length gs < room p" "\<not> closed p" "\<not> exhausted p"
  obtains i h p' where "reserve_in p = (Inr (i, h), p')" "holds ((i, h) # gs) p'"
  using assms refused [OF assms(1)] reserved [OF assms(1)]
  by (metis linorder_not_le old.prod.exhaust sumE)

text \<open>The reply a guard receives is the first one delivered under its identifier.\<close>

lemma first_delivery_wins:
  assumes "holds gs p" "(i, h) \<in> set gs" "channel_in p h = ChannelOpen"
    "deliver_in i r p = (q, p')" "deliver_in j r' p' = (q', p'')"
  shows "channel_in p'' h = Sent r"
  using delivered [OF assms(1,4)] delivered [of gs p', OF _ assms(5)] assms(2,3) by fastforce

end

interpretation replies: reply_registry reserve deliver release "\<lambda>gs p. pending_wf p \<and> guards_ok gs p"
  "\<lambda>p h. pd_channels p ! h" pd_capacity pd_retired "\<lambda>p. 2 ^ 64 \<le> Suc (pd_next p)"
proof (unfold_locales, goal_cases)
  case (1 gs p i h p')
  then show ?case using reserve_Inr [of p gs i h p'] guards_okD(5) [of gs p] by auto
next
  case (2 gs p e p')
  then show ?case using reserve_Inl [of p e p'] guards_bound [of p gs] by auto
next
  case (3 gs p i r q p')
  then show ?case using deliver_guards [of p gs i r q p'] by simp
next
  case (4 gs p i h)
  then show ?case using release_guards [of p gs i h] by simp
qed

end
