(* ===== verification/Identity.thy ===== *)
theory Identity
  imports Prelude
begin

text \<open>
  \<open>src/lib/platform-common/src/identity.rs\<close>: the projected workload token and the review of a
  caller's token by the Kubernetes API server. File reads, HTTP exchanges and the JSON decoder are
  arguments: what they returned. Each definition turns those answers into the result the code
  computes from them.
\<close>

section \<open>Definitions\<close>

definition PLATFORM_AUDIENCE :: string where "PLATFORM_AUDIENCE = ''wasm-platform''"
definition MAX_TOKEN_BYTES :: nat where "MAX_TOKEN_BYTES = 16 * 1024"
definition MAX_REVIEW_BYTES :: nat where "MAX_REVIEW_BYTES = 64 * 1024"

datatype identity_error =
    TokenUnavailable | InvalidToken | Configuration | ReviewUnavailable
  | Unauthenticated | Forbidden | Connection

fun identity_message :: "identity_error \<Rightarrow> string" where
  "identity_message TokenUnavailable = ''workload token unavailable''"
| "identity_message InvalidToken = ''workload token invalid''"
| "identity_message Configuration = ''workload identity configuration invalid''"
| "identity_message ReviewUnavailable = ''workload authentication unavailable''"
| "identity_message Unauthenticated = ''workload authentication denied''"
| "identity_message Forbidden = ''workload authorization denied''"
| "identity_message Connection = ''operator connection failed''"

subsection \<open>UTF-8\<close>

text \<open>
  \<open>std::str::from_utf8\<close>: the scalar values of a well-formed byte string (no overlong forms, no
  surrogates, nothing above \<open>U+10FFFF\<close>), each with the bytes that spell it.
\<close>

definition utf8_cont :: "byte \<Rightarrow> bool" where
  "utf8_cont b \<longleftrightarrow> 0x80 \<le> unat b \<and> unat b \<le> 0xBF"

fun utf8_split :: "bytes \<Rightarrow> (nat \<times> bytes) list option" where
  "utf8_split [] = Some []"
| "utf8_split (a # rest) =
     (if unat a < 0x80 then map_option (Cons (unat a, [a])) (utf8_split rest)
      else if 0xC2 \<le> unat a \<and> unat a \<le> 0xDF then
        (case rest of
           b # rest' \<Rightarrow>
             if utf8_cont b
             then map_option (Cons ((unat a - 0xC0) * 64 + (unat b - 0x80), [a, b])) (utf8_split rest')
             else None
         | _ \<Rightarrow> None)
      else if 0xE0 \<le> unat a \<and> unat a \<le> 0xEF then
        (case rest of
           b # c # rest' \<Rightarrow>
             (let n = (unat a - 0xE0) * 4096 + (unat b - 0x80) * 64 + (unat c - 0x80) in
              if utf8_cont b \<and> utf8_cont c \<and> 0x800 \<le> n \<and> (n < 0xD800 \<or> 0xDFFF < n)
              then map_option (Cons (n, [a, b, c])) (utf8_split rest') else None)
         | _ \<Rightarrow> None)
      else if 0xF0 \<le> unat a \<and> unat a \<le> 0xF4 then
        (case rest of
           b # c # d # rest' \<Rightarrow>
             (let n = (unat a - 0xF0) * 262144 + (unat b - 0x80) * 4096
                + (unat c - 0x80) * 64 + (unat d - 0x80) in
              if utf8_cont b \<and> utf8_cont c \<and> utf8_cont d \<and> 0x10000 \<le> n \<and> n \<le> 0x10FFFF
              then map_option (Cons (n, [a, b, c, d])) (utf8_split rest') else None)
         | _ \<Rightarrow> None)
      else None)"

text \<open>The \<open>White_Space\<close> property of \<open>str::trim\<close>.\<close>

definition is_whitespace :: "nat \<Rightarrow> bool" where
  "is_whitespace n \<longleftrightarrow>
     (9 \<le> n \<and> n \<le> 13) \<or> n = 0x20 \<or> n = 0x85 \<or> n = 0xA0 \<or> n = 0x1680 \<or>
     (0x2000 \<le> n \<and> n \<le> 0x200A) \<or> n = 0x2028 \<or> n = 0x2029 \<or> n = 0x202F \<or> n = 0x205F \<or> n = 0x3000"

definition utf8_trim :: "(nat \<times> bytes) list \<Rightarrow> (nat \<times> bytes) list" where
  "utf8_trim cs = rev (dropWhile (\<lambda>c. is_whitespace (fst c)) (rev (dropWhile (\<lambda>c. is_whitespace (fst c)) cs)))"

subsection \<open>The projected token\<close>

definition is_token_byte :: "byte \<Rightarrow> bool" where
  "is_token_byte b \<longleftrightarrow>
     (let n = unat b in
      (0x30 \<le> n \<and> n \<le> 0x39) \<or> (0x41 \<le> n \<and> n \<le> 0x5A) \<or> (0x61 \<le> n \<and> n \<le> 0x7A) \<or>
      n = 0x2D \<or> n = 0x5F \<or> n = 0x2E)"

definition validate_token :: "bytes \<Rightarrow> identity_error + unit" where
  "validate_token t =
     (if t = [] \<or> length t > MAX_TOKEN_BYTES \<or> \<not> list_all is_token_byte t
      then Inl InvalidToken else Inr ())"

text \<open>
  \<open>ProjectedTokenReader::read\<close>. The file is absent (\<open>None\<close>), fails while it is read, or yields its
  bytes, of which at most one more than the limit is taken; the whole read may time out.
\<close>

datatype file_read = OpenFailed | ReadFailed | Contents bytes

definition token_read :: "file_read timed \<Rightarrow> identity_error + bytes" where
  "token_read r =
     (case r of
        Elapsed \<Rightarrow> Inl TokenUnavailable
      | Done OpenFailed \<Rightarrow> Inl TokenUnavailable
      | Done ReadFailed \<Rightarrow> Inl TokenUnavailable
      | Done (Contents file) \<Rightarrow>
          (let b = take (MAX_TOKEN_BYTES + 1) file in
           if length b > MAX_TOKEN_BYTES then Inl InvalidToken
           else
             (case utf8_split b of
                None \<Rightarrow> Inl InvalidToken
              | Some cs \<Rightarrow>
                  (let t = concat (map snd (utf8_trim cs)) in
                   case validate_token t of Inl e \<Rightarrow> Inl e | Inr _ \<Rightarrow> Inr t))))"

definition token_validate :: "file_read timed \<Rightarrow> identity_error + unit" where
  "token_validate r = map_sum id (\<lambda>_. ()) (token_read r)"

text \<open>
  \<open>http_request\<close> and \<open>grpc_request\<close>: the value of the authorization header. Whether the HTTP package
  accepts the bytes as a header value is the argument \<open>valid_header\<close>.
\<close>

definition authorization_header :: "(bytes \<Rightarrow> bool) \<Rightarrow> identity_error + bytes \<Rightarrow> identity_error + bytes" where
  "authorization_header valid_header token =
     (case token of
        Inl e \<Rightarrow> Inl e
      | Inr t \<Rightarrow>
          (let v = map of_char ''Bearer '' @ t in if valid_header v then Inr v else Inl InvalidToken))"

subsection \<open>Token review\<close>

record review_user = username :: string

record review_status =
  authenticated :: bool
  audiences :: "string list"
  user :: "review_user option"
  error :: "string option"

definition authorize_status :: "review_status \<Rightarrow> string \<Rightarrow> identity_error + unit" where
  "authorize_status st expected =
     (if \<not> authenticated st
        \<or> (case error st of None \<Rightarrow> False | Some e \<Rightarrow> e \<noteq> [])
        \<or> \<not> list_ex (\<lambda>a. a = PLATFORM_AUDIENCE) (audiences st)
      then Inl Unauthenticated
      else if (case user st of None \<Rightarrow> True | Some u \<Rightarrow> username u \<noteq> expected)
      then Inl Forbidden
      else Inr ())"

text \<open>An HTTP response as the client sees it: chunks of the body, or a failure between them.\<close>

record http_response =
  is_success :: bool
  content_length :: "nat option"
  chunks :: "bytes option list"

fun review_body :: "bytes \<Rightarrow> bytes option list \<Rightarrow> identity_error + bytes" where
  "review_body acc [] = Inr acc"
| "review_body acc (None # cs) = Inl ReviewUnavailable"
| "review_body acc (Some c # cs) =
     (if length acc + length c > MAX_REVIEW_BYTES then Inl ReviewUnavailable
      else review_body (acc @ c) cs)"

text \<open>
  \<open>review\<close>: the reviewer's own token (\<open>api_token\<close>), the response of the API server (\<open>None\<close> when the
  request failed) and the JSON decoder \<open>decode\<close> are arguments.
\<close>

definition review ::
  "(bytes \<Rightarrow> review_status option) \<Rightarrow> string \<Rightarrow> (identity_error + bytes) \<Rightarrow> http_response option
     \<Rightarrow> identity_error + unit" where
  "review decode expected api_token response =
     (case api_token of
        Inl _ \<Rightarrow> Inl ReviewUnavailable
      | Inr _ \<Rightarrow>
          (case response of
             None \<Rightarrow> Inl ReviewUnavailable
           | Some r \<Rightarrow>
               if \<not> is_success r \<or> (case content_length r of None \<Rightarrow> False | Some n \<Rightarrow> n > MAX_REVIEW_BYTES)
               then Inl ReviewUnavailable
               else
                 (case review_body [] (chunks r) of
                    Inl e \<Rightarrow> Inl e
                  | Inr b \<Rightarrow>
                      (case decode b of
                         None \<Rightarrow> Inl ReviewUnavailable
                       | Some st \<Rightarrow> authorize_status st expected))))"

definition authorize ::
  "bytes \<Rightarrow> (identity_error + unit) timed \<Rightarrow> identity_error + unit" where
  "authorize token reviewed =
     (case validate_token token of
        Inl _ \<Rightarrow> Inl Unauthenticated
      | Inr _ \<Rightarrow> (case reviewed of Elapsed \<Rightarrow> Inl ReviewUnavailable | Done r \<Rightarrow> r))"

text \<open>\<open>operator_channel\<close> accepts a plain \<open>http\<close> origin only; the URL parser is an argument.\<close>

record url =
  scheme :: string
  host :: "string option"
  url_username :: string
  url_password :: "string option"
  url_path :: string
  query :: "string option"
  fragment :: "string option"
  authority :: string

definition operator_channel ::
  "(string \<Rightarrow> url option) \<Rightarrow> (string \<Rightarrow> bool) \<Rightarrow> string \<Rightarrow> bool timed \<Rightarrow> identity_error + unit" where
  "operator_channel parse_url valid_endpoint address connected =
     (case parse_url address of
        None \<Rightarrow> Inl Connection
      | Some u \<Rightarrow>
          if scheme u \<noteq> ''http'' \<or> host u = None \<or> url_username u \<noteq> [] \<or> url_password u \<noteq> None
            \<or> query u \<noteq> None \<or> fragment u \<noteq> None
          then Inl Connection
          else if \<not> valid_endpoint address then Inl Connection
          else (case connected of Elapsed \<Rightarrow> Inl Connection | Done ok \<Rightarrow> if ok then Inr () else Inl Connection))"

section \<open>Lemmas\<close>

lemma validate_token_Inr_iff:
  "validate_token t = Inr u \<longleftrightarrow> t \<noteq> [] \<and> length t \<le> MAX_TOKEN_BYTES \<and> list_all is_token_byte t"
  by (auto simp: validate_token_def)

lemma token_read_valid: "token_read r = Inr t \<Longrightarrow> validate_token t = Inr ()"
  by (auto simp: token_read_def Let_def split: timed.splits file_read.splits option.splits sum.splits if_splits)

lemma utf8_split_ascii: "list_all (\<lambda>b. unat b < 0x80) b \<Longrightarrow> utf8_split b = Some (map (\<lambda>b. (unat b, [b])) b)"
  by (induction b) auto

lemma token_byte_ascii: "is_token_byte b \<Longrightarrow> unat b < 0x80 \<and> \<not> is_whitespace (unat b)"
  by (auto simp: is_token_byte_def is_whitespace_def Let_def)

lemma review_body_bounded:
  "review_body acc cs = Inr b \<Longrightarrow> length acc \<le> MAX_REVIEW_BYTES \<Longrightarrow> length b \<le> MAX_REVIEW_BYTES"
  by (induction acc cs rule: review_body.induct) (auto split: if_splits)

lemma review_body_all: "review_body acc cs = Inr b \<Longrightarrow> b = acc @ concat (map the cs) \<and> None \<notin> set cs"
  by (induction acc cs rule: review_body.induct) (auto split: if_splits)

lemma authorize_status_Inr_iff:
  "authorize_status st expected = Inr u \<longleftrightarrow>
     authenticated st \<and> (error st = None \<or> error st = Some []) \<and> PLATFORM_AUDIENCE \<in> set (audiences st)
     \<and> user st = Some \<lparr>username = expected\<rparr>"
  by (auto simp: authorize_status_def list_ex_iff split: option.splits)

lemma review_Inr:
  assumes "review decode expected api_token response = Inr u"
  obtains r b st where "response = Some r" "is_success r" "review_body [] (chunks r) = Inr b"
    "decode b = Some st" "authorize_status st expected = Inr u"
  using assms by (auto simp: review_def split: sum.splits option.splits if_splits)

lemma dropWhile_all_prefix: "list_all P ws \<Longrightarrow> dropWhile P (ws @ xs) = dropWhile P xs"
  by (induction ws) auto

lemma utf8_trim_token:
  assumes ws: "list_all (\<lambda>b. is_whitespace (unat b)) ws" "list_all (\<lambda>b. is_whitespace (unat b)) ws'"
    and t: "t \<noteq> []" "list_all is_token_byte t"
  shows "utf8_trim (map (\<lambda>b. (unat b, [b])) (ws @ t @ ws')) = map (\<lambda>b. (unat b, [b])) t"
proof -
  let ?c = "map (\<lambda>b :: byte. (unat b, [b]))" and ?P = "\<lambda>c :: nat \<times> bytes. is_whitespace (fst c)"
  have keep: "dropWhile ?P (?c t @ xs) = ?c t @ xs" for xs
    using t by (cases t) (auto dest: token_byte_ascii)
  have keep': "dropWhile ?P (rev (?c t)) = rev (?c t)"
    using t by (cases t rule: rev_cases) (auto dest: token_byte_ascii)
  have w: "list_all ?P (?c ws)" "list_all ?P (rev (?c ws'))"
    using ws by (auto simp: list_all_iff)
  show ?thesis
    using w by (simp add: utf8_trim_def dropWhile_all_prefix keep keep')
qed

section \<open>Properties\<close>

text \<open>
  A token file that holds a valid token, with any ASCII white space before and
  after it, within the size limit, is read back as exactly that token; and every token the reader
  returns, from any file, is non-empty, bounded and made of the allowed characters only.
\<close>

theorem token_read_round_trip:
  assumes t: "validate_token t = Inr ()"
    and ws: "list_all (\<lambda>b. unat b < 0x80 \<and> is_whitespace (unat b)) ws"
      "list_all (\<lambda>b. unat b < 0x80 \<and> is_whitespace (unat b)) ws'"
    and size: "length (ws @ t @ ws') \<le> MAX_TOKEN_BYTES"
  shows "token_read (Done (Contents (ws @ t @ ws'))) = Inr t
    \<and> (\<forall>r u. token_read r = Inr u \<longrightarrow> u \<noteq> [] \<and> length u \<le> MAX_TOKEN_BYTES \<and> list_all is_token_byte u)"
proof -
  have tb: "t \<noteq> []" "list_all is_token_byte t" using t by (simp_all add: validate_token_Inr_iff)
  have "list_all (\<lambda>b. unat b < 0x80) (ws @ t @ ws')"
    using ws tb(2) token_byte_ascii by (auto simp: list_all_iff)
  then have split: "utf8_split (ws @ t @ ws') = Some (map (\<lambda>b. (unat b, [b])) (ws @ t @ ws'))"
    by (rule utf8_split_ascii)
  have trim: "utf8_trim (map (\<lambda>b. (unat b, [b])) (ws @ t @ ws')) = map (\<lambda>b. (unat b, [b])) t"
    using ws by (intro utf8_trim_token tb) (auto simp: list_all_iff)
  have "concat (map snd (map (\<lambda>b :: byte. (unat b, [b])) t)) = t"
    by (induction t) auto
  moreover have "take (MAX_TOKEN_BYTES + 1) (ws @ t @ ws') = ws @ t @ ws'"
    using size by (intro take_all) simp
  ultimately have "token_read (Done (Contents (ws @ t @ ws'))) = Inr t"
    using size t split trim by (simp add: token_read_def Let_def)
  then show ?thesis using token_read_valid validate_token_Inr_iff by blast
qed

theorem token_read_round_trip_witness:
  "token_read (Done (Contents ([32, 9] @ [0x61, 0x2E, 0x41] @ [10]))) = Inr [0x61, 0x2E, 0x41]"
proof -
  have t: "validate_token [0x61, 0x2E, 0x41] = Inr ()"
    by (simp add: validate_token_def MAX_TOKEN_BYTES_def is_token_byte_def)
  show ?thesis
    using token_read_round_trip [OF t, of "[32, 9]" "[10]"]
    by (simp add: is_whitespace_def MAX_TOKEN_BYTES_def)
qed

text \<open>
  Authorization fails closed: it succeeds only for a well-formed token, a review
  that answered in time, a bounded successful response that decodes to an authenticated status
  without an error, for the platform's audience and for exactly the expected service account. A
  review that timed out is never an authorization.
\<close>

theorem authorize_fails_closed:
  assumes "authorize token reviewed = Inr ()"
    and "reviewed = Done (review decode expected api_token response) \<or> reviewed = Elapsed"
  shows "\<exists>r b st. validate_token token = Inr () \<and> response = Some r \<and> is_success r
     \<and> review_body [] (chunks r) = Inr b \<and> length b \<le> MAX_REVIEW_BYTES \<and> decode b = Some st
     \<and> authenticated st \<and> (error st = None \<or> error st = Some [])
     \<and> PLATFORM_AUDIENCE \<in> set (audiences st) \<and> user st = Some \<lparr>username = expected\<rparr>"
proof -
  have v: "validate_token token = Inr ()" and rv: "review decode expected api_token response = Inr ()"
    using assms by (auto simp: authorize_def split: sum.splits)
  obtain r b st where "response = Some r" "is_success r" and b: "review_body [] (chunks r) = Inr b"
    "decode b = Some st" "authorize_status st expected = Inr ()"
    using review_Inr [OF rv] .
  moreover have "length b \<le> MAX_REVIEW_BYTES"
    using review_body_bounded [OF b(1)] by simp
  ultimately show ?thesis using v by (auto simp: authorize_status_Inr_iff)
qed

definition sample_review_status :: review_status where
  "sample_review_status = \<lparr>authenticated = True, audiences = [PLATFORM_AUDIENCE],
     user = Some \<lparr>username = ''sa''\<rparr>, error = None\<rparr>"

definition sample_review_response :: http_response where
  "sample_review_response = \<lparr>is_success = True, content_length = None, chunks = [Some [1]]\<rparr>"

theorem authorize_fails_closed_witness:
  "\<exists>r b st. validate_token [0x61] = Inr () \<and> Some sample_review_response = Some r \<and> is_success r
     \<and> review_body [] (chunks r) = Inr b \<and> length b \<le> MAX_REVIEW_BYTES
     \<and> Some sample_review_status = Some st
     \<and> authenticated st \<and> (error st = None \<or> error st = Some [])
     \<and> PLATFORM_AUDIENCE \<in> set (audiences st) \<and> user st = Some \<lparr>username = ''sa''\<rparr>"
proof -
  have h: "authorize [0x61] (Done (review (\<lambda>_. Some sample_review_status) ''sa'' (Inr [])
      (Some sample_review_response))) = Inr ()"
    by (simp add: authorize_def validate_token_def MAX_TOKEN_BYTES_def is_token_byte_def review_def
        MAX_REVIEW_BYTES_def authorize_status_def sample_review_status_def sample_review_response_def)
  show ?thesis by (rule authorize_fails_closed [OF h disjI1 [OF refl]])
qed

end
