(* ===== verification/SyncLoop.thy ===== *)
theory SyncLoop
  imports Identity
begin

text \<open>
  The reconnect loop that \<open>run_config_sync_loop\<close> (\<open>execution-host/src/config_sync.rs\<close>) and
  \<open>run_route_sync_loop\<close> (\<open>gateway/src/route_sync.rs\<close>) share: a session runs under a timeout, the
  authority it gained is withdrawn when it ends, and the loop sleeps before the next session. Times
  are seconds. What both loops rely on of a session is the locale \<open>sync_sessions\<close>.
\<close>

section \<open>Definitions\<close>

datatype 'a stream_event = Message 'a | StreamFailed string | StreamExpired

text \<open>The backoff a session starts its end with, the delay that is logged, and the delay slept.\<close>

definition sync_reset :: "bool \<Rightarrow> nat \<Rightarrow> nat" where
  "sync_reset synced backoff = (if synced then 1 else backoff)"

definition sync_logged :: "bool \<Rightarrow> unit anyhow \<Rightarrow> nat \<Rightarrow> nat option" where
  "sync_logged synced result backoff =
     (case result of Inr _ \<Rightarrow> None | Inl _ \<Rightarrow> Some (sync_reset synced backoff))"

definition sync_backoff :: "bool \<Rightarrow> unit anyhow \<Rightarrow> nat \<Rightarrow> nat" where
  "sync_backoff synced result backoff =
     (case result of Inr _ \<Rightarrow> 1 | Inl _ \<Rightarrow> min (sync_reset synced backoff * 2) 30)"

text \<open>The delays slept over a sequence of sessions, each given by whether it synced and its result.\<close>

fun sync_delays :: "nat \<Rightarrow> (bool \<times> unit anyhow) list \<Rightarrow> nat list" where
  "sync_delays backoff [] = []"
| "sync_delays backoff ((synced, result) # rest) =
     (let b = sync_backoff synced result backoff in b # sync_delays b rest)"

text \<open>
  The loop over a list of sessions. A session takes what the operator does during it and the state,
  and returns its result, whether it registered with the operator, and the new state.
\<close>

fun run_sessions ::
  "('i \<Rightarrow> 's \<Rightarrow> unit anyhow \<times> bool \<times> 's) \<Rightarrow> 'i list \<Rightarrow> 's \<Rightarrow> (bool \<times> unit anyhow) list \<times> 's" where
  "run_sessions session [] s = ([], s)"
| "run_sessions session (i # is) s =
     (case session i s of
        (r, synced, s1) \<Rightarrow> (case run_sessions session is s1 of (log, s2) \<Rightarrow> ((synced, r) # log, s2)))"

section \<open>Sessions\<close>

text \<open>The loop keeps an invariant of the state when every session does.\<close>

locale sync_sessions =
  fixes session :: "'i \<Rightarrow> 's \<Rightarrow> unit anyhow \<times> bool \<times> 's" and inv :: "'s \<Rightarrow> bool"
  assumes session_inv: "inv s \<Longrightarrow> inv (snd (snd (session i s)))"
begin

lemma run_sessions_inv: "inv s \<Longrightarrow> inv (snd (run_sessions session is s))"
proof (induction "is" arbitrary: s)
  case (Cons i "is")
  obtain r b s1 where 1: "session i s = (r, b, s1)" by (metis surj_pair)
  obtain log s2 where 2: "run_sessions session is s1 = (log, s2)" by (metis surj_pair)
  have "inv s1" using session_inv [OF Cons.prems, of i] 1 by simp
  from Cons.IH [OF this] show ?case by (simp add: 1 2)
qed simp

end

section \<open>Lemmas\<close>

lemma sync_backoff_range: "0 < backoff \<Longrightarrow> 0 < sync_backoff synced result backoff \<and> sync_backoff synced result backoff \<le> 30"
  by (auto simp: sync_backoff_def sync_reset_def split: sum.split)

lemma sync_delays_range: "0 < backoff \<Longrightarrow> d \<in> set (sync_delays backoff log) \<Longrightarrow> 0 < d \<and> d \<le> 30"
proof (induction backoff log rule: sync_delays.induct)
  case (2 backoff synced result rest)
  note r = sync_backoff_range [OF 2(2), of synced result]
  from 2(3) have "d = sync_backoff synced result backoff \<or> d \<in> set (sync_delays (sync_backoff synced result backoff) rest)"
    by (simp add: Let_def)
  then show ?case using r 2(1) by (elim disjE) simp_all
qed simp

lemma sync_delays_length [simp]: "length (sync_delays backoff log) = length log"
  by (induction backoff log rule: sync_delays.induct) (simp_all add: Let_def)

lemma sync_delays_failing:
  "0 < b \<Longrightarrow> k < n \<Longrightarrow> sync_delays b (replicate n (False, Inl e)) ! k = min (b * 2 ^ Suc k) 30"
proof (induction n arbitrary: b k)
  case (Suc n)
  let ?b = "min (b * 2) 30"
  have step: "sync_delays b (replicate (Suc n) (False, Inl e)) = ?b # sync_delays ?b (replicate n (False, Inl e))"
    by (simp add: sync_backoff_def sync_reset_def Let_def)
  show ?case
  proof (cases k)
    case (Suc j)
    then have "sync_delays ?b (replicate n (False, Inl e)) ! j = min (?b * 2 ^ Suc j) 30"
      using Suc.prems Suc.IH [of ?b j] by simp
    also have "\<dots> = min (b * 2 ^ Suc (Suc j)) 30"
    proof (cases "b * 2 \<le> 30")
      case False
      have "(30 :: nat) \<le> 30 * 2 ^ Suc j" by simp
      moreover have "30 \<le> b * 2 ^ Suc (Suc j)"
      proof -
        have "b * 1 \<le> b * 2 ^ j" by (rule mult_le_mono2) simp
        moreover have "b * 2 ^ Suc (Suc j) = 4 * (b * 2 ^ j)" by simp
        ultimately show ?thesis using False by linarith
      qed
      ultimately show ?thesis using False by (metis min.absorb2 min_def nat_le_linear)
    qed (simp add: mult.assoc)
    finally show ?thesis unfolding step using Suc by simp
  next
    case 0
    then show ?thesis unfolding step by simp
  qed
qed simp

section \<open>Properties\<close>

text \<open>
  Whatever the sessions do, every delay between two sessions is between 1 and 30
  seconds; after a run of sessions that never register, the delays double up to the bound, starting
  at two seconds; a session that closed cleanly is followed by one second and one that registered
  before it failed by two. The delay a failure logs is not the one slept: it is half of it, until
  the bound is reached.
\<close>

theorem reconnect_delays_bounded:
  "(\<forall>d \<in> set (sync_delays 1 log). 1 \<le> d \<and> d \<le> 30)
    \<and> (k < n \<longrightarrow> sync_delays 1 (replicate n (False, Inl e)) ! k = min (2 ^ Suc k) 30)
    \<and> sync_backoff synced (Inr ()) b = 1 \<and> sync_backoff True (Inl e) b = 2
    \<and> (0 < b \<and> b \<le> 15 \<longrightarrow>
        (\<exists>logged. sync_logged False (Inl e) b = Some logged \<and> sync_backoff False (Inl e) b = 2 * logged))"
proof (intro conjI impI)
  show "\<forall>d \<in> set (sync_delays 1 log). 1 \<le> d \<and> d \<le> 30"
    using sync_delays_range [of 1] by (auto simp: Suc_le_eq)
  show "sync_delays 1 (replicate n (False, Inl e)) ! k = min (2 ^ Suc k) 30" if "k < n"
    using sync_delays_failing [of 1 k n e] that by simp
qed (auto simp: sync_backoff_def sync_reset_def sync_logged_def)

theorem reconnect_delays_bounded_witness:
  "sync_delays 1 (replicate 6 (False, Inl ''config update connection failed'')) ! 3 = 16
     \<and> (\<exists>logged. sync_logged False (Inl ''config update connection failed'') 8 = Some logged
          \<and> sync_backoff False (Inl ''config update connection failed'') 8 = 2 * logged)"
  using reconnect_delays_bounded [of "[]" 3 6 "''config update connection failed''" True 8] by simp

end
