(* ===== verification/RouteSync.thy ===== *)
theory RouteSync
  imports SyncLoop
begin

text \<open>
  \<open>src/components/gateway/src/route_table.rs\<close> and \<open>route_sync.rs\<close>: the routing table and the session
  that keeps it in step with the operator. What the operator, the token file and the transport do
  is an argument; every wait may end with the expiry of the session.
\<close>

section \<open>Definitions\<close>

subsection \<open>The routing table\<close>

record route_entry =
  re_methods :: "string list"
  re_subject :: string

record route_table =
  rt_map :: "(string, route_entry) hash_map"
  rt_poisoned :: bool

definition route_table_new :: route_table where
  "route_table_new = \<lparr>rt_map = [], rt_poisoned = False\<rparr>"

definition rt_upsert :: "string \<Rightarrow> route_entry \<Rightarrow> route_table \<Rightarrow> unit anyhow \<times> route_table" where
  "rt_upsert path entry t =
     (if rt_poisoned t then (Inl ''RouteTable lock poisoned'', t)
      else (Inr (), t\<lparr>rt_map := hm_insert path entry (rt_map t)\<rparr>))"

definition rt_remove :: "string \<Rightarrow> route_table \<Rightarrow> unit anyhow \<times> route_table" where
  "rt_remove path t =
     (if rt_poisoned t then (Inl ''RouteTable lock poisoned'', t)
      else (Inr (), t\<lparr>rt_map := hm_remove path (rt_map t)\<rparr>))"

definition rt_get :: "string \<Rightarrow> route_table \<Rightarrow> route_entry option anyhow" where
  "rt_get path t = (if rt_poisoned t then Inl ''RouteTable lock poisoned'' else Inr (hm_get (rt_map t) path))"

definition rt_replace_all :: "(string \<times> route_entry) list \<Rightarrow> route_table \<Rightarrow> unit anyhow \<times> route_table" where
  "rt_replace_all routes t =
     (if rt_poisoned t then (Inl ''RouteTable lock poisoned'', t)
      else (Inr (), t\<lparr>rt_map := fold (\<lambda>(path, entry). hm_insert path entry) routes []\<rparr>))"

subsection \<open>Messages\<close>

record route_config =
  rc_path :: string
  rc_methods :: "string list"
  rc_subject :: string

record route_update =
  ru_route :: "route_config option"
  ru_delete :: bool

record route_update_config =
  ruc_version :: string
  ruc_updates :: "route_update list"

record full_routes =
  fr_routes :: "route_config list"
  fr_success :: bool

definition entry_of :: "route_config \<Rightarrow> route_entry" where
  "entry_of r = \<lparr>re_methods = rc_methods r, re_subject = rc_subject r\<rparr>"

subsection \<open>A session\<close>

text \<open>\<open>fetch_full_routes\<close>: connection, token, answer of the operator.\<close>

record snapshot_exchange =
  sx_channel :: "(identity_error + unit) timed"
  sx_token :: "(identity_error + bytes) timed"
  sx_answer :: "(string + full_routes) timed"

abbreviation expired :: "unit anyhow" where
  "expired \<equiv> Inl ''route sync session expired''"

definition fetch_full_routes :: "snapshot_exchange \<Rightarrow> route_table \<Rightarrow> unit anyhow \<times> route_table" where
  "fetch_full_routes x t =
     (case sx_channel x of
        Elapsed \<Rightarrow> (expired, t)
      | Done (Inl _) \<Rightarrow> (Inl ''route snapshot connection failed'', t)
      | Done (Inr _) \<Rightarrow>
          (case sx_token x of
             Elapsed \<Rightarrow> (expired, t)
           | Done (Inl e) \<Rightarrow> (Inl (identity_message e), t)
           | Done (Inr _) \<Rightarrow>
               (case sx_answer x of
                  Elapsed \<Rightarrow> (expired, t)
                | Done (Inl code) \<Rightarrow> (Inl (''route snapshot RPC failed ('' @ code @ '')''), t)
                | Done (Inr full) \<Rightarrow>
                    if \<not> fr_success full then (Inl ''operator rejected full routes request'', t)
                    else rt_replace_all (map (\<lambda>r. (rc_path r, entry_of r)) (fr_routes full)) t)))"

fun apply_route_updates :: "route_update list \<Rightarrow> route_table \<Rightarrow> unit anyhow \<times> route_table" where
  "apply_route_updates [] t = (Inr (), t)"
| "apply_route_updates (u # us) t =
     (case ru_route u of
        None \<Rightarrow> apply_route_updates us t
      | Some route \<Rightarrow>
          (case (if ru_delete u then rt_remove (rc_path route) t else rt_upsert (rc_path route) (entry_of route) t) of
             (Inl e, t1) \<Rightarrow> (Inl e, t1)
           | (Inr _, t1) \<Rightarrow> apply_route_updates us t1))"

text \<open>
  The stream: each message comes with what became of sending its acknowledgement.
  The acknowledged versions are listed in order.
\<close>

fun route_stream ::
  "(route_update_config option \<times> bool timed) stream_event list \<Rightarrow> route_table \<times> string list
     \<Rightarrow> unit anyhow \<times> route_table \<times> string list" where
  "route_stream [] (t, acks) = (Inr (), t, acks)"
| "route_stream (StreamFailed code # es) (t, acks) = (Inl (''route update stream failed ('' @ code @ '')''), t, acks)"
| "route_stream (StreamExpired # es) (t, acks) = (expired, t, acks)"
| "route_stream (Message (None, ack) # es) (t, acks) = route_stream es (t, acks)"
| "route_stream (Message (Some c, ack) # es) (t, acks) =
     (case apply_route_updates (ruc_updates c) t of
        (Inl e, t1) \<Rightarrow> (Inl e, t1, acks)
      | (Inr _, t1) \<Rightarrow>
          (case ack of
             Elapsed \<Rightarrow> (expired, t1, acks)
           | Done False \<Rightarrow> (Inr (), t1, acks)
           | Done True \<Rightarrow> route_stream es (t1, acks @ [ruc_version c])))"

record route_session =
  rs_snapshot :: snapshot_exchange
  rs_channel :: "(identity_error + unit) timed"
  rs_token :: "(identity_error + bytes) timed"
  rs_open :: "(string + unit) timed"
  rs_initial_ack :: "bool timed"
  rs_events :: "(route_update_config option \<times> bool timed) stream_event list"

text \<open>The state of the loop: the table, and the versions acknowledged since the start.\<close>

record route_loop =
  rl_table :: route_table
  rl_acks :: "string list"

definition run_route_sync :: "route_session \<Rightarrow> route_loop \<Rightarrow> unit anyhow \<times> bool \<times> route_loop" where
  "run_route_sync x s =
     (case fetch_full_routes (rs_snapshot x) (rl_table s) of
        (Inl e, t) \<Rightarrow> (Inl e, False, s\<lparr>rl_table := t\<rparr>)
      | (Inr _, t) \<Rightarrow>
          (let s = s\<lparr>rl_table := t\<rparr> in
           case rs_channel x of
             Elapsed \<Rightarrow> (expired, False, s)
           | Done (Inl _) \<Rightarrow> (Inl ''route update connection failed'', False, s)
           | Done (Inr _) \<Rightarrow>
               (case rs_token x of
                  Elapsed \<Rightarrow> (expired, False, s)
                | Done (Inl e) \<Rightarrow> (Inl (identity_message e), False, s)
                | Done (Inr _) \<Rightarrow>
                    (case rs_open x of
                       Elapsed \<Rightarrow> (expired, False, s)
                     | Done (Inl code) \<Rightarrow> (Inl (''route update RPC failed ('' @ code @ '')''), False, s)
                     | Done (Inr _) \<Rightarrow>
                         (case rs_initial_ack x of
                            Elapsed \<Rightarrow> (expired, False, s)
                          | Done accepted \<Rightarrow>
                              if \<not> accepted then (Inr (), False, s)
                              else
                                (case route_stream (rs_events x) (rl_table s, rl_acks s @ [[]]) of
                                   (r, t, acks) \<Rightarrow> (r, True, s\<lparr>rl_table := t, rl_acks := acks\<rparr>)))))))"

section \<open>The table the operator asked for\<close>

text \<open>The abstract table: the last route of a snapshot for a path, then one update after the other.\<close>

fun spec_route_updates :: "route_update list \<Rightarrow> (string \<rightharpoonup> route_entry) \<Rightarrow> (string \<rightharpoonup> route_entry)" where
  "spec_route_updates [] m = m"
| "spec_route_updates (u # us) m =
     spec_route_updates us
       (case ru_route u of
          None \<Rightarrow> m
        | Some r \<Rightarrow> if ru_delete u then m(rc_path r := None) else m(rc_path r \<mapsto> entry_of r))"

definition spec_snapshot :: "route_config list \<Rightarrow> (string \<rightharpoonup> route_entry)" where
  "spec_snapshot rs = map_of (rev (map (\<lambda>r. (rc_path r, entry_of r)) rs))"

text \<open>The messages a stream applies: up to its failure, or to the first refused acknowledgement.\<close>

fun applied :: "(route_update_config option \<times> bool timed) stream_event list \<Rightarrow> (route_update_config \<times> bool) list" where
  "applied (Message (None, ack) # es) = applied es"
| "applied (Message (Some c, ack) # es) = (c, ack = Done True) # (if ack = Done True then applied es else [])"
| "applied _ = []"

lemma replace_all_get:
  "\<not> rt_poisoned t \<Longrightarrow> rt_replace_all (map (\<lambda>r. (rc_path r, entry_of r)) rs) t = (r, t') \<Longrightarrow>
     r = Inr () \<and> \<not> rt_poisoned t' \<and> map_of (rt_map t') = spec_snapshot rs"
  using hm.lookup_upsert_all [of "map (\<lambda>r. (rc_path r, entry_of r)) rs" "[]"]
  by (auto simp: rt_replace_all_def spec_snapshot_def fun_eq_iff split: option.splits)

lemma apply_route_updates_spec:
  "\<not> rt_poisoned t \<Longrightarrow> apply_route_updates us t = (r, t') \<Longrightarrow>
     r = Inr () \<and> \<not> rt_poisoned t' \<and> map_of (rt_map t') = spec_route_updates us (map_of (rt_map t))"
proof (induction us arbitrary: t)
  case (Cons u us)
  show ?case
  proof (cases "ru_route u")
    case None
    then show ?thesis using Cons by simp
  next
    case (Some route)
    let ?t1 = "snd (if ru_delete u then rt_remove (rc_path route) t else rt_upsert (rc_path route) (entry_of route) t)"
    have "apply_route_updates us ?t1 = (r, t')" "\<not> rt_poisoned ?t1"
      using Cons.prems Some by (auto simp: rt_remove_def rt_upsert_def split: if_splits)
    moreover have "map_of (rt_map ?t1) = (if ru_delete u then (map_of (rt_map t))(rc_path route := None)
        else (map_of (rt_map t))(rc_path route \<mapsto> entry_of route))"
      using Cons.prems(1) by (simp add: rt_remove_def rt_upsert_def delete_conv' update_conv')
    ultimately show ?thesis using Cons.IH [of ?t1] Some by simp
  qed
qed simp

lemma spec_append: "spec_route_updates (us @ vs) m = spec_route_updates vs (spec_route_updates us m)"
  by (induction us arbitrary: m) simp_all

lemma route_stream_spec:
  assumes "\<not> rt_poisoned t" "route_stream es (t, acks) = (r, t', acks')"
  shows "\<not> rt_poisoned t' \<and> map_of (rt_map t') = spec_route_updates (concat (map (ruc_updates \<circ> fst) (applied es))) (map_of (rt_map t))
    \<and> acks' = acks @ map (ruc_version \<circ> fst) (filter snd (applied es))"
  using assms
proof (induction es "(t, acks)" arbitrary: t acks rule: route_stream.induct)
  case (5 c ack es t acks)
  obtain q t1 where q: "apply_route_updates (ruc_updates c) t = (q, t1)" by fastforce
  note u = apply_route_updates_spec [OF 5(2) q]
  show ?case
  proof (cases "ack = Done True")
    case True
    have "route_stream es (t1, acks @ [ruc_version c]) = (r, t', acks')" using 5(3) q u True by simp
    moreover have "\<not> rt_poisoned t1" using u by simp
    ultimately show ?thesis
      using 5(1) u q True by (simp add: spec_append)
  next
    case False
    then show ?thesis using 5(3) q u by (auto split: timed.splits bool.splits)
  qed
qed auto

text \<open>What the operator granted in a session: its snapshot, and the registration of the stream.\<close>

definition snapshot_of :: "snapshot_exchange \<Rightarrow> route_config list option" where
  "snapshot_of x =
     (case (sx_channel x, sx_token x, sx_answer x) of
        (Done (Inr _), Done (Inr _), Done (Inr full)) \<Rightarrow> if fr_success full then Some (fr_routes full) else None
      | _ \<Rightarrow> None)"

definition registered :: "route_session \<Rightarrow> bool" where
  "registered x \<longleftrightarrow> snapshot_of (rs_snapshot x) \<noteq> None \<and> (\<exists>c. rs_channel x = Done (Inr c))
     \<and> (\<exists>b. rs_token x = Done (Inr b)) \<and> (\<exists>u. rs_open x = Done (Inr u)) \<and> rs_initial_ack x = Done True"

lemma fetch_failed:
  "snapshot_of x = None \<Longrightarrow> \<exists>e. fetch_full_routes x t = (Inl e, t)"
  by (auto simp: snapshot_of_def fetch_full_routes_def split: timed.splits sum.splits if_splits)

lemma fetch_applied:
  "snapshot_of x = Some rs \<Longrightarrow>
     fetch_full_routes x t = rt_replace_all (map (\<lambda>r. (rc_path r, entry_of r)) rs) t"
  by (auto simp: snapshot_of_def fetch_full_routes_def split: timed.splits sum.splits if_splits)

lemma run_route_sync_cases:
  assumes "\<not> rt_poisoned (rl_table s)" "snapshot_of (rs_snapshot x) = Some rs"
  obtains t where "\<not> rt_poisoned t" "map_of (rt_map t) = spec_snapshot rs"
    "registered x \<Longrightarrow> run_route_sync x s =
       (case route_stream (rs_events x) (t, rl_acks s @ [[]]) of
          (r, t, acks) \<Rightarrow> (r, True, s\<lparr>rl_table := t, rl_acks := acks\<rparr>))"
    "\<not> registered x \<Longrightarrow> \<exists>r. run_route_sync x s = (r, False, s\<lparr>rl_table := t\<rparr>)"
proof -
  obtain q t where f: "fetch_full_routes (rs_snapshot x) (rl_table s) = (q, t)" by fastforce
  note u = replace_all_get [OF assms(1) f [unfolded fetch_applied [OF assms(2)]]]
  have "\<exists>r. run_route_sync x s = (r, False, s\<lparr>rl_table := t\<rparr>)" if "\<not> registered x"
    using that f u assms(2)
    by (auto simp: run_route_sync_def registered_def Let_def split: timed.splits sum.splits)
  moreover have "run_route_sync x s =
       (case route_stream (rs_events x) (t, rl_acks s @ [[]]) of
          (r, t, acks) \<Rightarrow> (r, True, s\<lparr>rl_table := t, rl_acks := acks\<rparr>))" if "registered x"
    using that f u by (auto simp: run_route_sync_def registered_def Let_def split: prod.splits)
  ultimately show ?thesis using that u by blast
qed

lemma run_route_sync_spec:
  assumes s: "\<not> rt_poisoned (rl_table s)" and x: "snapshot_of (rs_snapshot x) = Some rs"
    and run: "run_route_sync x s = (r, synced, s')"
  shows "synced = registered x \<and> \<not> rt_poisoned (rl_table s')
    \<and> map_of (rt_map (rl_table s')) =
        (if synced then spec_route_updates (concat (map (ruc_updates \<circ> fst) (applied (rs_events x)))) (spec_snapshot rs)
         else spec_snapshot rs)
    \<and> rl_acks s' = rl_acks s @
        (if synced then [] # map (ruc_version \<circ> fst) (filter snd (applied (rs_events x))) else [])"
proof -
  obtain t where t: "\<not> rt_poisoned t" "map_of (rt_map t) = spec_snapshot rs"
    "registered x \<Longrightarrow> run_route_sync x s =
       (case route_stream (rs_events x) (t, rl_acks s @ [[]]) of
          (r, t, acks) \<Rightarrow> (r, True, s\<lparr>rl_table := t, rl_acks := acks\<rparr>))"
    "\<not> registered x \<Longrightarrow> \<exists>r. run_route_sync x s = (r, False, s\<lparr>rl_table := t\<rparr>)"
    using run_route_sync_cases [OF s x] by metis
  show ?thesis
  proof (cases "registered x")
    case True
    obtain q t2 acks where q: "route_stream (rs_events x) (t, rl_acks s @ [[]]) = (q, t2, acks)"
      by (metis surj_pair)
    from route_stream_spec [OF t(1) q] t(2) t(3) [OF True] q run True show ?thesis by auto
  next
    case False
    from t(1,2) t(4) [OF False] run False show ?thesis by auto
  qed
qed

lemma run_route_sync_failed:
  assumes "snapshot_of (rs_snapshot x) = None"
  shows "\<exists>e. run_route_sync x s = (Inl e, False, s)"
proof -
  obtain e where "fetch_full_routes (rs_snapshot x) (rl_table s) = (Inl e, rl_table s)"
    using fetch_failed [OF assms] by blast
  then show ?thesis by (simp add: run_route_sync_def)
qed

interpretation route_sessions: sync_sessions run_route_sync "\<lambda>s. \<not> rt_poisoned (rl_table s)"
proof
  fix s :: route_loop and i
  assume s: "\<not> rt_poisoned (rl_table s)"
  show "\<not> rt_poisoned (rl_table (snd (snd (run_route_sync i s))))"
  proof (cases "snapshot_of (rs_snapshot i)")
    case None
    then show ?thesis using run_route_sync_failed [OF None, of s] s by auto
  next
    case (Some rs)
    then show ?thesis using run_route_sync_spec [OF s Some, of _ _ "snd (snd (run_route_sync i s))"]
      by (metis prod.collapse)
  qed
qed

section \<open>Properties\<close>

text \<open>
  C17 (refinement). However many sessions went before, the session \<open>x\<close> leaves the lookup of every path
  at what the operator asked for: when it granted no snapshot, the lookups are unchanged, nothing is
  acknowledged and the session is an error; when it did, the table is the snapshot, the last route
  of a path winning, followed, if the stream was registered, by the updates of the applied messages
  in their order. Requests are admitted exactly when the stream was registered, the registration is
  acknowledged first, and a version is acknowledged only after its updates are in the table.
\<close>

theorem route_sync_exact:
  assumes "run_sessions run_route_sync past \<lparr>rl_table = route_table_new, rl_acks = []\<rparr> = (log, s)"
    and "run_route_sync x s = (r, synced, s')"
  shows "synced = registered x
    \<and> (snapshot_of (rs_snapshot x) = None \<longrightarrow> s' = s \<and> (\<exists>e. r = Inl e))
    \<and> (\<forall>rs. snapshot_of (rs_snapshot x) = Some rs \<longrightarrow>
         (\<forall>path. rt_get path (rl_table s') =
            Inr ((if synced then spec_route_updates (concat (map (ruc_updates \<circ> fst) (applied (rs_events x)))) (spec_snapshot rs)
                  else spec_snapshot rs) path))
       \<and> rl_acks s' = rl_acks s @
            (if synced then [] # map (ruc_version \<circ> fst) (filter snd (applied (rs_events x))) else []))"
proof -
  have s: "\<not> rt_poisoned (rl_table s)"
    using route_sessions.run_sessions_inv [of "\<lparr>rl_table = route_table_new, rl_acks = []\<rparr>" past] assms(1)
    by (simp add: route_table_new_def)
  show ?thesis
  proof (cases "snapshot_of (rs_snapshot x)")
    case None
    then show ?thesis using run_route_sync_failed [OF None, of s] assms(2) by (auto simp: registered_def)
  next
    case (Some rs)
    from run_route_sync_spec [OF s Some assms(2)] Some show ?thesis by (simp add: rt_get_def)
  qed
qed

definition sample_route :: route_config where
  "sample_route = \<lparr>rc_path = ''/hello'', rc_methods = [''GET''], rc_subject = ''fn.hello''\<rparr>"

definition sample_session :: route_session where
  "sample_session =
     \<lparr>rs_snapshot = \<lparr>sx_channel = Done (Inr ()), sx_token = Done (Inr []),
        sx_answer = Done (Inr \<lparr>fr_routes = [sample_route], fr_success = True\<rparr>)\<rparr>,
      rs_channel = Done (Inr ()), rs_token = Done (Inr []), rs_open = Done (Inr ()), rs_initial_ack = Done True,
      rs_events = [Message (Some \<lparr>ruc_version = ''v2'', ruc_updates = [\<lparr>ru_route = Some sample_route, ru_delete = True\<rparr>]\<rparr>, Done True),
                   StreamExpired]\<rparr>"

theorem route_sync_exact_witness:
  "\<exists>r s'. run_route_sync sample_session \<lparr>rl_table = route_table_new, rl_acks = []\<rparr> = (r, True, s')
     \<and> rt_get ''/hello'' (rl_table s') = Inr None \<and> rl_acks s' = [[], ''v2'']"
proof -
  obtain r synced s' where run: "run_route_sync sample_session \<lparr>rl_table = route_table_new, rl_acks = []\<rparr> = (r, synced, s')"
    by (metis surj_pair)
  have "snapshot_of (rs_snapshot sample_session) = Some [sample_route]" "registered sample_session"
    by (simp_all add: snapshot_of_def registered_def sample_session_def)
  with route_sync_exact [OF _ run, of "[]" "[]"] run show ?thesis
    by (auto simp: sample_session_def sample_route_def)
qed

end
