(* ===== verification/HttpTypes.thy ===== *)
theory HttpTypes
  imports Prelude
begin

text \<open>
  \<open>src/lib/platform-common/src/http_types.rs\<close>: the request and the response that gateway and
  execution host exchange.
\<close>

section \<open>Definitions\<close>

record http_request_payload =
  hp_method :: string
  hp_path :: string
  hp_query :: string
  hp_headers :: "(string \<times> string) list"
  hp_body :: "bytes option"

record http_response_payload =
  pr_status :: nat
  pr_headers :: "(string \<times> string) list"
  pr_body :: "bytes option"

end
