(* ===== verification/Gateway.thy ===== *)
theory Gateway
  imports PendingReplies RouteSync HttpTypes
begin

text \<open>
  The request path of the gateway: \<open>src/components/gateway/src/supervisor.rs\<close>, the broker and the
  reply sessions of \<open>nats.rs\<close>, the connection limit of \<open>listener.rs\<close> and the gauges of
  \<open>metrics.rs\<close>. A handler runs in segments between its waits; a request in flight is kept with the
  wait it is at, and \<open>gw_step\<close> interleaves the segments of all requests with the reply session, the
  authority, the routes and the connections. Instants are nanoseconds. What the packages \<open>http\<close>,
  \<open>axum\<close> and \<open>serde_json\<close> compute is the argument \<open>api\<close>.
\<close>

section \<open>Definitions\<close>

subsection \<open>Payloads, requests and responses\<close>

record gw_response =
  gr_status :: status
  gr_headers :: "(string \<times> bytes) list"
  gr_body :: bytes

text \<open>
  Status, header names and values, the pieces \<open>to_writer\<close> writes, the parser of replies, the frames
  a buffered body is sent in, and the response for a header that is not valid.
\<close>

record http_api =
  ha_status :: "nat \<Rightarrow> status option"
  ha_name :: "string \<Rightarrow> string option"
  ha_value :: "string \<Rightarrow> bytes option"
  ha_to_str :: "bytes \<Rightarrow> string option"
  ha_encode :: "http_request_payload \<Rightarrow> bytes list"
  ha_decode :: "bytes \<Rightarrow> http_response_payload option"
  ha_frames :: "bytes \<Rightarrow> bytes list"
  ha_bad_header :: gw_response

record http_request =
  hq_method :: string
  hq_uri :: string
  hq_path :: string
  hq_query :: "string option"
  hq_headers :: "(string \<times> bytes) list"

definition plain :: "status \<Rightarrow> gw_response" where
  "plain s = \<lparr>gr_status = s, gr_headers = [], gr_body = []\<rparr>"

definition ascii_lower :: "char \<Rightarrow> char" where
  "ascii_lower c = (let n = of_char c :: nat in if 65 \<le> n \<and> n \<le> 90 then char_of (n + 32) else c)"

definition eq_ignore_ascii_case :: "string \<Rightarrow> string \<Rightarrow> bool" where
  "eq_ignore_ascii_case a b \<longleftrightarrow> map ascii_lower a = map ascii_lower b"

fun join_strings :: "string \<Rightarrow> string list \<Rightarrow> string" where
  "join_strings sep [] = []"
| "join_strings sep [s] = s"
| "join_strings sep (s # ss) = s @ sep @ join_strings sep ss"

definition method_not_allowed :: "http_api \<Rightarrow> string list \<Rightarrow> gw_response" where
  "method_not_allowed api methods =
     (case ha_value api (join_strings '', '' methods) of
        None \<Rightarrow> ha_bad_header api
      | Some v \<Rightarrow> \<lparr>gr_status = st_METHOD_NOT_ALLOWED, gr_headers = [(''allow'', v)], gr_body = []\<rparr>)"

text \<open>\<open>decode_response\<close>.\<close>

definition decode_response :: "http_api \<Rightarrow> bytes \<Rightarrow> gw_response" where
  "decode_response api reply =
     (case ha_decode api reply of
        None \<Rightarrow> plain st_BAD_GATEWAY
      | Some r \<Rightarrow>
          \<lparr>gr_status = (case ha_status api (pr_status r) of Some s \<Rightarrow> s | None \<Rightarrow> st_INTERNAL_SERVER_ERROR),
           gr_headers = fold (\<lambda>(name, v) headers.
             case (ha_name api name, ha_value api v) of
               (Some name, Some v) \<Rightarrow> hm_insert name v headers
             | _ \<Rightarrow> headers) (pr_headers r) [],
           gr_body = (case pr_body r of None \<Rightarrow> [] | Some b \<Rightarrow> b)\<rparr>)"

text \<open>\<open>BoundedPayload\<close>: the bytes written, or \<open>None\<close> once a write was refused.\<close>

definition payload_write :: "nat \<Rightarrow> bytes \<Rightarrow> bytes \<Rightarrow> bytes option" where
  "payload_write limit piece written =
     (if wrap_sub limit (length written) < length piece then None else Some (written @ piece))"

fun write_pieces :: "nat \<Rightarrow> bytes list \<Rightarrow> bytes \<Rightarrow> bytes option" where
  "write_pieces limit [] written = Some written"
| "write_pieces limit (p # ps) written =
     (case payload_write limit p written of None \<Rightarrow> None | Some w \<Rightarrow> write_pieces limit ps w)"

definition request_payload :: "http_api \<Rightarrow> http_request \<Rightarrow> bytes \<Rightarrow> http_request_payload" where
  "request_payload api req body =
     \<lparr>hp_method = hq_method req, hp_path = hq_path req,
      hp_query = (case hq_query req of None \<Rightarrow> [] | Some q \<Rightarrow> q),
      hp_headers = List.map_filter (\<lambda>(name, v). map_option (Pair name) (ha_to_str api v)) (hq_headers req),
      hp_body = (if body = [] then None else Some body)\<rparr>"

definition metadata_bytes :: "http_request \<Rightarrow> nat" where
  "metadata_bytes req = length (hq_uri req) + length (hq_method req)
     + sum_list (map (\<lambda>(name, v). length name + length v) (hq_headers req))"

definition content_length :: "http_api \<Rightarrow> http_request \<Rightarrow> nat option" where
  "content_length api req =
     Option.bind (Option.bind (map_of (hq_headers req) ''content-length'') (ha_to_str api)) (parse_unsigned 64)"

subsection \<open>State\<close>

record gw_counts =
  gc_high_water :: nat
  gc_rejected :: nat
  gc_completed :: nat
  gc_cancelled :: nat

text \<open>
  The wait a request is at: the first poll of \<open>dispatch\<close>, the next chunk of the body, the
  publication, the reply, or the next frame of the response.
\<close>

datatype gw_phase =
    Admitted
  | ReadingBody nat bytes
  | Publishing nat nat nat bytes
  | AwaitingReply nat nat nat
  | Replying gw_response "bytes list"

record gw_request =
  rq_head :: http_request
  rq_subject :: string
  rq_deadline :: nat
  rq_seen :: nat
  rq_completed :: bool
  rq_phase :: gw_phase

record reply_session =
  ses_client :: nat
  ses_prefix :: string
  ses_pending :: pending

text \<open>Where \<open>run_reply_sessions\<close> is.\<close>

datatype reply_loop =
    LoopTop
  | AwaitClient
  | Subscribing nat string
  | SubscribeRetry
  | Serving nat
  | LoopEnded

record gateway =
  gw_limits :: request_limits
  gw_table :: route_table
  gw_held :: nat
  gw_connections :: nat
  gw_counts :: gw_counts
  gw_authority :: bool
  gw_version :: nat
  gw_authority_closed :: bool
  gw_requests :: "(nat, gw_request) hash_map"
  gw_admitted :: nat
  gw_clients :: "nat option"
  gw_clients_changed :: bool
  gw_clients_closed :: bool
  gw_loop :: reply_loop
  gw_ready :: bool
  gw_sessions :: "reply_session list"
  gw_current :: "nat option"

definition gateway_new :: "request_limits \<Rightarrow> route_table \<Rightarrow> gateway" where
  "gateway_new limits t =
     \<lparr>gw_limits = limits, gw_table = t, gw_held = 0, gw_connections = 0,
      gw_counts = \<lparr>gc_high_water = 0, gc_rejected = 0, gc_completed = 0, gc_cancelled = 0\<rparr>,
      gw_authority = False, gw_version = 0, gw_authority_closed = False, gw_requests = [], gw_admitted = 0,
      gw_clients = None, gw_clients_changed = False, gw_clients_closed = False, gw_loop = LoopTop,
      gw_ready = False, gw_sessions = [], gw_current = None\<rparr>"

subsection \<open>Broker\<close>

text \<open>What a segment finds: connection, payload bound of the server, body, publication, later clock.\<close>

datatype gw_body_event = BodyPending | BodyFailed | BodyChunk bytes | BodyEnd

record gw_env =
  en_connected :: bool
  en_max_payload :: nat
  en_body :: gw_body_event
  en_publish :: "bool option"
  en_later :: nat

definition broker_available :: "gw_env \<Rightarrow> gateway \<Rightarrow> bool" where
  "broker_available env g \<longleftrightarrow> gw_current g \<noteq> None \<and> en_connected env"

definition set_pending :: "nat \<Rightarrow> pending \<Rightarrow> gateway \<Rightarrow> gateway" where
  "set_pending s p g = g\<lparr>gw_sessions := (gw_sessions g)[s := (gw_sessions g ! s)\<lparr>ses_pending := p\<rparr>]\<rparr>"

text \<open>\<open>NatsBroker::request\<close> up to the publication: session, identifier and receiver.\<close>

definition broker_request ::
  "gw_env \<Rightarrow> nat \<Rightarrow> bytes \<Rightarrow> gateway \<Rightarrow> (request_error + nat \<times> nat \<times> nat) \<times> gateway" where
  "broker_request env deadline payload g =
     (if deadline \<le> en_later env then (Inl RequestTimeout, g)
      else case gw_current g of
             None \<Rightarrow> (Inl Unavailable, g)
           | Some s \<Rightarrow>
               if \<not> en_connected env then (Inl Unavailable, g)
               else if en_max_payload env < length payload then (Inl PayloadTooLarge, g)
               else (case reserve (ses_pending (gw_sessions g ! s)) of
                       (Inl e, p) \<Rightarrow> (Inl e, set_pending s p g)
                     | (Inr (i, h), p) \<Rightarrow> (Inr (s, i, h), set_pending s p g)))"

definition reply_subject :: "gateway \<Rightarrow> nat \<Rightarrow> nat \<Rightarrow> string" where
  "reply_subject g s i = ses_prefix (gw_sessions g ! s) @ show_nat i"

definition error_status :: "request_error \<Rightarrow> status" where
  "error_status e =
     (case e of
        Unavailable \<Rightarrow> st_SERVICE_UNAVAILABLE
      | PayloadTooLarge \<Rightarrow> st_PAYLOAD_TOO_LARGE
      | RequestFailed \<Rightarrow> st_BAD_GATEWAY
      | RequestTimeout \<Rightarrow> st_GATEWAY_TIMEOUT)"


subsection \<open>Dispatch\<close>

definition secs :: "nat \<Rightarrow> nat" where
  "secs n = n * 1000000000"

definition dispatch_begin :: "http_api \<Rightarrow> gw_env \<Rightarrow> nat \<Rightarrow> gw_request \<Rightarrow> gateway \<Rightarrow> gw_response + gw_phase" where
  "dispatch_begin api env now rq g =
     (if lim_metadata_bytes (gw_limits g) < metadata_bytes (rq_head rq) then Inl (plain st_HEADER_FIELDS_TOO_LARGE)
      else if (case content_length api (rq_head rq) of None \<Rightarrow> False | Some n \<Rightarrow> lim_body_bytes (gw_limits g) < n)
        then Inl (plain st_PAYLOAD_TOO_LARGE)
      else if \<not> broker_available env g then Inl (plain st_SERVICE_UNAVAILABLE)
      else Inr (ReadingBody (min (rq_deadline rq) (now + secs (lim_body_read_timeout (gw_limits g)))) []))"

definition read_body_chunk :: "nat \<Rightarrow> bytes \<Rightarrow> bytes \<Rightarrow> status + bytes" where
  "read_body_chunk limit chunk bs =
     (if wrap_sub limit (length bs) < length chunk then Inl st_PAYLOAD_TOO_LARGE else Inr (bs @ chunk))"

definition dispatch_send ::
  "http_api \<Rightarrow> gw_env \<Rightarrow> nat \<Rightarrow> gw_request \<Rightarrow> bytes \<Rightarrow> gateway \<Rightarrow> (gw_response + gw_phase) \<times> gateway" where
  "dispatch_send api env now rq body g =
     (case write_pieces (lim_payload_bytes (gw_limits g)) (ha_encode api (request_payload api (rq_head rq) body)) [] of
        None \<Rightarrow> (Inl (plain st_PAYLOAD_TOO_LARGE), g)
      | Some payload \<Rightarrow>
          if rq_deadline rq \<le> now then (Inl (plain st_GATEWAY_TIMEOUT), g)
          else if \<not> gw_authority g then (Inl (plain st_SERVICE_UNAVAILABLE), g)
          else (case broker_request env (rq_deadline rq) payload g of
                  (Inl e, g) \<Rightarrow> (Inl (plain (error_status e)), g)
                | (Inr (s, i, h), g) \<Rightarrow> (Inr (Publishing s i h payload), g)))"

text \<open>The end of \<open>NatsBroker::request\<close>: the receiver and the registration are dropped.\<close>

definition release_request :: "nat \<Rightarrow> nat \<Rightarrow> nat \<Rightarrow> gateway \<Rightarrow> gateway" where
  "release_request s i h g = set_pending s (release i h (ses_pending (gw_sessions g ! s))) g"

definition dispatch_publish ::
  "gw_env \<Rightarrow> nat \<Rightarrow> gw_request \<Rightarrow> nat \<Rightarrow> nat \<Rightarrow> nat \<Rightarrow> bytes \<Rightarrow> gateway \<Rightarrow> (gw_response + gw_phase) \<times> gateway" where
  "dispatch_publish env now rq s i h payload g =
     (case en_publish env of
        Some True \<Rightarrow> (Inr (AwaitingReply s i h), g)
      | Some False \<Rightarrow> (Inl (plain (error_status RequestFailed)), release_request s i h g)
      | None \<Rightarrow>
          if rq_deadline rq \<le> now then (Inl (plain (error_status RequestTimeout)), release_request s i h g)
          else (Inr (Publishing s i h payload), g))"

definition dispatch_receive ::
  "http_api \<Rightarrow> nat \<Rightarrow> gw_request \<Rightarrow> nat \<Rightarrow> nat \<Rightarrow> nat \<Rightarrow> gateway \<Rightarrow> (gw_response + gw_phase) \<times> gateway" where
  "dispatch_receive api now rq s i h g =
     (case pd_channels (ses_pending (gw_sessions g ! s)) ! h of
        Sent (Inr reply) \<Rightarrow> (Inl (decode_response api reply), release_request s i h g)
      | Sent (Inl e) \<Rightarrow> (Inl (plain (error_status e)), release_request s i h g)
      | SenderDropped \<Rightarrow> (Inl (plain (error_status Unavailable)), release_request s i h g)
      | _ \<Rightarrow>
          if rq_deadline rq \<le> now then (Inl (plain (error_status RequestTimeout)), release_request s i h g)
          else (Inr (AwaitingReply s i h), g))"

definition dispatch_poll ::
  "http_api \<Rightarrow> gw_env \<Rightarrow> nat \<Rightarrow> gw_request \<Rightarrow> gateway \<Rightarrow> (gw_response + gw_phase) \<times> gateway" where
  "dispatch_poll api env now rq g =
     (case rq_phase rq of
        Admitted \<Rightarrow> (dispatch_begin api env now rq g, g)
      | ReadingBody body_deadline bs \<Rightarrow>
          (case en_body env of
             BodyPending \<Rightarrow>
               (if body_deadline \<le> now then Inl (plain st_REQUEST_TIMEOUT) else Inr (ReadingBody body_deadline bs), g)
           | BodyFailed \<Rightarrow> (Inl (plain st_BAD_REQUEST), g)
           | BodyChunk chunk \<Rightarrow>
               (map_sum plain (ReadingBody body_deadline) (read_body_chunk (lim_body_bytes (gw_limits g)) chunk bs), g)
           | BodyEnd \<Rightarrow> dispatch_send api env now rq bs g)
      | Publishing s i h payload \<Rightarrow> dispatch_publish env now rq s i h payload g
      | AwaitingReply s i h \<Rightarrow> dispatch_receive api now rq s i h g
      | Replying r frames \<Rightarrow> (Inr (Replying r frames), g))"

subsection \<open>Admission, leases and responses\<close>

record gw_snapshot =
  gs_in_flight :: nat
  gs_in_flight_limit :: nat
  gs_high_water :: nat
  gs_rejected :: nat
  gs_completed :: nat
  gs_cancelled :: nat
  gs_connection_count :: nat
  gs_connection_limit :: nat

definition gw_in_flight :: "semaphore_api \<Rightarrow> gateway \<Rightarrow> nat" where
  "gw_in_flight sem g =
     wrap_sub (lim_in_flight (gw_limits g)) (sem_available sem (lim_in_flight (gw_limits g)) (gw_held g))"

definition snapshot :: "semaphore_api \<Rightarrow> gateway \<Rightarrow> gw_snapshot" where
  "snapshot sem g =
     \<lparr>gs_in_flight = gw_in_flight sem g, gs_in_flight_limit = lim_in_flight (gw_limits g),
      gs_high_water = gc_high_water (gw_counts g), gs_rejected = gc_rejected (gw_counts g),
      gs_completed = gc_completed (gw_counts g), gs_cancelled = gc_cancelled (gw_counts g),
      gs_connection_count =
        wrap_sub (lim_connections (gw_limits g)) (sem_available sem (lim_connections (gw_limits g)) (gw_connections g)),
      gs_connection_limit = lim_connections (gw_limits g)\<rparr>"

definition gateway_metric_rows :: "semaphore_api \<Rightarrow> gateway \<Rightarrow> (string \<times> string \<times> nat) list" where
  "gateway_metric_rows sem g =
     (let v = snapshot sem g in
      [(''wasm_gateway_work'', ''in_flight'', gs_in_flight v), (''wasm_gateway_work'', ''connections'', gs_connection_count v),
       (''wasm_gateway_limit'', ''in_flight'', gs_in_flight_limit v), (''wasm_gateway_limit'', ''connections'', gs_connection_limit v),
       (''wasm_gateway_high_water'', ''in_flight'', gs_high_water v),
       (''wasm_gateway_requests_rejected_total'', [], gs_rejected v),
       (''wasm_gateway_requests_completed_total'', [], gs_completed v),
       (''wasm_gateway_requests_cancelled_total'', [], gs_cancelled v)])"

text \<open>\<open>handle\<close> up to its first wait: a response, or the lease it created, by its number.\<close>

definition handle ::
  "http_api \<Rightarrow> semaphore_api \<Rightarrow> nat \<Rightarrow> http_request \<Rightarrow> gateway \<Rightarrow> (gw_response + nat) \<times> gateway" where
  "handle api sem now req g =
     (if \<not> gw_authority g \<or> gw_authority_closed g then (Inl (plain st_SERVICE_UNAVAILABLE), g)
      else case rt_get (hq_path req) (gw_table g) of
             Inl _ \<Rightarrow> (Inl (plain st_INTERNAL_SERVER_ERROR), g)
           | Inr None \<Rightarrow> (Inl (plain st_NOT_FOUND), g)
           | Inr (Some route) \<Rightarrow>
               if re_methods route \<noteq> [] \<and> \<not> (\<exists>m \<in> set (re_methods route). eq_ignore_ascii_case m (hq_method req))
               then (Inl (method_not_allowed api (re_methods route)), g)
               else if \<not> sem_admits sem (lim_in_flight (gw_limits g)) (gw_held g)
               then (Inl (plain st_SERVICE_UNAVAILABLE),
                     g\<lparr>gw_counts := (gw_counts g)\<lparr>gc_rejected := wrap_add (gc_rejected (gw_counts g)) 1\<rparr>\<rparr>)
               else
                 (let g1 = g\<lparr>gw_held := Suc (gw_held g)\<rparr>;
                      k = gw_admitted g in
                  (Inr k,
                   g1\<lparr>gw_counts := (gw_counts g)\<lparr>gc_high_water := max (gc_high_water (gw_counts g)) (gw_in_flight sem g1)\<rparr>,
                     gw_admitted := Suc k,
                     gw_requests := hm_insert k
                       \<lparr>rq_head = req, rq_subject = re_subject route,
                        rq_deadline = now + secs (lim_timeout (gw_limits g)),
                        rq_seen = gw_version g, rq_completed = False, rq_phase = Admitted\<rparr> (gw_requests g)\<rparr>)))"

text \<open>The drop of a \<open>RequestLease\<close>: counter and permit.\<close>

definition drop_lease :: "nat \<Rightarrow> bool \<Rightarrow> gateway \<Rightarrow> gateway" where
  "drop_lease k completed g =
     g\<lparr>gw_held := gw_held g - 1, gw_requests := hm_remove k (gw_requests g),
       gw_counts :=
         (if completed then (gw_counts g)\<lparr>gc_completed := wrap_add (gc_completed (gw_counts g)) 1\<rparr>
          else (gw_counts g)\<lparr>gc_cancelled := wrap_add (gc_cancelled (gw_counts g)) 1\<rparr>)\<rparr>"

text \<open>Dropping the future of a request: what it waits for is dropped first, then its lease.\<close>

definition drop_wait :: "gw_phase \<Rightarrow> gateway \<Rightarrow> gateway" where
  "drop_wait phase g =
     (case phase of
        Publishing s i h _ \<Rightarrow> release_request s i h g
      | AwaitingReply s i h \<Rightarrow> release_request s i h g
      | _ \<Rightarrow> g)"

definition authority_changed :: "gw_request \<Rightarrow> gateway \<Rightarrow> bool" where
  "authority_changed rq g \<longleftrightarrow> rq_seen rq \<noteq> gw_version g \<or> gw_authority_closed g"

definition cancel_request :: "nat \<Rightarrow> gw_request \<Rightarrow> gateway \<Rightarrow> gateway" where
  "cancel_request k rq g = drop_lease k False (drop_wait (rq_phase rq) g)"

definition set_phase :: "nat \<Rightarrow> gw_request \<Rightarrow> bool \<Rightarrow> gw_phase \<Rightarrow> gateway \<Rightarrow> gateway" where
  "set_phase k rq completed phase g =
     g\<lparr>gw_requests := hm_insert k (rq\<lparr>rq_completed := completed, rq_phase := phase\<rparr>) (gw_requests g)\<rparr>"

text \<open>The progress of a request once the authority was found unchanged.\<close>

definition continue_request ::
  "http_api \<Rightarrow> gw_env \<Rightarrow> nat \<Rightarrow> nat \<Rightarrow> gw_request \<Rightarrow> gateway \<Rightarrow> gateway" where
  "continue_request api env now k rq g =
     (case rq_phase rq of
        Replying r [] \<Rightarrow> drop_lease k (rq_completed rq) g
      | Replying r (f # fs) \<Rightarrow> set_phase k rq (rq_completed rq) (Replying r fs) g
      | _ \<Rightarrow>
          (case dispatch_poll api env now rq g of
             (Inr phase, g1) \<Rightarrow> set_phase k rq (rq_completed rq) phase g1
           | (Inl r, g1) \<Rightarrow> set_phase k rq True (Replying r (ha_frames api (gr_body r))) g1))"

text \<open>A poll, of the handler or of the response's stream, looks at the authority first.\<close>

definition poll_request ::
  "http_api \<Rightarrow> gw_env \<Rightarrow> nat \<Rightarrow> nat \<Rightarrow> gw_request \<Rightarrow> gateway \<Rightarrow> gateway" where
  "poll_request api env now k rq g =
     (if authority_changed rq g then cancel_request k rq g else continue_request api env now k rq g)"

text \<open>The client went away.\<close>

definition abandon_request :: "nat \<Rightarrow> gw_request \<Rightarrow> gateway \<Rightarrow> gateway" where
  "abandon_request k rq g = drop_lease k (rq_completed rq) (drop_wait (rq_phase rq) g)"


subsection \<open>Reply sessions\<close>

record nats_message =
  nm_subject :: string
  nm_status :: bool
  nm_payload :: bytes

text \<open>\<open>clients.changed()\<close>: not ready, a new value, or the sender is gone.\<close>

definition clients_changed :: "gateway \<Rightarrow> bool option \<times> gateway" where
  "clients_changed g =
     (if gw_clients_changed g then (Some True, g\<lparr>gw_clients_changed := False\<rparr>)
      else if gw_clients_closed g then (Some False, g) else (None, g))"

definition loop_top :: "string \<Rightarrow> gateway \<Rightarrow> gateway" where
  "loop_top inbox g =
     g\<lparr>gw_current := None, gw_ready := False, gw_clients_changed := False,
       gw_loop := (case gw_clients g of None \<Rightarrow> AwaitClient | Some c \<Rightarrow> Subscribing c (inbox @ ''.''))\<rparr>"

definition loop_await :: "gateway \<Rightarrow> gateway" where
  "loop_await g =
     (case clients_changed g of
        (None, g) \<Rightarrow> g
      | (Some ok, g) \<Rightarrow> g\<lparr>gw_loop := if ok then LoopTop else LoopEnded\<rparr>)"

definition loop_subscribed :: "nat \<Rightarrow> string \<Rightarrow> (unit + unit) timed \<Rightarrow> gateway \<Rightarrow> gateway" where
  "loop_subscribed c prefix outcome g =
     (case outcome of
        Done (Inr _) \<Rightarrow>
          (let s = length (gw_sessions g) in
           g\<lparr>gw_sessions := gw_sessions g @
                 [\<lparr>ses_client = c, ses_prefix = prefix, ses_pending = pending_new (lim_in_flight (gw_limits g))\<rparr>],
             gw_current := Some s, gw_ready := True, gw_loop := Serving s\<rparr>)
      | _ \<Rightarrow> g\<lparr>gw_loop := SubscribeRetry\<rparr>)"

definition loop_retry :: "bool \<Rightarrow> gateway \<Rightarrow> gateway" where
  "loop_retry slept g = (if slept then g\<lparr>gw_loop := LoopTop\<rparr> else loop_await g)"

definition end_session :: "nat \<Rightarrow> bool \<Rightarrow> gateway \<Rightarrow> gateway" where
  "end_session s clients_gone g =
     (let g1 = set_pending s (snd (retire (ses_pending (gw_sessions g ! s)))) g in
      if clients_gone then g1\<lparr>gw_current := None, gw_ready := False, gw_loop := LoopEnded\<rparr>
      else g1\<lparr>gw_loop := LoopTop\<rparr>)"

definition serve_clients :: "nat \<Rightarrow> gateway \<Rightarrow> gateway" where
  "serve_clients s g =
     (case clients_changed g of (None, g) \<Rightarrow> g | (Some ok, g) \<Rightarrow> end_session s (\<not> ok) g)"

definition message_id :: "string \<Rightarrow> nats_message \<Rightarrow> nat option" where
  "message_id prefix m = Option.bind (strip_prefix prefix (nm_subject m)) (parse_unsigned 64)"

definition message_reply :: "nats_message \<Rightarrow> reply" where
  "message_reply m = (if nm_status m then Inl RequestFailed else Inr (nm_payload m))"

definition serve_message :: "nat \<Rightarrow> nats_message option \<Rightarrow> gateway \<Rightarrow> gateway" where
  "serve_message s message g =
     (case message of
        None \<Rightarrow> end_session s False g
      | Some m \<Rightarrow>
          (case message_id (ses_prefix (gw_sessions g ! s)) m of
             None \<Rightarrow> g
           | Some i \<Rightarrow>
               (case deliver i (message_reply m) (ses_pending (gw_sessions g ! s)) of
                  (Inl _, p) \<Rightarrow> end_session s False (set_pending s p g)
                | (Inr _, p) \<Rightarrow> set_pending s p g)))"

subsection \<open>Connections and the authority\<close>

text \<open>\<open>BoundedListener::accept\<close>: a connection beyond the limit is dropped.\<close>

definition accept_connection :: "semaphore_api \<Rightarrow> gateway \<Rightarrow> bool \<times> gateway" where
  "accept_connection sem g =
     (if sem_admits sem (lim_connections (gw_limits g)) (gw_connections g)
      then (True, g\<lparr>gw_connections := Suc (gw_connections g)\<rparr>) else (False, g))"

definition set_authority :: "bool \<Rightarrow> gateway \<Rightarrow> gateway" where
  "set_authority b g = g\<lparr>gw_authority := b, gw_version := Suc (gw_version g)\<rparr>"

subsection \<open>The gateway\<close>

text \<open>
  One step of the gateway. A poll that finds one wait over goes on to the next, so progress may
  follow without a look at the authority (\<open>gw_continue\<close>).
\<close>

inductive gw_step :: "http_api \<Rightarrow> semaphore_api \<Rightarrow> gateway \<Rightarrow> gateway \<Rightarrow> bool"
  for api :: http_api and sem :: semaphore_api where
  gw_handle: "handle api sem now req g = (r, g') \<Longrightarrow> gw_step api sem g g'"
| gw_poll: "hm_get (gw_requests g) k = Some rq \<Longrightarrow> gw_step api sem g (poll_request api env now k rq g)"
| gw_continue: "hm_get (gw_requests g) k = Some rq \<Longrightarrow> gw_step api sem g (continue_request api env now k rq g)"
| gw_abandon: "hm_get (gw_requests g) k = Some rq \<Longrightarrow> gw_step api sem g (abandon_request k rq g)"
| gw_client: "\<not> gw_clients_closed g \<Longrightarrow> gw_step api sem g (g\<lparr>gw_clients := c, gw_clients_changed := True\<rparr>)"
| gw_client_gone: "gw_step api sem g (g\<lparr>gw_clients_closed := True\<rparr>)"
| gw_loop_top: "gw_loop g = LoopTop \<Longrightarrow> gw_step api sem g (loop_top inbox g)"
| gw_loop_await: "gw_loop g = AwaitClient \<Longrightarrow> gw_step api sem g (loop_await g)"
| gw_loop_subscribed: "gw_loop g = Subscribing c prefix \<Longrightarrow> gw_step api sem g (loop_subscribed c prefix outcome g)"
| gw_loop_retry: "gw_loop g = SubscribeRetry \<Longrightarrow> gw_step api sem g (loop_retry slept g)"
| gw_serve_clients: "gw_loop g = Serving s \<Longrightarrow> gw_step api sem g (serve_clients s g)"
| gw_serve_message: "gw_loop g = Serving s \<Longrightarrow> gw_step api sem g (serve_message s message g)"
| gw_set_authority: "\<not> gw_authority_closed g \<Longrightarrow> gw_step api sem g (set_authority b g)"
| gw_close_authority: "gw_step api sem g (g\<lparr>gw_authority_closed := True\<rparr>)"
| gw_upsert: "rt_upsert path entry (gw_table g) = (r, t) \<Longrightarrow> gw_step api sem g (g\<lparr>gw_table := t\<rparr>)"
| gw_remove: "rt_remove path (gw_table g) = (r, t) \<Longrightarrow> gw_step api sem g (g\<lparr>gw_table := t\<rparr>)"
| gw_replace: "rt_replace_all routes (gw_table g) = (r, t) \<Longrightarrow> gw_step api sem g (g\<lparr>gw_table := t\<rparr>)"
| gw_accept: "accept_connection sem g = (accepted, g') \<Longrightarrow> gw_step api sem g g'"
| gw_hangup: "0 < gw_connections g \<Longrightarrow> gw_step api sem g (g\<lparr>gw_connections := gw_connections g - 1\<rparr>)"

definition gw_init :: "request_limits \<Rightarrow> gateway \<Rightarrow> bool" where
  "gw_init limits g \<longleftrightarrow> g = gateway_new limits route_table_new"

end
