(* ===== verification/Collectors.thy ===== *)
theory Collectors
  imports PreparationMetrics UserMetrics Gateway
begin

text \<open>
  How the metrics of the processes are declared. \<open>DispatchMetrics::new\<close>
  (\<open>src/components/execution-host/src/dispatch_metrics.rs\<close>), \<open>PreparationMetrics::new\<close>
  (\<open>preparation_metrics.rs\<close>) and \<open>MetricsRegistry::new\<close> (\<open>metrics.rs\<close>) make their collectors, create
  their series and register them in one registry, in which the metrics of applications are registered
  as well. The collector of the gateway (\<open>src/components/gateway/src/metrics.rs\<close>) describes and builds
  the families of its snapshot. The registry of the \<open>prometheus\<close> package is an argument; what is relied
  on is the locale \<open>registry_spec\<close>.
\<close>

section \<open>Definitions\<close>

subsection \<open>Collectors of the execution host\<close>

text \<open>Bucket bounds are in thousandths of a second.\<close>

datatype collector_kind = IntGaugeVec | IntCounterVec | IntCounter | IntGauge | Histogram "nat list"

record collector =
  co_kind :: collector_kind
  co_name :: string
  co_help :: string
  co_labels :: "string list"

definition DURATION_BUCKETS :: "nat list" where
  "DURATION_BUCKETS = [1, 5, 10, 50, 100, 500, 1000, 5000, 10000, 30000, 60000, 120000]"

definition duration_histogram :: "string \<Rightarrow> string \<Rightarrow> collector" where
  "duration_histogram name help =
     \<lparr>co_kind = Histogram DURATION_BUCKETS, co_name = name, co_help = help, co_labels = []\<rparr>"

definition gauge_vec :: "string \<Rightarrow> string \<Rightarrow> string \<Rightarrow> collector" where
  "gauge_vec name help label = \<lparr>co_kind = IntGaugeVec, co_name = name, co_help = help, co_labels = [label]\<rparr>"

definition counter_vec :: "string \<Rightarrow> string \<Rightarrow> string \<Rightarrow> collector" where
  "counter_vec name help label = \<lparr>co_kind = IntCounterVec, co_name = name, co_help = help, co_labels = [label]\<rparr>"

definition OUTCOMES :: "string list" where
  "OUTCOMES = [''success'', ''timeout'', ''error'', ''panic'', ''cancelled'', ''rejected'', ''other'']"

definition dispatch_collectors :: "collector list" where
  "dispatch_collectors =
     [gauge_vec ''wasm_host_dispatch_work''
        ''Work retained at each dispatch stage; tracked includes active and completed tasks'' ''state'',
      gauge_vec ''wasm_host_dispatch_limit'' ''Configured host dispatch capacity'' ''kind'',
      gauge_vec ''wasm_host_dispatch_high_water'' ''Highest observed dispatch occupancy since process startup'' ''kind'',
      counter_vec ''wasm_host_dispatch_capacity_breaches_total''
        ''Occupancy above a dispatch limit on admission or configuration'' ''kind'',
      counter_vec ''wasm_host_dispatch_accounting_errors_total'' ''Unbalanced dispatch lifetime accounting'' ''state'',
      \<lparr>co_kind = IntCounter, co_name = ''wasm_host_dispatch_admissions_after_stop_total'',
       co_help = ''Tasks admitted after dispatch intake stopped'', co_labels = []\<rparr>,
      counter_vec ''wasm_host_dispatch_tasks_finished_total'' ''Task wrappers that exited, before collection'' ''outcome'',
      counter_vec ''wasm_host_dispatch_tasks_reaped_total'' ''Task records collected by dispatch'' ''outcome'',
      counter_vec ''wasm_host_dispatch_queue_exits_total'' ''Messages that leave the host-owned waiting backlog'' ''outcome'',
      duration_histogram ''wasm_host_dispatch_queue_wait_seconds''
        ''Time retained waiting for invocation admission or rejection'',
      duration_histogram ''wasm_host_dispatch_execution_seconds''
        ''Execution lifetime through guest exit and backend cleanup'',
      duration_histogram ''wasm_host_dispatch_cancellation_to_exit_seconds''
        ''Time from observed cancellation until execution and cleanup exit'',
      duration_histogram ''wasm_host_dispatch_drain_seconds''
        ''Time from stopping intake until execution and task drain finishes'',
      \<lparr>co_kind = IntGauge, co_name = ''wasm_host_dispatch_draining'',
       co_help = ''Whether dispatch has stopped intake and is still draining work'', co_labels = []\<rparr>]"

text \<open>The series that exist from the start: a vector by its name, with a value of its label.\<close>

definition dispatch_series :: "(string \<times> string) list" where
  "dispatch_series =
     concat (map (\<lambda>state. [(''wasm_host_dispatch_work'', state), (''wasm_host_dispatch_accounting_errors_total'', state)])
       WORK_STATES)
     @ concat (map (\<lambda>kind. [(''wasm_host_dispatch_limit'', kind), (''wasm_host_dispatch_high_water'', kind),
         (''wasm_host_dispatch_capacity_breaches_total'', kind)]) CAPACITIES)
     @ map (Pair ''wasm_host_dispatch_tasks_finished_total'') OUTCOMES
     @ map (Pair ''wasm_host_dispatch_tasks_reaped_total'') [''ok'', ''panic'', ''cancelled'', ''other'']
     @ map (Pair ''wasm_host_dispatch_queue_exits_total'') QUEUE_OUTCOMES"

definition SUBMISSION_OUTCOMES :: "string list" where
  "SUBMISSION_OUTCOMES = [''admitted'', ''timeout'', ''cancelled'', ''closed'']"

definition PREP_OUTCOMES :: "string list" where
  "PREP_OUTCOMES = [''success'', ''error'', ''timeout'', ''cancelled'', ''panic'']"

definition preparation_collectors :: "collector list" where
  "preparation_collectors =
     [gauge_vec ''wasm_host_preparation_work'' ''Retained module preparation work by lifecycle state'' ''state'',
      gauge_vec ''wasm_host_preparation_limit''
        ''Configured preparation capacity; queued includes reserved records awaiting active admission'' ''kind'',
      gauge_vec ''wasm_host_preparation_occupancy''
        ''Current preparation capacity use; compiling includes expired workers until actual compiler exit'' ''kind'',
      gauge_vec ''wasm_host_preparation_high_water'' ''Highest preparation occupancy since process startup'' ''kind'',
      counter_vec ''wasm_host_preparation_capacity_breaches_total''
        ''Preparation admissions exceeding a configured capacity'' ''kind'',
      counter_vec ''wasm_host_preparation_accounting_errors_total''
        ''Unbalanced or invalid preparation lifecycle accounting'' ''state'',
      counter_vec ''wasm_host_preparation_submissions_total'' ''Preparation submissions leaving record admission'' ''outcome'',
      counter_vec ''wasm_host_preparation_finished_total'' ''Admitted preparation lifetimes that actually exited'' ''outcome'',
      counter_vec ''wasm_host_preparation_compilation_finished_total''
        ''Started compilation workers that actually exited compilation'' ''outcome'',
      duration_histogram ''wasm_host_preparation_admission_wait_seconds'' ''Time waiting for a retained preparation record'',
      duration_histogram ''wasm_host_preparation_queue_wait_seconds''
        ''Time an admitted preparation waits for active capacity'',
      duration_histogram ''wasm_host_preparation_compilation_seconds''
        ''Actual blocking compilation worker duration including work after expiry'',
      duration_histogram ''wasm_host_preparation_compilation_overrun_seconds''
        ''Time from observed expiry or cancellation until compilation actually exits'']"

definition preparation_series :: "(string \<times> string) list" where
  "preparation_series =
     concat (map (\<lambda>state. [(''wasm_host_preparation_work'', state), (''wasm_host_preparation_accounting_errors_total'', state)])
       PREP_WORK_STATES)
     @ concat (map (\<lambda>kind. [(''wasm_host_preparation_limit'', kind), (''wasm_host_preparation_occupancy'', kind),
         (''wasm_host_preparation_high_water'', kind), (''wasm_host_preparation_capacity_breaches_total'', kind)])
         PREP_CAPACITIES)
     @ map (Pair ''wasm_host_preparation_submissions_total'') SUBMISSION_OUTCOMES
     @ concat (map (\<lambda>u. [(''wasm_host_preparation_finished_total'', u),
         (''wasm_host_preparation_compilation_finished_total'', u)]) PREP_OUTCOMES)"

subsection \<open>Registration\<close>

text \<open>
  The package makes a collector from its options, registers it, and offers a collector for the process
  itself. The registry is shared, so what was registered before an error stays.
\<close>

record 'r registrar =
  rg_make :: "collector \<Rightarrow> unit anyhow"
  rg_register :: "collector \<Rightarrow> 'r \<Rightarrow> string + 'r"
  rg_process :: "'r \<Rightarrow> string + 'r"

fun make_collectors :: "'r registrar \<Rightarrow> collector list \<Rightarrow> unit anyhow" where
  "make_collectors reg [] = Inr ()"
| "make_collectors reg (c # cs) = (case rg_make reg c of Inl e \<Rightarrow> Inl e | Inr _ \<Rightarrow> make_collectors reg cs)"

fun register_collectors :: "'r registrar \<Rightarrow> collector list \<Rightarrow> 'r \<Rightarrow> unit anyhow \<times> 'r" where
  "register_collectors reg [] g = (Inr (), g)"
| "register_collectors reg (c # cs) g =
     (case rg_register reg c g of Inl e \<Rightarrow> (Inl e, g) | Inr g \<Rightarrow> register_collectors reg cs g)"

definition dispatch_metrics_new :: "'r registrar \<Rightarrow> 'r \<Rightarrow> dispatch_metrics anyhow \<times> 'r" where
  "dispatch_metrics_new reg g =
     (case make_collectors reg dispatch_collectors of
        Inl e \<Rightarrow> (Inl e, g)
      | Inr _ \<Rightarrow>
          (case register_collectors reg dispatch_collectors g of
             (Inl e, g) \<Rightarrow> (Inl e, g)
           | (Inr _, g) \<Rightarrow> (Inr dispatch_new, g)))"

definition prep_metrics_new :: "'r registrar \<Rightarrow> nat \<Rightarrow> nat \<Rightarrow> 'r \<Rightarrow> prep_metrics anyhow \<times> 'r" where
  "prep_metrics_new reg record_limit active_limit g =
     (case make_collectors reg preparation_collectors of
        Inl e \<Rightarrow> (Inl e, g)
      | Inr _ \<Rightarrow>
          (case register_collectors reg preparation_collectors g of
             (Inl e, g) \<Rightarrow> (Inl e, g)
           | (Inr _, g) \<Rightarrow> (Inr (prep_new record_limit active_limit), g)))"

text \<open>\<open>MetricsRegistry::new\<close> on a new registry, and \<open>preparation\<close>.\<close>

definition metrics_registry_new ::
  "('v, 'r) prometheus \<Rightarrow> 'r registrar \<Rightarrow> 'r \<Rightarrow> (dispatch_metrics \<times> ('v, 'r) metrics_registry) anyhow" where
  "metrics_registry_new prom reg g =
     (case dispatch_metrics_new reg g of
        (Inl e, _) \<Rightarrow> Inl e
      | (Inr d, g) \<Rightarrow>
          (case metrics_new prom (rg_process reg g) of
             Inl e \<Rightarrow> Inl e
           | Inr r \<Rightarrow> Inr (d, r)))"

definition metrics_preparation ::
  "'r registrar \<Rightarrow> nat \<Rightarrow> nat \<Rightarrow> ('v, 'r) metrics_registry \<Rightarrow> prep_metrics anyhow \<times> ('v, 'r) metrics_registry" where
  "metrics_preparation reg record_limit active_limit r =
     (case prep_metrics_new reg record_limit active_limit (mr_registry r) of (res, g) \<Rightarrow> (res, r\<lparr>mr_registry := g\<rparr>))"

text \<open>The order in \<open>main\<close>: the registry, and the module registry with its preparation metrics.\<close>

definition host_metrics_start ::
  "('v, 'r) prometheus \<Rightarrow> 'r registrar \<Rightarrow> 'r \<Rightarrow> nat \<Rightarrow> nat
     \<Rightarrow> (dispatch_metrics \<times> prep_metrics \<times> ('v, 'r) metrics_registry) anyhow" where
  "host_metrics_start prom reg g record_limit active_limit =
     (case metrics_registry_new prom reg g of
        Inl e \<Rightarrow> Inl e
      | Inr (d, r) \<Rightarrow>
          (case metrics_preparation reg record_limit active_limit r of
             (Inl e, _) \<Rightarrow> Inl e
           | (Inr p, r) \<Rightarrow> Inr (d, p, r)))"

subsection \<open>The collector of the gateway\<close>

record descriptor =
  ds_name :: string
  ds_help :: string
  ds_labels :: "string list"

record request_collector =
  rc_work :: descriptor
  rc_limit :: descriptor
  rc_high_water :: descriptor
  rc_rejected :: descriptor
  rc_completed :: descriptor
  rc_cancelled :: descriptor

text \<open>\<open>Desc::new\<close> accepts or refuses a descriptor; \<open>?\<close> returns the first refusal.\<close>

definition descriptor :: "(descriptor \<Rightarrow> unit anyhow) \<Rightarrow> string \<Rightarrow> string \<Rightarrow> string list \<Rightarrow> descriptor anyhow" where
  "descriptor check name help labels =
     (let d = \<lparr>ds_name = name, ds_help = help, ds_labels = labels\<rparr>
      in case check d of Inl e \<Rightarrow> Inl e | Inr _ \<Rightarrow> Inr d)"

definition request_collector_new :: "(descriptor \<Rightarrow> unit anyhow) \<Rightarrow> request_collector anyhow" where
  "request_collector_new check =
     (case descriptor check ''wasm_gateway_work'' ''Current gateway-owned requests and accepted connections'' [''pool''] of
        Inl e \<Rightarrow> Inl e
      | Inr work \<Rightarrow>
     (case descriptor check ''wasm_gateway_limit'' ''Configured gateway request and connection capacity'' [''pool''] of
        Inl e \<Rightarrow> Inl e
      | Inr limit \<Rightarrow>
     (case descriptor check ''wasm_gateway_high_water''
         ''Highest observed in-flight request count since process startup'' [''pool''] of
        Inl e \<Rightarrow> Inl e
      | Inr high_water \<Rightarrow>
     (case descriptor check ''wasm_gateway_requests_rejected_total''
         ''Valid-route requests rejected for lack of gateway request capacity'' [] of
        Inl e \<Rightarrow> Inl e
      | Inr rejected \<Rightarrow>
     (case descriptor check ''wasm_gateway_requests_completed_total'' ''Gateway-owned requests whose handler completed'' [] of
        Inl e \<Rightarrow> Inl e
      | Inr completed \<Rightarrow>
     (case descriptor check ''wasm_gateway_requests_cancelled_total''
         ''Gateway-owned requests cancelled before their handler completed'' [] of
        Inl e \<Rightarrow> Inl e
      | Inr cancelled \<Rightarrow>
          Inr \<lparr>rc_work = work, rc_limit = limit, rc_high_water = high_water, rc_rejected = rejected,
            rc_completed = completed, rc_cancelled = cancelled\<rparr>))))))"

definition request_desc :: "request_collector \<Rightarrow> descriptor list" where
  "request_desc c = [rc_work c, rc_limit c, rc_high_water c, rc_rejected c, rc_completed c, rc_cancelled c]"

text \<open>A family with its metrics: the label pairs and the number shown, which \<open>as f64\<close> keeps below \<open>2 ^ 53\<close>.\<close>

datatype family_type = GAUGE | COUNTER

record metric_family =
  mf_name :: string
  mf_help :: string
  mf_type :: family_type
  mf_metrics :: "((string \<times> string) list \<times> nat) list"

definition family :: "descriptor \<Rightarrow> family_type \<Rightarrow> ((string \<times> string) list \<times> nat) list \<Rightarrow> metric_family" where
  "family d t ms = \<lparr>mf_name = ds_name d, mf_help = ds_help d, mf_type = t, mf_metrics = ms\<rparr>"

definition gauges :: "descriptor \<Rightarrow> (string \<times> nat) list \<Rightarrow> metric_family" where
  "gauges d values = family d GAUGE (map (\<lambda>(pool, v). ([(''pool'', pool)], v)) values)"

definition counter :: "descriptor \<Rightarrow> nat \<Rightarrow> metric_family" where
  "counter d v = family d COUNTER [([], v)]"

definition request_collect :: "semaphore_api \<Rightarrow> gateway \<Rightarrow> request_collector \<Rightarrow> metric_family list" where
  "request_collect sem g c =
     (let v = snapshot sem g in
      [gauges (rc_work c) [(''in_flight'', gs_in_flight v), (''connections'', gs_connection_count v)],
       gauges (rc_limit c) [(''in_flight'', gs_in_flight_limit v), (''connections'', gs_connection_limit v)],
       gauges (rc_high_water c) [(''in_flight'', gs_high_water v)],
       counter (rc_rejected c) (gs_rejected v),
       counter (rc_completed c) (gs_completed v),
       counter (rc_cancelled c) (gs_cancelled v)])"

text \<open>\<open>MetricsRegistry::new\<close> of the gateway: the collector with all its descriptors, then the process.\<close>

definition gateway_metrics_new ::
  "(descriptor \<Rightarrow> unit anyhow) \<Rightarrow> (descriptor list \<Rightarrow> 'r \<Rightarrow> string + 'r) \<Rightarrow> ('r \<Rightarrow> string + 'r) \<Rightarrow> 'r
     \<Rightarrow> (request_collector \<times> 'r) anyhow" where
  "gateway_metrics_new check register process g =
     (case request_collector_new check of
        Inl e \<Rightarrow> Inl e
      | Inr c \<Rightarrow>
          (case register (request_desc c) g of
             Inl e \<Rightarrow> Inl e
           | Inr g \<Rightarrow> (case process g of Inl e \<Rightarrow> Inl e | Inr g \<Rightarrow> Inr (c, g))))"

section \<open>What the package promises\<close>

text \<open>
  Options are accepted when the names are well formed, the help is not empty, no label is given twice and
  the bucket bounds increase. A registry refuses exactly the names it has, and forgets a name when its
  vector is unregistered.
\<close>

definition name_char :: "char \<Rightarrow> bool" where
  "name_char c \<longleftrightarrow> (let n = of_char c :: nat in (65 \<le> n \<and> n \<le> 90) \<or> (97 \<le> n \<and> n \<le> 122) \<or> n = 95)"

definition label_name_ok :: "string \<Rightarrow> bool" where
  "label_name_ok l \<longleftrightarrow>
     (case l of [] \<Rightarrow> False | c # cs \<Rightarrow> name_char c \<and> list_all (\<lambda>c. name_char c \<or> is_ascii_digit c) cs)"

definition metric_name_ok :: "string \<Rightarrow> bool" where
  "metric_name_ok l \<longleftrightarrow>
     (case l of [] \<Rightarrow> False
      | c # cs \<Rightarrow> (name_char c \<or> c = CHR '':'') \<and> list_all (\<lambda>c. name_char c \<or> c = CHR '':'' \<or> is_ascii_digit c) cs)"

definition collector_ok :: "collector \<Rightarrow> bool" where
  "collector_ok c \<longleftrightarrow> metric_name_ok (co_name c) \<and> co_help c \<noteq> [] \<and> list_all label_name_ok (co_labels c)
     \<and> distinct (co_labels c) \<and> (case co_kind c of Histogram bs \<Rightarrow> sorted_wrt (<) bs | _ \<Rightarrow> True)"

locale registry_spec = prometheus_spec prom vec_labels vec_at
  for prom :: "('v, 'r) prometheus" and vec_labels :: "'v \<Rightarrow> string list" and vec_at :: "'v \<Rightarrow> string list \<Rightarrow> sample option" +
  fixes reg :: "'r registrar" and blank :: 'r and reg_names :: "'r \<Rightarrow> string set" and vec_name :: "'v \<Rightarrow> string"
    and process_names :: "string set"
  assumes empty_names: "reg_names blank = {}"
    and make_ok: "collector_ok c \<Longrightarrow> rg_make reg c = Inr ()"
    and register_fresh: "co_name c \<notin> reg_names g \<Longrightarrow>
      \<exists>g'. rg_register reg c g = Inr g' \<and> reg_names g' = insert (co_name c) (reg_names g)"
    and register_taken: "co_name c \<in> reg_names g \<Longrightarrow> \<exists>e. rg_register reg c g = Inl e"
    and process_fresh: "process_names \<inter> reg_names g = {} \<Longrightarrow>
      \<exists>g'. rg_process reg g = Inr g' \<and> reg_names g' = process_names \<union> reg_names g"
    and process_named: "n \<in> process_names \<Longrightarrow> take 8 n = ''process_''"
    and vec_new_ok: "metric_name_ok name \<Longrightarrow> list_all label_name_ok labels \<Longrightarrow> distinct labels \<Longrightarrow>
      \<exists>v. prom_new prom k name labels = Inr v"
    and vec_new_name: "prom_new prom k name labels = Inr v \<Longrightarrow> vec_name v = name"
    and vec_inc_name: "prom_inc prom vals v = Some v' \<Longrightarrow> vec_name v' = vec_name v"
    and vec_set_name: "prom_set prom vals level v = Some v' \<Longrightarrow> vec_name v' = vec_name v"
    and vec_register_fresh: "vec_name v \<notin> reg_names g \<Longrightarrow>
      \<exists>g'. prom_register prom v g = Inr g' \<and> reg_names g' = insert (vec_name v) (reg_names g)"
    and vec_register_taken: "vec_name v \<in> reg_names g \<Longrightarrow> \<exists>e. prom_register prom v g = Inl e"
    and vec_unregister: "prom_unregister prom v g = Inr g' \<Longrightarrow> reg_names g' = reg_names g - {vec_name v}"
begin

lemma make_collectors_ok: "list_all collector_ok cs \<Longrightarrow> make_collectors reg cs = Inr ()"
  by (induction cs) (auto simp: make_ok)

lemma register_collectors_ok:
  assumes "distinct (map co_name cs)" "set (map co_name cs) \<inter> reg_names g = {}"
  shows "\<exists>g'. register_collectors reg cs g = (Inr (), g') \<and> reg_names g' = set (map co_name cs) \<union> reg_names g"
  using assms
proof (induction cs arbitrary: g)
  case (Cons c cs)
  obtain g1 where g1: "rg_register reg c g = Inr g1" "reg_names g1 = insert (co_name c) (reg_names g)"
    using register_fresh [of c g] Cons.prems(2) by auto
  moreover have "set (map co_name cs) \<inter> reg_names g1 = {}" using Cons.prems g1(2) by auto
  ultimately show ?case using Cons.IH [of g1] Cons.prems(1) by auto
qed simp

lemma register_counters_ok:
  assumes "distinct (map (vec_name \<circ> snd) vs)" "(vec_name \<circ> snd) ` set vs \<inter> reg_names g = {}"
  shows "\<exists>g'. register_counters prom vs g = Inr g' \<and> reg_names g' = (vec_name \<circ> snd) ` set vs \<union> reg_names g"
  using assms
proof (induction vs arbitrary: g)
  case (Cons x vs)
  obtain c v where x: "x = (c, v)" by (cases x)
  obtain g1 where g1: "prom_register prom v g = Inr g1" "reg_names g1 = insert (vec_name v) (reg_names g)"
    using vec_register_fresh [of v g] Cons.prems(2) x by auto
  moreover have "(vec_name \<circ> snd) ` set vs \<inter> reg_names g1 = {}" using Cons.prems g1(2) x by auto
  ultimately show ?case using Cons.IH [of g1] Cons.prems(1) x by auto
qed simp

lemma make_counters_ok:
  assumes "list_all (\<lambda>(_, name, labels). metric_name_ok name \<and> list_all label_name_ok labels \<and> distinct labels) cs"
  shows "\<exists>vs. make_counters prom cs = Inr vs \<and> map (vec_name \<circ> snd) vs = map (\<lambda>(_, name, _). name) cs"
  using assms
proof (induction cs)
  case (Cons x cs)
  obtain c name labels where x: "x = (c, name, labels)" by (cases x)
  obtain v where "prom_new prom MetricCounter name labels = Inr v" using vec_new_ok [of name labels] Cons.prems x by auto
  then show ?case using Cons vec_new_name x by auto
qed simp

end

section \<open>The names of the host\<close>

abbreviation counter_names :: "string list" where
  "counter_names \<equiv> map (\<lambda>(_, name, _). name) platform_counters"

definition host_names :: "string list" where
  "host_names = map co_name dispatch_collectors @ counter_names @ map co_name preparation_collectors"

lemmas collector_defs = gauge_vec_def counter_vec_def duration_histogram_def

lemma distinct_drop: "distinct (map (drop k) xs) \<Longrightarrow> distinct xs"
  by (simp add: distinct_map)

lemma collectors_ok: "list_all collector_ok dispatch_collectors" "list_all collector_ok preparation_collectors"
  by (simp_all add: dispatch_collectors_def preparation_collectors_def collector_defs collector_ok_def metric_name_ok_def
      label_name_ok_def name_char_def is_ascii_digit_def DURATION_BUCKETS_def)

lemma counters_ok:
  "list_all (\<lambda>(_, name, labels). metric_name_ok name \<and> list_all label_name_ok labels \<and> distinct labels) platform_counters"
  by (simp add: platform_counters_def metric_name_ok_def label_name_ok_def name_char_def is_ascii_digit_def)

lemma dispatch_names_distinct: "distinct (map co_name dispatch_collectors)"
  by (rule distinct_drop [of 19]) (simp add: dispatch_collectors_def collector_defs)

lemma preparation_names_distinct: "distinct (map co_name preparation_collectors)"
  by (rule distinct_drop [of 22]) (simp add: preparation_collectors_def collector_defs)

lemma counter_names_distinct: "distinct counter_names"
  by (rule distinct_drop [of 10]) (simp add: platform_counters_def)

text \<open>The three groups differ within their first twelve characters.\<close>

lemma group_prefixes:
  "take 12 ` set (map co_name dispatch_collectors) = {''wasm_host_di''}"
  "take 12 ` set (map co_name preparation_collectors) = {''wasm_host_pr''}"
  "take 12 ` set counter_names \<subseteq> {''wasm_host_mo'', ''wasm_host_ev'', ''wasm_host_me'', ''wasm_host_kv'', ''wasm_host_ht'', ''wasm_host_dr''}"
  by (simp_all add: dispatch_collectors_def preparation_collectors_def platform_counters_def collector_defs)

lemma take_disjoint: "take k ` A \<inter> take k ` B = {} \<Longrightarrow> A \<inter> B = {}" for A B :: "string set"
  by blast

lemma host_names_apart:
  "set (map co_name dispatch_collectors) \<inter> set counter_names = {}"
  "set (map co_name preparation_collectors) \<inter> (set (map co_name dispatch_collectors) \<union> set counter_names) = {}"
proof -
  have "take 12 ` set (map co_name dispatch_collectors) \<inter> take 12 ` set counter_names = {}"
    using group_prefixes(3) unfolding group_prefixes(1) by force
  then show "set (map co_name dispatch_collectors) \<inter> set counter_names = {}" by (rule take_disjoint)
  have "take 12 ` set (map co_name preparation_collectors)
      \<inter> take 12 ` (set (map co_name dispatch_collectors) \<union> set counter_names) = {}"
    using group_prefixes(3) unfolding image_Un group_prefixes(1,2) by force
  then show "set (map co_name preparation_collectors) \<inter> (set (map co_name dispatch_collectors) \<union> set counter_names) = {}"
    by (rule take_disjoint)
qed

lemma host_names_head: "take 8 ` set host_names = {''wasm_hos''}"
  by (simp add: host_names_def dispatch_collectors_def preparation_collectors_def platform_counters_def collector_defs)

lemma host_names_not_process: "n \<in> set host_names \<Longrightarrow> take 8 n \<noteq> ''process_''"
proof -
  assume "n \<in> set host_names"
  then have "take 8 n \<in> take 8 ` set host_names" by (rule imageI)
  then have "take 8 n = ''wasm_hos''" unfolding host_names_head by (rule singletonD)
  then show ?thesis by simp
qed

text \<open>
  Everything the host registers keeps its place: its names are in the registry, and no metric of an
  application has one of them.
\<close>

definition reserved :: "string set \<Rightarrow> string set" where
  "reserved process_names = process_names \<union> set host_names"

definition names_inv ::
  "('r \<Rightarrow> string set) \<Rightarrow> ('v \<Rightarrow> string) \<Rightarrow> string set \<Rightarrow> ('v, 'r) metrics_registry \<Rightarrow> bool" where
  "names_inv reg_names vec_name K r \<longleftrightarrow> K \<subseteq> reg_names (mr_registry r)
     \<and> (\<forall>n e. hm_get (mr_user_metrics r) n = Some e \<longrightarrow> vec_name (user_metric_vec (ume_metric e)) = n \<and> n \<notin> K)"

lemma names_inv_update:
  assumes "names_inv reg_names vec_name K r" "hm_get (mr_user_metrics r) name = Some e"
    "vec_name (user_metric_vec m) = vec_name (user_metric_vec (ume_metric e))"
  shows "names_inv reg_names vec_name K (r\<lparr>mr_user_metrics := hm_insert name (e\<lparr>ume_metric := m\<rparr>) (mr_user_metrics r)\<rparr>)"
  using assms by (auto simp: names_inv_def update_conv)

context registry_spec
begin

lemma process_apart: "process_names \<inter> set host_names = {}"
  using process_named host_names_not_process by blast

lemma registry_new_ok:
  "\<exists>r. metrics_registry_new prom reg blank = Inr (dispatch_new, r) \<and> mr_user_metrics r = []
     \<and> reg_names (mr_registry r) = process_names \<union> set (map co_name dispatch_collectors) \<union> set counter_names"
proof -
  obtain g1 where g1: "register_collectors reg dispatch_collectors blank = (Inr (), g1)"
    "reg_names g1 = set (map co_name dispatch_collectors)"
    using register_collectors_ok [OF dispatch_names_distinct, of blank] empty_names by auto
  have "process_names \<inter> reg_names g1 = {}"
    using process_apart unfolding g1(2) host_names_def set_append by blast
  then obtain g2 where g2: "rg_process reg g1 = Inr g2" "reg_names g2 = process_names \<union> reg_names g1"
    using process_fresh by blast
  obtain vs where vs: "make_counters prom platform_counters = Inr vs" "map (vec_name \<circ> snd) vs = counter_names"
    using make_counters_ok [OF counters_ok] by blast
  have img: "(vec_name \<circ> snd) ` set vs = set counter_names" by (metis vs(2) list.set_map)
  have "set counter_names \<inter> reg_names g2 = {}"
    using process_apart host_names_apart(1) unfolding g2(2) g1(2) host_names_def set_append by blast
  then obtain g3 where g3: "register_counters prom vs g2 = Inr g3" "reg_names g3 = set counter_names \<union> reg_names g2"
    using register_counters_ok [of vs g2] vs(2) counter_names_distinct unfolding img by auto
  show ?thesis
    using g1 g2 g3 vs(1) make_collectors_ok [OF collectors_ok(1)]
    by (auto simp: metrics_registry_new_def dispatch_metrics_new_def metrics_new_def)
qed

lemma host_metrics_start_ok:
  "\<exists>r. host_metrics_start prom reg blank rl al = Inr (dispatch_new, prep_new rl al, r)
     \<and> reg_names (mr_registry r) = reserved process_names \<and> mr_user_metrics r = []"
proof -
  obtain r where r: "metrics_registry_new prom reg blank = Inr (dispatch_new, r)" "mr_user_metrics r = []"
    "reg_names (mr_registry r) = process_names \<union> set (map co_name dispatch_collectors) \<union> set counter_names"
    using registry_new_ok by blast
  have "set (map co_name preparation_collectors) \<inter> reg_names (mr_registry r) = {}"
    using process_apart host_names_apart(2) unfolding r(3) host_names_def set_append by blast
  then obtain g where "register_collectors reg preparation_collectors (mr_registry r) = (Inr (), g)"
    "reg_names g = set (map co_name preparation_collectors) \<union> reg_names (mr_registry r)"
    using register_collectors_ok [OF preparation_names_distinct] by blast
  then show ?thesis
    using r make_collectors_ok [OF collectors_ok(2)]
    by (auto simp: host_metrics_start_def metrics_preparation_def prep_metrics_new_def reserved_def host_names_def)
qed

lemma unregister_all_names:
  assumes "names_inv reg_names vec_name K r"
  shows "names_inv reg_names vec_name K (unregister_all prom ns r)"
  using assms
proof (induction ns arbitrary: r)
  case (Cons n ns)
  let ?r = "case hm_get (mr_user_metrics r) n of
      Some e \<Rightarrow> (case prom_unregister prom (user_metric_vec (ume_metric e)) (mr_registry r) of
                  Inl _ \<Rightarrow> r | Inr g \<Rightarrow> r\<lparr>mr_registry := g\<rparr>)
    | None \<Rightarrow> r"
  have "names_inv reg_names vec_name K ?r"
    using Cons.prems by (auto simp: names_inv_def vec_unregister split: option.splits sum.splits)
  then show ?case using Cons.IH by simp
qed simp

lemma register_expected_names:
  assumes "names_inv reg_names vec_name K r"
  shows "names_inv reg_names vec_name K (snd (register_expected prom es r))"
  using assms
proof (induction es arbitrary: r)
  case (Cons x es)
  obtain name def where x: "x = (name, def)" by (cases x)
  show ?case
  proof (cases "\<exists>entry g. hm_get (mr_user_metrics r) name = None \<and> user_metric_new prom name def = Inr entry
      \<and> prom_register prom (user_metric_vec (ume_metric entry)) (mr_registry r) = Inr g")
    case True
    then obtain entry g where new: "hm_get (mr_user_metrics r) name = None" "user_metric_new prom name def = Inr entry"
      "prom_register prom (user_metric_vec (ume_metric entry)) (mr_registry r) = Inr g" by blast
    have vn: "vec_name (user_metric_vec (ume_metric entry)) = name"
      using new(2) vec_new_name by (auto simp: user_metric_new_def Let_def split: sum.splits metric_type.splits)
    have fresh: "name \<notin> reg_names (mr_registry r)" and g: "reg_names g = insert name (reg_names (mr_registry r))"
      using new(3) vec_register_taken [of "user_metric_vec (ume_metric entry)" "mr_registry r"]
        vec_register_fresh [of "user_metric_vec (ume_metric entry)" "mr_registry r"] vn by auto
    let ?r = "r\<lparr>mr_registry := g, mr_user_metrics := hm_insert name entry (mr_user_metrics r)\<rparr>"
    have "names_inv reg_names vec_name K ?r"
      using Cons.prems fresh vn by (auto simp: names_inv_def g update_conv)
    then show ?thesis using Cons.IH x new by simp
  next
    case False
    then show ?thesis using Cons x by (auto split: sum.splits)
  qed
qed simp

lemma sync_names:
  assumes "names_inv reg_names vec_name K r"
  shows "names_inv reg_names vec_name K (snd (sync_user_metrics prom apps r))"
proof (cases "mr_poisoned r")
  case False
  let ?ns = "filter (\<lambda>n. hm_get (expected_metrics apps) n = None) (hm_keys (mr_user_metrics r))"
  have "names_inv reg_names vec_name K (unregister_all prom ?ns r)" using assms by (rule unregister_all_names)
  then have "names_inv reg_names vec_name K
      ((unregister_all prom ?ns r)\<lparr>mr_user_metrics := fold hm_remove ?ns (mr_user_metrics (unregister_all prom ?ns r))\<rparr>)"
    by (auto simp: names_inv_def hm.lookup_discard_all)
  then show ?thesis using False by (simp add: sync_user_metrics_def Let_def register_expected_names)
qed (simp add: sync_user_metrics_def assms)

lemma guest_names:
  assumes "names_inv reg_names vec_name K r"
  shows "counter_increment prom name app ns labels r = Some (res, r') \<Longrightarrow> names_inv reg_names vec_name K r'"
    and "gauge_set prom name level app ns labels r = Some (res, r') \<Longrightarrow> names_inv reg_names vec_name K r'"
  using assms
  by (auto simp: counter_increment_def gauge_set_def vec_inc_name vec_set_name
      split: if_splits option.splits user_metric.splits intro!: names_inv_update)

lemma platform_names:
  assumes "names_inv reg_names vec_name K r" "platform_inc prom c vals r = Some r'"
  shows "names_inv reg_names vec_name K r'"
  using assms by (auto simp: platform_inc_def names_inv_def Option.bind_eq_Some_conv)

lemma metrics_step_names:
  assumes "names_inv reg_names vec_name K r" "metrics_step prom r r'"
  shows "names_inv reg_names vec_name K r'"
  using assms(2)
proof cases
  case (ms_sync apps res)
  then show ?thesis using sync_names [OF assms(1), of apps] by simp
next
  case (ms_increment name app ns labels res)
  then show ?thesis using guest_names(1) [OF assms(1)] by blast
next
  case (ms_set name level app ns labels res)
  then show ?thesis using guest_names(2) [OF assms(1)] by blast
qed (unfold record_defs, (erule platform_names [OF assms(1)])+)

end

sublocale registry_spec \<subseteq> host_registry: invariant_system
  "\<lambda>r. \<exists>d p. host_metrics_start prom reg blank rl al = Inr (d, p, r)" "metrics_step prom"
  "names_inv reg_names vec_name (reserved process_names)" for rl al
proof unfold_locales
  fix r
  assume "\<exists>d p. host_metrics_start prom reg blank rl al = Inr (d, p, r)"
  then show "names_inv reg_names vec_name (reserved process_names) r"
    using host_metrics_start_ok [of rl al] by (auto simp: names_inv_def)
qed (rule metrics_step_names)

context registry_spec
begin

lemma host_names_kept:
  "reaches (\<lambda>r. \<exists>d p. host_metrics_start prom reg blank rl al = Inr (d, p, r)) (metrics_step prom) r \<Longrightarrow>
     names_inv reg_names vec_name (reserved process_names) r"
  by (rule host_registry.inv_reaches)

lemma reserved_sync_fails:
  assumes "names_inv reg_names vec_name (reserved process_names) r"
    and "n \<in> md_name ` set (all_definitions apps)" "n \<in> reserved process_names"
  shows "\<exists>e. fst (sync_user_metrics prom apps r) = Inl e"
proof (cases "mr_poisoned r")
  case False
  obtain res r' where s: "sync_user_metrics prom apps r = (res, r')" by fastforce
  have "names_inv reg_names vec_name (reserved process_names) r'" using sync_names [OF assms(1), of apps] s by simp
  then have "hm_get (mr_user_metrics r') n = None" using assms(3) unfolding names_inv_def by (metis option.exhaust)
  moreover have "hm_get (expected_metrics apps) n \<noteq> None"
    using assms(2) by (simp add: expected_metrics_get map_of_eq_None_iff image_image)
  ultimately show ?thesis using sync_get(3) [OF False s] s by (cases res) auto
qed (simp add: sync_user_metrics_def)

end

subsection \<open>A plain registry\<close>

definition plain_registrar :: "string list registrar" where
  "plain_registrar =
     \<lparr>rg_make = (\<lambda>c. if collector_ok c then Inr () else Inl ''invalid options''),
      rg_register = (\<lambda>c g. if co_name c \<in> set g then Inl ''duplicate metric'' else Inr (co_name c # g)),
      rg_process = (\<lambda>g. if ''process_open_fds'' \<in> set g then Inl ''duplicate metric'' else Inr (''process_open_fds'' # g))\<rparr>"

interpretation plain_registry: registry_spec plain_prom pv_labels "\<lambda>v. hm_get (pv_series v)" plain_registrar "[]" set pv_name
  "{''process_open_fds''}"
  by unfold_locales (auto simp: plain_registrar_def plain_defs split: if_splits)

section \<open>Series\<close>

text \<open>
  The guards whose labels are counted, beside the metrics: messages, tasks and submissions in progress.
  Executions and admitted preparations report under fixed labels, so any value stands for them.
\<close>

record label_state =
  ls_dispatch :: dispatch_metrics
  ls_queued :: "queued_work multiset"
  ls_tasks :: "task_record multiset"
  ls_prep :: prep_metrics
  ls_submissions :: "submission multiset"

definition label_init :: "nat \<Rightarrow> nat \<Rightarrow> label_state \<Rightarrow> bool" where
  "label_init rl al s \<longleftrightarrow> s = \<lparr>ls_dispatch = dispatch_new, ls_queued = {#}, ls_tasks = {#}, ls_prep = prep_new rl al,
     ls_submissions = {#}\<rparr>"

inductive dispatch_label_step :: "label_state \<Rightarrow> label_state \<Rightarrow> bool" where
  dl_configure: "dispatch_label_step s (s\<lparr>ls_dispatch := configure a b c (ls_dispatch s)\<rparr>)"
| dl_queued: "metrics_queued (ls_dispatch s) = (q, m) \<Longrightarrow>
    dispatch_label_step s (s\<lparr>ls_dispatch := m, ls_queued := add_mset q (ls_queued s)\<rparr>)"
| dl_set_outcome: "ls_queued s = add_mset q qs \<Longrightarrow>
    dispatch_label_step s (s\<lparr>ls_queued := add_mset (queued_set_outcome u q) qs\<rparr>)"
| dl_dequeued: "ls_queued s = add_mset q qs \<Longrightarrow>
    dispatch_label_step s (s\<lparr>ls_dispatch := queued_drop q (ls_dispatch s), ls_queued := qs\<rparr>)"
| dl_task: "task_started (ls_dispatch s) = (t, m) \<Longrightarrow>
    dispatch_label_step s (s\<lparr>ls_dispatch := m, ls_tasks := add_mset t (ls_tasks s)\<rparr>)"
| dl_task_outcome: "ls_tasks s = add_mset t ts \<Longrightarrow>
    dispatch_label_step s (s\<lparr>ls_tasks := add_mset (task_set_outcome u t) ts\<rparr>)"
| dl_task_drop: "ls_tasks s = add_mset t ts \<Longrightarrow>
    dispatch_label_step s (s\<lparr>ls_dispatch := task_drop panicking t (ls_dispatch s), ls_tasks := ts\<rparr>)"
| dl_reaped: "dispatch_label_step s (s\<lparr>ls_dispatch := task_reaped u (ls_dispatch s)\<rparr>)"
| dl_execution: "execution_started (ls_dispatch s) = (e, m) \<Longrightarrow> dispatch_label_step s (s\<lparr>ls_dispatch := m\<rparr>)"
| dl_terminating: "execution_terminating now e (ls_dispatch s) = (e', m) \<Longrightarrow> dispatch_label_step s (s\<lparr>ls_dispatch := m\<rparr>)"
| dl_execution_drop: "dispatch_label_step s (s\<lparr>ls_dispatch := execution_drop e (ls_dispatch s)\<rparr>)"
| dl_stopped: "dispatch_label_step s (s\<lparr>ls_dispatch := dispatch_stopped now (ls_dispatch s)\<rparr>)"
| dl_drained: "dispatch_label_step s (s\<lparr>ls_dispatch := drain_finished (ls_dispatch s)\<rparr>)"

inductive prep_label_step :: "label_state \<Rightarrow> label_state \<Rightarrow> bool" where
  pls_submission: "prep_submission (ls_prep s) = (b, m) \<Longrightarrow>
    prep_label_step s (s\<lparr>ls_prep := m, ls_submissions := add_mset b (ls_submissions s)\<rparr>)"
| pls_admitted: "ls_submissions s = add_mset b bs \<Longrightarrow> submission_admitted b (ls_prep s) = (p, m) \<Longrightarrow>
    prep_label_step s (s\<lparr>ls_prep := m, ls_submissions := bs\<rparr>)"
| pls_timed_out: "ls_submissions s = add_mset b bs \<Longrightarrow>
    prep_label_step s (s\<lparr>ls_prep := submission_timed_out b (ls_prep s), ls_submissions := bs\<rparr>)"
| pls_closed: "ls_submissions s = add_mset b bs \<Longrightarrow>
    prep_label_step s (s\<lparr>ls_prep := submission_closed b (ls_prep s), ls_submissions := bs\<rparr>)"
| pls_dropped: "ls_submissions s = add_mset b bs \<Longrightarrow>
    prep_label_step s (s\<lparr>ls_prep := submission_drop b (ls_prep s), ls_submissions := bs\<rparr>)"
| pls_terminate: "prep_terminate u at (p, ls_prep s) = (p', m) \<Longrightarrow> prep_label_step s (s\<lparr>ls_prep := m\<rparr>)"
| pls_activate: "prep_activate (p, ls_prep s) = (p', m) \<Longrightarrow> prep_label_step s (s\<lparr>ls_prep := m\<rparr>)"
| pls_compiling: "prep_compiling now (p, ls_prep s) = (p', m) \<Longrightarrow> prep_label_step s (s\<lparr>ls_prep := m\<rparr>)"
| pls_finished: "control_compilation_finished u (p, ls_prep s) = (p', m) \<Longrightarrow> prep_label_step s (s\<lparr>ls_prep := m\<rparr>)"
| pls_compiled: "prep_compilation_finished u (p, ls_prep s) = (p', m) \<Longrightarrow> prep_label_step s (s\<lparr>ls_prep := m\<rparr>)"
| pls_drop: "prep_drop panicking (p, ls_prep s) = (p', m) \<Longrightarrow> prep_label_step s (s\<lparr>ls_prep := m\<rparr>)"

definition label_step :: "label_state \<Rightarrow> label_state \<Rightarrow> bool" where
  "label_step s s' \<longleftrightarrow> dispatch_label_step s s' \<or> prep_label_step s s'"

text \<open>The vectors by name, with the value of each label.\<close>

definition dispatch_vectors :: "dispatch_metrics \<Rightarrow> (string \<times> (string \<Rightarrow> int)) list" where
  "dispatch_vectors m =
     [(''wasm_host_dispatch_work'', work_gauge m), (''wasm_host_dispatch_limit'', limit_gauge m),
      (''wasm_host_dispatch_high_water'', high_water_gauge m),
      (''wasm_host_dispatch_capacity_breaches_total'', int \<circ> capacity_breaches m),
      (''wasm_host_dispatch_accounting_errors_total'', int \<circ> accounting_errors m),
      (''wasm_host_dispatch_tasks_finished_total'', int \<circ> finished_total m),
      (''wasm_host_dispatch_tasks_reaped_total'', int \<circ> reaped_total m),
      (''wasm_host_dispatch_queue_exits_total'', int \<circ> queue_exits m)]"

definition preparation_vectors :: "prep_metrics \<Rightarrow> (string \<times> (string \<Rightarrow> int)) list" where
  "preparation_vectors m =
     [(''wasm_host_preparation_work'', pm_work m), (''wasm_host_preparation_limit'', pm_limits m),
      (''wasm_host_preparation_occupancy'', pm_occupancy m), (''wasm_host_preparation_high_water'', pm_high_water m),
      (''wasm_host_preparation_capacity_breaches_total'', int \<circ> pm_breaches m),
      (''wasm_host_preparation_accounting_errors_total'', int \<circ> pm_errors m),
      (''wasm_host_preparation_submissions_total'', int \<circ> pm_submissions m),
      (''wasm_host_preparation_finished_total'', int \<circ> pm_finished m),
      (''wasm_host_preparation_compilation_finished_total'', int \<circ> pm_compilation_finished m)]"

text \<open>A vector is zero outside a list of labels.\<close>

definition zero_outside :: "string list \<Rightarrow> (string \<Rightarrow> 'a :: zero) \<Rightarrow> bool" where
  "zero_outside ls f \<longleftrightarrow> (\<forall>l. l \<notin> set ls \<longrightarrow> f l = 0)"

lemma zero_outside_upd [simp]: "l \<in> set ls \<Longrightarrow> zero_outside ls f \<Longrightarrow> zero_outside ls (f(l := v))"
  by (auto simp: zero_outside_def)

lemma zero_outside_inc [simp]: "l \<in> set ls \<Longrightarrow> zero_outside ls f \<Longrightarrow> zero_outside ls (inc_label l f)"
  by (simp add: inc_label_def)

lemma zero_outside_zero [simp]: "zero_outside ls (\<lambda>_. 0)"
  by (simp add: zero_outside_def)

lemma zero_outside_fold:
  "set (map fst kvs) \<subseteq> set ls \<Longrightarrow> zero_outside ls f \<Longrightarrow> zero_outside ls (fold (\<lambda>(k, v) g. g(k := h v)) kvs f)"
  by (induction kvs arbitrary: f) auto

lemma zero_outside_zip: "zero_outside ls f \<Longrightarrow> zero_outside ls (fold (\<lambda>(k, v) g. g(k := h v)) (zip ls vs) f)"
  by (rule zero_outside_fold) (auto elim: in_set_zipE)

definition dispatch_labels_ok :: "dispatch_metrics \<Rightarrow> bool" where
  "dispatch_labels_ok m \<longleftrightarrow>
     zero_outside WORK_STATES (work_gauge m) \<and> zero_outside CAPACITIES (limit_gauge m)
     \<and> zero_outside CAPACITIES (high_water_gauge m) \<and> zero_outside CAPACITIES (capacity_breaches m)
     \<and> zero_outside WORK_STATES (accounting_errors m) \<and> zero_outside OUTCOMES (finished_total m)
     \<and> zero_outside [''ok'', ''panic'', ''cancelled'', ''other''] (reaped_total m)
     \<and> zero_outside QUEUE_OUTCOMES (queue_exits m)"

definition preparation_labels_ok :: "prep_metrics \<Rightarrow> bool" where
  "preparation_labels_ok m \<longleftrightarrow>
     zero_outside PREP_WORK_STATES (pm_work m) \<and> zero_outside PREP_CAPACITIES (pm_limits m)
     \<and> zero_outside PREP_CAPACITIES (pm_occupancy m) \<and> zero_outside PREP_CAPACITIES (pm_high_water m)
     \<and> zero_outside PREP_CAPACITIES (pm_breaches m) \<and> zero_outside PREP_WORK_STATES (pm_errors m)
     \<and> zero_outside SUBMISSION_OUTCOMES (pm_submissions m) \<and> zero_outside PREP_OUTCOMES (pm_finished m)
     \<and> zero_outside PREP_OUTCOMES (pm_compilation_finished m)"

subsection \<open>Dispatch\<close>

lemma publish_labels [simp]: "dispatch_labels_ok m \<Longrightarrow> dispatch_labels_ok (publish_counts m)"
  by (simp add: dispatch_labels_ok_def publish_counts_def Let_def zero_outside_zip)

lemma capacities_mem: "k < 3 \<Longrightarrow> CAPACITIES ! k \<in> set CAPACITIES"
  by (rule nth_mem) (simp add: CAPACITIES_def)

lemma capacity_labels [simp]: "k < 3 \<Longrightarrow> dispatch_labels_ok m \<Longrightarrow> dispatch_labels_ok (record_capacity k m)"
  using capacities_mem [of k] by (auto simp: dispatch_labels_ok_def record_capacity_def Let_def)

lemma counts_labels [simp]: "dispatch_labels_ok (m\<lparr>counts := c\<rparr>) = dispatch_labels_ok m"
  by (simp add: dispatch_labels_ok_def)

lemma decrement_labels [simp]:
  "state \<in> set WORK_STATES \<Longrightarrow> dispatch_labels_ok m \<Longrightarrow> dispatch_labels_ok (decrement get upd state m)"
  by (auto simp: dispatch_labels_ok_def decrement_def split: option.splits)

lemma work_states_mem [simp]:
  "''queued'' \<in> set WORK_STATES" "''tracked'' \<in> set WORK_STATES" "''completed_uncollected'' \<in> set WORK_STATES"
  "''running'' \<in> set WORK_STATES" "''terminating'' \<in> set WORK_STATES"
  by (simp_all add: WORK_STATES_def)

lemma configure_labels [simp]: "dispatch_labels_ok m \<Longrightarrow> dispatch_labels_ok (configure a b c m)"
proof -
  have fold: "dispatch_labels_ok (fold (\<lambda>(i, kind, limit) m.
            let m = m\<lparr>limit_gauge := (limit_gauge m)(kind := as_gauge limit)\<rparr> in
            if wc_occupancy (counts m) i > limit
            then m\<lparr>capacity_breaches := inc_label kind (capacity_breaches m)\<rparr> else m) xs m)"
    if "dispatch_labels_ok m" "\<forall>(i, kind, limit) \<in> set xs. kind \<in> set CAPACITIES" for xs m
    using that by (induction xs arbitrary: m) (auto simp: Let_def dispatch_labels_ok_def)
  show "dispatch_labels_ok m \<Longrightarrow> dispatch_labels_ok (configure a b c m)"
    unfolding configure_def Let_def by (rule fold [unfolded Let_def]) (auto elim!: in_set_zipE)
qed

lemma queued_labels:
  "metrics_queued m = (q, m') \<Longrightarrow> dispatch_labels_ok m \<Longrightarrow> dispatch_labels_ok m' \<and> queued_outcome q \<in> set QUEUE_OUTCOMES"
  "queued_outcome (queued_set_outcome u q) \<in> set QUEUE_OUTCOMES"
  "queued_outcome q \<in> set QUEUE_OUTCOMES \<Longrightarrow> dispatch_labels_ok m \<Longrightarrow> dispatch_labels_ok (queued_drop q m)"
proof -
  assume "queued_outcome q \<in> set QUEUE_OUTCOMES" "dispatch_labels_ok m"
  moreover from this have "dispatch_labels_ok (publish_counts (decrement wc_queued wc_queued_update ''queued'' m))" by simp
  ultimately show "dispatch_labels_ok (queued_drop q m)" by (simp add: queued_drop_def dispatch_labels_ok_def Let_def)
qed (auto simp: metrics_queued_def Let_def queued_set_outcome_def QUEUE_OUTCOMES_def)

lemma task_labels:
  "task_started m = (t, m') \<Longrightarrow> dispatch_labels_ok m \<Longrightarrow> dispatch_labels_ok m' \<and> task_outcome t \<in> set OUTCOMES"
  "task_outcome (task_set_outcome u t) \<in> set OUTCOMES"
  "task_outcome t \<in> set OUTCOMES \<Longrightarrow> dispatch_labels_ok m \<Longrightarrow> dispatch_labels_ok (task_drop p t m)"
  "dispatch_labels_ok m \<Longrightarrow> dispatch_labels_ok (task_reaped u m)"
proof -
  have stop: "dispatch_labels_ok (k\<lparr>admissions_after_stop := n\<rparr>) = dispatch_labels_ok k" for k n
    by (simp add: dispatch_labels_ok_def)
  show "task_started m = (t, m') \<Longrightarrow> dispatch_labels_ok m \<Longrightarrow> dispatch_labels_ok m' \<and> task_outcome t \<in> set OUTCOMES"
    by (auto simp: task_started_def Let_def OUTCOMES_def stop split: if_splits)
  show "task_outcome (task_set_outcome u t) \<in> set OUTCOMES"
    by (simp add: task_set_outcome_def bounded_outcome_def OUTCOMES_def)
  show "dispatch_labels_ok (task_drop p t m)" if "task_outcome t \<in> set OUTCOMES" "dispatch_labels_ok m"
  proof -
    let ?m = "publish_counts (m\<lparr>counts := (counts m)\<lparr>wc_completed_uncollected := Suc (wc_completed_uncollected (counts m))\<rparr>\<rparr>)"
    have "dispatch_labels_ok ?m" using that(2) by simp
    moreover have "''panic'' \<in> set OUTCOMES" by (simp add: OUTCOMES_def)
    ultimately show ?thesis using that(1) by (simp add: task_drop_def Let_def dispatch_labels_ok_def)
  qed
  show "dispatch_labels_ok (task_reaped u m)" if "dispatch_labels_ok m"
  proof -
    let ?m = "publish_counts (decrement wc_completed_uncollected wc_completed_uncollected_update ''completed_uncollected''
      (decrement wc_tracked wc_tracked_update ''tracked'' m))"
    have "dispatch_labels_ok ?m" using that by simp
    moreover have "reaped_outcome u \<in> set [''ok'', ''panic'', ''cancelled'', ''other'']" by (simp add: reaped_outcome_def)
    ultimately show ?thesis by (simp add: task_reaped_def Let_def dispatch_labels_ok_def)
  qed
qed

lemma execution_labels:
  "execution_started m = (e, m') \<Longrightarrow> dispatch_labels_ok m \<Longrightarrow> dispatch_labels_ok m'"
  "execution_terminating now e m = (e', m') \<Longrightarrow> dispatch_labels_ok m \<Longrightarrow> dispatch_labels_ok m'"
  "dispatch_labels_ok m \<Longrightarrow> dispatch_labels_ok (execution_drop e m)"
  "dispatch_labels_ok m \<Longrightarrow> dispatch_labels_ok (dispatch_stopped now m)"
  "dispatch_labels_ok m \<Longrightarrow> dispatch_labels_ok (drain_finished m)"
proof -
  have upd: "dispatch_labels_ok (k\<lparr>cancellation_to_exit_count := n\<rparr>) = dispatch_labels_ok k"
    "dispatch_labels_ok (k\<lparr>execution_duration_count := n\<rparr>) = dispatch_labels_ok k" for k n
    by (simp_all add: dispatch_labels_ok_def)
  show "dispatch_labels_ok m \<Longrightarrow> dispatch_labels_ok (execution_drop e m)" by (auto simp: execution_drop_def Let_def upd)
  show "dispatch_labels_ok m \<Longrightarrow> dispatch_labels_ok (dispatch_stopped now m)"
    "dispatch_labels_ok m \<Longrightarrow> dispatch_labels_ok (drain_finished m)"
    by (simp_all add: dispatch_stopped_def drain_finished_def dispatch_labels_ok_def)
qed (auto simp: execution_started_def execution_terminating_def Let_def split: if_splits)

subsection \<open>Preparation\<close>

lemma note_labels: "kind \<in> set PREP_CAPACITIES \<Longrightarrow> preparation_labels_ok m \<Longrightarrow> preparation_labels_ok (prep_note i kind v m)"
  by (auto simp: preparation_labels_ok_def prep_note_def Let_def)

lemma prep_publish_labels [simp]: "preparation_labels_ok m \<Longrightarrow> preparation_labels_ok (prep_publish m)"
proof -
  assume m: "preparation_labels_ok m"
  have fold: "preparation_labels_ok (fold (\<lambda>(i, kind, v). prep_note i kind v) xs k)"
    if "preparation_labels_ok k" "\<forall>(i, kind, v) \<in> set xs. kind \<in> set PREP_CAPACITIES" for xs k
    using that by (induction xs arbitrary: k) (auto simp: note_labels)
  show ?thesis
    unfolding prep_publish_def Let_def using m
    by (intro fold) (auto simp: preparation_labels_ok_def zero_outside_zip elim!: in_set_zipE)
qed

lemma prep_count_labels [simp]:
  "preparation_labels_ok (m\<lparr>pm_counts := c\<rparr>) = preparation_labels_ok m"
  "preparation_labels_ok (m\<lparr>pm_queue_wait := n\<rparr>) = preparation_labels_ok m"
  "preparation_labels_ok (m\<lparr>pm_compilation_overrun := n\<rparr>) = preparation_labels_ok m"
  "preparation_labels_ok (prep_increment k m) = preparation_labels_ok m"
  by (simp_all add: preparation_labels_ok_def prep_increment_def)

lemma error_labels [simp]:
  "state \<in> set PREP_WORK_STATES \<Longrightarrow> preparation_labels_ok m \<Longrightarrow> preparation_labels_ok (accounting_error state m)"
  by (simp add: preparation_labels_ok_def accounting_error_def)

lemma prep_states_mem [simp]:
  "k < 5 \<Longrightarrow> PREP_WORK_STATES ! k \<in> set PREP_WORK_STATES" "''compiling'' \<in> set PREP_WORK_STATES" "''queued'' \<in> set PREP_WORK_STATES"
  "k < 4 \<Longrightarrow> PREP_CAPACITIES ! k \<in> set PREP_CAPACITIES" "prep_label u \<in> set PREP_OUTCOMES" "work_index w < 5"
proof -
  show "k < 5 \<Longrightarrow> PREP_WORK_STATES ! k \<in> set PREP_WORK_STATES" by (rule nth_mem) (simp add: PREP_WORK_STATES_def)
  show "k < 4 \<Longrightarrow> PREP_CAPACITIES ! k \<in> set PREP_CAPACITIES" by (rule nth_mem) (simp add: PREP_CAPACITIES_def)
  show "''compiling'' \<in> set PREP_WORK_STATES" "''queued'' \<in> set PREP_WORK_STATES" by (simp_all add: PREP_WORK_STATES_def)
  show "prep_label u \<in> set PREP_OUTCOMES" by (cases u) (simp_all add: PREP_OUTCOMES_def)
  show "work_index w < 5" by (cases w) simp_all
qed

lemma prep_decrement_labels [simp]:
  "k < 5 \<Longrightarrow> preparation_labels_ok m \<Longrightarrow> preparation_labels_ok (prep_decrement k m)"
  "preparation_labels_ok m \<Longrightarrow> preparation_labels_ok (prep_decrement_compiling m)"
  by (auto simp: prep_decrement_def prep_decrement_compiling_def split: option.splits)

lemma prep_capacity_labels [simp]:
  "k < 4 \<Longrightarrow> preparation_labels_ok m \<Longrightarrow> preparation_labels_ok (prep_record_capacity k m)"
  using prep_states_mem(4) [of k] by (auto simp: prep_record_capacity_def preparation_labels_ok_def)

lemma transition_labels [simp]: "preparation_labels_ok m \<Longrightarrow> preparation_labels_ok (prep_transition v w m)"
  by (simp add: prep_transition_def Let_def)

lemma submission_labels:
  "prep_submission m = (b, m') \<Longrightarrow> preparation_labels_ok m \<Longrightarrow> preparation_labels_ok m' \<and> sub_outcome b \<in> set SUBMISSION_OUTCOMES"
  "sub_outcome b \<in> set SUBMISSION_OUTCOMES \<Longrightarrow> preparation_labels_ok m \<Longrightarrow> preparation_labels_ok (submission_complete b m)"
proof -
  show "prep_submission m = (b, m') \<Longrightarrow> preparation_labels_ok m \<Longrightarrow> preparation_labels_ok m' \<and> sub_outcome b \<in> set SUBMISSION_OUTCOMES"
    by (auto simp: prep_submission_def SUBMISSION_OUTCOMES_def)
  show "preparation_labels_ok (submission_complete b m)" if "sub_outcome b \<in> set SUBMISSION_OUTCOMES" "preparation_labels_ok m"
    using that prep_decrement_labels(1) [of 0 m] by (simp add: submission_complete_def Let_def preparation_labels_ok_def)
qed

lemma submission_outcomes:
  "''admitted'' \<in> set SUBMISSION_OUTCOMES" "''timeout'' \<in> set SUBMISSION_OUTCOMES" "''closed'' \<in> set SUBMISSION_OUTCOMES"
  by (simp_all add: SUBMISSION_OUTCOMES_def)

lemma submission_end_labels:
  assumes "preparation_labels_ok m"
  shows "submission_admitted b m = (p, m') \<Longrightarrow> preparation_labels_ok m'"
    and "preparation_labels_ok (submission_timed_out b m)" "preparation_labels_ok (submission_closed b m)"
    and "sub_outcome b \<in> set SUBMISSION_OUTCOMES \<Longrightarrow> preparation_labels_ok (submission_drop b m)"
  using assms submission_outcomes
  by (auto simp: submission_admitted_def submission_timed_out_def submission_closed_def submission_drop_def Let_def
      submission_labels)

lemma compiled_labels:
  assumes "control_compilation_finished u (p, m) = (p', m')" "preparation_labels_ok m"
  shows "preparation_labels_ok m'"
proof -
  have "preparation_labels_ok (m\<lparr>pm_compilation_duration := n, pm_compilation_finished := inc_label (prep_label v) c\<rparr>)"
    if "zero_outside PREP_OUTCOMES c" for n v c
    using assms(2) that by (simp add: preparation_labels_ok_def)
  moreover have "zero_outside PREP_OUTCOMES (pm_compilation_finished m)" using assms(2) by (simp add: preparation_labels_ok_def)
  ultimately show ?thesis
    using assms by (auto simp: control_compilation_finished_def Let_def split: option.splits if_splits)
qed

lemma drop_labels:
  assumes "prep_drop panicking (p, m) = (p', m')" "preparation_labels_ok m"
  shows "preparation_labels_ok m'"
proof (cases "ps_stage p")
  case (Some stage)
  define u where "u = (case ps_cancellation p of Some u \<Rightarrow> u | None \<Rightarrow> if panicking then PrepPanic else ps_outcome p)"
  obtain p1 m1 where c: "(if ps_compilation_started_at p \<noteq> None then control_compilation_finished u (p, m) else (p, m)) = (p1, m1)"
    by fastforce
  have "preparation_labels_ok m1" using c assms(2) compiled_labels by (auto split: if_splits)
  then have k: "preparation_labels_ok (prep_publish (prep_decrement (work_index stage)
      (if stage = Queued then m1\<lparr>pm_queue_wait := Suc (pm_queue_wait m1)\<rparr> else m1)))" (is "preparation_labels_ok ?k") by simp
  have "m' = ?k\<lparr>pm_finished := inc_label (prep_label u) (pm_finished ?k)\<rparr>"
    using assms(1) unfolding prep_drop_def prod.case Some option.case Let_def u_def [symmetric] c by simp
  then show ?thesis using k by (simp add: preparation_labels_ok_def)
qed (use assms in \<open>simp add: prep_drop_def\<close>)

lemma work_labels:
  assumes "preparation_labels_ok m"
  shows "prep_terminate u at (p, m) = (p', m') \<Longrightarrow> preparation_labels_ok m'"
    and "prep_activate (p, m) = (p', m') \<Longrightarrow> preparation_labels_ok m'"
    and "prep_compiling now (p, m) = (p', m') \<Longrightarrow> preparation_labels_ok m'"
    and "prep_compilation_finished u (p, m) = (p', m') \<Longrightarrow> preparation_labels_ok m'"
proof -
  show "prep_terminate u at (p, m) = (p', m') \<Longrightarrow> preparation_labels_ok m'"
    using assms by (auto simp: prep_terminate_def Let_def split: option.splits if_splits)
  show "prep_activate (p, m) = (p', m') \<Longrightarrow> preparation_labels_ok m'"
    using assms by (auto simp: prep_activate_def split: if_splits)
  show "prep_compiling now (p, m) = (p', m') \<Longrightarrow> preparation_labels_ok m'"
    using assms by (auto simp: prep_compiling_def Let_def split: if_splits)
  show "prep_compilation_finished u (p, m) = (p', m') \<Longrightarrow> preparation_labels_ok m'"
    using assms by (auto simp: prep_compilation_finished_def split: prod.splits if_splits dest!: compiled_labels)
qed

subsection \<open>The invariant\<close>

definition label_inv :: "label_state \<Rightarrow> bool" where
  "label_inv s \<longleftrightarrow> dispatch_labels_ok (ls_dispatch s) \<and> preparation_labels_ok (ls_prep s)
     \<and> (\<forall>q \<in># ls_queued s. queued_outcome q \<in> set QUEUE_OUTCOMES)
     \<and> (\<forall>t \<in># ls_tasks s. task_outcome t \<in> set OUTCOMES)
     \<and> (\<forall>b \<in># ls_submissions s. sub_outcome b \<in> set SUBMISSION_OUTCOMES)"

lemma label_init_inv: "label_init rl al s \<Longrightarrow> label_inv s"
  by (simp add: label_init_def label_inv_def dispatch_labels_ok_def preparation_labels_ok_def dispatch_new_def prep_new_def
      Let_def zero_outside_zip)

lemma dispatch_step_labels: "dispatch_label_step s s' \<Longrightarrow> label_inv s \<Longrightarrow> label_inv s'"
  by (induction rule: dispatch_label_step.induct)
    (auto simp: label_inv_def queued_labels(2,3) task_labels(2-4) execution_labels(3-5)
      dest: queued_labels(1) task_labels(1) execution_labels(1,2))

lemma prep_step_labels: "prep_label_step s s' \<Longrightarrow> label_inv s \<Longrightarrow> label_inv s'"
  by (induction rule: prep_label_step.induct)
    (auto simp: label_inv_def submission_end_labels
      dest: submission_labels(1) submission_end_labels(1) work_labels compiled_labels drop_labels)

interpretation label_system: invariant_system "label_init rl al" label_step label_inv for rl al
  by unfold_locales (auto simp: label_step_def intro: label_init_inv dispatch_step_labels prep_step_labels)

section \<open>Properties\<close>

text \<open>Every vector that is zero outside its labels has values in the series created at the start only.\<close>

definition within_series :: "(string \<times> string) list \<Rightarrow> (string \<times> (string \<Rightarrow> int)) list \<Rightarrow> bool" where
  "within_series series vs \<longleftrightarrow> list_all (\<lambda>(name, f). \<forall>l. f l \<noteq> 0 \<longrightarrow> (name, l) \<in> set series) vs"

lemma zero_outside_int: "zero_outside ls (int \<circ> g) = zero_outside ls g"
  by (simp add: zero_outside_def)

lemma series_cover:
  "zero_outside ls f \<Longrightarrow> (\<And>l. l \<in> set ls \<Longrightarrow> (name, l) \<in> set series) \<Longrightarrow> \<forall>l. f l \<noteq> 0 \<longrightarrow> (name, l) \<in> set series"
  unfolding zero_outside_def by blast

lemmas series_cover_int = series_cover [where f = "int \<circ> g" for g, unfolded zero_outside_int]

lemma dispatch_series_mem:
  "l \<in> set WORK_STATES \<Longrightarrow> (''wasm_host_dispatch_work'', l) \<in> set dispatch_series"
  "l \<in> set WORK_STATES \<Longrightarrow> (''wasm_host_dispatch_accounting_errors_total'', l) \<in> set dispatch_series"
  "l \<in> set CAPACITIES \<Longrightarrow> (''wasm_host_dispatch_limit'', l) \<in> set dispatch_series"
  "l \<in> set CAPACITIES \<Longrightarrow> (''wasm_host_dispatch_high_water'', l) \<in> set dispatch_series"
  "l \<in> set CAPACITIES \<Longrightarrow> (''wasm_host_dispatch_capacity_breaches_total'', l) \<in> set dispatch_series"
  "l \<in> set OUTCOMES \<Longrightarrow> (''wasm_host_dispatch_tasks_finished_total'', l) \<in> set dispatch_series"
  "l \<in> set [''ok'', ''panic'', ''cancelled'', ''other''] \<Longrightarrow> (''wasm_host_dispatch_tasks_reaped_total'', l) \<in> set dispatch_series"
  "l \<in> set QUEUE_OUTCOMES \<Longrightarrow> (''wasm_host_dispatch_queue_exits_total'', l) \<in> set dispatch_series"
  by (simp_all add: dispatch_series_def image_iff)

lemma preparation_series_mem:
  "l \<in> set PREP_WORK_STATES \<Longrightarrow> (''wasm_host_preparation_work'', l) \<in> set preparation_series"
  "l \<in> set PREP_WORK_STATES \<Longrightarrow> (''wasm_host_preparation_accounting_errors_total'', l) \<in> set preparation_series"
  "l \<in> set PREP_CAPACITIES \<Longrightarrow> (''wasm_host_preparation_limit'', l) \<in> set preparation_series"
  "l \<in> set PREP_CAPACITIES \<Longrightarrow> (''wasm_host_preparation_occupancy'', l) \<in> set preparation_series"
  "l \<in> set PREP_CAPACITIES \<Longrightarrow> (''wasm_host_preparation_high_water'', l) \<in> set preparation_series"
  "l \<in> set PREP_CAPACITIES \<Longrightarrow> (''wasm_host_preparation_capacity_breaches_total'', l) \<in> set preparation_series"
  "l \<in> set SUBMISSION_OUTCOMES \<Longrightarrow> (''wasm_host_preparation_submissions_total'', l) \<in> set preparation_series"
  "l \<in> set PREP_OUTCOMES \<Longrightarrow> (''wasm_host_preparation_finished_total'', l) \<in> set preparation_series"
  "l \<in> set PREP_OUTCOMES \<Longrightarrow> (''wasm_host_preparation_compilation_finished_total'', l) \<in> set preparation_series"
  by (simp_all add: preparation_series_def image_iff)

lemma dispatch_within: "dispatch_labels_ok m \<Longrightarrow> within_series dispatch_series (dispatch_vectors m)"
  unfolding within_series_def dispatch_vectors_def dispatch_labels_ok_def list.pred_inject prod.case
  by (elim conjE, intro conjI list.pred_inject(1)) (rule series_cover series_cover_int, assumption, erule dispatch_series_mem)+

lemma preparation_within: "preparation_labels_ok m \<Longrightarrow> within_series preparation_series (preparation_vectors m)"
  unfolding within_series_def preparation_vectors_def preparation_labels_ok_def list.pred_inject prod.case
  by (elim conjE, intro conjI list.pred_inject(1)) (rule series_cover series_cover_int, assumption, erule preparation_series_mem)+

lemma series_lengths: "length dispatch_series = 37" "length preparation_series = 40"
  by (simp_all add: dispatch_series_def preparation_series_def WORK_STATES_def CAPACITIES_def OUTCOMES_def QUEUE_OUTCOMES_def
    PREP_WORK_STATES_def PREP_CAPACITIES_def SUBMISSION_OUTCOMES_def PREP_OUTCOMES_def)

text \<open>
  C22 (bounds). The execution host reports its own work under fixed labels. Whatever messages, tasks,
  executions, submissions and preparations come and go, with whatever outcomes the code sets on them, every
  vector of the dispatch and of the preparation metrics has values other than zero only in the series that
  were created at the start, 37 and 40 in number.
\<close>

theorem host_series_fixed:
  assumes "reaches (label_init rl al) label_step s"
  shows "within_series dispatch_series (dispatch_vectors (ls_dispatch s))
    \<and> within_series preparation_series (preparation_vectors (ls_prep s))
    \<and> length dispatch_series = 37 \<and> length preparation_series = 40"
proof -
  have "label_inv s" using assms by (rule label_system.inv_reaches)
  then show ?thesis using series_lengths by (simp add: label_inv_def dispatch_within preparation_within)
qed

definition sample_labels :: label_state where
  "sample_labels = \<lparr>ls_dispatch = task_drop True \<lparr>task_outcome = ''cancelled''\<rparr> (snd (task_started dispatch_new)), ls_queued = {#},
     ls_tasks = {#}, ls_prep = prep_new 17 1, ls_submissions = {#}\<rparr>"

lemma sample_labels_reached: "reaches (label_init 17 1) label_step sample_labels"
proof -
  define s0 where "s0 = \<lparr>ls_dispatch = dispatch_new, ls_queued = {#}, ls_tasks = {#}, ls_prep = prep_new 17 1, ls_submissions = {#}\<rparr>"
  define s1 where "s1 = s0\<lparr>ls_dispatch := snd (task_started dispatch_new), ls_tasks := {#\<lparr>task_outcome = ''cancelled''\<rparr>#}\<rparr>"
  have "reaches (label_init 17 1) label_step s0" by (rule reaches_init) (simp add: label_init_def s0_def)
  moreover have "label_step s0 s1"
    using dl_task [of s0 "\<lparr>task_outcome = ''cancelled''\<rparr>" "snd (task_started dispatch_new)"]
    by (simp add: label_step_def s0_def s1_def task_started_def Let_def)
  moreover have "label_step s1 sample_labels"
    using dl_task_drop [of s1 "\<lparr>task_outcome = ''cancelled''\<rparr>" "{#}" True]
    by (simp add: label_step_def s0_def s1_def sample_labels_def)
  ultimately show ?thesis by (blast intro: reaches_step)
qed

theorem host_series_fixed_witness:
  "finished_total (ls_dispatch sample_labels) ''panic'' = 1
   \<and> (''wasm_host_dispatch_tasks_finished_total'', ''panic'') \<in> set dispatch_series"
proof -
  have f: "finished_total (ls_dispatch sample_labels) ''panic'' = 1"
    by (simp add: sample_labels_def task_drop_def task_started_def dispatch_new_def inc_label_def publish_counts_def
        record_capacity_def Let_def)
  then show ?thesis
    using host_series_fixed [OF sample_labels_reached]
    by (simp add: within_series_def dispatch_vectors_def)
qed


definition greedy_apps :: "(string \<times> string \<times> metric_definition list) list" where
  "greedy_apps = [(''prod'', ''shop'', [\<lparr>md_name = ''wasm_host_dispatch_draining'', md_type = 1, md_label_keys = []\<rparr>])]"


section \<open>The families of the gateway\<close>

text \<open>
  When the descriptors are accepted, the families collected are those described, in the same order and with
  the described labels, and they hold the rows of the snapshot.
\<close>

definition family_rows :: "metric_family \<Rightarrow> (string \<times> string \<times> nat) list" where
  "family_rows f = map (\<lambda>(ls, v). (mf_name f, concat (map snd ls), v)) (mf_metrics f)"

lemma request_families:
  assumes "request_collector_new check = Inr c"
  shows "map mf_name (request_collect sem g c) = map ds_name (request_desc c)"
    and "list_all2 (\<lambda>f d. list_all (\<lambda>(ls, _). map fst ls = ds_labels d) (mf_metrics f)) (request_collect sem g c) (request_desc c)"
    and "concat (map family_rows (request_collect sem g c)) = gateway_metric_rows sem g"
    and "distinct (map ds_name (request_desc c))"
proof -
  have c: "ds_name (rc_work c) = ''wasm_gateway_work''" "ds_name (rc_limit c) = ''wasm_gateway_limit''"
    "ds_name (rc_high_water c) = ''wasm_gateway_high_water''" "ds_name (rc_rejected c) = ''wasm_gateway_requests_rejected_total''"
    "ds_name (rc_completed c) = ''wasm_gateway_requests_completed_total''"
    "ds_name (rc_cancelled c) = ''wasm_gateway_requests_cancelled_total''"
    "ds_labels (rc_work c) = [''pool'']" "ds_labels (rc_limit c) = [''pool'']" "ds_labels (rc_high_water c) = [''pool'']"
    "ds_labels (rc_rejected c) = []" "ds_labels (rc_completed c) = []" "ds_labels (rc_cancelled c) = []"
    using assms by (auto simp: request_collector_new_def descriptor_def Let_def split: sum.splits)
  show "map mf_name (request_collect sem g c) = map ds_name (request_desc c)"
    "list_all2 (\<lambda>f d. list_all (\<lambda>(ls, _). map fst ls = ds_labels d) (mf_metrics f)) (request_collect sem g c) (request_desc c)"
    by (simp_all add: request_collect_def request_desc_def gauges_def counter_def family_def Let_def c)
  show "concat (map family_rows (request_collect sem g c)) = gateway_metric_rows sem g"
    by (simp add: request_collect_def gateway_metric_rows_def gauges_def counter_def family_def family_rows_def Let_def c)
  show "distinct (map ds_name (request_desc c))" by (simp add: request_desc_def c)
qed

end
