(* ===== verification/HostIntake.thy ===== *)
theory HostIntake
  imports Prelude
begin

text \<open>
  How messages get into the execution host. \<open>run_nats_manager\<close> of
  \<open>src/lib/platform-common/src/nats_client.rs\<close> keeps a client connected with the credentials it was last
  given; \<open>manage_nats_subscriptions\<close> of \<open>src/components/execution-host/src/nats.rs\<close> keeps the
  subscriptions in step with that client and with the topics of the configuration; \<open>health.rs\<close> answers
  from both. The tasks share watch channels. Each is cut at its waits, and \<open>intake_step\<close> interleaves
  them with the senders of credentials and topics. Connecting and subscribing answer as the NATS package
  does; a client is a number. The messages taken go to the queue of \<open>InvocationSupervisor\<close>.
\<close>

section \<open>Definitions\<close>

subsection \<open>Watch channels\<close>

text \<open>
  \<open>tokio::sync::watch\<close>: the last value sent, with a version; a receiver remembers the version it has
  seen. A change that was not seen is reported before the end of the channel.
\<close>

record 'a watch =
  w_value :: 'a
  w_version :: nat
  w_closed :: bool

definition watch_new :: "'a \<Rightarrow> 'a watch" where
  "watch_new v = \<lparr>w_value = v, w_version = 0, w_closed = False\<rparr>"

definition watch_send :: "'a \<Rightarrow> 'a watch \<Rightarrow> 'a watch" where
  "watch_send v w = w\<lparr>w_value := v, w_version := Suc (w_version w)\<rparr>"

datatype watch_poll = WatchPending | WatchChanged | WatchClosed

definition watch_changed :: "nat \<Rightarrow> 'a watch \<Rightarrow> watch_poll" where
  "watch_changed seen w =
     (if seen \<noteq> w_version w then WatchChanged else if w_closed w then WatchClosed else WatchPending)"

subsection \<open>State\<close>

record nats_connection_info =
  nc_url :: string
  nc_username :: string
  nc_password :: string

datatype manager_phase =
  AwaitInfo | Connecting nats_connection_info | Sleeping | ServingClient nats_connection_info nat | ManagerStopped

datatype subs_phase = ReconcileNow | Subscribing nat "string list" | SubsIdle | SubsEnded

text \<open>
  \<open>in_current\<close>, \<open>in_desired\<close>, \<open>in_missed\<close> and \<open>in_made\<close> are history: what the last reconciliation read,
  the topics whose subscription failed or ended since, and the credentials of each client made.
\<close>

record intake =
  in_conn :: "nats_connection_info option watch"
  in_conn_seen :: nat
  in_manager :: manager_phase
  in_backoff :: nat
  in_client :: "nat option watch"
  in_ready :: bool
  in_topics :: "string list watch"
  in_client_seen :: nat
  in_topics_seen :: nat
  in_subs :: "(string \<times> nat) list"
  in_phase :: subs_phase
  in_current :: "nat option"
  in_desired :: "string list"
  in_missed :: "string list"
  in_made :: "(nat \<times> nats_connection_info) list"

subsection \<open>The connection manager\<close>

definition clear_client :: "intake \<Rightarrow> intake" where
  "clear_client s = s\<lparr>in_ready := False, in_client := watch_send None (in_client s)\<rparr>"

text \<open>The top of the loop, up to the next wait.\<close>

definition manager_top :: "intake \<Rightarrow> intake" where
  "manager_top s =
     (let s = s\<lparr>in_conn_seen := w_version (in_conn s)\<rparr>
      in case w_value (in_conn s) of
           Some info \<Rightarrow> s\<lparr>in_manager := Connecting info\<rparr>
         | None \<Rightarrow> (clear_client s)\<lparr>in_backoff := 1, in_manager := AwaitInfo\<rparr>)"

definition manager_info :: "intake \<Rightarrow> intake" where
  "manager_info s =
     (case watch_changed (in_conn_seen s) (in_conn s) of
        WatchChanged \<Rightarrow> manager_top s
      | WatchClosed \<Rightarrow> s\<lparr>in_manager := ManagerStopped\<rparr>
      | WatchPending \<Rightarrow> s)"

definition manager_connected :: "nats_connection_info \<Rightarrow> (string + nat) \<Rightarrow> intake \<Rightarrow> intake" where
  "manager_connected info outcome s =
     (case outcome of
        Inr client \<Rightarrow>
          s\<lparr>in_backoff := 1, in_ready := True, in_client := watch_send (Some client) (in_client s),
            in_manager := ServingClient info client, in_made := (client, info) # in_made s\<rparr>
      | Inl _ \<Rightarrow> s\<lparr>in_manager := Sleeping\<rparr>)"

definition manager_wakes :: "intake \<Rightarrow> intake" where
  "manager_wakes s = manager_top (s\<lparr>in_backoff := min (in_backoff s * 2) 30\<rparr>)"

text \<open>The selection while a client is served: an authorization violation, or the credentials changed.\<close>

definition manager_auth_error :: "intake \<Rightarrow> intake" where
  "manager_auth_error s = manager_top (clear_client s)"

definition manager_rotated :: "intake \<Rightarrow> intake" where
  "manager_rotated s =
     (case watch_changed (in_conn_seen s) (in_conn s) of
        WatchChanged \<Rightarrow> manager_top (clear_client (s\<lparr>in_conn_seen := w_version (in_conn s)\<rparr>))
      | WatchClosed \<Rightarrow> s\<lparr>in_manager := ManagerStopped\<rparr>
      | WatchPending \<Rightarrow> s)"

subsection \<open>The subscription manager\<close>

definition subs_next :: "nat \<Rightarrow> string list \<Rightarrow> subs_phase" where
  "subs_next client topics = (if topics = [] then SubsIdle else Subscribing client topics)"

text \<open>A set of topics is walked in some order; the order of the list stands for it.\<close>

definition reconcile :: "intake \<Rightarrow> intake" where
  "reconcile s =
     (let client = w_value (in_client s);
          client_changed = (in_client_seen s \<noteq> w_version (in_client s));
          subs = (if client_changed then [] else in_subs s);
          desired = remdups (w_value (in_topics s));
          kept = filter (\<lambda>(topic, _). client \<noteq> None \<and> topic \<in> set desired) subs;
          s = s\<lparr>in_client_seen := w_version (in_client s), in_topics_seen := w_version (in_topics s),
            in_subs := kept, in_current := client, in_desired := desired, in_missed := []\<rparr>
      in case client of
           Some c \<Rightarrow> s\<lparr>in_phase := subs_next c (filter (\<lambda>t. t \<notin> set (map fst kept)) desired)\<rparr>
         | None \<Rightarrow> s\<lparr>in_phase := SubsIdle\<rparr>)"

definition subs_stop :: "intake \<Rightarrow> intake" where
  "subs_stop s = s\<lparr>in_subs := [], in_phase := SubsEnded\<rparr>"

text \<open>
  The two receivers in both selections, which are biased: the client is polled before the topics, and
  both before a subscription or a message. \<open>None\<close> when neither is ready.
\<close>

definition subs_poll :: "intake \<Rightarrow> intake option" where
  "subs_poll s =
     (case watch_changed (in_client_seen s) (in_client s) of
        WatchChanged \<Rightarrow> Some (s\<lparr>in_client_seen := w_version (in_client s), in_subs := [], in_phase := ReconcileNow\<rparr>)
      | WatchClosed \<Rightarrow> Some (subs_stop s)
      | WatchPending \<Rightarrow>
          (case watch_changed (in_topics_seen s) (in_topics s) of
             WatchChanged \<Rightarrow> Some (s\<lparr>in_topics_seen := w_version (in_topics s), in_phase := ReconcileNow\<rparr>)
           | WatchClosed \<Rightarrow> Some (subs_stop s)
           | WatchPending \<Rightarrow> None))"

definition subs_subscribed :: "nat \<Rightarrow> string \<Rightarrow> string list \<Rightarrow> (string + unit) timed \<Rightarrow> intake \<Rightarrow> intake" where
  "subs_subscribed client topic topics outcome s =
     (case outcome of
        Done (Inr _) \<Rightarrow> s\<lparr>in_subs := in_subs s @ [(topic, client)], in_phase := subs_next client topics\<rparr>
      | Done (Inl _) \<Rightarrow> s\<lparr>in_phase := subs_next client topics, in_missed := topic # in_missed s\<rparr>
      | Elapsed \<Rightarrow> s\<lparr>in_phase := subs_next client topics, in_missed := topic # in_missed s\<rparr>)"

text \<open>A stream that ends leaves the selection of streams.\<close>

definition subs_stream_ends :: "string \<Rightarrow> nat \<Rightarrow> intake \<Rightarrow> intake" where
  "subs_stream_ends topic client s =
     s\<lparr>in_subs := filter (\<lambda>x. x \<noteq> (topic, client)) (in_subs s), in_missed := topic # in_missed s\<rparr>"

text \<open>Whether a message of a topic can be taken from a client in this state.\<close>

definition subs_takes :: "string \<Rightarrow> nat \<Rightarrow> intake \<Rightarrow> bool" where
  "subs_takes topic client s \<longleftrightarrow> in_phase s = SubsIdle \<and> subs_poll s = None \<and> (topic, client) \<in> set (in_subs s)"

subsection \<open>Steps\<close>

definition intake_start :: "nats_connection_info option \<Rightarrow> intake" where
  "intake_start conn = manager_top
     \<lparr>in_conn = watch_new conn, in_conn_seen = 0, in_manager = AwaitInfo, in_backoff = 1, in_client = watch_new None,
      in_ready = False, in_topics = watch_new [], in_client_seen = 0, in_topics_seen = 0, in_subs = [],
      in_phase = ReconcileNow, in_current = None, in_desired = [], in_missed = [], in_made = []\<rparr>"

inductive intake_step :: "intake \<Rightarrow> intake \<Rightarrow> bool" where
  conn_sent: "intake_step s (s\<lparr>in_conn := watch_send v (in_conn s)\<rparr>)"
| conn_closed: "intake_step s (s\<lparr>in_conn := (in_conn s)\<lparr>w_closed := True\<rparr>\<rparr>)"
| topics_sent: "intake_step s (s\<lparr>in_topics := watch_send ts (in_topics s)\<rparr>)"
| topics_closed: "intake_step s (s\<lparr>in_topics := (in_topics s)\<lparr>w_closed := True\<rparr>\<rparr>)"
| manager_info: "in_manager s = AwaitInfo \<Longrightarrow> intake_step s (manager_info s)"
| manager_connected: "in_manager s = Connecting info \<Longrightarrow> intake_step s (manager_connected info outcome s)"
| manager_wakes: "in_manager s = Sleeping \<Longrightarrow> intake_step s (manager_wakes s)"
| manager_auth_error: "in_manager s = ServingClient info c \<Longrightarrow> intake_step s (manager_auth_error s)"
| manager_rotated: "in_manager s = ServingClient info c \<Longrightarrow> intake_step s (manager_rotated s)"
| client_closed: "in_manager s = ManagerStopped \<Longrightarrow> intake_step s (s\<lparr>in_client := (in_client s)\<lparr>w_closed := True\<rparr>\<rparr>)"
| subs_reconcile: "in_phase s = ReconcileNow \<Longrightarrow> intake_step s (reconcile s)"
| subs_shutdown: "in_phase s = SubsIdle \<or> in_phase s = Subscribing c ts \<Longrightarrow> intake_step s (subs_stop s)"
| subs_changed: "in_phase s = SubsIdle \<or> in_phase s = Subscribing c ts \<Longrightarrow> subs_poll s = Some s' \<Longrightarrow> intake_step s s'"
| subs_subscribed: "in_phase s = Subscribing c (t # ts) \<Longrightarrow> subs_poll s = None \<Longrightarrow>
    intake_step s (subs_subscribed c t ts outcome s)"
| subs_stream_ends: "in_phase s = SubsIdle \<Longrightarrow> subs_poll s = None \<Longrightarrow> (t, c) \<in> set (in_subs s) \<Longrightarrow>
    intake_step s (subs_stream_ends t c s)"

subsection \<open>Readiness\<close>

definition healthz_handler :: string where
  "healthz_handler = ''OK''"

definition readyz_handler :: "bool \<Rightarrow> bool \<Rightarrow> status \<times> string" where
  "readyz_handler nats_ready synced =
     (if nats_ready \<and> synced then (st_OK, ''ready'') else (st_SERVICE_UNAVAILABLE, ''not ready''))"

text \<open>
  \<open>watch_readiness\<close> over the values that its receivers see: an event is a new value of the one flag or
  the other. The lines it writes are the transitions.
\<close>

datatype readiness_event = NatsSeen bool | SyncedSeen bool

datatype readiness_log = NatsLog bool | SyncedLog bool | ReadinessLog bool

record readiness =
  prev_nats :: bool
  prev_synced :: bool
  was_ready :: bool

definition readiness_start :: "bool \<Rightarrow> bool \<Rightarrow> readiness" where
  "readiness_start nats synced = \<lparr>prev_nats = nats, prev_synced = synced, was_ready = (nats \<and> synced)\<rparr>"

definition readiness_step :: "readiness_event \<Rightarrow> readiness \<Rightarrow> readiness_log list \<times> readiness" where
  "readiness_step ev r =
     (let (lines, r) =
            (case ev of
               NatsSeen b \<Rightarrow> if b \<noteq> prev_nats r then ([NatsLog b], r\<lparr>prev_nats := b\<rparr>) else ([], r)
             | SyncedSeen b \<Rightarrow> if b \<noteq> prev_synced r then ([SyncedLog b], r\<lparr>prev_synced := b\<rparr>) else ([], r));
          is_ready = (prev_nats r \<and> prev_synced r)
      in if is_ready \<noteq> was_ready r then (lines @ [ReadinessLog is_ready], r\<lparr>was_ready := is_ready\<rparr>) else (lines, r))"

fun readiness_run :: "readiness_event list \<Rightarrow> readiness \<Rightarrow> readiness_log list \<times> readiness" where
  "readiness_run [] r = ([], r)"
| "readiness_run (ev # evs) r =
     (case readiness_step ev r of (lines, r) \<Rightarrow> apfst ((@) lines) (readiness_run evs r))"

section \<open>The client is the one of the credentials last read\<close>

definition manager_ok :: "intake \<Rightarrow> bool" where
  "manager_ok s \<longleftrightarrow>
     1 \<le> in_backoff s \<and> in_backoff s \<le> 30 \<and> in_conn_seen s \<le> w_version (in_conn s)
     \<and> (in_ready s \<longleftrightarrow> w_value (in_client s) \<noteq> None)
     \<and> (\<forall>c. w_value (in_client s) = Some c \<longrightarrow>
          (\<exists>info. in_manager s = ServingClient info c \<and> (c, info) \<in> set (in_made s))
          \<or> in_manager s = ManagerStopped \<and> c \<in> fst ` set (in_made s))
     \<and> (\<forall>info c. in_manager s = ServingClient info c \<longrightarrow> w_value (in_client s) = Some c)
     \<and> (in_conn_seen s = w_version (in_conn s) \<longrightarrow>
          (in_manager s = AwaitInfo \<longrightarrow> w_value (in_conn s) = None)
          \<and> (\<forall>info. in_manager s = Connecting info \<longrightarrow> w_value (in_conn s) = Some info)
          \<and> (\<forall>info c. in_manager s = ServingClient info c \<longrightarrow> w_value (in_conn s) = Some info))"

lemmas watch_simps [simp] = watch_send_def watch_new_def

lemma manager_top_ok:
  assumes "1 \<le> in_backoff s" "in_backoff s \<le> 30" "w_value (in_client s) = None" "\<not> in_ready s"
  shows "manager_ok (manager_top s)"
  using assms by (simp add: manager_ok_def manager_top_def clear_client_def Let_def split: option.split)

lemma manager_idle_client:
  assumes "manager_ok s" "in_manager s = AwaitInfo \<or> in_manager s = Sleeping \<or> in_manager s = Connecting info"
  shows "w_value (in_client s) = None" "\<not> in_ready s"
proof -
  show "w_value (in_client s) = None"
  proof (rule ccontr)
    assume "w_value (in_client s) \<noteq> None"
    then obtain c where "w_value (in_client s) = Some c" by blast
    with assms show False unfolding manager_ok_def by (metis manager_phase.distinct)
  qed
  with assms(1) show "\<not> in_ready s" by (simp add: manager_ok_def)
qed

lemma manager_okD:
  assumes "manager_ok s"
  shows "w_value (in_client s) = Some c \<Longrightarrow> c \<in> fst ` set (in_made s)"
    "in_manager s = ServingClient info c \<Longrightarrow> w_value (in_client s) = Some c"
    "in_manager s = ServingClient info c \<Longrightarrow> (c, info) \<in> set (in_made s)"
    "in_manager s = ServingClient info c \<Longrightarrow> in_conn_seen s = w_version (in_conn s) \<Longrightarrow> w_value (in_conn s) = Some info"
proof -
  have made: "(\<exists>info. in_manager s = ServingClient info c \<and> (c, info) \<in> set (in_made s))
      \<or> in_manager s = ManagerStopped \<and> c \<in> fst ` set (in_made s)" if "w_value (in_client s) = Some c" for c
    using assms that unfolding manager_ok_def by blast
  have served: "w_value (in_client s) = Some c" if "in_manager s = ServingClient info c" for info c
    using assms that unfolding manager_ok_def by blast
  show "w_value (in_client s) = Some c \<Longrightarrow> c \<in> fst ` set (in_made s)" by (drule made) force
  show "in_manager s = ServingClient info c \<Longrightarrow> w_value (in_client s) = Some c" by (rule served)
  show "(c, info) \<in> set (in_made s)" if "in_manager s = ServingClient info c"
    using made [OF served [OF that]] that by auto
  show "in_manager s = ServingClient info c \<Longrightarrow> in_conn_seen s = w_version (in_conn s) \<Longrightarrow> w_value (in_conn s) = Some info"
    using assms unfolding manager_ok_def by blast
qed

lemma manager_ok_frame:
  assumes "manager_ok s" "in_backoff s' = in_backoff s" "in_conn s' = in_conn s" "in_conn_seen s' = in_conn_seen s"
    "in_manager s' = in_manager s" "in_ready s' = in_ready s" "w_value (in_client s') = w_value (in_client s)" "in_made s' = in_made s"
  shows "manager_ok s'"
  using assms(1) unfolding manager_ok_def assms(2-) .

lemma subs_poll_frame:
  assumes "subs_poll s = Some s'"
  shows "in_backoff s' = in_backoff s" "in_conn s' = in_conn s" "in_conn_seen s' = in_conn_seen s"
    "in_manager s' = in_manager s" "in_ready s' = in_ready s" "in_client s' = in_client s" "in_made s' = in_made s"
  using assms by (auto simp: subs_poll_def subs_stop_def split: watch_poll.splits)

lemma reconcile_frame [simp]:
  "in_backoff (reconcile s) = in_backoff s"
  "in_conn (reconcile s) = in_conn s"
  "in_conn_seen (reconcile s) = in_conn_seen s"
  "in_manager (reconcile s) = in_manager s"
  "in_ready (reconcile s) = in_ready s"
  "in_client (reconcile s) = in_client s"
  "in_made (reconcile s) = in_made s"
  by (simp_all add: reconcile_def Let_def split: option.split timed.split sum.split)

lemma subs_stop_frame [simp]:
  "in_backoff (subs_stop s) = in_backoff s"
  "in_conn (subs_stop s) = in_conn s"
  "in_conn_seen (subs_stop s) = in_conn_seen s"
  "in_manager (subs_stop s) = in_manager s"
  "in_ready (subs_stop s) = in_ready s"
  "in_client (subs_stop s) = in_client s"
  "in_made (subs_stop s) = in_made s"
  by (simp_all add: subs_stop_def Let_def split: option.split timed.split sum.split)

lemma subs_subscribed_frame [simp]:
  "in_backoff (subs_subscribed c t ts outcome s) = in_backoff s"
  "in_conn (subs_subscribed c t ts outcome s) = in_conn s"
  "in_conn_seen (subs_subscribed c t ts outcome s) = in_conn_seen s"
  "in_manager (subs_subscribed c t ts outcome s) = in_manager s"
  "in_ready (subs_subscribed c t ts outcome s) = in_ready s"
  "in_client (subs_subscribed c t ts outcome s) = in_client s"
  "in_made (subs_subscribed c t ts outcome s) = in_made s"
  by (simp_all add: subs_subscribed_def Let_def split: option.split timed.split sum.split)

lemma subs_stream_frame [simp]:
  "in_backoff (subs_stream_ends t c s) = in_backoff s"
  "in_conn (subs_stream_ends t c s) = in_conn s"
  "in_conn_seen (subs_stream_ends t c s) = in_conn_seen s"
  "in_manager (subs_stream_ends t c s) = in_manager s"
  "in_ready (subs_stream_ends t c s) = in_ready s"
  "in_client (subs_stream_ends t c s) = in_client s"
  "in_made (subs_stream_ends t c s) = in_made s"
  by (simp_all add: subs_stream_ends_def Let_def split: option.split timed.split sum.split)

lemma manager_connected_ok:
  assumes "manager_ok s" "in_manager s = Connecting info"
  shows "manager_ok (manager_connected info outcome s)"
proof -
  have "w_value (in_client s) = None" "\<not> in_ready s" by (rule manager_idle_client [OF assms(1) disjI2 [OF disjI2 [OF assms(2)]]])+
  with assms show ?thesis by (cases outcome) (simp_all add: manager_ok_def manager_connected_def)
qed

lemma manager_step_ok:
  assumes "manager_ok s" "intake_step s s'"
  shows "manager_ok s'"
  using assms(2)
proof cases
  case (conn_sent v)
  moreover have "in_conn_seen s \<noteq> Suc (w_version (in_conn s))" using assms(1) by (simp add: manager_ok_def)
  ultimately show ?thesis using assms(1) by (simp add: manager_ok_def)
next
  case conn_closed
  then show ?thesis using assms(1) by (simp add: manager_ok_def)
next
  case manager_info
  have idle: "w_value (in_client s) = None" "\<not> in_ready s" by (rule manager_idle_client [OF assms(1) disjI1 [OF manager_info(2)]])+
  have "manager_ok (manager_top s)" using assms(1) idle by (intro manager_top_ok) (auto simp: manager_ok_def)
  moreover have "manager_ok (s\<lparr>in_manager := ManagerStopped\<rparr>)" using assms(1) idle by (simp add: manager_ok_def)
  ultimately show ?thesis using manager_info assms(1) by (simp add: manager_info_def split: watch_poll.split)
next
  case (manager_connected info outcome)
  then show ?thesis using manager_connected_ok assms(1) by simp
next
  case manager_wakes
  have "w_value (in_client s) = None" "\<not> in_ready s" by (rule manager_idle_client [OF assms(1) disjI2 [OF disjI1 [OF manager_wakes(2)]]])+
  with assms(1) show ?thesis unfolding manager_wakes(1) manager_wakes_def
    by - (rule manager_top_ok, auto simp: manager_ok_def)
next
  case (manager_auth_error info c)
  from assms(1) show ?thesis unfolding manager_auth_error(1) manager_auth_error_def
    by - (rule manager_top_ok, auto simp: manager_ok_def clear_client_def)
next
  case (manager_rotated info c)
  have "manager_ok (manager_top (clear_client (s\<lparr>in_conn_seen := w_version (in_conn s)\<rparr>)))"
    using assms(1) by (intro manager_top_ok) (auto simp: manager_ok_def clear_client_def)
  moreover have "manager_ok (s\<lparr>in_manager := ManagerStopped\<rparr>)"
    using assms(1) manager_okD [OF assms(1), where c = c] manager_rotated(2) by (auto simp: manager_ok_def)
  ultimately show ?thesis using manager_rotated assms(1) by (simp add: manager_rotated_def split: watch_poll.split)
next
  case client_closed
  then show ?thesis by (intro manager_ok_frame [OF assms(1)]) simp_all
next
  case (subs_changed c ts)
  then show ?thesis by (intro manager_ok_frame [OF assms(1)]) (simp_all add: subs_poll_frame)
qed (intro manager_ok_frame [OF assms(1)]; simp)+


section \<open>The subscriptions follow client and topics\<close>

definition subs_own :: "intake \<Rightarrow> bool" where
  "subs_own s \<longleftrightarrow>
     distinct (map fst (in_subs s))
     \<and> (\<forall>t c. (t, c) \<in> set (in_subs s) \<longrightarrow> in_current s = Some c \<and> t \<in> set (in_desired s))
     \<and> (\<forall>c ts. in_phase s = Subscribing c ts \<longrightarrow> in_current s = Some c \<and> distinct ts \<and> set ts \<inter> fst ` set (in_subs s) = {}
          \<and> set (in_desired s) = fst ` set (in_subs s) \<union> set ts \<union> set (in_missed s))
     \<and> (in_phase s = SubsIdle \<and> in_current s \<noteq> None \<longrightarrow> set (in_desired s) = fst ` set (in_subs s) \<union> set (in_missed s))
     \<and> (in_phase s = SubsEnded \<longrightarrow> in_subs s = [])"

definition subs_read :: "intake \<Rightarrow> bool" where
  "subs_read s \<longleftrightarrow>
     in_client_seen s \<le> w_version (in_client s) \<and> in_topics_seen s \<le> w_version (in_topics s)
     \<and> (in_phase s = ReconcileNow \<and> in_client_seen s = w_version (in_client s) \<longrightarrow> in_subs s = [] \<or> in_current s = w_value (in_client s))
     \<and> (in_phase s \<noteq> ReconcileNow \<and> in_phase s \<noteq> SubsEnded \<longrightarrow>
          (in_client_seen s = w_version (in_client s) \<longrightarrow> in_current s = w_value (in_client s))
          \<and> (in_topics_seen s = w_version (in_topics s) \<longrightarrow> in_desired s = remdups (w_value (in_topics s))))"

definition subs_ok :: "intake \<Rightarrow> bool" where
  "subs_ok s \<longleftrightarrow> subs_own s \<and> subs_read s"

lemmas subs_defs = subs_ok_def subs_own_def subs_read_def

text \<open>What the subscription manager does not see of a step: everything but its own fields and newer versions.\<close>

lemma subs_ok_frame:
  assumes "subs_ok s" "in_subs s' = in_subs s" "in_phase s' = in_phase s" "in_current s' = in_current s" "in_desired s' = in_desired s"
    "in_missed s' = in_missed s" "in_client_seen s' = in_client_seen s" "in_topics_seen s' = in_topics_seen s"
    and client: "w_version (in_client s) < w_version (in_client s')
      \<or> w_version (in_client s') = w_version (in_client s) \<and> w_value (in_client s') = w_value (in_client s)"
    and topics: "w_version (in_topics s) < w_version (in_topics s')
      \<or> w_version (in_topics s') = w_version (in_topics s) \<and> w_value (in_topics s') = w_value (in_topics s)"
  shows "subs_ok s'"
proof -
  have own: "subs_own s'" using assms(1) unfolding subs_ok_def subs_own_def assms(2-8) by blast
  have "subs_read s" using assms(1) by (simp add: subs_ok_def)
  then have "subs_read s'" using client topics unfolding subs_read_def assms(2-8) by auto
  with own show ?thesis by (simp add: subs_ok_def)
qed

lemma manager_top_client:
  "w_version (in_client s) < w_version (in_client (manager_top s)) \<or> in_client (manager_top s) = in_client s"
  by (simp add: manager_top_def clear_client_def Let_def split: option.split)

lemma manager_top_subs [simp]:
  "in_subs (manager_top s) = in_subs s" "in_phase (manager_top s) = in_phase s" "in_current (manager_top s) = in_current s"
  "in_desired (manager_top s) = in_desired s" "in_missed (manager_top s) = in_missed s"
  "in_client_seen (manager_top s) = in_client_seen s" "in_topics_seen (manager_top s) = in_topics_seen s"
  "in_topics (manager_top s) = in_topics s"
  by (simp_all add: manager_top_def clear_client_def Let_def split: option.split)

lemma manager_top_subs_ok:
  assumes "subs_ok s"
  shows "subs_ok (manager_top s)"
  by (rule subs_ok_frame [OF assms]) (insert manager_top_client [of s], auto)

lemma reconcile_ok:
  assumes "subs_ok s" "in_phase s = ReconcileNow"
  shows "subs_ok (reconcile s)"
proof -
  let ?changed = "in_client_seen s \<noteq> w_version (in_client s)"
  let ?subs = "if ?changed then [] else in_subs s"
  have d: "distinct (map fst ?subs)" using assms(1) by (simp add: subs_defs)
  have cur: "w_value (in_client s) = Some c" if "(t, c) \<in> set ?subs" for t c
    using that assms by (auto simp: subs_defs split: if_splits)
  show ?thesis
  proof (cases "w_value (in_client s)")
    case None
    then show ?thesis by (simp add: subs_defs reconcile_def Let_def)
  next
    case (Some c)
    define kept where "kept = filter (\<lambda>x. fst x \<in> set (w_value (in_topics s))) ?subs"
    have k: "distinct (map fst kept)" "\<And>t c'. (t, c') \<in> set kept \<Longrightarrow> c' = c \<and> t \<in> set (w_value (in_topics s))"
      using d cur Some by (auto simp: kept_def distinct_map_filter)
    have r: "reconcile s = s\<lparr>in_client_seen := w_version (in_client s), in_topics_seen := w_version (in_topics s), in_subs := kept,
        in_current := Some c, in_desired := remdups (w_value (in_topics s)), in_missed := [],
        in_phase := subs_next c (filter (\<lambda>t. t \<notin> set (map fst kept)) (remdups (w_value (in_topics s))))\<rparr>"
      using Some by (simp add: reconcile_def kept_def Let_def case_prod_beta)
    have sub: "fst ` set kept \<subseteq> set (w_value (in_topics s))" using k(2) by force
    show ?thesis unfolding r subs_defs subs_next_def using k sub Some
      by (auto simp: filter_empty_conv)
  qed
qed

lemma subs_poll_ok:
  assumes "subs_ok s" "subs_poll s = Some s'" "in_phase s = SubsIdle \<or> in_phase s = Subscribing c ts"
  shows "subs_ok s'"
  using assms(2)
proof (cases "in_client_seen s = w_version (in_client s)")
  case False
  then have s': "s' = s\<lparr>in_client_seen := w_version (in_client s), in_subs := [], in_phase := ReconcileNow\<rparr>"
    using assms(2) by (simp add: subs_poll_def watch_changed_def)
  show ?thesis using assms(1) unfolding s' by (simp add: subs_defs)
next
  case True
  then have cur: "in_current s = w_value (in_client s)" using assms(1,3) by (auto simp: subs_defs)
  from True assms(2) have "s' = subs_stop s \<or> s' = s\<lparr>in_topics_seen := w_version (in_topics s), in_phase := ReconcileNow\<rparr>"
    by (auto simp: subs_poll_def watch_changed_def split: if_splits)
  then show ?thesis using assms(1) cur by (elim disjE) (simp_all add: subs_defs subs_stop_def)
qed

lemma subs_poll_None:
  assumes "subs_poll s = None"
  shows "in_client_seen s = w_version (in_client s)" "in_topics_seen s = w_version (in_topics s)"
  using assms by (auto simp: subs_poll_def watch_changed_def split: if_splits watch_poll.splits)

lemma subs_subscribed_ok:
  assumes "subs_ok s" "in_phase s = Subscribing c (t # ts)"
  shows "subs_ok (subs_subscribed c t ts outcome s)"
proof -
  have p: "in_current s = Some c" "distinct (t # ts)" "set (t # ts) \<inter> fst ` set (in_subs s) = {}"
    "set (in_desired s) = fst ` set (in_subs s) \<union> set (t # ts) \<union> set (in_missed s)"
    using assms by (simp_all add: subs_defs)
  have "subs_ok (s\<lparr>in_subs := in_subs s @ [(t, c)], in_phase := subs_next c ts\<rparr>)"
    using assms p by (auto simp: subs_defs subs_next_def)
  moreover have "subs_ok (s\<lparr>in_phase := subs_next c ts, in_missed := t # in_missed s\<rparr>)"
    using assms p by (auto simp: subs_defs subs_next_def)
  ultimately show ?thesis by (simp add: subs_subscribed_def split: timed.split sum.split)
qed


lemma subs_stream_ends_ok:
  assumes "subs_ok s" "in_phase s = SubsIdle" "(t, c) \<in> set (in_subs s)"
  shows "subs_ok (subs_stream_ends t c s)"
proof -
  have own: "subs_own s" and rd: "subs_read s" using assms(1) by (simp_all add: subs_ok_def)
  have c: "in_current s \<noteq> None" using own assms(3) unfolding subs_own_def by blast
  then have d: "set (in_desired s) = fst ` set (in_subs s) \<union> set (in_missed s)" using own assms(2) unfolding subs_own_def by blast
  have t: "t \<in> fst ` set (in_subs s)" using assms(3) by force
  have "insert t (fst ` set (filter (\<lambda>x. x \<noteq> (t, c)) (in_subs s))) = fst ` set (in_subs s)" using assms(3) by force
  then have m: "set (in_desired s) = fst ` set (filter (\<lambda>x. x \<noteq> (t, c)) (in_subs s)) \<union> set (t # in_missed s)"
    using d t by auto
  have "subs_own (subs_stream_ends t c s)"
    using own m assms(2) unfolding subs_own_def subs_stream_ends_def by (simp add: distinct_map_filter) blast
  moreover have "subs_read (subs_stream_ends t c s)"
    using rd assms(2) unfolding subs_read_def subs_stream_ends_def by simp
  ultimately show ?thesis by (simp add: subs_ok_def)
qed

lemma subs_step_ok:
  assumes "subs_ok s" "intake_step s s'"
  shows "subs_ok s'"
  using assms(2)
proof cases
  case manager_info
  then show ?thesis
    using assms(1) manager_top_subs_ok subs_ok_frame [OF assms(1), of "s\<lparr>in_manager := ManagerStopped\<rparr>"]
    by (simp add: manager_info_def split: watch_poll.split)
next
  case (manager_connected info outcome)
  show ?thesis unfolding manager_connected(1)
    by (rule subs_ok_frame [OF assms(1)]) (simp_all add: manager_connected_def split: sum.split)
next
  case manager_wakes
  have "subs_ok (s\<lparr>in_backoff := min (in_backoff s * 2) 30\<rparr>)" by (rule subs_ok_frame [OF assms(1)]) simp_all
  then show ?thesis unfolding manager_wakes(1) manager_wakes_def by (rule manager_top_subs_ok)
next
  case (manager_auth_error info c)
  have "subs_ok (clear_client s)" by (rule subs_ok_frame [OF assms(1)]) (simp_all add: clear_client_def)
  then show ?thesis unfolding manager_auth_error(1) manager_auth_error_def by (rule manager_top_subs_ok)
next
  case (manager_rotated info c)
  have "subs_ok (clear_client (s\<lparr>in_conn_seen := w_version (in_conn s)\<rparr>))"
    by (rule subs_ok_frame [OF assms(1)]) (simp_all add: clear_client_def)
  then show ?thesis unfolding manager_rotated(1)
    using assms(1) manager_top_subs_ok subs_ok_frame [OF assms(1), of "s\<lparr>in_manager := ManagerStopped\<rparr>"]
    by (simp add: manager_rotated_def split: watch_poll.split)
next
  case subs_reconcile
  then show ?thesis using reconcile_ok [OF assms(1)] by simp
next
  case (subs_shutdown c ts)
  then show ?thesis using assms(1) by (auto simp: subs_defs subs_stop_def)
next
  case (subs_changed c ts)
  then show ?thesis using subs_poll_ok [OF assms(1)] by blast
next
  case (subs_subscribed c t ts outcome)
  then show ?thesis using subs_subscribed_ok [OF assms(1)] by blast
next
  case (subs_stream_ends t c)
  then show ?thesis using subs_stream_ends_ok [OF assms(1)] by blast
qed (rule subs_ok_frame [OF assms(1)]; simp)+

definition intake_ok :: "intake \<Rightarrow> bool" where
  "intake_ok s \<longleftrightarrow> manager_ok s \<and> subs_ok s"

interpretation intake: invariant_system "\<lambda>s. \<exists>conn. s = intake_start conn" intake_step intake_ok
proof
  fix s
  assume "\<exists>conn. s = intake_start conn"
  then show "intake_ok s"
    unfolding intake_ok_def intake_start_def
    by (auto intro!: manager_top_ok manager_top_subs_ok simp: subs_defs)
qed (auto simp: intake_ok_def intro: manager_step_ok subs_step_ok)


text \<open>At rest, with nothing pending on either channel, a topic that was missed stays so: no step subscribes it.\<close>

lemma missed_stays:
  assumes "intake_step s s'" "in_phase s = SubsIdle" "subs_poll s = None" "t \<notin> fst ` set (in_subs s)"
  shows "t \<notin> fst ` set (in_subs s') \<and> in_phase s' \<in> {SubsIdle, SubsEnded}"
  using assms(1)
proof cases
  case manager_info
  then show ?thesis using assms by (simp add: manager_info_def split: watch_poll.split)
next
  case (manager_connected info outcome)
  then show ?thesis using assms by (simp add: manager_connected_def split: sum.split)
next
  case (manager_rotated info c)
  then show ?thesis using assms by (simp add: manager_rotated_def clear_client_def split: watch_poll.split)
next
  case (subs_stream_ends u c)
  then show ?thesis using assms by (auto simp: HostIntake.subs_stream_ends_def)
qed (insert assms, auto simp: manager_wakes_def manager_auth_error_def clear_client_def subs_stop_def)

section \<open>Readiness\<close>

definition event_flags :: "readiness_event list \<Rightarrow> bool \<times> bool \<Rightarrow> bool \<times> bool" where
  "event_flags evs = fold (\<lambda>ev (n, y). case ev of NatsSeen b \<Rightarrow> (b, y) | SyncedSeen b \<Rightarrow> (n, b)) evs"

text \<open>The overall states among the lines.\<close>

definition readiness_lines :: "readiness_log list \<Rightarrow> bool list" where
  "readiness_lines ls = concat (map (\<lambda>l. case l of ReadinessLog b \<Rightarrow> [b] | _ \<Rightarrow> []) ls)"

lemma readiness_lines_append [simp]: "readiness_lines (xs @ ys) = readiness_lines xs @ readiness_lines ys"
  by (simp add: readiness_lines_def)

lemma readiness_step_flags:
  assumes "was_ready r = (prev_nats r \<and> prev_synced r)" "readiness_step ev r = (lines, r')"
  shows "was_ready r' = (prev_nats r' \<and> prev_synced r')" "(prev_nats r', prev_synced r') = event_flags [ev] (prev_nats r, prev_synced r)"
    "readiness_lines lines = (if was_ready r' = was_ready r then [] else [was_ready r'])"
  using assms by (auto simp: readiness_step_def event_flags_def readiness_lines_def Let_def split: readiness_event.splits if_splits)

text \<open>The readiness lines alternate and end with the present state.\<close>

lemma readiness_run_lines:
  assumes "was_ready r = (prev_nats r \<and> prev_synced r)" "readiness_run evs r = (lines, r')"
  shows "was_ready r' = (prev_nats r' \<and> prev_synced r') \<and> (prev_nats r', prev_synced r') = event_flags evs (prev_nats r, prev_synced r)
    \<and> distinct_adj (was_ready r # readiness_lines lines) \<and> last (was_ready r # readiness_lines lines) = was_ready r'"
  using assms
proof (induction evs arbitrary: r lines)
  case (Cons ev evs)
  obtain l1 r1 where s: "readiness_step ev r = (l1, r1)" by (cases "readiness_step ev r")
  obtain l2 where run: "readiness_run evs r1 = (l2, r')" "lines = l1 @ l2"
    using Cons.prems(2) s by (cases "readiness_run evs r1") auto
  note st = readiness_step_flags [OF Cons.prems(1) s]
  note ih = Cons.IH [OF st(1) run(1)]
  have fl: "event_flags (ev # evs) (prev_nats r, prev_synced r) = event_flags evs (prev_nats r1, prev_synced r1)"
    using st(2) by (simp add: event_flags_def)
  have "distinct_adj (was_ready r # readiness_lines lines) \<and> last (was_ready r # readiness_lines lines) = was_ready r'"
    using ih st(3) run(2) by (cases "was_ready r1 = was_ready r") (auto simp del: not_Cons_self)
  with ih fl show ?case by metis
qed (simp add: event_flags_def readiness_lines_def)

section \<open>Properties\<close>

lemma taken_listed:
  assumes "intake_ok s" "subs_takes t c s"
  shows "t \<in> set (w_value (in_topics s)) \<and> w_value (in_client s) = Some c"
proof -
  have own: "subs_own s" and rd: "subs_read s" using assms(1) by (simp_all add: intake_ok_def subs_ok_def)
  have p: "in_phase s = SubsIdle" "subs_poll s = None" "(t, c) \<in> set (in_subs s)" using assms(2) by (simp_all add: subs_takes_def)
  have "in_current s = w_value (in_client s)" "in_desired s = remdups (w_value (in_topics s))"
    using rd p subs_poll_None [OF p(2)] unfolding subs_read_def by simp_all
  moreover have "in_current s = Some c \<and> t \<in> set (in_desired s)" using own p(3) unfolding subs_own_def by blast
  ultimately show ?thesis by simp
qed

text \<open>
  C10 (invariant). Whatever credentials and topics are sent, and however the managers are interleaved with
  them: no topic is subscribed twice; a message is only ever taken from a topic that the configuration
  lists at that moment, over the client that is published at that moment and that was connected with
  credentials that were sent; at rest the subscriptions are the listed topics except those whose
  subscription failed or ended, all on the present client, and none without a client. The host is ready
  for NATS exactly while a client is published, and a published client that is still served has the
  credentials last sent unless newer ones are waiting. Retry delays are between 1 and 30 seconds.
\<close>

theorem subscriptions_exact:
  assumes "reaches (\<lambda>s. \<exists>conn. s = intake_start conn) intake_step s"
  shows "distinct (map fst (in_subs s))
    \<and> (\<forall>t c. subs_takes t c s \<longrightarrow>
         t \<in> set (w_value (in_topics s)) \<and> w_value (in_client s) = Some c \<and> c \<in> fst ` set (in_made s))
    \<and> (in_phase s = SubsIdle \<and> subs_poll s = None \<longrightarrow>
         (case w_value (in_client s) of
            None \<Rightarrow> in_subs s = []
          | Some c \<Rightarrow> fst ` set (in_subs s) \<union> set (in_missed s) = set (w_value (in_topics s)) \<and> snd ` set (in_subs s) \<subseteq> {c}))
    \<and> (fst (readyz_handler (in_ready s) synced) = st_OK \<longleftrightarrow> synced \<and> w_value (in_client s) \<noteq> None)
    \<and> (\<forall>info c. in_manager s = ServingClient info c \<and> in_conn_seen s = w_version (in_conn s) \<longrightarrow>
         w_value (in_conn s) = Some info \<and> w_value (in_client s) = Some c \<and> (c, info) \<in> set (in_made s))
    \<and> 1 \<le> in_backoff s \<and> in_backoff s \<le> 30"
proof -
  have "intake_ok s" using assms by (rule intake.inv_reaches)
  then have m: "manager_ok s" and own: "subs_own s" and rd: "subs_read s" by (simp_all add: intake_ok_def subs_ok_def)
  note made = manager_okD(1) [OF m]
  have rest: "in_current s = w_value (in_client s)" "in_desired s = remdups (w_value (in_topics s))"
    if "in_phase s = SubsIdle" "subs_poll s = None"
    using rd that subs_poll_None [OF that(2)] unfolding subs_read_def by simp_all
  note takes = taken_listed [OF \<open>intake_ok s\<close>]
  have idle: "case w_value (in_client s) of None \<Rightarrow> in_subs s = []
      | Some c \<Rightarrow> fst ` set (in_subs s) \<union> set (in_missed s) = set (w_value (in_topics s)) \<and> snd ` set (in_subs s) \<subseteq> {c}"
    if "in_phase s = SubsIdle" "subs_poll s = None"
  proof (cases "w_value (in_client s)")
    case None
    then have "x \<notin> set (in_subs s)" for x using own rest(1) [OF that] unfolding subs_own_def by (cases x) auto
    then show ?thesis using None by (cases "in_subs s") auto
  next
    case (Some c)
    have "set (in_desired s) = fst ` set (in_subs s) \<union> set (in_missed s)"
      using own rest(1) [OF that] that(1) Some unfolding subs_own_def by simp
    moreover have "snd x = c" if "x \<in> set (in_subs s)" for x
      using own rest(1) [OF \<open>in_phase s = SubsIdle\<close> \<open>subs_poll s = None\<close>] Some that unfolding subs_own_def by (cases x) auto
    ultimately show ?thesis using Some rest(2) [OF that] by auto
  qed
  have ready: "fst (readyz_handler (in_ready s) synced) = st_OK \<longleftrightarrow> synced \<and> w_value (in_client s) \<noteq> None"
    using m by (auto simp: readyz_handler_def manager_ok_def)
  have serving: "w_value (in_conn s) = Some info \<and> w_value (in_client s) = Some c \<and> (c, info) \<in> set (in_made s)"
    if "in_manager s = ServingClient info c" "in_conn_seen s = w_version (in_conn s)" for info c
    using that by (intro conjI manager_okD [OF m])
  have d: "distinct (map fst (in_subs s))" using own by (simp add: subs_own_def)
  have b: "1 \<le> in_backoff s" "in_backoff s \<le> 30" using m by (simp_all add: manager_ok_def)
  show ?thesis using d made takes idle ready serving b by blast
qed


definition sample_conn :: nats_connection_info where
  "sample_conn = \<lparr>nc_url = ''nats://nats:4222'', nc_username = ''host'', nc_password = ''secret''\<rparr>"

definition sample_connected :: intake where
  "sample_connected = manager_connected sample_conn (Inr 7) (intake_start (Some sample_conn))"

definition sample_topics :: intake where
  "sample_topics = sample_connected\<lparr>in_topics := watch_send [''fn.hello''] (in_topics sample_connected)\<rparr>"

definition sample_reconciled :: intake where
  "sample_reconciled = reconcile sample_topics"

definition sample_intake :: intake where
  "sample_intake = subs_subscribed 7 ''fn.hello'' [] (Done (Inr ())) sample_reconciled"

lemmas sample_intake_defs = sample_connected_def sample_topics_def sample_reconciled_def sample_intake_def
  reconcile_def subs_poll_def watch_changed_def manager_connected_def intake_start_def manager_top_def subs_next_def Let_def

lemma sample_intake_reached: "reaches (\<lambda>s. \<exists>conn. s = intake_start conn) intake_step sample_intake"
proof -
  have r0: "reaches (\<lambda>s. \<exists>conn. s = intake_start conn) intake_step (intake_start (Some sample_conn))"
    by (rule reaches_init) blast
  have "intake_step (intake_start (Some sample_conn)) sample_connected"
    unfolding sample_connected_def
    by (rule intake_step.manager_connected) (simp add: intake_start_def manager_top_def Let_def)
  with r0 have r1: "reaches (\<lambda>s. \<exists>conn. s = intake_start conn) intake_step sample_connected" by (rule reaches_step)
  have "intake_step sample_connected sample_topics"
    unfolding sample_topics_def by (rule intake_step.topics_sent)
  with r1 have r2: "reaches (\<lambda>s. \<exists>conn. s = intake_start conn) intake_step sample_topics" by (rule reaches_step)
  have "intake_step sample_topics sample_reconciled"
    unfolding sample_reconciled_def by (rule intake_step.subs_reconcile) (simp add: sample_intake_defs)
  with r2 have r3: "reaches (\<lambda>s. \<exists>conn. s = intake_start conn) intake_step sample_reconciled" by (rule reaches_step)
  have "intake_step sample_reconciled sample_intake"
    unfolding sample_intake_def by (rule intake_step.subs_subscribed) (simp add: sample_intake_defs)+
  with r3 show ?thesis by (rule reaches_step)
qed

theorem subscriptions_exact_witness:
  "subs_takes ''fn.hello'' 7 sample_intake \<and> ''fn.hello'' \<in> set (w_value (in_topics sample_intake))
   \<and> fst (readyz_handler (in_ready sample_intake) True) = st_OK"
proof -
  have t: "subs_takes ''fn.hello'' 7 sample_intake"
    by (simp add: subs_takes_def subs_subscribed_def sample_intake_defs)
  then show ?thesis using subscriptions_exact [OF sample_intake_reached, of True] by auto
qed

end
