(* ===== verification/Redaction.thy ===== *)
theory Redaction
  imports AppRegistry HttpTypes HostIntake Decimal
begin

text \<open>
  The hand-written \<open>Debug\<close> printers of \<open>src/components/execution-host/src/config.rs\<close>,
  \<open>src/lib/platform-common/src/http_types.rs\<close> and \<open>nats_client.rs\<close>: what a log line shows of a
  configuration message, a request or a credential. A printer builds a tree, \<open>debug_text\<close> is the format
  \<open>{:?}\<close> of the standard library. Characters beyond ASCII are printed as they are.
\<close>

section \<open>Definitions\<close>

subsection \<open>Debug formatting\<close>

datatype debug =
  DStr string | DInt int | DBool bool | DVariant string | DNone | DSome debug | DList "debug list"
  | DStruct string "(string \<times> debug) list" bool

text \<open>\<open>char::escape_debug\<close>, as applied to the characters of a string.\<close>

definition hex_digit :: "nat \<Rightarrow> char" where
  "hex_digit n = char_of (if n < 10 then 48 + n else 87 + n)"

definition escape_char :: "char \<Rightarrow> string" where
  "escape_char c =
     (let n = of_char c :: nat in
      if n = 0 then [CHR 0x5C, CHR ''0'']
      else if n = 9 then [CHR 0x5C, CHR ''t'']
      else if n = 10 then [CHR 0x5C, CHR ''n'']
      else if n = 13 then [CHR 0x5C, CHR ''r'']
      else if n = 34 \<or> n = 92 then [CHR 0x5C, c]
      else if n < 32 \<or> n = 127
           then [CHR 0x5C, CHR ''u'', CHR 0x7B] @ (if n < 16 then [hex_digit n] else [hex_digit (n div 16), hex_digit (n mod 16)])
                @ [CHR 0x7D]
      else [c])"

definition debug_str :: "string \<Rightarrow> string" where
  "debug_str s = CHR 0x22 # concat (map escape_char s) @ [CHR 0x22]"

fun debug_text :: "debug \<Rightarrow> string" and debug_items :: "debug list \<Rightarrow> string"
  and debug_fields :: "(string \<times> debug) list \<Rightarrow> string" where
  "debug_text (DStr s) = debug_str s"
| "debug_text (DInt i) = show_int i"
| "debug_text (DBool b) = (if b then ''true'' else ''false'')"
| "debug_text (DVariant n) = n"
| "debug_text DNone = ''None''"
| "debug_text (DSome t) = ''Some('' @ debug_text t @ '')''"
| "debug_text (DList ts) = ''['' @ debug_items ts @ '']''"
| "debug_text (DStruct n fs exhaustive) =
     (if fs = [] then n @ (if exhaustive then [] else '' { .. }'')
      else n @ '' { '' @ debug_fields fs @ (if exhaustive then '' }'' else '', .. }''))"
| "debug_items [] = []"
| "debug_items [t] = debug_text t"
| "debug_items (t # u # ts) = debug_text t @ '', '' @ debug_items (u # ts)"
| "debug_fields [] = []"
| "debug_fields [(n, t)] = n @ '': '' @ debug_text t"
| "debug_fields ((n, t) # f # fs) = n @ '': '' @ debug_text t @ '', '' @ debug_fields (f # fs)"

definition debug_option :: "string option \<Rightarrow> debug" where
  "debug_option v = (case v of None \<Rightarrow> DNone | Some s \<Rightarrow> DSome (DStr s))"

definition REDACTED :: debug where
  "REDACTED = DStr ''[REDACTED]''"

subsection \<open>The printers\<close>

text \<open>A message with the environment of the application, and the connection of Redis.\<close>

record application_message = application_config +
  ac_env :: "(string \<times> string) list"

record redis_connection_config =
  rcc_url :: string

definition debug_world_type :: "world_type \<Rightarrow> debug" where
  "debug_world_type w = DVariant (case w of WorldMessage \<Rightarrow> ''Message'' | WorldHttp \<Rightarrow> ''Http'')"

definition debug_function_entry :: "function_entry \<Rightarrow> debug" where
  "debug_function_entry e = DStruct ''FunctionEntry''
     [(''app_name'', DStr (fe_app_name e)), (''app_namespace'', DStr (fe_app_namespace e)),
      (''function_name'', DStr (fe_function_name e)), (''module_ref'', REDACTED),
      (''world_type'', debug_world_type (fe_world_type e)), (''sql_username'', debug_option (fe_sql_username e)),
      (''kv_enabled'', DBool (fe_kv_enabled e))] False"

definition debug_sql_user_config :: "sql_user_config \<Rightarrow> debug" where
  "debug_sql_user_config u = DStruct ''SqlUserConfig''
     [(''username'', DStr (su_username u)), (''connection_url'', REDACTED)] True"

definition debug_redis_connection_config :: "redis_connection_config \<Rightarrow> debug" where
  "debug_redis_connection_config c = DStruct ''RedisConnectionConfig'' [(''url'', REDACTED)] True"

definition debug_function_config :: "function_config \<Rightarrow> debug" where
  "debug_function_config f = DStruct ''FunctionConfig''
     [(''name'', DStr (fc_name f)), (''module_ref'', REDACTED), (''world_type'', DInt (fc_world_type f)),
      (''topic'', debug_option (fc_topic f)), (''sql_username'', debug_option (fc_sql_username f))] False"

definition debug_application_config :: "application_message \<Rightarrow> debug" where
  "debug_application_config a = DStruct ''ApplicationConfig''
     [(''name'', DStr (ac_name a)), (''namespace'', DStr (ac_namespace a)),
      (''functions'', DList (map debug_function_config (ac_functions a))), (''env'', REDACTED),
      (''sql_users'', DList (map debug_sql_user_config (ac_sql_users a))), (''key_value'', DBool (ac_key_value a))] False"

definition debug_http_request_payload :: "http_request_payload \<Rightarrow> debug" where
  "debug_http_request_payload p = DStruct ''HttpRequestPayload''
     [(''method'', DStr (hp_method p)), (''path'', REDACTED), (''query'', REDACTED), (''headers'', REDACTED),
      (''body'', REDACTED)] True"

definition debug_http_response_payload :: "http_response_payload \<Rightarrow> debug" where
  "debug_http_response_payload p = DStruct ''HttpResponsePayload''
     [(''status'', DInt (int (pr_status p))), (''headers'', REDACTED), (''body'', REDACTED)] True"

definition debug_nats_connection_info :: "nats_connection_info \<Rightarrow> debug" where
  "debug_nats_connection_info c = DStruct ''NatsConnectionInfo''
     [(''url'', REDACTED), (''username'', REDACTED), (''password'', REDACTED)] True"

section \<open>Reading a text back\<close>

text \<open>
  The values of one Rust type print as trees of one shape. Two trees of a shape with the same text are the
  same tree, so that a text shows exactly what the tree holds.
\<close>

datatype shape =
  TStr | TInt | TBool | TVariant | TOption shape | TList shape | TStruct string "(string \<times> shape) list" bool

definition ident :: "string \<Rightarrow> bool" where
  "ident n \<longleftrightarrow> n \<noteq> [] \<and> list_all (\<lambda>c. c \<notin> set '', )]'') n"

fun has_shape :: "shape \<Rightarrow> debug \<Rightarrow> bool" and has_fields :: "(string \<times> shape) list \<Rightarrow> (string \<times> debug) list \<Rightarrow> bool" where
  "has_shape TStr t = (\<exists>s. t = DStr s)"
| "has_shape TInt t = (\<exists>i. t = DInt i)"
| "has_shape TBool t = (\<exists>b. t = DBool b)"
| "has_shape TVariant t = (\<exists>n. t = DVariant n \<and> ident n)"
| "has_shape (TOption T) t = (t = DNone \<or> (\<exists>u. t = DSome u \<and> has_shape T u))"
| "has_shape (TList T) t = (\<exists>ts. t = DList ts \<and> (\<forall>u \<in> set ts. has_shape T u))"
| "has_shape (TStruct n fs e) t = (ident n \<and> fs \<noteq> [] \<and> (\<exists>gs. t = DStruct n gs e \<and> has_fields fs gs))"
| "has_fields [] gs = (gs = [])"
| "has_fields ((n, T) # fs) gs = (\<exists>t gs'. gs = (n, t) # gs' \<and> has_shape T t \<and> has_fields fs gs')"

text \<open>What may follow a value.\<close>

definition stops :: "string \<Rightarrow> bool" where
  "stops r \<longleftrightarrow> r = [] \<or> hd r \<in> set '', )]''"

lemma token_unique:
  assumes "list_all (\<lambda>c. c \<notin> set '', )]'') u" "list_all (\<lambda>c. c \<notin> set '', )]'') v" "stops r" "stops s" "u @ r = v @ s"
  shows "u = v \<and> r = s"
proof -
  have "takeWhile (\<lambda>c. c \<notin> set '', )]'') (w @ q) = w"
    if "list_all (\<lambda>c. c \<notin> set '', )]'') w" "stops q" for w q
    using that by (induction w) (cases q, auto simp: stops_def)
  then have "u = v" using assms by metis
  then show ?thesis using assms(5) by simp
qed

subsection \<open>Strings\<close>

lemma hex_digit_code: "n < 16 \<Longrightarrow> of_char (hex_digit n) = (if n < 10 then 48 + n else 87 + n :: nat)"
  by (simp add: hex_digit_def)

lemma hex_digit_inj: "n < 16 \<Longrightarrow> m < 16 \<Longrightarrow> hex_digit n = hex_digit m \<longleftrightarrow> n = m"
proof
  assume n: "n < 16" "m < 16" and "hex_digit n = hex_digit m"
  then have "(of_char (hex_digit n) :: nat) = of_char (hex_digit m)" by simp
  then show "n = m" unfolding hex_digit_code [OF n(1)] hex_digit_code [OF n(2)] by (simp split: if_splits)
qed simp

lemma hex_digit_brace: "n < 16 \<Longrightarrow> hex_digit n \<noteq> CHR 0x7D"
  using hex_digit_code [of n] by (auto split: if_splits)

definition hex_code :: "nat \<Rightarrow> string" where
  "hex_code n = (if n < 16 then [hex_digit n] else [hex_digit (n div 16), hex_digit (n mod 16)])"

lemma hex_code_unique:
  assumes "n < 128" "m < 128" "hex_code n @ CHR 0x7D # r = hex_code m @ CHR 0x7D # q"
  shows "n = m \<and> r = q"
proof -
  have *: "n div 16 < 16" "m div 16 < 16" using assms(1,2) by simp_all
  show ?thesis
  proof (cases "n < 16")
    case True
    then show ?thesis using assms(3) * hex_digit_inj [of n m] hex_digit_brace [of "m mod 16"]
      by (auto simp: hex_code_def split: if_splits)
  next
    case False
    then have "\<not> m < 16" using assms(3) hex_digit_brace [of "n mod 16"] by (auto simp: hex_code_def split: if_splits)
    with False have "n div 16 = m div 16" "n mod 16 = m mod 16" "r = q"
      using assms(3) * hex_digit_inj [of "n div 16" "m div 16"] hex_digit_inj [of "n mod 16" "m mod 16"]
      by (simp_all add: hex_code_def)
    then show ?thesis by (metis div_mult_mod_eq)
  qed
qed

lemma escape_head: "escape_char c @ r \<noteq> CHR 0x22 # q"
  by (auto simp: escape_char_def Let_def)

lemma escape_cases:
  obtains (plain) "escape_char c = [c]" "c \<noteq> CHR 0x5C"
  | (short) d where "escape_char c = [CHR 0x5C, d]" "d \<noteq> CHR ''u''"
      "\<And>c'. escape_char c' = [CHR 0x5C, d] \<Longrightarrow> c' = c"
  | (code) "escape_char c = [CHR 0x5C, CHR ''u'', CHR 0x7B] @ hex_code (of_char c) @ [CHR 0x7D]" "of_char c < (128 :: nat)"
proof (cases "of_char c \<in> {0, 9, 10, 13, 34, 92 :: nat}")
  case True
  then obtain d where d: "escape_char c = [CHR 0x5C, d]" by (auto simp: escape_char_def Let_def)
  have "c' = c" if "escape_char c' = [CHR 0x5C, d]" for c'
  proof -
    have "char_of (of_char c' :: nat) = (char_of (of_char c :: nat) :: char)"
      using that d by (auto simp only: escape_char_def Let_def list.inject split: if_splits) auto
    then show ?thesis by simp
  qed
  moreover have "d \<noteq> CHR ''u''" using d True by (auto simp: escape_char_def Let_def)
  ultimately show ?thesis using short d by blast
next
  case False
  show ?thesis
  proof (cases "of_char c < (32 :: nat) \<or> of_char c = (127 :: nat)")
    case True
    then show ?thesis using False by (intro code) (auto simp: escape_char_def hex_code_def Let_def)
  next
    case plain': False
    then show ?thesis using False by (intro plain) (auto simp: escape_char_def Let_def)
  qed
qed

lemma escape_unique:
  assumes "escape_char c @ r = escape_char d @ q"
  shows "c = d \<and> r = q"
proof (cases c rule: escape_cases)
  case plain
  show ?thesis
  proof (cases d rule: escape_cases)
    case (short e)
    show ?thesis using assms plain unfolding short(1) by simp
  qed (use assms plain in simp_all)
next
  case c: (short e)
  show ?thesis
  proof (cases d rule: escape_cases)
    case d: (short e')
    have e: "e' = e \<and> r = q" using assms unfolding c(1) d(1) by simp
    then have "d = c" using c(3) [of d] d(1) by simp
    then show ?thesis using e by simp
  next
    case code
    show ?thesis using assms c(2) unfolding c(1) code(1) by simp
  next
    case plain
    show ?thesis using assms plain(2) unfolding c(1) plain(1) by simp
  qed
next
  case code
  show ?thesis
  proof (cases d rule: escape_cases)
    case code': code
    have "(of_char c :: nat) = of_char d \<and> r = q"
      by (rule hex_code_unique [OF code(2) code'(2)]) (use assms in \<open>simp add: code(1) code'(1)\<close>)
    then show ?thesis by simp
  next
    case (short e)
    show ?thesis using assms short(2) unfolding short(1) code(1) by simp
  qed (use assms code in simp)
qed

lemma debug_str_unique: "debug_str s @ r = debug_str t @ q \<Longrightarrow> s = t \<and> r = q"
proof -
  have "s = t \<and> r = q" if "concat (map escape_char s) @ CHR 0x22 # r = concat (map escape_char t) @ CHR 0x22 # q"
    using that
  proof (induction s arbitrary: t)
    case Nil
    then show ?case using escape_head [symmetric] by (cases t) auto
  next
    case (Cons c s)
    then obtain d t' where t: "t = d # t'" using escape_head [of c "concat (map escape_char s) @ CHR 0x22 # r" q] by (cases t) auto
    have "c = d \<and> concat (map escape_char s) @ CHR 0x22 # r = concat (map escape_char t') @ CHR 0x22 # q"
      by (rule escape_unique) (use Cons.prems t in simp)
    then show ?case using Cons.IH t by blast
  qed
  then show "debug_str s @ r = debug_str t @ q \<Longrightarrow> s = t \<and> r = q" by (simp add: debug_str_def)
qed

subsection \<open>Values\<close>

lemma parse_digits_ascii: "parse_digits a s = Some n \<Longrightarrow> list_all is_ascii_digit s"
  by (induction a s rule: parse_digits.induct) (auto split: if_splits)

lemma show_nat_ascii: "list_all is_ascii_digit (show_nat n)"
  using show_nat_digits by (rule parse_digits_ascii)

lemma digit_ident: "list_all is_ascii_digit s \<Longrightarrow> list_all (\<lambda>c. c \<notin> set '', )]'') s"
  by (induction s) (auto simp: is_ascii_digit_def)

lemma show_int_ident: "ident (show_int i)"
  using digit_ident [OF show_nat_ascii] show_nat_nonempty by (simp add: ident_def show_int_def)

lemma show_int_inj: "show_int i = show_int j \<Longrightarrow> i = j"
proof -
  have nat_inj: "show_nat m = show_nat n \<Longrightarrow> m = n" for m n using show_nat_digits by (metis option.inject)
  have sign: "show_nat m \<noteq> ''-'' @ show_nat n" for m n using show_nat_no_minus [of m] by (metis strip_prefix_append option.distinct(1))
  show "show_int i = show_int j \<Longrightarrow> i = j"
    using nat_inj [of "nat (- i)" "nat (- j)"] nat_inj [of "nat i" "nat j"] sign [of "nat i" "nat (- j)"] sign [of "nat j" "nat (- i)", THEN not_sym]
    by (auto simp: show_int_def split: if_splits)
qed

lemma ident_unique: "ident u \<Longrightarrow> ident v \<Longrightarrow> stops r \<Longrightarrow> stops q \<Longrightarrow> u @ r = v @ q \<Longrightarrow> u = v \<and> r = q"
  unfolding ident_def by (rule token_unique) simp_all

lemma bool_unique: "(if a then ''true'' else ''false'') @ r = (if b then ''true'' else ''false'') @ q \<Longrightarrow> a = b \<and> r = q"
  by (simp split: if_splits)

text \<open>A value never starts like the end of a list.\<close>

lemma debug_text_head: "has_shape T t \<Longrightarrow> debug_text t @ r \<noteq> CHR '']'' # q"
proof (cases T)
  case TInt
  assume "has_shape T t"
  then obtain i where t: "t = DInt i" using TInt by auto
  obtain c cs where "show_int i = c # cs" "c \<noteq> CHR '']''"
    using show_int_ident [of i] by (cases "show_int i") (auto simp: ident_def)
  then show ?thesis using t by simp
next
  case TVariant
  assume "has_shape T t"
  then show ?thesis using TVariant by (cases t) (auto simp: ident_def neq_Nil_conv)
next
  case (TStruct n fs e)
  assume "has_shape T t"
  then show ?thesis using TStruct by (auto simp: ident_def neq_Nil_conv)
qed (auto simp: debug_str_def split: if_splits)

text \<open>Items and fields after the first, each behind its comma.\<close>

definition item_tail :: "debug list \<Rightarrow> string" where
  "item_tail ts = concat (map (\<lambda>t. '', '' @ debug_text t) ts)"

definition field_tail :: "(string \<times> debug) list \<Rightarrow> string" where
  "field_tail fs = concat (map (\<lambda>(n, t). '', '' @ n @ '': '' @ debug_text t) fs)"

lemma tail_simps [simp]:
  "item_tail [] = []" "item_tail (t # ts) = '', '' @ debug_text t @ item_tail ts"
  "field_tail [] = []" "field_tail ((n, t) # fs) = '', '' @ n @ '': '' @ debug_text t @ field_tail fs"
  by (simp_all add: item_tail_def field_tail_def)

lemma debug_items_Cons: "debug_items (t # ts) = debug_text t @ item_tail ts"
  by (induction ts arbitrary: t) simp_all

lemma debug_fields_Cons: "debug_fields ((n, t) # fs) = n @ '': '' @ debug_text t @ field_tail fs"
  by (induction fs arbitrary: n t) auto

lemma stops_tail [simp]:
  "stops (item_tail ts @ CHR '']'' # r)" "stops r \<Longrightarrow> stops (field_tail fs @ r)"
  "stops (CHR '' '' # r)" "stops (CHR '','' # r)" "stops (CHR '')'' # r)" "stops []"
  by (cases ts; simp add: stops_def) (cases fs; auto simp: stops_def)+

definition uniquely_read :: "shape \<Rightarrow> bool" where
  "uniquely_read T \<longleftrightarrow> (\<forall>t u r q. has_shape T t \<longrightarrow> has_shape T u \<longrightarrow> stops r \<longrightarrow> stops q \<longrightarrow>
     debug_text t @ r = debug_text u @ q \<longrightarrow> t = u \<and> r = q)"

lemma uniquely_readD:
  "uniquely_read T \<Longrightarrow> has_shape T t \<Longrightarrow> has_shape T u \<Longrightarrow> debug_text t @ r = debug_text u @ q \<Longrightarrow> stops r \<Longrightarrow> stops q \<Longrightarrow>
     t = u \<and> r = q"
  unfolding uniquely_read_def by blast

lemma item_tail_unique:
  assumes "uniquely_read T" "\<forall>t \<in> set ts. has_shape T t" "\<forall>u \<in> set us. has_shape T u"
    and "item_tail ts @ CHR '']'' # r = item_tail us @ CHR '']'' # q"
  shows "ts = us \<and> r = q"
  using assms(2-)
proof (induction ts arbitrary: us)
  case Nil
  then show ?case by (cases us) auto
next
  case (Cons t ts)
  then obtain u vs where us: "us = u # vs" by (cases us) auto
  have "t = u \<and> item_tail ts @ CHR '']'' # r = item_tail vs @ CHR '']'' # q"
    by (rule uniquely_readD [OF assms(1)]) (use Cons.prems us in auto)
  then show ?case using Cons.IH [of vs] Cons.prems us by auto
qed

lemma items_unique:
  assumes "uniquely_read T" "\<forall>t \<in> set ts. has_shape T t" "\<forall>u \<in> set us. has_shape T u"
    and "debug_items ts @ CHR '']'' # r = debug_items us @ CHR '']'' # q"
  shows "ts = us \<and> r = q"
proof (cases ts)
  case Nil
  then show ?thesis
    using assms(3,4) debug_text_head [of T "hd us", THEN not_sym] by (cases us) (auto simp: debug_items_Cons)
next
  case (Cons t ts')
  then obtain u us' where us: "us = u # us'"
    using assms(2,4) debug_text_head [of T t] by (cases us) (auto simp: debug_items_Cons)
  have "t = u \<and> item_tail ts' @ CHR '']'' # r = item_tail us' @ CHR '']'' # q"
    by (rule uniquely_readD [OF assms(1)]) (use Cons us assms(2-) in \<open>auto simp: debug_items_Cons\<close>)
  then show ?thesis using item_tail_unique [OF assms(1), of ts' us'] assms(2,3) Cons us by auto
qed

lemma field_tail_unique:
  assumes "\<And>n T. (n, T) \<in> set Ts \<Longrightarrow> uniquely_read T" "has_fields Ts fs" "has_fields Ts gs" "stops r" "stops q"
    and "field_tail fs @ r = field_tail gs @ q"
  shows "fs = gs \<and> r = q"
  using assms
proof (induction Ts arbitrary: fs gs)
  case (Cons x Ts)
  obtain n T where x: "x = (n, T)" by (cases x)
  obtain t fs' u gs' where f: "fs = (n, t) # fs'" "has_shape T t" "has_fields Ts fs'"
    and g: "gs = (n, u) # gs'" "has_shape T u" "has_fields Ts gs'"
    using Cons.prems(2,3) x by auto
  have T: "uniquely_read T" using Cons.prems(1) x by auto
  have "debug_text t @ field_tail fs' @ r = debug_text u @ field_tail gs' @ q" using Cons.prems(6) f(1) g(1) by simp
  then have "t = u \<and> field_tail fs' @ r = field_tail gs' @ q"
    using uniquely_readD [OF T f(2) g(2)] Cons.prems(4,5) by simp
  moreover have "uniquely_read S" if "(m, S) \<in> set Ts" for m S using Cons.prems(1) that by auto
  ultimately show ?case using Cons.IH [OF _ f(3) g(3) Cons.prems(4,5)] f(1) g(1) by metis
qed simp

lemma option_unique:
  assumes "uniquely_read T"
  shows "uniquely_read (TOption T)"
  unfolding uniquely_read_def
proof (intro allI impI)
  fix t u r q
  assume t: "has_shape (TOption T) t" and u: "has_shape (TOption T) u" and eq: "debug_text t @ r = debug_text u @ q"
  show "t = u \<and> r = q"
  proof (cases "t = DNone \<or> u = DNone")
    case True
    then show ?thesis using t u eq by auto
  next
    case False
    then obtain v w where v: "t = DSome v" "has_shape T v" and w: "u = DSome w" "has_shape T w" using t u by auto
    have "debug_text v @ CHR '')'' # r = debug_text w @ CHR '')'' # q" using eq v(1) w(1) by simp
    from uniquely_readD [OF assms v(2) w(2) this] show ?thesis using v(1) w(1) by simp
  qed
qed

lemma struct_unique:
  assumes "\<And>k S. (k, S) \<in> set Ts \<Longrightarrow> uniquely_read S"
  shows "uniquely_read (TStruct n Ts e)"
  unfolding uniquely_read_def
proof (intro allI impI)
  fix t u r q
  assume t: "has_shape (TStruct n Ts e) t" and u: "has_shape (TStruct n Ts e) u" and "stops r" "stops q"
    and eq: "debug_text t @ r = debug_text u @ q"
  define z where "z = (if e then '' }'' else '', .. }'')"
  obtain m T Ts' where Ts: "Ts = (m, T) # Ts'" using t by (cases Ts) auto
  obtain v fs w gs where f: "t = DStruct n ((m, v) # fs) e" "has_shape T v" "has_fields Ts' fs"
    and g: "u = DStruct n ((m, w) # gs) e" "has_shape T w" "has_fields Ts' gs"
    using t u Ts by auto
  have un: "uniquely_read S" if "(k, S) \<in> set Ts" for k S using assms that by blast
  have z: "stops (z @ x)" for x by (simp add: z_def)
  have "debug_text v @ field_tail fs @ z @ r = debug_text w @ field_tail gs @ z @ q"
    using eq f(1) g(1) by (simp add: debug_fields_Cons z_def split: if_splits)
  then have "v = w \<and> field_tail fs @ z @ r = field_tail gs @ z @ q"
    using uniquely_readD [OF un [of m T] f(2) g(2)] Ts z stops_tail(2) by (metis list.set_intros(1))
  moreover have "uniquely_read S" if "(k, S) \<in> set Ts'" for k S using un [of k S] that Ts by simp
  ultimately show "t = u \<and> r = q"
    using field_tail_unique [OF _ f(3) g(3) z z] f(1) g(1) by (metis same_append_eq)
qed

lemma shape_unique: "uniquely_read T"
proof (induction T)
  case TStr
  show ?case unfolding uniquely_read_def has_shape.simps by (metis debug_str_unique debug_text.simps(1))
next
  case TInt
  show ?case
    unfolding uniquely_read_def has_shape.simps
    by (metis ident_unique [OF show_int_ident show_int_ident] show_int_inj debug_text.simps(2))
next
  case TBool
  have "DBool a = DBool b \<and> r = q" if "debug_text (DBool a) @ r = debug_text (DBool b) @ q" for a b r q
    using bool_unique [of a r b q] that by simp
  then show ?case unfolding uniquely_read_def has_shape.simps by blast
next
  case TVariant
  show ?case unfolding uniquely_read_def has_shape.simps by (metis ident_unique debug_text.simps(4))
next
  case (TOption T)
  then show ?case by (rule option_unique)
next
  case (TList T)
  have "DList ts = DList us \<and> r = q"
    if "\<forall>t \<in> set ts. has_shape T t" "\<forall>u \<in> set us. has_shape T u" "debug_text (DList ts) @ r = debug_text (DList us) @ q"
    for ts us r q
    using items_unique [OF TList that(1,2), of r q] that(3) by simp
  then show ?case unfolding uniquely_read_def has_shape.simps by blast
next
  case (TStruct n Ts e)
  then show ?case by (intro struct_unique) (auto simp: snds.simps)
qed

lemma debug_text_inj: "has_shape T t \<Longrightarrow> has_shape T u \<Longrightarrow> debug_text t = debug_text u \<longleftrightarrow> t = u"
  using uniquely_readD [OF shape_unique, of T t u "[]" "[]"] by auto

section \<open>What the printers show\<close>

text \<open>The visible part of a value: everything the printer does not show is blank.\<close>

definition visible_function_entry :: "function_entry \<Rightarrow> function_entry" where
  "visible_function_entry e = e\<lparr>fe_module_ref := [], fe_metrics := []\<rparr>"

definition visible_sql_user_config :: "sql_user_config \<Rightarrow> sql_user_config" where
  "visible_sql_user_config u = u\<lparr>su_connection_url := []\<rparr>"

definition visible_function_config :: "function_config \<Rightarrow> function_config" where
  "visible_function_config f = f\<lparr>fc_module_ref := []\<rparr>"

definition visible_application_config :: "application_message \<Rightarrow> application_message" where
  "visible_application_config a = a\<lparr>ac_functions := map visible_function_config (ac_functions a),
     ac_sql_users := map visible_sql_user_config (ac_sql_users a), ac_metrics := [], ac_env := []\<rparr>"

definition visible_http_request_payload :: "http_request_payload \<Rightarrow> http_request_payload" where
  "visible_http_request_payload p = p\<lparr>hp_path := [], hp_query := [], hp_headers := [], hp_body := None\<rparr>"

definition visible_http_response_payload :: "http_response_payload \<Rightarrow> http_response_payload" where
  "visible_http_response_payload p = p\<lparr>pr_headers := [], pr_body := None\<rparr>"

subsection \<open>The trees\<close>

lemmas printer_defs = debug_function_entry_def debug_sql_user_config_def debug_redis_connection_config_def
  debug_function_config_def debug_application_config_def debug_http_request_payload_def debug_http_response_payload_def
  debug_nats_connection_info_def

lemma debug_option_shape [simp]: "has_shape (TOption TStr) (debug_option v)"
  by (simp add: debug_option_def split: option.split)

lemma debug_option_inj [simp]: "debug_option v = debug_option w \<longleftrightarrow> v = w"
  by (simp add: debug_option_def split: option.split)

lemma debug_world_type_shape [simp]: "has_shape TVariant (debug_world_type w)"
  by (simp add: debug_world_type_def ident_def split: world_type.split)

lemma debug_world_type_inj [simp]: "debug_world_type v = debug_world_type w \<longleftrightarrow> v = w"
  by (simp add: debug_world_type_def split: world_type.split)

lemma REDACTED_shape [simp]: "has_shape TStr REDACTED"
  by (simp add: REDACTED_def)

definition sql_user_shape :: shape where
  "sql_user_shape = TStruct ''SqlUserConfig'' [(''username'', TStr), (''connection_url'', TStr)] True"

definition function_shape :: shape where
  "function_shape = TStruct ''FunctionConfig'' [(''name'', TStr), (''module_ref'', TStr), (''world_type'', TInt),
     (''topic'', TOption TStr), (''sql_username'', TOption TStr)] False"

lemma message_shapes [simp]:
  "has_shape sql_user_shape (debug_sql_user_config u)" "has_shape function_shape (debug_function_config f)"
  by (simp_all add: sql_user_shape_def function_shape_def printer_defs ident_def del: has_shape.simps(1,5))
    (simp_all add: REDACTED_def)

lemma message_trees:
  "debug_sql_user_config u = debug_sql_user_config v \<longleftrightarrow> visible_sql_user_config u = visible_sql_user_config v"
  "debug_function_config f = debug_function_config g \<longleftrightarrow> visible_function_config f = visible_function_config g"
  by (cases u; cases v; simp add: printer_defs visible_sql_user_config_def)
    (cases f; cases g; simp add: printer_defs visible_function_config_def)

lemma message_lists:
  "map debug_sql_user_config us = map debug_sql_user_config vs \<longleftrightarrow> map visible_sql_user_config us = map visible_sql_user_config vs"
  "map debug_function_config fs = map debug_function_config gs \<longleftrightarrow> map visible_function_config fs = map visible_function_config gs"
  by (simp_all add: list_eq_iff_nth_eq message_trees cong: conj_cong)

lemma visible_iff:
  "debug_function_entry e = debug_function_entry e' \<longleftrightarrow> visible_function_entry e = visible_function_entry e'"
  "debug_application_config a = debug_application_config a' \<longleftrightarrow> visible_application_config a = visible_application_config a'"
  "debug_http_request_payload p = debug_http_request_payload p' \<longleftrightarrow> visible_http_request_payload p = visible_http_request_payload p'"
  "debug_http_response_payload s = debug_http_response_payload s' \<longleftrightarrow> visible_http_response_payload s = visible_http_response_payload s'"
proof -
  show "debug_function_entry e = debug_function_entry e' \<longleftrightarrow> visible_function_entry e = visible_function_entry e'"
    by (cases e; cases e'; simp add: printer_defs visible_function_entry_def)
  show "debug_application_config a = debug_application_config a' \<longleftrightarrow> visible_application_config a = visible_application_config a'"
    by (cases a; cases a'; simp add: debug_application_config_def visible_application_config_def message_lists)
  show "debug_http_request_payload p = debug_http_request_payload p' \<longleftrightarrow> visible_http_request_payload p = visible_http_request_payload p'"
    by (cases p; cases p'; simp add: printer_defs visible_http_request_payload_def)
  show "debug_http_response_payload s = debug_http_response_payload s' \<longleftrightarrow> visible_http_response_payload s = visible_http_response_payload s'"
    by (cases s; cases s'; simp add: printer_defs visible_http_response_payload_def)
qed

definition function_entry_shape :: shape where
  "function_entry_shape = TStruct ''FunctionEntry'' [(''app_name'', TStr), (''app_namespace'', TStr), (''function_name'', TStr),
     (''module_ref'', TStr), (''world_type'', TVariant), (''sql_username'', TOption TStr), (''kv_enabled'', TBool)] False"

definition application_shape :: shape where
  "application_shape = TStruct ''ApplicationConfig'' [(''name'', TStr), (''namespace'', TStr), (''functions'', TList function_shape),
     (''env'', TStr), (''sql_users'', TList sql_user_shape), (''key_value'', TBool)] False"

definition request_shape :: shape where
  "request_shape = TStruct ''HttpRequestPayload'' [(''method'', TStr), (''path'', TStr), (''query'', TStr), (''headers'', TStr),
     (''body'', TStr)] True"

definition response_shape :: shape where
  "response_shape = TStruct ''HttpResponsePayload'' [(''status'', TInt), (''headers'', TStr), (''body'', TStr)] True"

lemma ident_names:
  "ident ''FunctionEntry''" "ident ''ApplicationConfig''" "ident ''HttpRequestPayload''" "ident ''HttpResponsePayload''"
  by (simp_all add: ident_def)

lemma printer_shapes:
  "has_shape function_entry_shape (debug_function_entry e)" "has_shape application_shape (debug_application_config a)"
  "has_shape request_shape (debug_http_request_payload p)" "has_shape response_shape (debug_http_response_payload s)"
proof -
  show "has_shape function_entry_shape (debug_function_entry e)"
    using debug_option_shape [of "fe_sql_username e"] debug_world_type_shape [of "fe_world_type e"]
    by (simp add: function_entry_shape_def debug_function_entry_def ident_names REDACTED_def)
  show "has_shape application_shape (debug_application_config a)"
    by (simp add: application_shape_def debug_application_config_def ident_names REDACTED_def)
  show "has_shape request_shape (debug_http_request_payload p)" "has_shape response_shape (debug_http_response_payload s)"
    by (simp_all add: request_shape_def response_shape_def debug_http_request_payload_def debug_http_response_payload_def
        ident_names REDACTED_def)
qed

lemma visible_fields:
  "visible_http_request_payload p = visible_http_request_payload p' \<longleftrightarrow> hp_method p = hp_method p'"
  "visible_http_response_payload s = visible_http_response_payload s' \<longleftrightarrow> pr_status s = pr_status s'"
  "visible_sql_user_config u = visible_sql_user_config u' \<longleftrightarrow> su_username u = su_username u'"
proof -
  show "visible_http_request_payload p = visible_http_request_payload p' \<longleftrightarrow> hp_method p = hp_method p'"
    by (cases p; cases p'; simp add: visible_http_request_payload_def)
  show "visible_http_response_payload s = visible_http_response_payload s' \<longleftrightarrow> pr_status s = pr_status s'"
    by (cases s; cases s'; simp add: visible_http_response_payload_def)
  show "visible_sql_user_config u = visible_sql_user_config u' \<longleftrightarrow> su_username u = su_username u'"
    by (cases u; cases u'; simp add: visible_sql_user_config_def)
qed

section \<open>Properties\<close>

text \<open>
  C21 (safety). The log text of a configuration message, of a registered function and of an HTTP payload
  shows exactly its visible part: two values give the same text if and only if they agree on everything
  but module references, connection URLs, environments and metrics, and, for payloads, everything but
  the method or the status. The text of connection data is the same for all of it. So no secret has any
  influence on a log line, and the visible fields can be read back from it.
\<close>

theorem debug_text_redacts:
  "(debug_text (debug_application_config a) = debug_text (debug_application_config a')
      \<longleftrightarrow> visible_application_config a = visible_application_config a')
   \<and> (debug_text (debug_function_config f) = debug_text (debug_function_config f')
      \<longleftrightarrow> visible_function_config f = visible_function_config f')
   \<and> (debug_text (debug_sql_user_config u) = debug_text (debug_sql_user_config u') \<longleftrightarrow> su_username u = su_username u')
   \<and> (debug_text (debug_function_entry e) = debug_text (debug_function_entry e')
      \<longleftrightarrow> visible_function_entry e = visible_function_entry e')
   \<and> (debug_text (debug_http_request_payload p) = debug_text (debug_http_request_payload p') \<longleftrightarrow> hp_method p = hp_method p')
   \<and> (debug_text (debug_http_response_payload s) = debug_text (debug_http_response_payload s') \<longleftrightarrow> pr_status s = pr_status s')
   \<and> debug_text (debug_redis_connection_config c) = debug_text (debug_redis_connection_config c')
   \<and> debug_text (debug_nats_connection_info n) = debug_text (debug_nats_connection_info n')"
proof -
  note visible = visible_fields(1) [of p p'] visible_fields(2) [of s s'] visible_fields(3) [of u u']
  have "debug_text (debug_redis_connection_config c) = debug_text (debug_redis_connection_config c')"
    "debug_text (debug_nats_connection_info n) = debug_text (debug_nats_connection_info n')"
    by (simp_all only: debug_redis_connection_config_def debug_nats_connection_info_def)
  then show ?thesis
    using visible debug_text_inj [OF printer_shapes(1) printer_shapes(1), of e e'] debug_text_inj [OF printer_shapes(2) printer_shapes(2), of a a']
      debug_text_inj [OF printer_shapes(3) printer_shapes(3), of p p'] debug_text_inj [OF printer_shapes(4) printer_shapes(4), of s s']
      debug_text_inj [OF message_shapes(1) message_shapes(1), of u u'] debug_text_inj [OF message_shapes(2) message_shapes(2), of f f']
    by (simp only: visible_iff message_trees simp_thms)
qed

end
