(* ===== verification/Invocation.thy ===== *)
theory Invocation
  imports DispatchMetrics
begin

text \<open>
  \<open>src/components/execution-host/src/invocation.rs\<close>: the budget of one invocation. Its state is
  shared by the queue, the guest's thread and the supervisor: the deadline, the cancellation flag,
  the cleanup tasks and the execution guard. Operations that touch the accounting pass the dispatch
  metrics along. Time is a natural number read from the clock at each operation. A future under
  \<open>run\<close> is given by what each poll finds, in the order of the polls.
\<close>

section \<open>Definitions\<close>

datatype join_error = TaskPanicked | TaskAborted

record cleanup_tasks =
  cl_running :: nat
  cl_done :: "join_error option list"
  cl_failure :: "string option"

record invocation =
  inv_deadline :: nat
  inv_cancelled :: bool
  inv_cleanup :: cleanup_tasks
  inv_metered :: bool
  inv_execution :: "execution option"

definition cleanup_collect :: "join_error option \<Rightarrow> cleanup_tasks \<Rightarrow> cleanup_tasks" where
  "cleanup_collect result c =
     (case result of
        None \<Rightarrow> c
      | Some error \<Rightarrow>
          (let failure = (case error of TaskPanicked \<Rightarrow> ''backend cleanup panicked''
                          | TaskAborted \<Rightarrow> ''backend cleanup was cancelled'')
           in (case cl_failure c of
                 None \<Rightarrow> c\<lparr>cl_failure := Some failure\<rparr>
               | Some _ \<Rightarrow> c)))"

definition inv_build :: "nat \<Rightarrow> nat \<Rightarrow> bool \<Rightarrow> invocation" where
  "inv_build now timeout metered =
     \<lparr>inv_deadline = now + timeout, inv_cancelled = False,
      inv_cleanup = \<lparr>cl_running = 0, cl_done = [], cl_failure = None\<rparr>,
      inv_metered = metered, inv_execution = None\<rparr>"

definition inv_cancel ::
  "nat \<Rightarrow> invocation \<times> dispatch_metrics \<Rightarrow> invocation \<times> dispatch_metrics" where
  "inv_cancel now = (\<lambda>(i, m).
     (let i = i\<lparr>inv_cancelled := True\<rparr>
      in (case inv_execution i of
            Some e \<Rightarrow> (case execution_terminating now e m of (e, m) \<Rightarrow> (i\<lparr>inv_execution := Some e\<rparr>, m))
          | None \<Rightarrow> (i, m))))"

definition stopped_message :: string where
  "stopped_message = ''invocation cancelled or deadline exceeded''"

text \<open>The condition of \<open>check\<close>: cancelled, or the deadline has passed.\<close>

definition inv_over :: "nat \<Rightarrow> invocation \<Rightarrow> bool" where
  "inv_over now i \<longleftrightarrow> inv_cancelled i \<or> inv_deadline i \<le> now"

definition inv_check ::
  "nat \<Rightarrow> invocation \<times> dispatch_metrics \<Rightarrow> (string + unit) \<times> invocation \<times> dispatch_metrics" where
  "inv_check now = (\<lambda>(i, m).
     if inv_over now i then (Inl stopped_message, inv_cancel now (i, m)) else (Inr (), i, m))"

text \<open>The assignment drops the guard it replaces.\<close>

definition start_execution ::
  "nat \<Rightarrow> invocation \<times> dispatch_metrics \<Rightarrow> invocation \<times> dispatch_metrics" where
  "start_execution now = (\<lambda>(i, m).
     if inv_metered i
     then
       (case execution_started m of
          (e, m) \<Rightarrow>
            (let m = (case inv_execution i of Some old \<Rightarrow> execution_drop old m | None \<Rightarrow> m)
             in snd (inv_check now (i\<lparr>inv_execution := Some e\<rparr>, m))))
     else (i, m))"

definition ownership_drop :: "invocation \<times> dispatch_metrics \<Rightarrow> invocation \<times> dispatch_metrics" where
  "ownership_drop = (\<lambda>(i, m).
     (case inv_execution i of
        Some e \<Rightarrow> (i\<lparr>inv_execution := None\<rparr>, execution_drop e m)
      | None \<Rightarrow> (i, m)))"

text \<open>
  One poll of the biased selection in \<open>run\<close>: the cancellation is polled first, the future only
  when the invocation is not over. \<open>None\<close> is a pending selection.
\<close>

definition run_poll ::
  "nat \<Rightarrow> 'a option \<Rightarrow> invocation \<times> dispatch_metrics
     \<Rightarrow> (string + 'a) option \<times> invocation \<times> dispatch_metrics" where
  "run_poll now fut = (\<lambda>(i, m).
     if inv_over now i then (Some (Inl stopped_message), inv_cancel now (i, m))
     else (case fut of Some v \<Rightarrow> (Some (Inr v), i, m) | None \<Rightarrow> (None, i, m)))"

text \<open>
  A schedule is the list of polls: the time, whether another owner cancelled the invocation since
  the poll before, and what the future answers when it is polled.
\<close>

fun run_polls ::
  "(nat \<times> bool \<times> 'a option) list \<Rightarrow> invocation \<times> dispatch_metrics
     \<Rightarrow> (string + 'a) option \<times> invocation \<times> dispatch_metrics" where
  "run_polls [] s = (None, s)"
| "run_polls ((now, external, fut) # ps) s =
     (case run_poll now fut (if external then inv_cancel now s else s) of
        (None, s) \<Rightarrow> run_polls ps s
      | (Some r, s) \<Rightarrow> (Some r, s))"

definition inv_run ::
  "nat \<Rightarrow> (nat \<times> bool \<times> 'a option) list \<Rightarrow> invocation \<times> dispatch_metrics
     \<Rightarrow> (string + 'a) option \<times> invocation \<times> dispatch_metrics" where
  "inv_run now schedule s =
     (case inv_check now s of
        (Inl e, s) \<Rightarrow> (Some (Inl e), s)
      | (Inr _, s) \<Rightarrow> run_polls schedule s)"

text \<open>\<open>acquire_permit\<close>: the semaphore's future answers with a permit, or that it was closed.\<close>

definition acquire_permit ::
  "nat \<Rightarrow> (nat \<times> bool \<times> (unit + 'p) option) list \<Rightarrow> invocation \<times> dispatch_metrics
     \<Rightarrow> (string + 'p) option \<times> invocation \<times> dispatch_metrics" where
  "acquire_permit now schedule s =
     apfst (map_option (\<lambda>r. case r of
         Inl e \<Rightarrow> Inl e
       | Inr (Inl _) \<Rightarrow> Inl ''invocation admission closed''
       | Inr (Inr permit) \<Rightarrow> Inr permit)) (inv_run now schedule s)"

definition spawn_cleanup :: "invocation \<Rightarrow> invocation" where
  "spawn_cleanup i =
     (let c = fold cleanup_collect (cl_done (inv_cleanup i)) (inv_cleanup i)
      in i\<lparr>inv_cleanup := c\<lparr>cl_done := [], cl_running := Suc (cl_running c)\<rparr>\<rparr>)"

text \<open>A cleanup task ends: the runtime puts its result into the join set.\<close>

definition cleanup_exit :: "join_error option \<Rightarrow> invocation \<Rightarrow> invocation" where
  "cleanup_exit result i =
     (let c = inv_cleanup i
      in i\<lparr>inv_cleanup := c\<lparr>cl_running := cl_running c - 1, cl_done := cl_done c @ [result]\<rparr>\<rparr>)"

text \<open>
  \<open>finish\<close>: results are collected as they come; with tasks still running the caller waits, shown
  as \<open>None\<close>.
\<close>

definition inv_finish :: "invocation \<Rightarrow> (string + unit) option \<times> invocation" where
  "inv_finish i =
     (let c = (fold cleanup_collect (cl_done (inv_cleanup i)) (inv_cleanup i))\<lparr>cl_done := []\<rparr>;
          i = i\<lparr>inv_cleanup := c\<rparr>
      in if 0 < cl_running c then (None, i)
         else (Some (case cl_failure c of None \<Rightarrow> Inr () | Some failure \<Rightarrow> Inl failure), i))"

subsection \<open>Blocking invocations\<close>

datatype 'a work_result = Returned "'a anyhow" | Unwound

text \<open>\<open>BlockingInvocation::run\<close> after the work returned or unwound.\<close>

definition blocking_after_work ::
  "nat \<Rightarrow> 'a work_result \<Rightarrow> invocation \<times> dispatch_metrics \<Rightarrow> invocation \<times> dispatch_metrics" where
  "blocking_after_work now result s = (case result of Unwound \<Rightarrow> inv_cancel now s | Returned _ \<Rightarrow> s)"

definition blocking_result :: "'a work_result \<Rightarrow> (string + unit) \<Rightarrow> 'a work_result" where
  "blocking_result result cleanup =
     (case result of
        Returned r \<Rightarrow> (case cleanup of Inl e \<Rightarrow> Returned (Inl e) | Inr _ \<Rightarrow> Returned r)
      | Unwound \<Rightarrow> Unwound)"

text \<open>
  The rest of \<open>run\<close>: the wait for the cleanup, the check, and the drop of the fields in their
  order; the admission permit is the last field. \<open>None\<close> while cleanup tasks run, otherwise the
  result with the permit released.
\<close>

definition blocking_exit ::
  "nat \<Rightarrow> 'a work_result \<Rightarrow> invocation \<times> dispatch_metrics
     \<Rightarrow> 'a work_result option \<times> invocation \<times> dispatch_metrics" where
  "blocking_exit now result = (\<lambda>(i, m).
     (case inv_finish i of
        (None, i) \<Rightarrow> (None, i, m)
      | (Some cleanup, i) \<Rightarrow>
          (Some (blocking_result result cleanup), ownership_drop (snd (inv_check now (i, m))))))"

section \<open>Effect on the invocation\<close>

lemma inv_cancel_simps [simp]:
  "inv_cancelled (fst (inv_cancel now s))"
  "inv_deadline (fst (inv_cancel now s)) = inv_deadline (fst s)"
  "inv_cleanup (fst (inv_cancel now s)) = inv_cleanup (fst s)"
  "inv_metered (fst (inv_cancel now s)) = inv_metered (fst s)"
  "inv_execution (fst (inv_cancel now s)) = None \<longleftrightarrow> inv_execution (fst s) = None"
  by (cases s; simp add: inv_cancel_def Let_def split: option.split prod.split)+

lemma inv_check_fst: "fst (inv_check now s) = (if inv_over now (fst s) then Inl stopped_message else Inr ())"
  by (cases s) (simp add: inv_check_def)

lemma inv_check_snd: "snd (inv_check now s) = (if inv_over now (fst s) then inv_cancel now s else s)"
  by (cases s) (simp add: inv_check_def)

text \<open>
  A cancelled invocation that executes is counted as terminating. Every operation keeps this, also
  when the cancellation came before the start of the execution.
\<close>

definition inv_wf :: "invocation \<Rightarrow> bool" where
  "inv_wf i \<longleftrightarrow> (\<forall>e. inv_cancelled i \<longrightarrow> inv_execution i = Some e \<longrightarrow> terminating_at e \<noteq> None)"

lemma inv_wf_build: "inv_wf (inv_build now timeout metered)"
  by (simp add: inv_wf_def inv_build_def)

lemma inv_wf_cancel: "inv_wf (fst (inv_cancel now s))"
  by (cases s) (auto simp: inv_wf_def inv_cancel_def Let_def execution_terminating_def split: option.split)

lemma inv_wf_check: "inv_wf (fst s) \<Longrightarrow> inv_wf (fst (snd (inv_check now s)))"
  by (simp add: inv_check_snd inv_wf_cancel)

lemma inv_wf_start: "inv_wf (fst s) \<Longrightarrow> inv_wf (fst (start_execution now s))"
  by (cases s) (auto simp: start_execution_def inv_check_snd inv_wf_cancel Let_def split: prod.split,
      auto simp: inv_wf_def inv_over_def)

lemma inv_wf_drop: "inv_wf (fst s) \<Longrightarrow> inv_wf (fst (ownership_drop s))"
  by (cases s) (auto simp: inv_wf_def ownership_drop_def split: option.split)

text \<open>
  The first poll of \<open>cancelled()\<close> returns without a second cancellation when the flag is already
  set; on a well-formed invocation the second one changes nothing.
\<close>

lemma inv_cancel_idem:
  assumes "inv_wf (fst s)" "inv_cancelled (fst s)"
  shows "inv_cancel now s = s"
  using assms
  by (cases s) (auto simp: inv_wf_def inv_cancel_def Let_def execution_terminating_def split: option.split)

section \<open>The budget of \<open>run\<close>\<close>

lemma inv_over_cancel [simp]: "inv_over now (fst (inv_cancel t s))"
  by (simp add: inv_over_def)

lemma run_poll_plain: "run_poll now fut s =
    (if inv_over now (fst s) then (Some (Inl stopped_message), inv_cancel now s)
     else (map_option Inr fut, s))"
  by (cases s) (simp add: run_poll_def split: option.split)

lemma run_poll_external: "run_poll now fut (inv_cancel now s) =
    (Some (Inl stopped_message), inv_cancel now (inv_cancel now s))"
  by (simp add: run_poll_plain)

lemma run_polls_Cons:
  "run_polls ((now, external, fut) # ps) s =
     (if external then (Some (Inl stopped_message), inv_cancel now (inv_cancel now s))
      else if inv_over now (fst s) then (Some (Inl stopped_message), inv_cancel now s)
      else (case fut of Some v \<Rightarrow> (Some (Inr v), s) | None \<Rightarrow> run_polls ps s))"
  by (simp add: run_poll_external run_poll_plain split: option.split)

declare run_polls.simps(2) [simp del]
declare run_polls_Cons [simp]

lemma inv_run_eq:
  "inv_run now schedule s = (if inv_over now (fst s) then (Some (Inl stopped_message), inv_cancel now s)
     else run_polls schedule s)"
  by (cases s) (simp add: inv_run_def inv_check_def)

text \<open>A poll that leaves the selection pending: in time, not cancelled, the future not ready.\<close>

definition poll_pending :: "nat \<Rightarrow> nat \<times> bool \<times> 'a option \<Rightarrow> bool" where
  "poll_pending deadline = (\<lambda>(t, external, fut). t < deadline \<and> \<not> external \<and> fut = None)"

lemma run_polls_ready:
  assumes "fst (run_polls schedule s) = Some (Inr v)"
  shows "\<exists>pre t rest. schedule = pre @ (t, False, Some v) # rest \<and> t < inv_deadline (fst s)
    \<and> list_all (poll_pending (inv_deadline (fst s))) pre"
  using assms
proof (induction schedule)
  case (Cons p ps)
  obtain t external fut where p: "p = (t, external, fut)" by (cases p)
  show ?case
  proof (cases fut)
    case None
    with Cons p obtain pre t' rest where "ps = pre @ (t', False, Some v) # rest"
      "t' < inv_deadline (fst s)" "list_all (poll_pending (inv_deadline (fst s))) pre"
      by (auto split: if_splits)
    with None Cons.prems p show ?thesis
      by (intro exI [of _ "p # pre"]) (auto simp: poll_pending_def inv_over_def split: if_splits)
  next
    case (Some v')
    with Cons.prems p show ?thesis
      by (intro exI [of _ "[]"]) (auto simp: inv_over_def split: if_splits)
  qed
qed simp

lemma run_polls_state:
  "fst (run_polls schedule s) = Some (Inl e) \<Longrightarrow> e = stopped_message \<and> inv_cancelled (fst (snd (run_polls schedule s)))"
  "fst (run_polls schedule s) \<noteq> Some (Inl e) \<Longrightarrow> (\<nexists>e. fst (run_polls schedule s) = Some (Inl e)) \<Longrightarrow>
     snd (run_polls schedule s) = s"
  "inv_deadline (fst (snd (run_polls schedule s))) = inv_deadline (fst s)"
  by (induction schedule) (auto split: option.splits if_splits)

lemma run_polls_pending:
  "fst (run_polls schedule s) = None \<longleftrightarrow> schedule = [] \<or>
     \<not> inv_cancelled (fst s) \<and> list_all (poll_pending (inv_deadline (fst s))) schedule"
  by (induction schedule) (auto simp: poll_pending_def inv_over_def split: option.splits if_splits)

section \<open>Cleanup\<close>

text \<open>The history of an invocation's cleanup tasks: spawned, or ended with a result.\<close>

datatype cleanup_event = Spawned | Ended "join_error option"

definition cleanup_apply :: "cleanup_event \<Rightarrow> invocation \<Rightarrow> invocation" where
  "cleanup_apply ev i = (case ev of Spawned \<Rightarrow> spawn_cleanup i | Ended r \<Rightarrow> cleanup_exit r i)"

definition failure_message :: "join_error \<Rightarrow> string" where
  "failure_message e = (case e of TaskPanicked \<Rightarrow> ''backend cleanup panicked''
     | TaskAborted \<Rightarrow> ''backend cleanup was cancelled'')"

text \<open>The failures in the order in which the tasks ended, and the tasks still running.\<close>

fun ended_failures :: "cleanup_event list \<Rightarrow> join_error list" where
  "ended_failures [] = []"
| "ended_failures (Ended (Some e) # evs) = e # ended_failures evs"
| "ended_failures (_ # evs) = ended_failures evs"

fun cleanup_valid :: "nat \<Rightarrow> cleanup_event list \<Rightarrow> bool" where
  "cleanup_valid n [] \<longleftrightarrow> True"
| "cleanup_valid n (Spawned # evs) \<longleftrightarrow> cleanup_valid (Suc n) evs"
| "cleanup_valid n (Ended r # evs) \<longleftrightarrow> 0 < n \<and> cleanup_valid (n - 1) evs"

fun cleanup_left :: "nat \<Rightarrow> cleanup_event list \<Rightarrow> nat" where
  "cleanup_left n [] = n"
| "cleanup_left n (Spawned # evs) = cleanup_left (Suc n) evs"
| "cleanup_left n (Ended r # evs) = cleanup_left (n - 1) evs"

definition collected_failure :: "invocation \<Rightarrow> string option" where
  "collected_failure i = cl_failure (fold cleanup_collect (cl_done (inv_cleanup i)) (inv_cleanup i))"

lemma collect_frame [simp]:
  "cl_running (fold cleanup_collect rs c) = cl_running c" "cl_done (fold cleanup_collect rs c) = cl_done c"
  by (induction rs arbitrary: c) (auto simp: cleanup_collect_def Let_def split: option.split)

lemma collect_one:
  "cl_failure (cleanup_collect r c) =
     (case cl_failure c of Some f \<Rightarrow> Some f | None \<Rightarrow> map_option failure_message r)"
  by (simp add: cleanup_collect_def failure_message_def Let_def split: option.split)

lemma collect_failure:
  "cl_failure (fold cleanup_collect rs c) =
     (case cl_failure c of Some f \<Rightarrow> Some f
      | None \<Rightarrow> (case List.map_filter id rs of [] \<Rightarrow> None | e # _ \<Rightarrow> Some (failure_message e)))"
  by (induction rs arbitrary: c) (auto simp: collect_one map_filter_def split: option.split)

lemma collected_spawn: "collected_failure (spawn_cleanup i) = collected_failure i"
  by (simp add: collected_failure_def spawn_cleanup_def Let_def)

lemma collected_exit:
  "collected_failure (cleanup_exit r i) =
     (case collected_failure i of Some f \<Rightarrow> Some f | None \<Rightarrow> map_option failure_message r)"
  unfolding collected_failure_def cleanup_exit_def Let_def
  by (simp add: collect_one collect_failure split: option.split list.split)

lemma cleanup_history:
  "cleanup_valid (cl_running (inv_cleanup i)) evs \<Longrightarrow>
     collected_failure (fold cleanup_apply evs i) =
       (case collected_failure i of Some f \<Rightarrow> Some f
        | None \<Rightarrow> (case ended_failures evs of [] \<Rightarrow> None | e # _ \<Rightarrow> Some (failure_message e))) \<and>
     cl_running (inv_cleanup (fold cleanup_apply evs i)) = cleanup_left (cl_running (inv_cleanup i)) evs"
proof (induction evs arbitrary: i)
  case (Cons ev evs)
  show ?case
  proof (cases ev)
    case Spawned
    have "cl_running (inv_cleanup (spawn_cleanup i)) = Suc (cl_running (inv_cleanup i))"
      by (simp add: spawn_cleanup_def Let_def)
    then show ?thesis
      using Cons.IH [of "spawn_cleanup i"] Cons.prems unfolding Spawned
      by (simp add: cleanup_apply_def collected_spawn split: option.split)
  next
    case (Ended r)
    have "cl_running (inv_cleanup (cleanup_exit r i)) = cl_running (inv_cleanup i) - 1"
      by (simp add: cleanup_exit_def Let_def)
    then show ?thesis
      using Cons.IH [of "cleanup_exit r i"] Cons.prems unfolding Ended
      by (cases r) (simp_all add: cleanup_apply_def collected_exit split: option.split)
  qed
qed (simp split: option.split)

lemma inv_finish_iff:
  "fst (inv_finish i) = (if 0 < cl_running (inv_cleanup i) then None
     else Some (case collected_failure i of None \<Rightarrow> Inr () | Some f \<Rightarrow> Inl f))"
  by (simp add: inv_finish_def collected_failure_def Let_def)

section \<open>Properties\<close>

text \<open>
  C36 (safety). One budget covers every operation of an invocation: an operation that starts after
  the deadline or the cancellation is never polled; a value is returned only from a poll before
  the deadline and before any cancellation; an error leaves the invocation cancelled, so that
  every later operation fails; and the deadline never moves.
\<close>

theorem run_within_budget:
  "(inv_over now (fst s) \<longrightarrow> fst (inv_run now schedule s) = Some (Inl stopped_message))
   \<and> (fst (inv_run now schedule s) = Some (Inr v) \<longrightarrow> \<not> inv_over now (fst s)
       \<and> (\<exists>pre t rest. schedule = pre @ (t, False, Some v) # rest \<and> t < inv_deadline (fst s)
            \<and> list_all (poll_pending (inv_deadline (fst s))) pre))
   \<and> (fst (inv_run now schedule s) = Some (Inl e) \<longrightarrow> e = stopped_message
       \<and> (\<forall>later rest. fst (inv_run later (rest :: (nat \<times> bool \<times> 'a option) list) (snd (inv_run now schedule s)))
            = Some (Inl stopped_message)))
   \<and> inv_deadline (fst (snd (inv_run now schedule s))) = inv_deadline (fst s)"
proof -
  have sticky: "fst (inv_run later rest u) = Some (Inl stopped_message)" if "inv_cancelled (fst u)"
    for later and rest :: "(nat \<times> bool \<times> 'a option) list" and u
    using that by (simp add: inv_run_eq inv_over_def)
  have "inv_cancelled (fst (snd (inv_run now schedule s)))" if "fst (inv_run now schedule s) = Some (Inl e)"
    using that run_polls_state(1) [of schedule s] by (auto simp: inv_run_eq split: if_splits)
  then show ?thesis
    using run_polls_ready [of schedule s v] run_polls_state [of schedule s] sticky
    by (auto simp: inv_run_eq)
qed

theorem run_within_budget_witness:
  "fst (inv_run 0 [(1, False, None), (2, False, Some (7 :: nat))] (inv_build 0 5 True, dispatch_new)) = Some (Inr 7)
   \<and> fst (inv_run 5 [(6, False, Some (7 :: nat))] (inv_build 0 5 True, dispatch_new)) = Some (Inl stopped_message)"
  using run_within_budget [where now = 5 and s = "(inv_build 0 5 True, dispatch_new)"
      and schedule = "[(6, False, Some (7 :: nat))]"]
  by (simp add: inv_run_def inv_check_def inv_over_def inv_build_def)

text \<open>
  Waiting for the cleanup ends exactly when every spawned cleanup task has ended,
  and reports the first failure in the order in which they ended, or success if none failed,
  whether the results were collected by later spawns or by the wait itself.
\<close>

theorem finish_reports_first_failure:
  assumes "cleanup_valid 0 evs"
  shows "fst (inv_finish (fold cleanup_apply evs (inv_build now timeout metered))) =
    (if 0 < cleanup_left 0 evs then None
     else Some (case ended_failures evs of [] \<Rightarrow> Inr () | e # _ \<Rightarrow> Inl (failure_message e)))"
  using cleanup_history [of "inv_build now timeout metered" evs] assms
  by (simp add: inv_finish_iff inv_build_def collected_failure_def split: list.split)

theorem finish_reports_first_failure_witness:
  "fst (inv_finish (fold cleanup_apply
      [Spawned, Spawned, Ended None, Ended (Some TaskPanicked), Spawned, Ended (Some TaskAborted)]
      (inv_build 0 5 True))) = Some (Inl ''backend cleanup panicked'')"
  using finish_reports_first_failure [of
      "[Spawned, Spawned, Ended None, Ended (Some TaskPanicked), Spawned, Ended (Some TaskAborted)]" 0 5 True]
  by (simp add: failure_message_def)

text \<open>
  C37 (safety). The blocking thread gives up its admission only when nothing of the invocation is
  left: \<open>run\<close> returns exactly when no cleanup task is running, the execution guard is then gone, a
  panic stays a panic, and a failed cleanup turns a result into an error.
\<close>

theorem blocking_exit_complete:
  assumes "blocking_exit now result (i, m) = (r, i', m')"
  shows "(r = None \<longleftrightarrow> 0 < cl_running (inv_cleanup i))
    \<and> (r \<noteq> None \<longrightarrow> inv_execution i' = None \<and> cl_running (inv_cleanup i') = 0 \<and> cl_done (inv_cleanup i') = [])
    \<and> (r = None \<longrightarrow> inv_execution i' = inv_execution i \<and> m' = m)
    \<and> (r = Some (Returned (Inr v)) \<longrightarrow> result = Returned (Inr v) \<and> collected_failure i = None)
    \<and> (r = Some Unwound \<longleftrightarrow> result = Unwound \<and> r \<noteq> None)"
proof -
  have drop: "inv_execution (fst (ownership_drop s)) = None" "inv_cleanup (fst (ownership_drop s)) = inv_cleanup (fst s)"
    for s
    by (cases s; auto simp: ownership_drop_def split: option.split)+
  obtain f j where f: "inv_finish i = (f, j)" by fastforce
  have fin: "f = None \<longleftrightarrow> 0 < cl_running (inv_cleanup i)" "\<And>u. f = Some (Inr u) \<Longrightarrow> collected_failure i = None"
    using inv_finish_iff [of i] f by (auto split: if_splits option.splits)
  have j: "inv_execution j = inv_execution i" "cl_running (inv_cleanup j) = cl_running (inv_cleanup i)"
    "cl_done (inv_cleanup j) = []"
    using f by (auto simp: inv_finish_def Let_def split: if_splits)
  have check: "inv_cleanup (fst (snd (inv_check now (j, m)))) = inv_cleanup j" by (simp add: inv_check_snd)
  show ?thesis
  proof (cases f)
    case None
    then show ?thesis using assms f fin j by (auto simp: blocking_exit_def)
  next
    case (Some c)
    have r: "r = Some (blocking_result result c)" "(i', m') = ownership_drop (snd (inv_check now (j, m)))"
      using assms f Some by (simp_all add: blocking_exit_def)
    then show ?thesis
      using fin j Some drop [of "snd (inv_check now (j, m))"] check
      by (cases result; cases c) (auto simp: blocking_result_def dest: sym [of "(i', m')"])
  qed
qed

theorem blocking_exit_complete_witness:
  "fst (blocking_exit 9 (Returned (Inr (3 :: nat))) (cleanup_exit (Some TaskPanicked) (spawn_cleanup (inv_build 0 5 True)),
     dispatch_new)) = Some (Returned (Inl ''backend cleanup panicked''))
   \<and> fst (blocking_exit 9 (Returned (Inr (3 :: nat))) (spawn_cleanup (inv_build 0 5 True), dispatch_new)) = None"
proof -
  have "fst (blocking_exit 9 (Returned (Inr (3 :: nat))) (spawn_cleanup (inv_build 0 5 True), dispatch_new)) = None"
    using blocking_exit_complete [of 9 "Returned (Inr (3 :: nat))" "spawn_cleanup (inv_build 0 5 True)" dispatch_new]
    by (cases "blocking_exit 9 (Returned (Inr (3 :: nat))) (spawn_cleanup (inv_build 0 5 True), dispatch_new)")
      (simp add: spawn_cleanup_def inv_build_def)
  then show ?thesis
    by (simp add: blocking_exit_def inv_finish_def cleanup_exit_def spawn_cleanup_def inv_build_def
        cleanup_collect_def blocking_result_def)
qed

end
