(* ===== verification/InvocationSupervisor.thy ===== *)
theory InvocationSupervisor
  imports Invocation AppRegistry
begin

text \<open>
  \<open>src/components/execution-host/src/invocation_supervisor.rs\<close>, with the reply targets and the
  message intake of \<open>nats.rs\<close> it owns. The supervisor's state is a record: the message channel, the
  join set of tasks, the owned jobs, the slots in use, the accounting, and the invocations shared
  with threads and messages, by number. Its \<open>run\<close> loop is a transition relation, because the tasks,
  the guest threads, the intake and the configuration flag change between its steps. A fresh task
  or invocation number is one that is not in use.
\<close>

section \<open>Definitions\<close>

record inv_message =
  im_subject :: string
  im_reply :: "string option"
  im_payload :: bytes
  im_inv :: nat
  im_queued :: queued_work

record reply_target =
  rt_subject :: "string option"
  rt_client :: bool

datatype reply_outcome = Sent | NotRequested | Unavailable | Failed | TimedOut

text \<open>\<open>ReplyTarget::publish\<close>, from what the bounded publication answered.\<close>

definition reply_publish :: "reply_target \<Rightarrow> bytes option \<Rightarrow> (unit + unit) timed \<Rightarrow> reply_outcome" where
  "reply_publish target body result =
     (case (rt_subject target, body) of
        (Some _, Some _) \<Rightarrow>
          if \<not> rt_client target then Unavailable
          else (case result of Done (Inr _) \<Rightarrow> Sent | Done (Inl _) \<Rightarrow> Failed | Elapsed \<Rightarrow> TimedOut)
      | _ \<Rightarrow> NotRequested)"

record invocation_job =
  job_inv :: nat
  job_identity :: "string \<times> string \<times> string"
  job_reply :: reply_target
  job_record :: task_record
  authority_revoked :: bool

datatype owned_job = ExecutionJob invocation_job | ReplyJob string

datatype completion = ExecutionDone "bytes option anyhow" bool bool | ReplyDone

type_synonym join_result = "join_error + completion"

datatype exec_phase =
    Working
  | Cleaning "bytes option work_result"
  | Completing "bytes option anyhow"

text \<open>
  The tasks of the join set: an execution on its blocking thread, which owns its slot until
  \<open>Completing\<close>; a reply future, which owns its task record; or a task that has ended.
\<close>

datatype sup_task =
    ExecThread nat exec_phase
  | ReplyFuture task_record string reply_target "bytes option" bool
  | ExecEnded "join_error + bytes option anyhow \<times> bool \<times> bool"
  | ReplyEnded "join_error option"

datatype sup_phase = Idle | Admitting inv_message | Closing | Draining | Finished

record supervisor =
  sp_messages :: "inv_message list"
  sp_capacity :: nat
  sp_reserved :: bool
  sp_intake :: bool
  sp_slots :: nat
  sp_tasks :: "(nat, sup_task) hash_map"
  sp_jobs :: "(nat, owned_job) hash_map"
  sp_metrics :: dispatch_metrics
  sp_max_tracked :: nat
  sp_invs :: "(nat, invocation) hash_map"
  sp_phase :: sup_phase
  sp_synced :: bool
  sp_sync_changed :: bool
  sp_events :: "string \<times> string \<times> string \<Rightarrow> nat"

definition supervisor_new :: "nat \<Rightarrow> nat \<Rightarrow> bool \<Rightarrow> supervisor" where
  "supervisor_new capacity max_concurrent synced =
     \<lparr>sp_messages = [], sp_capacity = capacity, sp_reserved = False, sp_intake = True, sp_slots = 0,
      sp_tasks = [], sp_jobs = [],
      sp_metrics = configure (capacity + 1) max_concurrent max_concurrent dispatch_new,
      sp_max_tracked = max_concurrent, sp_invs = [], sp_phase = Idle, sp_synced = synced,
      sp_sync_changed = False, sp_events = (\<lambda>_. 0)\<rparr>"

text \<open>An operation on a shared invocation.\<close>

definition on_inv ::
  "(invocation \<times> dispatch_metrics \<Rightarrow> invocation \<times> dispatch_metrics) \<Rightarrow> nat \<Rightarrow> supervisor \<Rightarrow> supervisor" where
  "on_inv f n sp =
     (case hm_get (sp_invs sp) n of
        None \<Rightarrow> sp
      | Some i \<Rightarrow>
          (case f (i, sp_metrics sp) of
             (i, m) \<Rightarrow> sp\<lparr>sp_invs := hm_insert n i (sp_invs sp), sp_metrics := m\<rparr>))"

definition join_outcome :: "join_result \<Rightarrow> string" where
  "join_outcome result =
     (case result of Inr _ \<Rightarrow> ''ok'' | Inl TaskPanicked \<Rightarrow> ''panic'' | Inl TaskAborted \<Rightarrow> ''cancelled'')"

definition spawn_reply ::
  "nat \<Rightarrow> task_record \<Rightarrow> string \<Rightarrow> string \<Rightarrow> reply_target \<Rightarrow> bytes option \<Rightarrow> supervisor \<Rightarrow> supervisor" where
  "spawn_reply t record outcome execution_outcome target body sp =
     sp\<lparr>sp_tasks := hm_insert t
          (ReplyFuture (task_set_outcome ''cancelled'' record) outcome target body False) (sp_tasks sp),
        sp_jobs := hm_insert t (ReplyJob execution_outcome) (sp_jobs sp)\<rparr>"

text \<open>The end of the reply future: the record's outcome after the publication.\<close>

definition reply_record :: "string \<Rightarrow> reply_outcome \<Rightarrow> task_record \<Rightarrow> task_record" where
  "reply_record outcome result record =
     (let record = task_set_outcome outcome record
      in if result \<in> {Unavailable, Failed, TimedOut} \<and> outcome = ''success''
         then task_set_outcome ''error'' record else record)"

definition abort_task :: "nat \<Rightarrow> supervisor \<Rightarrow> supervisor" where
  "abort_task t sp =
     (case hm_get (sp_tasks sp) t of
        Some (ReplyFuture record outcome target body _) \<Rightarrow>
          sp\<lparr>sp_tasks := hm_insert t (ReplyFuture record outcome target body True) (sp_tasks sp)\<rparr>
      | _ \<Rightarrow> sp)"

definition revoke_job :: "nat \<Rightarrow> nat \<Rightarrow> supervisor \<Rightarrow> supervisor" where
  "revoke_job now t sp =
     (case hm_get (sp_jobs sp) t of
        Some (ExecutionJob job) \<Rightarrow>
          on_inv (inv_cancel now) (job_inv job)
            (sp\<lparr>sp_jobs := hm_insert t (ExecutionJob (job\<lparr>authority_revoked := True\<rparr>)) (sp_jobs sp)\<rparr>)
      | Some (ReplyJob _) \<Rightarrow> abort_task t sp
      | None \<Rightarrow> sp)"

text \<open>A message that is not dispatched: its invocation is cancelled where the code does so, and its queue guard dropped.\<close>

definition drop_queued :: "string option \<Rightarrow> inv_message \<Rightarrow> supervisor \<Rightarrow> supervisor" where
  "drop_queued outcome msg sp =
     sp\<lparr>sp_metrics := queued_drop
          (case outcome of Some v \<Rightarrow> queued_set_outcome v (im_queued msg) | None \<Rightarrow> im_queued msg)
          (sp_metrics sp)\<rparr>"

definition reject_message :: "nat \<Rightarrow> string option \<Rightarrow> inv_message \<Rightarrow> supervisor \<Rightarrow> supervisor" where
  "reject_message now outcome msg sp = drop_queued outcome msg (on_inv (inv_cancel now) (im_inv msg) sp)"

fun drain_messages :: "nat \<Rightarrow> string option \<Rightarrow> inv_message list \<Rightarrow> supervisor \<Rightarrow> supervisor" where
  "drain_messages now outcome [] sp = sp"
| "drain_messages now outcome (msg # msgs) sp =
     drain_messages now outcome msgs (reject_message now outcome msg (sp\<lparr>sp_messages := msgs\<rparr>))"

definition cancel_untrusted_work :: "nat \<Rightarrow> supervisor \<Rightarrow> supervisor" where
  "cancel_untrusted_work now sp =
     (let sp = fold (revoke_job now) (hm_keys (sp_jobs sp)) sp
      in drain_messages now (Some ''error'') (sp_messages sp) sp)"

text \<open>
  \<open>collect\<close>: the owned job of an ended task. \<open>encode\<close> is the JSON rendering of an error response;
  the result is \<open>None\<close> where the source panics.
\<close>

definition collect_outcome ::
  "(nat \<Rightarrow> string \<Rightarrow> bytes option) \<Rightarrow> join_result \<Rightarrow> (string \<times> bytes option) option" where
  "collect_outcome encode result =
     (case result of
        Inr (ExecutionDone r cancelled expired) \<Rightarrow>
          Some (if cancelled
                then (if expired then (''timeout'', encode 504 ''invocation timed out'')
                      else (''cancelled'', encode 500 ''invocation cancelled''))
                else
                  (case r of
                     Inr response \<Rightarrow> (''success'', response)
                   | Inl _ \<Rightarrow> (''error'', encode 500 ''internal error: invocation failed'')))
      | Inl e \<Rightarrow>
          Some (if e = TaskPanicked then ''panic'' else ''cancelled'',
                encode 500 ''internal error: execution panicked'')
      | Inr ReplyDone \<Rightarrow> None)"

definition collect ::
  "(nat \<Rightarrow> string \<Rightarrow> bytes option) \<Rightarrow> nat \<Rightarrow> join_result \<Rightarrow> nat \<Rightarrow> supervisor \<Rightarrow> supervisor option" where
  "collect encode t result t' sp =
     (case hm_get (sp_jobs sp) t of
        None \<Rightarrow> Some sp
      | Some job \<Rightarrow>
          (let sp = sp\<lparr>sp_jobs := hm_remove t (sp_jobs sp)\<rparr>
           in (case job of
                 ExecutionJob job \<Rightarrow>
                   if authority_revoked job
                   then Some (sp\<lparr>sp_metrics := task_reaped ''cancelled''
                                (task_drop False (task_set_outcome ''cancelled'' (job_record job)) (sp_metrics sp))\<rparr>)
                   else
                     (case collect_outcome encode result of
                        None \<Rightarrow> None
                      | Some (outcome, response) \<Rightarrow>
                          Some (spawn_reply t' (job_record job) outcome (join_outcome result) (job_reply job) response sp))
               | ReplyJob execution_outcome \<Rightarrow>
                   (let outcome = (if isl result then join_outcome result else execution_outcome)
                    in Some (sp\<lparr>sp_metrics := task_reaped outcome (sp_metrics sp)\<rparr>)))))"

text \<open>\<open>spawn_execution\<close>: the permit moves into the thread.\<close>

definition spawn_execution :: "nat \<Rightarrow> nat \<Rightarrow> invocation_job \<Rightarrow> supervisor \<Rightarrow> supervisor" where
  "spawn_execution now t job sp =
     (let sp = on_inv (start_execution now) (job_inv job) sp
      in sp\<lparr>sp_tasks := hm_insert t (ExecThread (job_inv job) Working) (sp_tasks sp),
            sp_jobs := hm_insert t (ExecutionJob job) (sp_jobs sp)\<rparr>)"

text \<open>
  The body of the dispatch loop after a permit was granted. The two lookups are arguments; an
  early return drops the queue guard and the permit.
\<close>

definition dispatch_message ::
  "(string \<Rightarrow> function_entry option anyhow) \<Rightarrow> (string \<times> string \<times> string \<Rightarrow> 'c option anyhow)
     \<Rightarrow> bool \<Rightarrow> nat \<Rightarrow> nat \<Rightarrow> inv_message \<Rightarrow> supervisor \<Rightarrow> supervisor" where
  "dispatch_message by_topic component client now t msg sp =
     (case by_topic (im_subject msg) of
        Inl _ \<Rightarrow> drop_queued (Some ''error'') msg sp
      | Inr None \<Rightarrow> drop_queued (Some ''unknown_route'') msg sp
      | Inr (Some fn) \<Rightarrow>
          (case component (fe_app_namespace fn, fe_app_name fn, fe_function_name fn) of
             Inl _ \<Rightarrow> drop_queued (Some ''error'') msg sp
           | Inr None \<Rightarrow> drop_queued (Some ''module_unavailable'') msg sp
           | Inr (Some _) \<Rightarrow>
               if \<not> sp_synced sp \<or> sp_sync_changed sp then reject_message now (Some ''error'') msg sp
               else
                 (let sp = drop_queued (Some ''admitted'') msg sp;
                      key = (fe_app_name fn, fe_app_namespace fn,
                             (case fe_world_type fn of WorldHttp \<Rightarrow> ''http'' | WorldMessage \<Rightarrow> ''topic''));
                      sp = sp\<lparr>sp_events := (sp_events sp)(key := Suc (sp_events sp key))\<rparr>
                  in (case task_started (sp_metrics sp) of
                        (record, m) \<Rightarrow>
                          spawn_execution now t
                            \<lparr>job_inv = im_inv msg,
                             job_identity = (fe_app_name fn, fe_app_namespace fn, fe_function_name fn),
                             job_reply = \<lparr>rt_subject = im_reply msg, rt_client = client\<rparr>,
                             job_record = record, authority_revoked = False\<rparr>
                            (sp\<lparr>sp_metrics := m, sp_slots := Suc (sp_slots sp)\<rparr>)))))"

text \<open>The branch of a message whose budget ended while it waited for a slot.\<close>

definition expire_message ::
  "(nat \<Rightarrow> string \<Rightarrow> bytes option) \<Rightarrow> bool \<Rightarrow> nat \<Rightarrow> nat \<Rightarrow> inv_message \<Rightarrow> supervisor \<Rightarrow> supervisor" where
  "expire_message encode client now t msg sp =
     (let sp = on_inv (inv_cancel now) (im_inv msg) sp;
          sp = drop_queued (Some ''expired'') msg sp
      in (case task_started (sp_metrics sp) of
            (record, m) \<Rightarrow>
              spawn_reply t record ''timeout'' ''ok'' \<lparr>rt_subject = im_reply msg, rt_client = client\<rparr>
                (encode 504 ''invocation timed out'') (sp\<lparr>sp_metrics := m\<rparr>)))"

text \<open>The start of \<open>stop_and_drain\<close>.\<close>

definition begin_stop :: "nat \<Rightarrow> supervisor \<Rightarrow> supervisor" where
  "begin_stop now sp = sp\<lparr>sp_metrics := dispatch_stopped now (sp_metrics sp), sp_phase := Closing\<rparr>"

definition task_result :: "sup_task \<Rightarrow> join_result option" where
  "task_result k =
     (case k of
        ExecEnded (Inl e) \<Rightarrow> Some (Inl e)
      | ExecEnded (Inr (r, cancelled, expired)) \<Rightarrow> Some (Inr (ExecutionDone r cancelled expired))
      | ReplyEnded (Some e) \<Rightarrow> Some (Inl e)
      | ReplyEnded None \<Rightarrow> Some (Inr ReplyDone)
      | _ \<Rightarrow> None)"

text \<open>\<open>join_next_with_id\<close> followed by \<open>collect\<close>.\<close>

definition join_next ::
  "(nat \<Rightarrow> string \<Rightarrow> bytes option) \<Rightarrow> nat \<Rightarrow> nat \<Rightarrow> supervisor \<Rightarrow> supervisor option" where
  "join_next encode t t' sp =
     (case hm_get (sp_tasks sp) t of
        None \<Rightarrow> Some sp
      | Some k \<Rightarrow>
          (case task_result k of
             None \<Rightarrow> Some sp
           | Some result \<Rightarrow> collect encode t result t' (sp\<lparr>sp_tasks := hm_remove t (sp_tasks sp)\<rparr>)))"

subsection \<open>The supervisor as a transition system\<close>

definition fresh_task :: "nat \<Rightarrow> supervisor \<Rightarrow> bool" where
  "fresh_task t sp \<longleftrightarrow> hm_get (sp_tasks sp) t = None \<and> hm_get (sp_jobs sp) t = None"

definition set_task :: "nat \<Rightarrow> sup_task \<Rightarrow> supervisor \<Rightarrow> supervisor" where
  "set_task t k sp = sp\<lparr>sp_tasks := hm_insert t k (sp_tasks sp)\<rparr>"

text \<open>The phases in which the loop waits in a selection that joins tasks.\<close>

fun joins_tasks :: "sup_phase \<Rightarrow> bool" where
  "joins_tasks Idle = True"
| "joins_tasks (Admitting _) = True"
| "joins_tasks Draining = True"
| "joins_tasks _ = False"

text \<open>The environment: the intake, which reserves a channel permit before it takes a message, and the configuration flag.\<close>

inductive sup_env_step :: "supervisor \<Rightarrow> supervisor \<Rightarrow> bool" where
  intake_reserve: "sp_intake sp \<Longrightarrow> sp_phase sp \<in> {Idle} \<union> range Admitting \<Longrightarrow> \<not> sp_reserved sp \<Longrightarrow>
    length (sp_messages sp) < sp_capacity sp \<Longrightarrow> sup_env_step sp (sp\<lparr>sp_reserved := True\<rparr>)"
| intake_message: "sp_intake sp \<Longrightarrow> sp_reserved sp \<Longrightarrow> hm_get (sp_invs sp) n = None \<Longrightarrow>
    metrics_queued (sp_metrics sp) = (q, m) \<Longrightarrow>
    sup_env_step sp
      (sp\<lparr>sp_reserved := False, sp_metrics := m, sp_invs := hm_insert n (inv_build now timeout True) (sp_invs sp),
         sp_messages := sp_messages sp @
           [\<lparr>im_subject = subject, im_reply = reply, im_payload = payload, im_inv = n, im_queued = q\<rparr>]\<rparr>)"
| intake_exit: "sp_intake sp \<Longrightarrow> sup_env_step sp (sp\<lparr>sp_intake := False, sp_reserved := False\<rparr>)"
| sync_set: "sup_env_step sp (sp\<lparr>sp_synced := b, sp_sync_changed := True\<rparr>)"

text \<open>The loop of \<open>run\<close> while it waits for a message.\<close>

inductive sup_idle_step :: "supervisor \<Rightarrow> supervisor \<Rightarrow> bool" where
  idle_shutdown: "sp_phase sp = Idle \<Longrightarrow> sup_idle_step sp (begin_stop now sp)"
| idle_sync: "sp_phase sp = Idle \<Longrightarrow> sp_sync_changed sp \<Longrightarrow>
    sup_idle_step sp (cancel_untrusted_work now (sp\<lparr>sp_sync_changed := False\<rparr>))"
| idle_sync_closed: "sp_phase sp = Idle \<Longrightarrow> sup_idle_step sp (begin_stop now (cancel_untrusted_work now sp))"
| idle_closed: "sp_phase sp = Idle \<Longrightarrow> length (sp_jobs sp) < sp_max_tracked sp \<Longrightarrow> sp_messages sp = [] \<Longrightarrow>
    \<not> sp_intake sp \<Longrightarrow> sup_idle_step sp (begin_stop now sp)"
| idle_unsynced: "sp_phase sp = Idle \<Longrightarrow> length (sp_jobs sp) < sp_max_tracked sp \<Longrightarrow> sp_messages sp = msg # msgs \<Longrightarrow>
    \<not> sp_synced sp \<Longrightarrow> sup_idle_step sp (reject_message now (Some ''error'') msg (sp\<lparr>sp_messages := msgs\<rparr>))"
| idle_message: "sp_phase sp = Idle \<Longrightarrow> length (sp_jobs sp) < sp_max_tracked sp \<Longrightarrow> sp_messages sp = msg # msgs \<Longrightarrow>
    sp_synced sp \<Longrightarrow> sup_idle_step sp (sp\<lparr>sp_messages := msgs, sp_phase := Admitting msg\<rparr>)"

text \<open>The loop while a message waits for a slot, and the loop body.\<close>

inductive sup_admit_step :: "semaphore_api \<Rightarrow> (nat \<Rightarrow> string \<Rightarrow> bytes option) \<Rightarrow> supervisor \<Rightarrow> supervisor \<Rightarrow> bool"
  for sem :: "semaphore_api" and encode :: "(nat \<Rightarrow> string \<Rightarrow> bytes option)" where
  admit_shutdown: "sp_phase sp = Admitting msg \<Longrightarrow>
    sup_admit_step sem encode sp (begin_stop now (reject_message now None msg sp))"
| admit_sync: "sp_phase sp = Admitting msg \<Longrightarrow> sp_sync_changed sp \<Longrightarrow>
    sup_admit_step sem encode sp
      ((drop_queued (Some ''error'') msg (cancel_untrusted_work now (on_inv (inv_cancel now) (im_inv msg) sp)))
         \<lparr>sp_sync_changed := False, sp_phase := Idle\<rparr>)"
| admit_sync_closed: "sp_phase sp = Admitting msg \<Longrightarrow>
    sup_admit_step sem encode sp
      (begin_stop now (drop_queued (Some ''error'') msg (cancel_untrusted_work now (on_inv (inv_cancel now) (im_inv msg) sp))))"
| admit_expired: "sp_phase sp = Admitting msg \<Longrightarrow> hm_get (sp_invs sp) (im_inv msg) = Some i \<Longrightarrow> inv_over now i \<Longrightarrow>
    fresh_task t sp \<Longrightarrow> sup_admit_step sem encode sp (expire_message encode client now t msg (sp\<lparr>sp_phase := Idle\<rparr>))"
| admit_permit: "sp_phase sp = Admitting msg \<Longrightarrow> hm_get (sp_invs sp) (im_inv msg) = Some i \<Longrightarrow> \<not> inv_over now i \<Longrightarrow>
    sem_admits sem (sp_max_tracked sp) (sp_slots sp) \<Longrightarrow> fresh_task t sp \<Longrightarrow>
    sup_admit_step sem encode sp (dispatch_message by_topic (component :: _ \<Rightarrow> unit option anyhow) client now t msg (sp\<lparr>sp_phase := Idle\<rparr>))"

text \<open>The blocking threads with their invocations and cleanup tasks, and the reply futures.\<close>

inductive sup_task_step :: "supervisor \<Rightarrow> supervisor \<Rightarrow> bool" where
  guest_check: "hm_get (sp_tasks sp) t = Some (ExecThread n Working) \<Longrightarrow>
    sup_task_step sp (on_inv (snd \<circ> inv_check now) n sp)"
| guest_cleanup: "hm_get (sp_tasks sp) t = Some (ExecThread n Working) \<Longrightarrow>
    sup_task_step sp (on_inv (apfst spawn_cleanup) n sp)"
| cleanup_ended: "hm_get (sp_invs sp) n = Some i \<Longrightarrow> 0 < cl_running (inv_cleanup i) \<Longrightarrow>
    sup_task_step sp (on_inv (apfst (cleanup_exit r)) n sp)"
| work_done: "hm_get (sp_tasks sp) t = Some (ExecThread n Working) \<Longrightarrow>
    sup_task_step sp (set_task t (ExecThread n (Cleaning r)) (on_inv (blocking_after_work now r) n sp))"
| thread_exit: "hm_get (sp_tasks sp) t = Some (ExecThread n (Cleaning r)) \<Longrightarrow> hm_get (sp_invs sp) n = Some i \<Longrightarrow>
    blocking_exit now r (i, sp_metrics sp) = (Some (Returned v), s') \<Longrightarrow>
    sup_task_step sp
      (set_task t (ExecThread n (Completing v))
         ((on_inv (\<lambda>_. s') n sp)\<lparr>sp_slots := sp_slots sp - 1\<rparr>))"
| thread_panic: "hm_get (sp_tasks sp) t = Some (ExecThread n (Cleaning r)) \<Longrightarrow> hm_get (sp_invs sp) n = Some i \<Longrightarrow>
    blocking_exit now r (i, sp_metrics sp) = (Some Unwound, s') \<Longrightarrow>
    sup_task_step sp
      (set_task t (ExecEnded (Inl TaskPanicked)) ((on_inv (\<lambda>_. s') n sp)\<lparr>sp_slots := sp_slots sp - 1\<rparr>))"
| thread_complete: "hm_get (sp_tasks sp) t = Some (ExecThread n (Completing v)) \<Longrightarrow> hm_get (sp_invs sp) n = Some i \<Longrightarrow>
    sup_task_step sp
      (set_task t (ExecEnded (Inr (v, inv_over now i, inv_deadline i \<le> now'))) (on_inv (snd \<circ> inv_check now) n sp))"
| reply_done: "hm_get (sp_tasks sp) t = Some (ReplyFuture record outcome target body aborted) \<Longrightarrow>
    sup_task_step sp
      (set_task t (ReplyEnded None)
         (sp\<lparr>sp_metrics := task_drop False (reply_record outcome (reply_publish target body result) record) (sp_metrics sp)\<rparr>))"
| reply_failed: "hm_get (sp_tasks sp) t = Some (ReplyFuture record outcome target body aborted) \<Longrightarrow>
    (e = TaskAborted \<longrightarrow> aborted) \<Longrightarrow>
    sup_task_step sp
      (set_task t (ReplyEnded (Some e)) (sp\<lparr>sp_metrics := task_drop (e = TaskPanicked) record (sp_metrics sp)\<rparr>))"

text \<open>Collecting ended tasks, in the loop and in \<open>stop_and_drain\<close>.\<close>

inductive sup_drain_step :: "(nat \<Rightarrow> string \<Rightarrow> bytes option) \<Rightarrow> supervisor \<Rightarrow> supervisor \<Rightarrow> bool"
  for encode :: "(nat \<Rightarrow> string \<Rightarrow> bytes option)" where
  join: "joins_tasks (sp_phase sp) \<Longrightarrow> hm_get (sp_tasks sp) t = Some k \<Longrightarrow> task_result k \<noteq> None \<Longrightarrow> fresh_task t' sp \<Longrightarrow>
    join_next encode t t' sp = Some sp' \<Longrightarrow> sup_drain_step encode sp sp'"
| intake_joined: "sp_phase sp = Closing \<Longrightarrow> \<not> sp_intake sp \<Longrightarrow>
    sup_drain_step encode sp ((drain_messages now None (sp_messages sp) sp)\<lparr>sp_phase := Draining\<rparr>)"
| drained: "sp_phase sp = Draining \<Longrightarrow> sp_tasks sp = [] \<Longrightarrow>
    sup_drain_step encode sp (sp\<lparr>sp_metrics := drain_finished (sp_metrics sp), sp_phase := Finished\<rparr>)"

inductive sup_step ::
  "semaphore_api \<Rightarrow> (nat \<Rightarrow> string \<Rightarrow> bytes option) \<Rightarrow> supervisor \<Rightarrow> supervisor \<Rightarrow> bool"
  for sem :: semaphore_api and encode :: "nat \<Rightarrow> string \<Rightarrow> bytes option" where
  by_environment: "sup_env_step sp sp' \<Longrightarrow> sup_step sem encode sp sp'"
| by_idle: "sup_idle_step sp sp' \<Longrightarrow> sup_step sem encode sp sp'"
| by_admission: "sup_admit_step sem encode sp sp' \<Longrightarrow> sup_step sem encode sp sp'"
| by_task: "sup_task_step sp sp' \<Longrightarrow> sup_step sem encode sp sp'"
| by_drain: "sup_drain_step encode sp sp' \<Longrightarrow> sup_step sem encode sp sp'"

end
