(* ===== verification/SupervisorSafety.thy ===== *)
theory SupervisorSafety
  imports InvocationSupervisor
begin

text \<open>
  Proofs about the supervisor of \<open>InvocationSupervisor\<close>. Its state is related to the ledger of
  \<open>DispatchMetrics\<close> by counting the guards it owns; every step of the supervisor is a sequence of
  ledger steps within the configured limits, so the accounting results of the ledger hold of the
  supervisor, together with an invariant of its own tables.
\<close>

section \<open>Invocations and the ledger\<close>

definition running_w :: "invocation \<Rightarrow> nat" where
  "running_w i = (case inv_execution i of Some e \<Rightarrow> of_bool (terminating_at e = None) | None \<Rightarrow> 0)"

definition terminating_w :: "invocation \<Rightarrow> nat" where
  "terminating_w i = (case inv_execution i of Some e \<Rightarrow> of_bool (terminating_at e \<noteq> None) | None \<Rightarrow> 0)"

definition inv_after :: "ledger \<Rightarrow> invocation \<Rightarrow> invocation \<times> dispatch_metrics \<Rightarrow> ledger" where
  "inv_after l i s =
     l\<lparr>lg := snd s, o_running := o_running l - running_w i + running_w (fst s),
       o_terminating := o_terminating l - terminating_w i + terminating_w (fst s)\<rparr>"

definition inv_owned :: "ledger \<Rightarrow> invocation \<Rightarrow> bool" where
  "inv_owned l i \<longleftrightarrow> running_w i \<le> o_running l \<and> terminating_w i \<le> o_terminating l"

text \<open>
  An operation on an invocation that the bounded ledger can follow and that neither starts an
  execution nor touches the stop time.
\<close>

definition inv_sim :: "(invocation \<times> dispatch_metrics \<Rightarrow> invocation \<times> dispatch_metrics) \<Rightarrow> bool" where
  "inv_sim f \<longleftrightarrow>
     (\<forall>a b c l i. within a b c l \<longrightarrow> inv_owned l i \<longrightarrow> (bounded_step a b c)\<^sup>*\<^sup>* l (inv_after l i (f (i, lg l)))) \<and>
     (\<forall>s. inv_execution (fst s) = None \<longrightarrow> inv_execution (fst (f s)) = None) \<and>
     (\<forall>s. wc_stopped_at (counts (snd (f s))) = wc_stopped_at (counts (snd s)))"

lemma inv_simI:
  assumes "\<And>a b c l i. within a b c l \<Longrightarrow> inv_owned l i \<Longrightarrow> (bounded_step a b c)\<^sup>*\<^sup>* l (inv_after l i (f (i, lg l)))"
    and "\<And>s. inv_execution (fst s) = None \<Longrightarrow> inv_execution (fst (f s)) = None"
    and "\<And>s. wc_stopped_at (counts (snd (f s))) = wc_stopped_at (counts (snd s))"
  shows "inv_sim f"
  using assms by (simp add: inv_sim_def)

lemma inv_after_same: "inv_execution i' = inv_execution i \<Longrightarrow> inv_owned l i \<Longrightarrow> inv_after l i (i', lg l) = l"
  by (simp add: inv_after_def inv_owned_def running_w_def terminating_w_def)

lemma inv_sim_keep:
  assumes "\<And>i. inv_execution (g i) = inv_execution i"
  shows "inv_sim (apfst g)"
  using assms by (intro inv_simI) (simp_all add: inv_after_same)

lemma inv_sim_id: "inv_sim (\<lambda>s. s)"
  by (rule inv_simI) (simp_all add: inv_after_same)

lemma inv_owned_after: "inv_owned l i \<Longrightarrow> inv_owned (inv_after l i s) (fst s)"
  by (auto simp: inv_owned_def inv_after_def)

lemma inv_after_after: "inv_owned l i \<Longrightarrow> inv_after (inv_after l i s) (fst s) s' = inv_after l i s'"
  by (auto simp: inv_after_def inv_owned_def)

lemma inv_simD:
  assumes "inv_sim f"
  shows "within a b c l \<Longrightarrow> inv_owned l i \<Longrightarrow> (bounded_step a b c)\<^sup>*\<^sup>* l (inv_after l i (f (i, lg l)))"
    and "inv_execution (fst s) = None \<Longrightarrow> inv_execution (fst (f s)) = None"
    and "wc_stopped_at (counts (snd (f s))) = wc_stopped_at (counts (snd s))"
  using assms unfolding inv_sim_def by blast+

lemma inv_sim_comp:
  assumes f: "inv_sim f" and g: "inv_sim g"
  shows "inv_sim (\<lambda>s. g (f s))"
proof (rule inv_simI)
  fix a b c l i
  assume w: "within a b c l" and ow: "inv_owned l i"
  let ?l = "inv_after l i (f (i, lg l))"
  have lf: "(bounded_step a b c)\<^sup>*\<^sup>* l ?l" using inv_simD(1) [OF f w ow] .
  have "(bounded_step a b c)\<^sup>*\<^sup>* ?l (inv_after ?l (fst (f (i, lg l))) (g (fst (f (i, lg l)), lg ?l)))"
    using inv_simD(1) [OF g bounded_steps_within [OF lf w] inv_owned_after [OF ow]] .
  then have "(bounded_step a b c)\<^sup>*\<^sup>* ?l (inv_after l i (g (f (i, lg l))))"
    using inv_after_after [OF ow] by (simp add: inv_after_def)
  with lf show "(bounded_step a b c)\<^sup>*\<^sup>* l (inv_after l i (g (f (i, lg l))))" by simp
qed (simp_all only: inv_simD(2,3) [OF f] inv_simD(2,3) [OF g])

lemma inv_sim_cancel: "inv_sim (inv_cancel now)"
proof (rule inv_simI)
  fix a b c l i
  assume w: "within a b c l" and ow: "inv_owned l i"
  show "(bounded_step a b c)\<^sup>*\<^sup>* l (inv_after l i (inv_cancel now (i, lg l)))"
  proof (cases "\<exists>e. inv_execution i = Some e \<and> terminating_at e = None")
    case True
    then obtain e n where e: "inv_execution i = Some e" "terminating_at e = None" "o_running l = Suc n"
      using ow by (cases "o_running l") (auto simp: inv_owned_def running_w_def)
    have "bounded_step a b c l (l\<lparr>lg := snd (execution_terminating now e (lg l)), o_running := n,
        o_terminating := Suc (o_terminating l)\<rparr>)"
      using e w by (intro bounded_stepI ledger_step.lg_terminating) (simp_all add: within_def)
    then show ?thesis
      using e by (simp add: inv_after_def inv_cancel_def running_w_def terminating_w_def
          execution_terminating_def Let_def split_beta r_into_rtranclp)
  next
    case False
    then have "inv_cancel now (i, lg l) = (i\<lparr>inv_cancelled := True\<rparr>, lg l)"
      by (auto simp: inv_cancel_def execution_terminating_def Let_def split: option.split)
    then show ?thesis using ow by (simp add: inv_after_same)
  qed
next
  show "wc_stopped_at (counts (snd (inv_cancel now s))) = wc_stopped_at (counts (snd s))" for s
    by (cases s) (auto simp: inv_cancel_def Let_def split_beta split: option.split)
qed simp

lemma inv_sim_check: "inv_sim (\<lambda>s. snd (inv_check now s))"
  by (rule inv_simI)
    (simp_all add: inv_check_snd inv_simD [OF inv_sim_cancel] inv_simD(1) [OF inv_sim_id])

lemma inv_sim_drop: "inv_sim ownership_drop"
proof (rule inv_simI)
  fix a b c l i
  assume w: "within a b c l" and ow: "inv_owned l i"
  show "(bounded_step a b c)\<^sup>*\<^sup>* l (inv_after l i (ownership_drop (i, lg l)))"
  proof (cases "inv_execution i")
    case None
    then show ?thesis using ow by (simp add: ownership_drop_def inv_after_same)
  next
    case (Some e)
    show ?thesis
    proof (cases "terminating_at e")
      case None
      with Some ow obtain n where n: "o_running l = Suc n"
        by (cases "o_running l") (auto simp: inv_owned_def running_w_def)
      have "bounded_step a b c l (l\<lparr>lg := execution_drop e (lg l), o_running := n\<rparr>)"
        using None n w by (intro bounded_stepI ledger_step.lg_execution_exit) (simp_all add: within_def)
      then show ?thesis
        using Some None n by (simp add: inv_after_def ownership_drop_def running_w_def terminating_w_def r_into_rtranclp)
    next
      case (Some d)
      with \<open>inv_execution i = Some e\<close> ow obtain n where n: "o_terminating l = Suc n"
        by (cases "o_terminating l") (auto simp: inv_owned_def terminating_w_def)
      have "bounded_step a b c l (l\<lparr>lg := execution_drop e (lg l), o_terminating := n\<rparr>)"
        using Some n w by (intro bounded_stepI ledger_step.lg_terminating_exit) (simp_all add: within_def)
      then show ?thesis
        using \<open>inv_execution i = Some e\<close> Some n
        by (simp add: inv_after_def ownership_drop_def running_w_def terminating_w_def r_into_rtranclp)
    qed
  qed
qed (auto simp: ownership_drop_def split: option.split)

lemma inv_sim_after_work: "inv_sim (blocking_after_work now r)"
proof -
  have "blocking_after_work now r = (case r of Unwound \<Rightarrow> inv_cancel now | Returned _ \<Rightarrow> (\<lambda>s. s))"
    by (rule ext) (simp add: blocking_after_work_def split: work_result.split)
  then show ?thesis using inv_sim_cancel inv_sim_id by (cases r) simp_all
qed

lemma inv_finish_execution: "inv_execution (snd (inv_finish i)) = inv_execution i"
  by (simp add: inv_finish_def Let_def)

definition exit_effect :: "nat \<Rightarrow> invocation \<times> dispatch_metrics \<Rightarrow> invocation \<times> dispatch_metrics" where
  "exit_effect now s = ownership_drop (snd (inv_check now (apfst (snd \<circ> inv_finish) s)))"

lemma inv_sim_exit: "inv_sim (exit_effect now)"
  unfolding exit_effect_def
  by (intro inv_sim_comp [OF _ inv_sim_drop] inv_sim_comp [OF _ inv_sim_check] inv_sim_keep)
    (simp add: inv_finish_execution)

lemma blocking_exit_effect:
  "blocking_exit now r (i, m) = (Some x, s') \<Longrightarrow> s' = exit_effect now (i, m)"
  by (auto simp: blocking_exit_def exit_effect_def split: prod.splits option.splits)

lemma exit_effect_execution: "inv_execution (fst (exit_effect now s)) = None"
  by (auto simp: exit_effect_def ownership_drop_def split: prod.split option.split)

text \<open>The start of an execution needs room for one more.\<close>

lemma start_execution_sim:
  assumes w: "within a b c l" and ow: "inv_owned l i" and room: "o_running l + o_terminating l < b"
  shows "(bounded_step a b c)\<^sup>*\<^sup>* l (inv_after l i (start_execution now (i, lg l)))"
proof (cases "inv_metered i")
  case False
  then show ?thesis using ow by (simp add: start_execution_def inv_after_same)
next
  case True
  let ?e = "fst (execution_started (lg l))" and ?m = "snd (execution_started (lg l))"
  let ?l = "l\<lparr>lg := ?m, o_running := Suc (o_running l)\<rparr>"
  let ?new = "i\<lparr>inv_execution := Some ?e\<rparr>"
  have e: "terminating_at ?e = None" by (simp add: execution_started_def Let_def)
  have s0: "bounded_step a b c l ?l"
    using w room by (intro bounded_stepI ledger_step.lg_execution) (simp_all add: within_def)
  have wl: "within a b c ?l" using w room by (simp add: within_def)
  have owl: "inv_owned ?l i" using ow by (auto simp: inv_owned_def)
  have s1: "(bounded_step a b c)\<^sup>*\<^sup>* ?l (inv_after ?l i (ownership_drop (i, ?m)))"
    using inv_simD(1) [OF inv_sim_drop wl owl] by simp
  let ?m1 = "snd (ownership_drop (i, ?m))"
  let ?l1 = "inv_after l i (?new, ?m1)"
  have drop: "ownership_drop (i, m) = (i\<lparr>inv_execution := None\<rparr>,
      case inv_execution i of Some old \<Rightarrow> execution_drop old m | None \<Rightarrow> m)" for m
    by (cases "inv_execution i") (simp_all add: ownership_drop_def)
  have l1: "inv_after ?l i (ownership_drop (i, ?m)) = ?l1"
    using ow e by (auto simp: inv_after_def drop running_w_def terminating_w_def inv_owned_def split: option.split)
  have "(bounded_step a b c)\<^sup>*\<^sup>* ?l1 (inv_after ?l1 ?new (snd (inv_check now (?new, lg ?l1))))"
    using inv_simD(1) [OF inv_sim_check bounded_steps_within [OF s1 wl]] l1 inv_owned_after [OF ow, of "(?new, ?m1)"]
    by simp
  moreover have "inv_after ?l1 ?new (snd (inv_check now (?new, lg ?l1))) = inv_after l i (start_execution now (i, lg l))"
    using inv_after_after [OF ow, of "(?new, ?m1)"] True
    by (simp add: start_execution_def drop split_beta Let_def inv_after_def)
  ultimately show ?thesis using s0 s1 unfolding l1 by (metis converse_rtranclp_into_rtranclp rtranclp_trans)
qed

lemma start_execution_stop: "wc_stopped_at (counts (snd (start_execution now s))) = wc_stopped_at (counts (snd s))"
  by (cases s) (auto simp: start_execution_def inv_simD(3) [OF inv_sim_check] split_beta Let_def split: option.split)

section \<open>The supervisor and the ledger\<close>

definition exec_job_w :: "owned_job \<Rightarrow> nat" where
  "exec_job_w j = (case j of ExecutionJob _ \<Rightarrow> 1 | ReplyJob _ \<Rightarrow> 0)"

definition live_reply_w :: "sup_task \<Rightarrow> nat" where
  "live_reply_w k = (case k of ReplyFuture _ _ _ _ _ \<Rightarrow> 1 | _ \<Rightarrow> 0)"

definition ended_reply_w :: "sup_task \<Rightarrow> nat" where
  "ended_reply_w k = (case k of ReplyEnded _ \<Rightarrow> 1 | _ \<Rightarrow> 0)"

text \<open>The threads that own a slot.\<close>

definition slot_w :: "sup_task \<Rightarrow> nat" where
  "slot_w k = (case k of ExecThread _ (Completing _) \<Rightarrow> 0 | ExecThread _ _ \<Rightarrow> 1 | _ \<Rightarrow> 0)"

definition admitting_w :: "sup_phase \<Rightarrow> nat" where
  "admitting_w ph = (case ph of Admitting _ \<Rightarrow> 1 | _ \<Rightarrow> 0)"

text \<open>The guards a supervisor owns, with \<open>x\<close> queue guards held outside its tables.\<close>

definition led :: "nat \<Rightarrow> supervisor \<Rightarrow> ledger" where
  "led x sp =
     \<lparr>lg = sp_metrics sp, o_queued = length (sp_messages sp) + admitting_w (sp_phase sp) + x,
      o_tasks = hm_total exec_job_w (sp_jobs sp) + hm_total live_reply_w (sp_tasks sp),
      o_completed = hm_total ended_reply_w (sp_tasks sp),
      o_running = hm_total running_w (sp_invs sp), o_terminating = hm_total terminating_w (sp_invs sp)\<rparr>"

lemma led_on_inv:
  assumes "hm_wf (sp_invs sp)" "hm_get (sp_invs sp) n = Some i"
  shows "led x (on_inv f n sp) = inv_after (led x sp) i (f (i, sp_metrics sp))" "inv_owned (led x sp) i"
  using assms hm_total_insert_old [OF assms, of running_w] hm_total_insert_old [OF assms, of terminating_w]
    hm_total_member [OF assms(2), of running_w] hm_total_member [OF assms(2), of terminating_w]
  by (auto simp: on_inv_def led_def inv_after_def inv_owned_def split_beta)
    (metis add_diff_cancel_right' diff_add_assoc2)+

lemma on_inv_sim:
  assumes "inv_sim f" "hm_wf (sp_invs sp)" "within a b c (led x sp)"
  shows "(bounded_step a b c)\<^sup>*\<^sup>* (led x sp) (led x (on_inv f n sp))"
proof (cases "hm_get (sp_invs sp) n")
  case None
  then show ?thesis by (simp add: on_inv_def)
next
  case (Some i)
  have "lg (led x sp) = sp_metrics sp" by (simp add: led_def)
  then show ?thesis
    using inv_simD(1) [OF assms(1,3) led_on_inv(2) [OF assms(2) Some]] led_on_inv(1) [OF assms(2) Some] by simp
qed

lemma drop_queued_sim:
  assumes "within a b c (led (Suc x) sp)"
  shows "(bounded_step a b c)\<^sup>*\<^sup>* (led (Suc x) sp) (led x (drop_queued u msg sp))"
proof -
  have "bounded_step a b c (led (Suc x) sp) (led x (drop_queued u msg sp))"
    using assms ledger_step.lg_dequeued [of "led (Suc x) sp" "length (sp_messages sp) + admitting_w (sp_phase sp) + x"]
    by (intro bounded_stepI) (simp_all add: drop_queued_def led_def within_def)
  then show ?thesis by (rule r_into_rtranclp)
qed

section \<open>Operations that only cancel\<close>

text \<open>
  Cancelling, revoking and aborting leave the tables alone up to the revocation and abort marks,
  start no execution and do not touch the stop time. This relation collects what they keep.
\<close>

fun task_shape :: "sup_task \<Rightarrow> sup_task" where
  "task_shape (ReplyFuture record outcome target body _) = ReplyFuture record outcome target body False"
| "task_shape k = k"

fun job_shape :: "owned_job \<Rightarrow> owned_job" where
  "job_shape (ExecutionJob job) = ExecutionJob (job\<lparr>authority_revoked := False\<rparr>)"
| "job_shape j = j"

definition inv_shrinks :: "(nat, invocation) hash_map \<Rightarrow> (nat, invocation) hash_map \<Rightarrow> bool" where
  "inv_shrinks m m' \<longleftrightarrow> (hm_wf m \<longrightarrow> hm_wf m') \<and> dom (hm_get m') = dom (hm_get m) \<and>
     (\<forall>n i'. hm_get m' n = Some i' \<longrightarrow> inv_execution i' \<noteq> None \<longrightarrow>
        (\<exists>i. hm_get m n = Some i \<and> inv_execution i \<noteq> None))"

definition calm :: "supervisor \<Rightarrow> supervisor \<Rightarrow> bool" where
  "calm sp sp' \<longleftrightarrow>
     map (apsnd task_shape) (sp_tasks sp') = map (apsnd task_shape) (sp_tasks sp) \<and>
     map (apsnd job_shape) (sp_jobs sp') = map (apsnd job_shape) (sp_jobs sp) \<and>
     inv_shrinks (sp_invs sp) (sp_invs sp') \<and> sp_capacity sp' = sp_capacity sp \<and> sp_reserved sp' = sp_reserved sp \<and>
     sp_intake sp' = sp_intake sp \<and> sp_slots sp' = sp_slots sp \<and> sp_max_tracked sp' = sp_max_tracked sp \<and>
     sp_phase sp' = sp_phase sp \<and> sp_synced sp' = sp_synced sp \<and> sp_sync_changed sp' = sp_sync_changed sp \<and>
     wc_stopped_at (counts (sp_metrics sp')) = wc_stopped_at (counts (sp_metrics sp))"

lemma inv_shrinks_refl: "inv_shrinks m m"
  by (simp add: inv_shrinks_def)

lemma inv_shrinks_trans: "inv_shrinks m m' \<Longrightarrow> inv_shrinks m' m'' \<Longrightarrow> inv_shrinks m m''"
proof -
  assume a: "inv_shrinks m m'" and b: "inv_shrinks m' m''"
  have "\<exists>i. hm_get m n = Some i \<and> inv_execution i \<noteq> None" if "hm_get m'' n = Some j" "inv_execution j \<noteq> None" for n j
    using a b that unfolding inv_shrinks_def by blast
  then show ?thesis using a b by (simp add: inv_shrinks_def)
qed

lemma calm_refl: "calm sp sp"
  by (simp add: calm_def inv_shrinks_refl)

lemma calm_trans: "calm sp sp' \<Longrightarrow> calm sp' sp'' \<Longrightarrow> calm sp sp''"
  by (auto simp: calm_def elim: inv_shrinks_trans)

lemma map_update: "map (apsnd f) (AList.update k v m) = AList.update k (f v) (map (apsnd f) m)"
  by (induction m) auto

lemma update_same: "map_of m k = Some v \<Longrightarrow> AList.update k v m = m"
  by (induction m) (auto split: if_splits)

lemma shape_update:
  assumes "map_of m k = Some u" "f v = f u"
  shows "map (apsnd f) (AList.update k v m) = map (apsnd f) m"
proof -
  have "map_of (map (apsnd f) m) k = Some (f u)"
    using assms(1) by (induction m) auto
  then show ?thesis using assms(2) by (simp add: map_update update_same)
qed

lemma calm_on_inv:
  assumes "inv_sim f"
  shows "calm sp (on_inv f n sp)" "sp_messages (on_inv f n sp) = sp_messages sp"
proof -
  have "inv_shrinks (sp_invs sp) (hm_insert n (fst (f (i, sp_metrics sp))) (sp_invs sp))"
    if "hm_get (sp_invs sp) n = Some i" for i
    using that inv_simD(2) [OF assms, of "(i, sp_metrics sp)"]
    by (cases "inv_execution i") (auto simp: inv_shrinks_def hm.lookup_upsert hm.wf_upsert split: if_splits)
  then show "calm sp (on_inv f n sp)"
    using inv_simD(3) [OF assms] calm_refl [of sp]
    by (auto simp: on_inv_def calm_def split_beta split: option.split)
  show "sp_messages (on_inv f n sp) = sp_messages sp"
    by (simp add: on_inv_def split_beta split: option.split)
qed

lemma calm_abort: "calm sp (abort_task t sp)" "sp_messages (abort_task t sp) = sp_messages sp"
  by (auto simp: abort_task_def calm_def inv_shrinks_refl shape_update split: option.split sup_task.split)

lemma calm_revoke: "calm sp (revoke_job now t sp)" "sp_messages (revoke_job now t sp) = sp_messages sp"
proof -
  have mark: "calm sp (sp\<lparr>sp_jobs := hm_insert t (ExecutionJob (job\<lparr>authority_revoked := True\<rparr>)) (sp_jobs sp)\<rparr>)"
    if "hm_get (sp_jobs sp) t = Some (ExecutionJob job)" for job
    using that by (simp add: calm_def inv_shrinks_refl shape_update)
  show "calm sp (revoke_job now t sp)"
    using calm_trans [OF mark calm_on_inv(1) [OF inv_sim_cancel]] calm_abort(1) calm_refl
    by (auto simp: revoke_job_def split: option.split owned_job.split)
  show "sp_messages (revoke_job now t sp) = sp_messages sp"
    by (auto simp: revoke_job_def calm_abort(2) calm_on_inv(2) [OF inv_sim_cancel] split: option.split owned_job.split)
qed

lemma calm_drop_queued: "calm sp (drop_queued u msg sp)" "sp_messages (drop_queued u msg sp) = sp_messages sp"
  by (simp_all add: calm_def drop_queued_def inv_shrinks_refl)

lemma calm_reject: "calm sp (reject_message now u msg sp)" "sp_messages (reject_message now u msg sp) = sp_messages sp"
  unfolding reject_message_def
  by (blast intro: calm_trans calm_drop_queued calm_on_inv [OF inv_sim_cancel])
    (simp add: calm_drop_queued calm_on_inv [OF inv_sim_cancel])

lemma calm_messages: "calm sp (sp\<lparr>sp_messages := msgs\<rparr>)"
  by (simp add: calm_def inv_shrinks_refl)

lemma calm_drain: "calm sp (drain_messages now u msgs sp)"
proof (induction now u msgs sp rule: drain_messages.induct)
  case (1 now u sp)
  show ?case by (simp add: calm_refl)
next
  case (2 now u msg msgs sp)
  then show ?case using calm_trans [OF calm_trans [OF calm_messages calm_reject(1)]] by simp
qed

lemma drain_messages_empty: "sp_messages (drain_messages now u (sp_messages sp) sp) = []"
proof -
  have "sp_messages sp = msgs \<Longrightarrow> sp_messages (drain_messages now u msgs sp) = []" for msgs
    by (induction now u msgs sp rule: drain_messages.induct) (simp_all add: calm_reject)
  then show ?thesis by simp
qed

lemma calm_revoke_all: "calm sp (fold (revoke_job now) ts sp)"
    "sp_messages (fold (revoke_job now) ts sp) = sp_messages sp"
  by (induction ts arbitrary: sp) (auto simp: calm_refl calm_revoke intro: calm_trans [OF calm_revoke(1)])

lemma calm_cancel_untrusted:
  "calm sp (cancel_untrusted_work now sp)" "sp_messages (cancel_untrusted_work now sp) = []"
  unfolding cancel_untrusted_work_def Let_def
  by (rule calm_trans [OF calm_revoke_all(1) calm_drain]) (rule drain_messages_empty)

lemma calm_wf_invs: "calm sp sp' \<Longrightarrow> hm_wf (sp_invs sp) \<Longrightarrow> hm_wf (sp_invs sp')"
  by (simp add: calm_def inv_shrinks_def)

lemma revoke_sim:
  assumes "hm_wf (sp_invs sp)" "within a b c (led x sp)"
  shows "(bounded_step a b c)\<^sup>*\<^sup>* (led x sp) (led x (revoke_job now t sp))"
proof -
  have mark: "led x (sp\<lparr>sp_jobs := hm_insert t (ExecutionJob (job\<lparr>authority_revoked := True\<rparr>)) (sp_jobs sp)\<rparr>) = led x sp"
    if "hm_get (sp_jobs sp) t = Some (ExecutionJob job)" for job
  proof -
    have "hm_total exec_job_w (hm_insert t (ExecutionJob (job\<lparr>authority_revoked := True\<rparr>)) m) = hm_total exec_job_w m"
      if "hm_get m t = Some (ExecutionJob job)" for m
      using that by (induction m) (auto simp: exec_job_w_def split: if_splits)
    then show ?thesis using that by (simp add: led_def)
  qed
  have abort: "led x (abort_task t sp) = led x sp"
  proof -
    have "hm_total w (hm_insert t k' m) = hm_total w m" if "hm_get m t = Some k" "w k' = w k" for m w and k k' :: sup_task
      using that by (induction m) (auto split: if_splits)
    then show ?thesis
      by (auto simp: abort_task_def led_def live_reply_w_def ended_reply_w_def split: option.split sup_task.split)
  qed
  have "(bounded_step a b c)\<^sup>*\<^sup>* (led x sp) (led x (on_inv (inv_cancel now) (job_inv job)
      (sp\<lparr>sp_jobs := hm_insert t (ExecutionJob (job\<lparr>authority_revoked := True\<rparr>)) (sp_jobs sp)\<rparr>)))"
    if "hm_get (sp_jobs sp) t = Some (ExecutionJob job)" for job
    using on_inv_sim [OF inv_sim_cancel, of "sp\<lparr>sp_jobs := hm_insert t (ExecutionJob (job\<lparr>authority_revoked := True\<rparr>))
      (sp_jobs sp)\<rparr>" a b c x now "job_inv job"] mark [OF that] assms by simp
  then show ?thesis
    using abort by (auto simp: revoke_job_def split: option.split owned_job.split)
qed

lemma revoke_all_sim:
  assumes "hm_wf (sp_invs sp)" "within a b c (led x sp)"
  shows "(bounded_step a b c)\<^sup>*\<^sup>* (led x sp) (led x (fold (revoke_job now) ts sp))"
  using assms
proof (induction ts arbitrary: sp)
  case (Cons t ts)
  note one = revoke_sim [OF Cons.prems, of now t]
  show ?case
    using rtranclp_trans [OF one Cons.IH] calm_wf_invs [OF calm_revoke(1) Cons.prems(1)]
      bounded_steps_within [OF one Cons.prems(2)] by simp
qed simp

lemma reject_sim:
  assumes "hm_wf (sp_invs sp)" "within a b c (led (Suc x) sp)"
  shows "(bounded_step a b c)\<^sup>*\<^sup>* (led (Suc x) sp) (led x (reject_message now u msg sp))"
proof -
  note one = on_inv_sim [OF inv_sim_cancel assms, of now "im_inv msg"]
  show ?thesis
    unfolding reject_message_def
    using rtranclp_trans [OF one drop_queued_sim [OF bounded_steps_within [OF one assms(2)]]] .
qed

lemma led_message: "sp_messages sp = msg # msgs \<Longrightarrow> led x sp = led (Suc x) (sp\<lparr>sp_messages := msgs\<rparr>)"
  by (simp add: led_def)

lemma drain_sim:
  assumes "sp_messages sp = msgs" "hm_wf (sp_invs sp)" "within a b c (led x sp)"
  shows "(bounded_step a b c)\<^sup>*\<^sup>* (led x sp) (led x (drain_messages now u msgs sp))"
  using assms
proof (induction now u msgs sp rule: drain_messages.induct)
  case (2 now u msg msgs sp)
  let ?sp = "reject_message now u msg (sp\<lparr>sp_messages := msgs\<rparr>)"
  have one: "(bounded_step a b c)\<^sup>*\<^sup>* (led x sp) (led x ?sp)"
    using reject_sim [of "sp\<lparr>sp_messages := msgs\<rparr>" a b c x now u msg] 2(2-4) by (simp add: led_message)
  have "hm_wf (sp_invs ?sp)"
    using calm_wf_invs [OF calm_reject(1)] 2(3) by simp
  then show ?case
    using rtranclp_trans [OF one 2(1)] bounded_steps_within [OF one 2(4)] by (simp add: calm_reject)
qed simp

lemma cancel_untrusted_sim:
  assumes "hm_wf (sp_invs sp)" "within a b c (led x sp)"
  shows "(bounded_step a b c)\<^sup>*\<^sup>* (led x sp) (led x (cancel_untrusted_work now sp))"
proof -
  note one = revoke_all_sim [OF assms, of now "hm_keys (sp_jobs sp)"]
  show ?thesis
    unfolding cancel_untrusted_work_def Let_def
    using rtranclp_trans [OF one drain_sim [OF refl calm_wf_invs [OF calm_revoke_all(1) assms(1)]
          bounded_steps_within [OF one assms(2)]]] .
qed

section \<open>Invariant\<close>

fun kinds_match :: "owned_job option \<Rightarrow> sup_task option \<Rightarrow> bool" where
  "kinds_match None None = True"
| "kinds_match (Some (ExecutionJob job)) (Some (ExecThread n _)) = (job_inv job = n)"
| "kinds_match (Some (ExecutionJob _)) (Some (ExecEnded _)) = True"
| "kinds_match (Some (ReplyJob _)) (Some (ReplyFuture _ _ _ _ _)) = True"
| "kinds_match (Some (ReplyJob _)) (Some (ReplyEnded _)) = True"
| "kinds_match _ _ = False"

definition tables_ok :: "supervisor \<Rightarrow> bool" where
  "tables_ok sp \<longleftrightarrow>
     hm_wf (sp_tasks sp) \<and> hm_wf (sp_jobs sp) \<and> (\<forall>t. kinds_match (hm_get (sp_jobs sp) t) (hm_get (sp_tasks sp) t)) \<and>
     sp_slots sp = hm_total slot_w (sp_tasks sp) \<and> sp_slots sp \<le> sp_max_tracked sp"

definition invs_ok :: "supervisor \<Rightarrow> bool" where
  "invs_ok sp \<longleftrightarrow>
     hm_wf (sp_invs sp) \<and>
     (\<forall>n i. hm_get (sp_invs sp) n = Some i \<longrightarrow> inv_execution i \<noteq> None \<longrightarrow>
        (\<exists>t ph. hm_get (sp_tasks sp) t = Some (ExecThread n ph) \<and> slot_w (ExecThread n ph) = 1)) \<and>
     (\<forall>t n ph. hm_get (sp_tasks sp) t = Some (ExecThread n ph) \<longrightarrow> n \<in> dom (hm_get (sp_invs sp)))"

definition pending_messages :: "supervisor \<Rightarrow> inv_message set" where
  "pending_messages sp = set (sp_messages sp) \<union> {msg. sp_phase sp = Admitting msg}"

definition queue_ok :: "supervisor \<Rightarrow> bool" where
  "queue_ok sp \<longleftrightarrow>
     im_inv ` pending_messages sp \<subseteq> dom (hm_get (sp_invs sp)) \<and>
     length (sp_messages sp) + of_bool (sp_reserved sp) \<le> sp_capacity sp \<and> (sp_reserved sp \<longrightarrow> sp_intake sp)"

definition phase_ok :: "supervisor \<Rightarrow> bool" where
  "phase_ok sp \<longleftrightarrow>
     length (sp_jobs sp) + admitting_w (sp_phase sp) \<le> sp_max_tracked sp \<and>
     (wc_stopped_at (counts (sp_metrics sp)) = None \<longleftrightarrow> sp_phase sp \<in> {Idle} \<union> range Admitting) \<and>
     (sp_phase sp \<in> {Draining, Finished} \<longrightarrow> sp_messages sp = [] \<and> \<not> sp_intake sp) \<and>
     (sp_phase sp = Finished \<longrightarrow> sp_tasks sp = [])"

definition sup_inv :: "supervisor \<Rightarrow> bool" where
  "sup_inv sp \<longleftrightarrow> tables_ok sp \<and> invs_ok sp \<and> queue_ok sp \<and> phase_ok sp"

lemma hm_total_card:
  assumes "hm_wf m" "\<And>v. f v \<le> 1"
  shows "hm_total f m = card {k. \<exists>v. map_of m k = Some v \<and> f v = 1}"
  using assms(1)
proof (induction m)
  case (Cons kv m)
  obtain k v where kv: "kv = (k, v)" by fastforce
  let ?S = "{k. \<exists>v. map_of m k = Some v \<and> f v = 1}"
  have k: "k \<notin> ?S" using Cons.prems kv by (auto dest: map_of_SomeD simp: image_iff)
  have fin: "finite ?S"
    by (rule finite_subset [OF _ finite_dom_map_of [of m]]) auto
  have "{k'. \<exists>v. map_of (kv # m) k' = Some v \<and> f v = 1} = (if f v = 1 then insert k ?S else ?S)"
    using k Cons.prems kv by (auto simp: map_of_eq_None_iff dest: map_of_SomeD)
  moreover have "f v = 0 \<or> f v = 1" using assms(2) [of v] by linarith
  ultimately show ?case using Cons k fin kv by auto
qed simp

lemma tracked_eq:
  assumes "tables_ok sp"
  shows "hm_total exec_job_w (sp_jobs sp) + hm_total live_reply_w (sp_tasks sp) + hm_total ended_reply_w (sp_tasks sp)
    = length (sp_jobs sp)"
proof -
  let ?rj = "\<lambda>j. 1 - exec_job_w j" and ?rt = "\<lambda>k. live_reply_w k + ended_reply_w k"
  have "(\<exists>j. hm_get (sp_jobs sp) t = Some j \<and> ?rj j = 1) \<longleftrightarrow> (\<exists>k. hm_get (sp_tasks sp) t = Some k \<and> ?rt k = 1)" for t
  proof -
    have "kinds_match (hm_get (sp_jobs sp) t) (hm_get (sp_tasks sp) t)" using assms by (simp add: tables_ok_def)
    then show ?thesis
      by (cases "(hm_get (sp_jobs sp) t, hm_get (sp_tasks sp) t)" rule: kinds_match.cases)
        (auto simp: exec_job_w_def live_reply_w_def ended_reply_w_def)
  qed
  then have "hm_total ?rj (sp_jobs sp) = hm_total ?rt (sp_tasks sp)"
    using assms by (subst (1 2) hm_total_card)
      (auto simp: tables_ok_def exec_job_w_def live_reply_w_def ended_reply_w_def split: sup_task.split owned_job.split)
  moreover have "hm_total ?rt m = hm_total live_reply_w m + hm_total ended_reply_w m" for m :: "(nat, sup_task) hash_map"
    by (induction m) auto
  moreover have "hm_total exec_job_w m + hm_total ?rj m = length m" for m :: "(nat, owned_job) hash_map"
    by (induction m) (auto simp: exec_job_w_def split: owned_job.split)
  ultimately show ?thesis by (metis add.assoc)
qed

lemma executions_le_slots:
  assumes "tables_ok sp" "invs_ok sp"
  shows "hm_total running_w (sp_invs sp) + hm_total terminating_w (sp_invs sp) \<le> sp_slots sp"
proof -
  let ?w = "\<lambda>i. running_w i + terminating_w i"
  let ?N = "{n. \<exists>i. hm_get (sp_invs sp) n = Some i \<and> ?w i = 1}"
  let ?T = "{t. \<exists>k. hm_get (sp_tasks sp) t = Some k \<and> slot_w k = 1}"
  let ?g = "\<lambda>t. case hm_get (sp_tasks sp) t of Some (ExecThread n _) \<Rightarrow> n | _ \<Rightarrow> 0"
  have w: "?w i = of_bool (inv_execution i \<noteq> None)" for i
    by (auto simp: running_w_def terminating_w_def split: option.split)
  have sum: "hm_total ?w m = hm_total running_w m + hm_total terminating_w m" for m :: "(nat, invocation) hash_map"
    by (induction m) auto
  have "?N \<subseteq> ?g ` ?T"
  proof
    fix n
    assume "n \<in> ?N"
    then obtain i where "hm_get (sp_invs sp) n = Some i" "inv_execution i \<noteq> None"
      by (auto simp: w of_bool_def split: if_splits)
    then obtain t ph where "hm_get (sp_tasks sp) t = Some (ExecThread n ph)" "slot_w (ExecThread n ph) = 1"
      using assms(2) unfolding invs_ok_def by blast
    then show "n \<in> ?g ` ?T" by (intro image_eqI [of _ _ t]) auto
  qed
  moreover have "finite ?T" by (rule finite_subset [OF _ finite_dom_map_of [of "sp_tasks sp"]]) auto
  ultimately have "card ?N \<le> card ?T" by (meson card_image_le card_mono finite_imageI order_trans)
  moreover have "hm_total ?w (sp_invs sp) = card ?N"
    using assms(2) w by (intro hm_total_card) (auto simp: invs_ok_def)
  moreover have "hm_total slot_w (sp_tasks sp) = card ?T"
    using assms(1) by (intro hm_total_card)
      (auto simp: tables_ok_def slot_w_def split: sup_task.split exec_phase.split)
  ultimately show ?thesis using assms(1) sum by (simp add: tables_ok_def)
qed

lemma sup_inv_within:
  assumes "sup_inv sp"
  shows "within (sp_capacity sp + 1) (sp_max_tracked sp) (sp_max_tracked sp) (led 0 sp)"
proof -
  have "admitting_w (sp_phase sp) \<le> 1" by (simp add: admitting_w_def split: sup_phase.split)
  then show ?thesis
    using assms tracked_eq [of sp] executions_le_slots [of sp]
    by (auto simp: sup_inv_def within_def led_def queue_ok_def phase_ok_def tables_ok_def)
qed

section \<open>Preservation\<close>

lemma get_shape: "map (apsnd f) m' = map (apsnd f) m \<Longrightarrow> map_option f (map_of m' k) = map_option f (map_of m k)"
proof -
  assume eq: "map (apsnd f) m' = map (apsnd f) m"
  have get: "map_of (map (apsnd f) x) k = map_option f (map_of x k)" for x
    by (induction x) auto
  show ?thesis using arg_cong [OF eq, of "\<lambda>x. map_of x k"] unfolding get .
qed

lemma keys_shape: "map (apsnd f) m' = map (apsnd f) m \<Longrightarrow> map fst m' = map fst m"
  by (metis (no_types, lifting) fst_comp_apsnd map_map)

lemma total_shape:
  assumes "map (apsnd f) m' = map (apsnd f) m" "\<And>v. w (f v) = w v"
  shows "hm_total w m' = hm_total w m"
proof -
  have "hm_total w x = hm_total w (map (apsnd f) x)" for x
    using assms(2) by (induction x) auto
  then show ?thesis using assms(1) by metis
qed

lemma task_shape_thread [simp]: "task_shape k = ExecThread n ph \<longleftrightarrow> k = ExecThread n ph"
  by (cases k) auto

lemma slot_shape: "slot_w (task_shape k) = slot_w k"
  by (cases k) (simp_all add: slot_w_def)

lemma option_shape_thread:
  "map_option task_shape x = Some (ExecThread n ph) \<longleftrightarrow> x = Some (ExecThread n ph)"
  by (cases x) auto

lemma kinds_shape: "kinds_match (map_option job_shape j) (map_option task_shape k) = kinds_match j k"
  by (cases "(j, k)" rule: kinds_match.cases) auto

lemma calm_tables: "calm sp sp' \<Longrightarrow> tables_ok sp \<Longrightarrow> tables_ok sp'"
proof -
  assume c: "calm sp sp'" and ok: "tables_ok sp"
  have tasks: "map (apsnd task_shape) (sp_tasks sp') = map (apsnd task_shape) (sp_tasks sp)"
    and jobs: "map (apsnd job_shape) (sp_jobs sp') = map (apsnd job_shape) (sp_jobs sp)"
    using c by (simp_all add: calm_def)
  have "kinds_match (hm_get (sp_jobs sp') t) (hm_get (sp_tasks sp') t) =
      kinds_match (hm_get (sp_jobs sp) t) (hm_get (sp_tasks sp) t)" for t
    using get_shape [OF tasks, of t] get_shape [OF jobs, of t] kinds_shape by metis
  moreover have "hm_total slot_w (sp_tasks sp') = hm_total slot_w (sp_tasks sp)"
    by (rule total_shape [OF tasks]) (rule slot_shape)
  ultimately show ?thesis
    using c ok keys_shape [OF tasks] keys_shape [OF jobs] by (simp add: tables_ok_def calm_def)
qed

lemma calm_invs: "calm sp sp' \<Longrightarrow> invs_ok sp \<Longrightarrow> invs_ok sp'"
proof -
  assume c: "calm sp sp'" and ok: "invs_ok sp"
  have thread: "hm_get (sp_tasks sp') t = Some (ExecThread n ph) \<longleftrightarrow> hm_get (sp_tasks sp) t = Some (ExecThread n ph)"
    for t n ph
    using c get_shape [of task_shape "sp_tasks sp'" "sp_tasks sp" t] option_shape_thread [of _ n ph]
    unfolding calm_def by metis
  have wf: "hm_wf (sp_invs sp')" and d: "dom (hm_get (sp_invs sp')) = dom (hm_get (sp_invs sp))"
    using c ok by (simp_all add: calm_def inv_shrinks_def invs_ok_def)
  have owner: "\<exists>t ph. hm_get (sp_tasks sp) t = Some (ExecThread n ph) \<and> slot_w (ExecThread n ph) = 1"
    if n: "hm_get (sp_invs sp') n = Some i'" "inv_execution i' \<noteq> None" for n i'
  proof -
    obtain i where "hm_get (sp_invs sp) n = Some i" "inv_execution i \<noteq> None"
      using c n unfolding calm_def inv_shrinks_def by blast
    then show ?thesis using ok unfolding invs_ok_def by blast
  qed
  show ?thesis
    unfolding invs_ok_def thread d using wf owner ok by (simp add: invs_ok_def)
qed

lemma calm_length_jobs: "calm sp sp' \<Longrightarrow> length (sp_jobs sp') = length (sp_jobs sp)"
proof -
  assume "calm sp sp'"
  then have "map (apsnd job_shape) (sp_jobs sp') = map (apsnd job_shape) (sp_jobs sp)" by (simp add: calm_def)
  from arg_cong [OF this, of length] show ?thesis by (simp only: length_map)
qed

lemma calm_fields:
  assumes "calm sp sp'"
  shows "sp_tasks sp' = [] \<longleftrightarrow> sp_tasks sp = []" "dom (hm_get (sp_invs sp')) = dom (hm_get (sp_invs sp))"
    "sp_capacity sp' = sp_capacity sp" "sp_reserved sp' = sp_reserved sp" "sp_intake sp' = sp_intake sp"
    "sp_slots sp' = sp_slots sp" "sp_max_tracked sp' = sp_max_tracked sp" "sp_phase sp' = sp_phase sp"
    "wc_stopped_at (counts (sp_metrics sp')) = wc_stopped_at (counts (sp_metrics sp))"
  using assms map_is_Nil_conv [of "apsnd task_shape"] unfolding calm_def inv_shrinks_def by metis+

lemma calm_inv:
  assumes c: "calm sp sp'" and inv: "sup_inv sp"
    and msgs: "set (sp_messages sp') \<subseteq> set (sp_messages sp)" "length (sp_messages sp') \<le> length (sp_messages sp)"
  shows "sup_inv sp'"
proof -
  note f = calm_fields [OF c]
  have "pending_messages sp' \<subseteq> pending_messages sp"
    using msgs(1) by (auto simp: pending_messages_def f)
  then have "im_inv ` pending_messages sp' \<subseteq> dom (hm_get (sp_invs sp'))"
    using inv unfolding sup_inv_def queue_ok_def f(2) by blast
  then have "queue_ok sp'"
    using inv msgs(2) by (simp add: sup_inv_def queue_ok_def f)
  moreover have "phase_ok sp'"
    using inv msgs by (auto simp: sup_inv_def phase_ok_def f calm_length_jobs [OF c])
  ultimately show ?thesis
    using inv calm_tables [OF c] calm_invs [OF c] by (simp add: sup_inv_def)
qed

text \<open>A step of the supervisor that the ledger follows.\<close>

definition sup_sim :: "supervisor \<Rightarrow> supervisor \<Rightarrow> bool" where
  "sup_sim sp sp' \<longleftrightarrow>
     (bounded_step (sp_capacity sp + 1) (sp_max_tracked sp) (sp_max_tracked sp))\<^sup>*\<^sup>* (led 0 sp) (led 0 sp') \<and>
     sp_capacity sp' = sp_capacity sp \<and> sp_max_tracked sp' = sp_max_tracked sp"

lemma sup_sim_trans: "sup_sim sp sp' \<Longrightarrow> sup_sim sp' sp'' \<Longrightarrow> sup_sim sp sp''"
  by (auto simp: sup_sim_def)

lemma sup_simI:
  assumes "(bounded_step (sp_capacity sp + 1) (sp_max_tracked sp) (sp_max_tracked sp))\<^sup>*\<^sup>* (led 0 sp) (led 0 sp')" "calm sp sp'"
  shows "sup_sim sp sp'"
  using assms by (simp add: sup_sim_def calm_def)

lemma sup_inv_wf_invs: "sup_inv sp \<Longrightarrow> hm_wf (sp_invs sp)"
  by (simp add: sup_inv_def invs_ok_def)

lemma on_inv_step:
  assumes "inv_sim f" "sup_inv sp"
  shows "sup_inv (on_inv f n sp)" "sup_sim sp (on_inv f n sp)"
  using calm_inv [OF calm_on_inv(1) [OF assms(1)] assms(2)] calm_on_inv [OF assms(1)]
    on_inv_sim [OF assms(1) sup_inv_wf_invs [OF assms(2)] sup_inv_within [OF assms(2)]]
  by (auto intro: sup_simI)

lemma cancel_untrusted_step:
  assumes "sup_inv sp"
  shows "sup_inv (cancel_untrusted_work now sp)" "sup_sim sp (cancel_untrusted_work now sp)"
  using calm_inv [OF calm_cancel_untrusted(1) assms] calm_cancel_untrusted
    cancel_untrusted_sim [OF sup_inv_wf_invs [OF assms] sup_inv_within [OF assms]]
  by (auto intro: sup_simI)

lemma calm_sim_step:
  assumes "sup_inv sp" "calm sp sp'" "sp_messages sp' = sp_messages sp" "sp_metrics sp' = sp_metrics sp"
    "led 0 sp' = led 0 sp"
  shows "sup_inv sp' \<and> sup_sim sp sp'"
  using assms calm_inv [OF assms(2,1)] calm_fields [OF assms(2)] by (simp add: sup_sim_def)

subsection \<open>Intake and phases\<close>

lemma dom_insert: "dom (hm_get (hm_insert n v m)) = insert n (dom (hm_get m))"
  by (auto simp: hm.lookup_upsert split: if_splits)

lemma intake_message_step:
  assumes inv: "sup_inv sp" and r: "sp_intake sp" "sp_reserved sp" and n: "hm_get (sp_invs sp) n = None"
    and q: "metrics_queued (sp_metrics sp) = (q, m)" and msg: "im_inv msg = n"
    and sp'_def: "sp' = sp\<lparr>sp_reserved := False, sp_metrics := m,
      sp_invs := hm_insert n (inv_build now timeout True) (sp_invs sp), sp_messages := sp_messages sp @ [msg]\<rparr>"
  shows "sup_inv sp' \<and> sup_sim sp sp'"
proof -
  have m: "m = snd (metrics_queued (sp_metrics sp))" using q by simp
  have "tables_ok sp'" using inv by (simp add: sup_inv_def tables_ok_def sp'_def)
  moreover have "invs_ok sp'"
    using inv n
    by (auto simp: sup_inv_def invs_ok_def sp'_def dom_insert hm.lookup_upsert hm.wf_upsert inv_build_def
        simp del: domIff split: if_splits)
  moreover have "queue_ok sp'"
    using inv r msg
    by (auto simp: sup_inv_def queue_ok_def sp'_def pending_messages_def dom_insert image_subset_iff simp del: domIff)
  moreover have "sp_phase sp \<notin> {Draining, Finished}" using inv r by (auto simp: sup_inv_def phase_ok_def)
  then have "phase_ok sp'" using inv m by (auto simp: sup_inv_def phase_ok_def sp'_def)
  ultimately have inv': "sup_inv sp'" by (simp add: sup_inv_def)
  have w: "running_w (inv_build now timeout True) = 0" "terminating_w (inv_build now timeout True) = 0"
    by (simp_all add: running_w_def terminating_w_def inv_build_def)
  have "led 0 sp' = (led 0 sp)\<lparr>lg := snd (metrics_queued (lg (led 0 sp))), o_queued := Suc (o_queued (led 0 sp))\<rparr>"
    using n m w by (simp add: led_def sp'_def hm_total_insert_new)
  then have "bounded_step (sp_capacity sp + 1) (sp_max_tracked sp) (sp_max_tracked sp) (led 0 sp) (led 0 sp')"
    using sup_inv_within [OF inv'] ledger_step.lg_queued [of "led 0 sp"] by (intro bounded_stepI) (simp_all add: sp'_def)
  then show ?thesis using inv' by (simp add: sup_sim_def sp'_def r_into_rtranclp)
qed

lemma begin_stop_step:
  assumes inv: "sup_inv sp" and ph: "sp_phase sp = Idle"
  shows "sup_inv (begin_stop now sp) \<and> sup_sim sp (begin_stop now sp)"
proof -
  have inv': "sup_inv (begin_stop now sp)"
    using inv ph by (auto simp: sup_inv_def tables_ok_def invs_ok_def queue_ok_def phase_ok_def begin_stop_def
        pending_messages_def admitting_w_def)
  have "led 0 (begin_stop now sp) = (led 0 sp)\<lparr>lg := dispatch_stopped now (lg (led 0 sp))\<rparr>"
    using ph by (simp add: led_def begin_stop_def admitting_w_def)
  then have "bounded_step (sp_capacity sp + 1) (sp_max_tracked sp) (sp_max_tracked sp) (led 0 sp) (led 0 (begin_stop now sp))"
    using sup_inv_within [OF inv'] ledger_step.lg_stopped [of "led 0 sp" now]
    by (intro bounded_stepI) (simp_all add: begin_stop_def)
  then show ?thesis using inv' by (simp add: sup_sim_def begin_stop_def r_into_rtranclp)
qed

text \<open>The end of an admission: the queue guard is dropped and the loop starts over.\<close>

lemma leave_admitting:
  assumes inv: "sup_inv sp" and ph: "sp_phase sp = Admitting msg"
  shows "sup_inv ((drop_queued u msg sp)\<lparr>sp_phase := Idle\<rparr>) \<and> sup_sim sp ((drop_queued u msg sp)\<lparr>sp_phase := Idle\<rparr>)"
proof -
  let ?sp = "(drop_queued u msg sp)\<lparr>sp_phase := Idle\<rparr>"
  have inv': "sup_inv ?sp"
    using inv ph by (auto simp: sup_inv_def tables_ok_def invs_ok_def queue_ok_def phase_ok_def drop_queued_def
        pending_messages_def admitting_w_def)
  have "bounded_step (sp_capacity sp + 1) (sp_max_tracked sp) (sp_max_tracked sp) (led 0 sp) (led 0 ?sp)"
    using ph sup_inv_within [OF inv'] ledger_step.lg_dequeued [of "led 0 sp" "length (sp_messages sp)"]
    by (intro bounded_stepI) (simp_all add: drop_queued_def led_def admitting_w_def)
  then show ?thesis using inv' by (simp add: sup_sim_def drop_queued_def r_into_rtranclp)
qed

lemma both_trans:
  "sup_inv sp1 \<and> sup_sim sp sp1 \<Longrightarrow> (sup_inv sp1 \<Longrightarrow> sup_inv sp2 \<and> sup_sim sp1 sp2) \<Longrightarrow> sup_inv sp2 \<and> sup_sim sp sp2"
  by (blast intro: sup_sim_trans)

lemma begin_stop_phase: "begin_stop now (sp\<lparr>sp_phase := ph\<rparr>) = begin_stop now sp"
  by (simp add: begin_stop_def)

lemma sup_inv_sync [simp]: "sup_inv (sp\<lparr>sp_sync_changed := v\<rparr>) = sup_inv sp" "led x (sp\<lparr>sp_sync_changed := v\<rparr>) = led x sp"
  by (simp_all add: sup_inv_def tables_ok_def invs_ok_def queue_ok_def pending_messages_def phase_ok_def led_def)

lemma sup_sim_sync [simp]: "sup_sim (sp\<lparr>sp_sync_changed := v\<rparr>) sp' = sup_sim sp sp'"
  "sup_sim sp (sp'\<lparr>sp_sync_changed := v\<rparr>) = sup_sim sp sp'"
  by (simp_all add: sup_sim_def)

lemma reject_step:
  assumes inv: "sup_inv sp" and msgs: "sp_messages sp = msg # msgs"
  shows "sup_inv (reject_message now u msg (sp\<lparr>sp_messages := msgs\<rparr>))
    \<and> sup_sim sp (reject_message now u msg (sp\<lparr>sp_messages := msgs\<rparr>))"
proof -
  have c: "calm sp (reject_message now u msg (sp\<lparr>sp_messages := msgs\<rparr>))"
    by (rule calm_trans [OF calm_messages calm_reject(1)])
  have "sup_inv (reject_message now u msg (sp\<lparr>sp_messages := msgs\<rparr>))"
    using calm_inv [OF c inv] msgs by (simp add: calm_reject subset_insertI)
  moreover have "sup_sim sp (reject_message now u msg (sp\<lparr>sp_messages := msgs\<rparr>))"
    using reject_sim [of "sp\<lparr>sp_messages := msgs\<rparr>" "sp_capacity sp + 1" "sp_max_tracked sp" "sp_max_tracked sp" 0 now u msg]
      sup_inv_within [OF inv] sup_inv_wf_invs [OF inv] msgs led_message [OF msgs, of 0]
    by (intro sup_simI [OF _ c]) simp
  ultimately show ?thesis ..
qed

subsection \<open>Tasks\<close>

lemma set_task_tables:
  assumes ok: "tables_ok sp" and k: "hm_get (sp_tasks sp) t = Some k"
    and kinds: "\<And>j. kinds_match (Some j) (Some k) \<Longrightarrow> kinds_match (Some j) (Some k')"
    and slots: "slots + slot_w k = sp_slots sp + slot_w k'" "slots \<le> sp_max_tracked sp"
  shows "tables_ok ((set_task t k' sp)\<lparr>sp_slots := slots\<rparr>)"
proof -
  have "kinds_match (hm_get (sp_jobs sp) u) (hm_get (hm_insert t k' (sp_tasks sp)) u)" for u
  proof (cases "u = t")
    case True
    have "kinds_match (hm_get (sp_jobs sp) t) (Some k)" using ok k unfolding tables_ok_def by metis
    then show ?thesis
      using True kinds by (cases "hm_get (sp_jobs sp) t") (auto simp: hm.lookup_upsert)
  next
    case False
    then show ?thesis using ok by (simp add: tables_ok_def hm.lookup_upsert)
  qed
  moreover have "hm_total slot_w (hm_insert t k' (sp_tasks sp)) + slot_w k = hm_total slot_w (sp_tasks sp) + slot_w k'"
    using ok k by (intro hm_total_insert_old) (simp_all add: tables_ok_def)
  ultimately show ?thesis
    using ok slots by (simp add: tables_ok_def set_task_def hm.wf_upsert)
qed

lemma invs_okD:
  assumes "invs_ok sp"
  shows "hm_get (sp_invs sp) n = Some i \<Longrightarrow> inv_execution i \<noteq> None \<Longrightarrow>
      \<exists>t ph. hm_get (sp_tasks sp) t = Some (ExecThread n ph) \<and> slot_w (ExecThread n ph) = 1"
    and "hm_get (sp_tasks sp) t = Some (ExecThread n ph) \<Longrightarrow> n \<in> dom (hm_get (sp_invs sp))"
  using assms unfolding invs_ok_def by blast+

text \<open>
  A thread moves on. It may give up its slot only when its invocation no longer executes.
\<close>

definition may_move :: "supervisor \<Rightarrow> nat \<Rightarrow> exec_phase \<Rightarrow> sup_task \<Rightarrow> bool" where
  "may_move sp n ph k' \<longleftrightarrow>
     (case k' of ExecThread m _ \<Rightarrow> m = n | ExecEnded _ \<Rightarrow> True | _ \<Rightarrow> False) \<and> slot_w k' \<le> slot_w (ExecThread n ph) \<and>
     (slot_w k' < slot_w (ExecThread n ph) \<longrightarrow>
        (\<forall>i. hm_get (sp_invs sp) n = Some i \<longrightarrow> inv_execution i = None))"

lemma set_task_invs:
  assumes ok: "invs_ok sp" and k: "hm_get (sp_tasks sp) t = Some (ExecThread n ph)" and mv: "may_move sp n ph k'"
  shows "invs_ok (set_task t k' sp)"
  unfolding invs_ok_def
proof (intro conjI allI impI)
  show "hm_wf (sp_invs (set_task t k' sp))" using ok by (simp add: invs_ok_def set_task_def)
next
  fix m i
  assume "hm_get (sp_invs (set_task t k' sp)) m = Some i" and e: "inv_execution i \<noteq> None"
  then have m: "hm_get (sp_invs sp) m = Some i" by (simp add: set_task_def)
  obtain u q where u: "hm_get (sp_tasks sp) u = Some (ExecThread m q)" "slot_w (ExecThread m q) = 1"
    using invs_okD(1) [OF ok m e] by blast
  show "\<exists>u q. hm_get (sp_tasks (set_task t k' sp)) u = Some (ExecThread m q) \<and> slot_w (ExecThread m q) = 1"
  proof (cases "u = t")
    case True
    then have "m = n" "slot_w (ExecThread n ph) = 1" using u k by auto
    then have "slot_w k' = 1" using mv m e by (auto simp: may_move_def)
    then obtain q' where "k' = ExecThread n q'" using mv by (cases k') (auto simp: may_move_def slot_w_def)
    then show ?thesis
      using \<open>slot_w k' = 1\<close> \<open>m = n\<close> by (intro exI [of _ t] exI [of _ q']) (simp add: set_task_def hm.lookup_upsert)
  next
    case False
    then show ?thesis using u by (intro exI [of _ u] exI [of _ q]) (simp add: set_task_def hm.lookup_upsert)
  qed
next
  fix u m q
  assume u: "hm_get (sp_tasks (set_task t k' sp)) u = Some (ExecThread m q)"
  show "m \<in> dom (hm_get (sp_invs (set_task t k' sp)))"
  proof (cases "u = t")
    case True
    then show ?thesis
      using u mv invs_okD(2) [OF ok k] by (auto simp: set_task_def hm.lookup_upsert may_move_def simp del: domIff)
  next
    case False
    then show ?thesis using u invs_okD(2) [OF ok, of u m q] by (simp add: set_task_def hm.lookup_upsert del: domIff)
  qed
qed

lemma thread_moves:
  assumes inv: "sup_inv sp" and k: "hm_get (sp_tasks sp) t = Some (ExecThread n ph)" and mv: "may_move sp n ph k'"
    and sp': "sp' = (set_task t k' sp)\<lparr>sp_slots := sp_slots sp - (slot_w (ExecThread n ph) - slot_w k')\<rparr>"
  shows "sup_inv sp' \<and> sup_sim sp sp'"
proof -
  have kinds: "kinds_match (Some j) (Some k')" if "kinds_match (Some j) (Some (ExecThread n ph))" for j
    using that mv by (cases j; cases k') (auto simp: may_move_def)
  have "slot_w (ExecThread n ph) \<le> sp_slots sp"
    using hm_total_member [OF k, of slot_w] inv by (simp add: sup_inv_def tables_ok_def)
  then have "tables_ok sp'"
    unfolding sp' using inv mv
    by (intro set_task_tables [OF _ k kinds]) (auto simp: sup_inv_def tables_ok_def may_move_def)
  moreover have "invs_ok sp'"
    using set_task_invs [OF _ k mv] inv by (simp add: sp' sup_inv_def invs_ok_def)
  ultimately have inv': "sup_inv sp'"
    using inv k by (auto simp: sp' sup_inv_def queue_ok_def phase_ok_def pending_messages_def set_task_def)
  have "live_reply_w k' = 0" "ended_reply_w k' = 0"
    using mv by (auto simp: may_move_def live_reply_w_def ended_reply_w_def split: sup_task.splits)
  then have "led 0 sp' = led 0 sp"
    using hm_total_insert_old [OF _ k, of live_reply_w k'] hm_total_insert_old [OF _ k, of ended_reply_w k'] inv
    by (simp add: sp' led_def set_task_def live_reply_w_def ended_reply_w_def sup_inv_def tables_ok_def)
  then show ?thesis using inv' by (simp add: sp' sup_sim_def set_task_def)
qed

lemma on_inv_frame [simp]:
  "sp_tasks (on_inv f n sp) = sp_tasks sp" "sp_slots (on_inv f n sp) = sp_slots sp" "sp_jobs (on_inv f n sp) = sp_jobs sp"
  by (auto simp: on_inv_def split_beta split: option.split)

text \<open>An operation on the invocation followed by a move of the thread.\<close>

lemma thread_step:
  assumes inv: "sup_inv sp" and k: "hm_get (sp_tasks sp) t = Some (ExecThread n ph)" and f: "inv_sim f"
    and mv: "may_move (on_inv f n sp) n ph k'"
    and sp': "sp' = (set_task t k' (on_inv f n sp))\<lparr>sp_slots := sp_slots sp - (slot_w (ExecThread n ph) - slot_w k')\<rparr>"
  shows "sup_inv sp' \<and> sup_sim sp sp'"
proof (rule both_trans)
  show "sup_inv (on_inv f n sp) \<and> sup_sim sp (on_inv f n sp)" using on_inv_step [OF f inv] by blast
  assume inv1: "sup_inv (on_inv f n sp)"
  show "sup_inv sp' \<and> sup_sim (on_inv f n sp) sp'"
    by (rule thread_moves [OF inv1 _ mv]) (simp_all add: k sp')
qed

subsection \<open>Replies\<close>

lemma invs_ok_tasks:
  assumes ok: "invs_ok sp" and invs: "sp_invs sp' = sp_invs sp"
    and same: "\<And>t n ph. hm_get (sp_tasks sp') t = Some (ExecThread n ph) \<longleftrightarrow> hm_get (sp_tasks sp) t = Some (ExecThread n ph)"
  shows "invs_ok sp'"
  using ok unfolding invs_ok_def invs same .

lemma thread_insert_other:
  assumes "\<And>n ph. hm_get m t \<noteq> Some (ExecThread n ph)" "\<And>n ph. k \<noteq> ExecThread n ph"
  shows "hm_get (hm_insert t k m) u = Some (ExecThread n ph) \<longleftrightarrow> hm_get m u = Some (ExecThread n ph)"
  using assms by (cases "u = t") (simp_all add: hm.lookup_upsert)

lemma thread_remove_other:
  assumes "\<And>n ph. hm_get m t \<noteq> Some (ExecThread n ph)"
  shows "hm_get (hm_remove t m) u = Some (ExecThread n ph) \<longleftrightarrow> hm_get m u = Some (ExecThread n ph)"
  using assms by (cases "u = t") (simp_all add: hm.lookup_discard)

lemma sup_inv_metrics:
  assumes "wc_stopped_at (counts m) = wc_stopped_at (counts (sp_metrics sp))"
  shows "sup_inv (sp\<lparr>sp_metrics := m\<rparr>) = sup_inv sp"
proof -
  have "invs_ok (sp\<lparr>sp_metrics := m\<rparr>) = invs_ok sp" unfolding invs_ok_def by simp
  then show ?thesis
    using assms by (simp add: sup_inv_def tables_ok_def queue_ok_def pending_messages_def phase_ok_def)
qed

lemma sup_inv_invs: "sup_inv sp \<Longrightarrow> invs_ok sp"
  by (simp add: sup_inv_def)

lemma reply_ended_step:
  assumes inv: "sup_inv sp" and k: "hm_get (sp_tasks sp) t = Some (ReplyFuture record outcome target body aborted)"
    and sp': "sp' = set_task t (ReplyEnded e) (sp\<lparr>sp_metrics := task_drop p r (sp_metrics sp)\<rparr>)"
  shows "sup_inv sp' \<and> sup_sim sp sp'"
proof -
  let ?k = "ReplyFuture record outcome target body aborted" and ?k' = "ReplyEnded e"
  have wf: "hm_wf (sp_tasks sp)" using inv by (simp add: sup_inv_def tables_ok_def)
  have kinds: "kinds_match (Some j) (Some ?k')" if "kinds_match (Some j) (Some ?k)" for j
    using that by (cases j) auto
  have slot: "slot_w ?k = 0" "slot_w ?k' = 0" by (simp_all add: slot_w_def)
  have "tables_ok sp'"
    using set_task_tables [OF _ k kinds, of "sp_slots sp"] slot inv
    by (simp add: sp' sup_inv_def tables_ok_def set_task_def)
  moreover have "invs_ok sp'"
    by (rule invs_ok_tasks [OF sup_inv_invs [OF inv]]) (simp_all add: sp' set_task_def thread_insert_other k)
  ultimately have inv': "sup_inv sp'"
    using inv k by (auto simp: sp' sup_inv_def queue_ok_def phase_ok_def pending_messages_def set_task_def)
  have live: "hm_total live_reply_w (sp_tasks sp) = Suc (hm_total live_reply_w (hm_insert t ?k' (sp_tasks sp)))"
    and ended: "hm_total ended_reply_w (hm_insert t ?k' (sp_tasks sp)) = Suc (hm_total ended_reply_w (sp_tasks sp))"
    using hm_total_insert_old [OF wf k, of live_reply_w ?k'] hm_total_insert_old [OF wf k, of ended_reply_w ?k']
    by (simp_all add: live_reply_w_def ended_reply_w_def)
  have "bounded_step (sp_capacity sp + 1) (sp_max_tracked sp) (sp_max_tracked sp) (led 0 sp) (led 0 sp')"
    using sup_inv_within [OF inv'] live ended
      ledger_step.lg_task_drop [of "led 0 sp" "hm_total exec_job_w (sp_jobs sp) + hm_total live_reply_w (hm_insert t ?k' (sp_tasks sp))" p r]
    by (intro bounded_stepI) (simp_all add: led_def sp' set_task_def)
  then show ?thesis using inv' by (simp add: sup_sim_def sp' set_task_def r_into_rtranclp)
qed

lemma insert_both_tables:
  assumes ok: "tables_ok sp" and fr: "fresh_task t sp" and km: "kinds_match (Some j) (Some k)"
    and slots: "sp_slots sp + slot_w k \<le> sp_max_tracked sp"
  shows "tables_ok (sp\<lparr>sp_tasks := hm_insert t k (sp_tasks sp), sp_jobs := hm_insert t j (sp_jobs sp),
    sp_slots := sp_slots sp + slot_w k\<rparr>)"
  using assms by (simp add: tables_ok_def fresh_task_def hm.lookup_upsert hm.wf_upsert hm_total_insert_new)

lemma remove_both_tables:
  assumes ok: "tables_ok sp" and k: "hm_get (sp_tasks sp) t = Some k" "slot_w k = 0"
  shows "tables_ok (sp\<lparr>sp_tasks := hm_remove t (sp_tasks sp), sp_jobs := hm_remove t (sp_jobs sp)\<rparr>)"
  using assms hm_total_remove [OF _ k(1), of slot_w]
  by (simp add: tables_ok_def hm.lookup_discard hm.wf_discard)

text \<open>A reply is spawned for a record that is already tracked, or for a new one.\<close>

lemma spawn_reply_inv:
  assumes inv: "sup_inv sp" and fr: "fresh_task t sp" and room: "length (sp_jobs sp) + admitting_w (sp_phase sp) < sp_max_tracked sp"
    and ph: "sp_phase sp \<noteq> Finished"
  shows "sup_inv (spawn_reply t record outcome eo target body sp)"
proof -
  let ?k = "ReplyFuture (task_set_outcome ''cancelled'' record) outcome target body False"
  have "tables_ok (spawn_reply t record outcome eo target body sp)"
    using insert_both_tables [OF _ fr, of "ReplyJob eo" ?k] inv
    by (simp add: spawn_reply_def slot_w_def sup_inv_def tables_ok_def)
  moreover have "invs_ok (spawn_reply t record outcome eo target body sp)"
    by (rule invs_ok_tasks [OF sup_inv_invs [OF inv]])
      (simp_all add: spawn_reply_def thread_insert_other fr [unfolded fresh_task_def])
  moreover have "length (hm_insert t (ReplyJob eo) (sp_jobs sp)) = Suc (length (sp_jobs sp))"
    using fr by (simp add: hm_length_insert fresh_task_def)
  ultimately show ?thesis
    using inv room ph by (auto simp: sup_inv_def spawn_reply_def queue_ok_def phase_ok_def pending_messages_def)
qed

lemma spawn_new_reply_step:
  assumes inv: "sup_inv sp" and fr: "fresh_task t sp" and ph: "sp_phase sp = Idle"
    and room: "length (sp_jobs sp) < sp_max_tracked sp"
    and sp': "sp' = spawn_reply t record outcome eo target body (sp\<lparr>sp_metrics := snd (task_started (sp_metrics sp))\<rparr>)"
  shows "sup_inv sp' \<and> sup_sim sp sp'"
proof -
  let ?sp = "sp\<lparr>sp_metrics := snd (task_started (sp_metrics sp))\<rparr>"
  have "sup_inv ?sp" using inv by (simp add: sup_inv_metrics)
  then have inv': "sup_inv sp'"
    using spawn_reply_inv [of ?sp t] fr ph room by (simp add: sp' fresh_task_def admitting_w_def)
  have stop: "wc_stopped_at (counts (sp_metrics sp)) = None" using inv ph by (simp add: sup_inv_def phase_ok_def)
  have "led 0 sp' = (led 0 sp)\<lparr>lg := snd (task_started (lg (led 0 sp))), o_tasks := Suc (o_tasks (led 0 sp))\<rparr>"
    using fr by (simp add: led_def sp' spawn_reply_def fresh_task_def hm_total_insert_new exec_job_w_def live_reply_w_def
        ended_reply_w_def)
  then have "bounded_step (sp_capacity sp + 1) (sp_max_tracked sp) (sp_max_tracked sp) (led 0 sp) (led 0 sp')"
    using sup_inv_within [OF inv'] ledger_step.lg_task [of "led 0 sp"] stop
    by (intro bounded_stepI) (simp_all add: sp' spawn_reply_def led_def)
  then show ?thesis using inv' by (simp add: sup_sim_def sp' spawn_reply_def r_into_rtranclp)
qed

subsection \<open>Collecting\<close>

text \<open>The state between the join and the handling of the job.\<close>

definition joined :: "nat \<Rightarrow> supervisor \<Rightarrow> supervisor" where
  "joined t sp = sp\<lparr>sp_tasks := hm_remove t (sp_tasks sp), sp_jobs := hm_remove t (sp_jobs sp)\<rparr>"

lemma joined_inv:
  assumes inv: "sup_inv sp" and k: "hm_get (sp_tasks sp) t = Some k" "task_result k = Some result"
    and j: "hm_get (sp_jobs sp) t = Some j" and ph: "joins_tasks (sp_phase sp)"
  shows "sup_inv (joined t sp)" "length (sp_jobs (joined t sp)) + admitting_w (sp_phase (joined t sp)) < sp_max_tracked (joined t sp)"
proof -
  have nt: "hm_get (sp_tasks sp) t \<noteq> Some (ExecThread n q)" for n q
    using k by (auto simp: task_result_def)
  have slot: "slot_w k = 0"
    using k(2) by (auto simp: task_result_def slot_w_def split: sup_task.splits)
  have wf: "hm_wf (sp_jobs sp)" using inv by (simp add: sup_inv_def tables_ok_def)
  have tables: "tables_ok (joined t sp)"
    using remove_both_tables [OF _ k(1) slot] inv by (simp add: joined_def sup_inv_def)
  have invs: "invs_ok (joined t sp)"
    by (rule invs_ok_tasks [OF sup_inv_invs [OF inv]]) (simp_all add: joined_def thread_remove_other nt)
  have len: "Suc (length (hm_remove t (sp_jobs sp))) = length (sp_jobs sp)"
    using hm_length_remove [OF wf, of t] j by (cases "sp_jobs sp") auto
  show "length (sp_jobs (joined t sp)) + admitting_w (sp_phase (joined t sp)) < sp_max_tracked (joined t sp)"
    using inv len by (simp add: joined_def sup_inv_def phase_ok_def)
  show "sup_inv (joined t sp)"
    using tables invs inv len ph
    by (auto simp: sup_inv_def joined_def queue_ok_def phase_ok_def pending_messages_def)
qed

lemma collect_execution_step:
  assumes inv: "sup_inv sp" and k: "hm_get (sp_tasks sp) t = Some (ExecEnded r)" "task_result (ExecEnded r) = Some result"
    and j: "hm_get (sp_jobs sp) t = Some (ExecutionJob job)" and ph: "joins_tasks (sp_phase sp)" and fr: "fresh_task t' sp"
    and c: "join_next encode t t' sp = Some sp'"
  shows "sup_inv sp' \<and> sup_sim sp sp'"
proof -
  note J = joined_inv [OF inv k j ph]
  have wf: "hm_wf (sp_tasks sp)" "hm_wf (sp_jobs sp)" using inv by (simp_all add: sup_inv_def tables_ok_def)
  have led: "led 0 sp = (led 0 (joined t sp))\<lparr>o_tasks := Suc (o_tasks (led 0 (joined t sp)))\<rparr>"
    using hm_total_remove [OF wf(1) k(1), of live_reply_w] hm_total_remove [OF wf(1) k(1), of ended_reply_w]
      hm_total_remove [OF wf(2) j, of exec_job_w]
    by (simp add: led_def joined_def live_reply_w_def ended_reply_w_def exec_job_w_def)
  have fr': "fresh_task t' (joined t sp)" using fr by (simp add: fresh_task_def joined_def hm.lookup_discard)
  show ?thesis
  proof (cases "authority_revoked job")
    case True
    let ?m = "task_drop False (task_set_outcome ''cancelled'' (job_record job)) (sp_metrics sp)"
    have sp': "sp' = (joined t sp)\<lparr>sp_metrics := task_reaped ''cancelled'' ?m\<rparr>"
      using c k j True by (simp add: join_next_def collect_def joined_def)
    have inv': "sup_inv sp'" using J(1) by (simp add: sp' sup_inv_metrics joined_def)
    let ?l = "(led 0 (joined t sp))\<lparr>lg := ?m, o_completed := Suc (o_completed (led 0 (joined t sp)))\<rparr>"
    have "within (sp_capacity sp + 1) (sp_max_tracked sp) (sp_max_tracked sp) ?l"
      using sup_inv_within [OF inv] unfolding led by (simp add: within_def)
    then have s1: "bounded_step (sp_capacity sp + 1) (sp_max_tracked sp) (sp_max_tracked sp) (led 0 sp) ?l"
      using ledger_step.lg_task_drop [of "led 0 sp" "o_tasks (led 0 (joined t sp))" False
          "task_set_outcome ''cancelled'' (job_record job)"] unfolding led
      by (intro bounded_stepI) (simp_all add: led_def joined_def)
    have "led 0 sp' = ?l\<lparr>lg := task_reaped ''cancelled'' (lg ?l), o_completed := o_completed (led 0 (joined t sp))\<rparr>"
      by (simp add: sp' led_def joined_def)
    then have "bounded_step (sp_capacity sp + 1) (sp_max_tracked sp) (sp_max_tracked sp) ?l (led 0 sp')"
      using ledger_step.lg_reaped [of ?l "o_completed (led 0 (joined t sp))" "''cancelled''"] sup_inv_within [OF inv']
      by (intro bounded_stepI) (simp_all add: sp' joined_def)
    with s1 inv' show ?thesis by (auto simp: sup_sim_def sp' joined_def)
  next
    case False
    then obtain outcome response where
      sp': "sp' = spawn_reply t' (job_record job) outcome (join_outcome result) (job_reply job) response (joined t sp)"
      using c k j by (auto simp: join_next_def collect_def joined_def Let_def split: option.splits)
    have "sup_inv sp'"
      unfolding sp' using J fr' ph by (intro spawn_reply_inv) (auto simp: joined_def)
    moreover have "led 0 sp' = led 0 sp"
      using fr' by (simp add: led) (simp add: sp' spawn_reply_def led_def fresh_task_def hm_total_insert_new
          exec_job_w_def live_reply_w_def ended_reply_w_def)
    ultimately show ?thesis by (simp add: sup_sim_def sp' spawn_reply_def joined_def)
  qed
qed

lemma collect_reply_step:
  assumes inv: "sup_inv sp" and k: "hm_get (sp_tasks sp) t = Some (ReplyEnded e)" "task_result (ReplyEnded e) = Some result"
    and j: "hm_get (sp_jobs sp) t = Some (ReplyJob eo)" and ph: "joins_tasks (sp_phase sp)"
    and c: "join_next encode t t' sp = Some sp'"
  shows "sup_inv sp' \<and> sup_sim sp sp'"
proof -
  note J = joined_inv [OF inv k j ph]
  have wf: "hm_wf (sp_tasks sp)" "hm_wf (sp_jobs sp)" using inv by (simp_all add: sup_inv_def tables_ok_def)
  obtain u where sp': "sp' = (joined t sp)\<lparr>sp_metrics := task_reaped u (sp_metrics sp)\<rparr>"
    using c k j by (auto simp: join_next_def collect_def joined_def Let_def)
  have inv': "sup_inv sp'" using J(1) by (simp add: sp' sup_inv_metrics joined_def)
  have led: "led 0 sp = (led 0 (joined t sp))\<lparr>o_completed := Suc (o_completed (led 0 (joined t sp)))\<rparr>"
    using hm_total_remove [OF wf(1) k(1), of live_reply_w] hm_total_remove [OF wf(1) k(1), of ended_reply_w]
      hm_total_remove [OF wf(2) j, of exec_job_w]
    by (simp add: led_def joined_def live_reply_w_def ended_reply_w_def exec_job_w_def)
  have "led 0 sp' = (led 0 sp)\<lparr>lg := task_reaped u (lg (led 0 sp)), o_completed := o_completed (led 0 (joined t sp))\<rparr>"
    unfolding led by (simp add: sp' led_def joined_def)
  then have "bounded_step (sp_capacity sp + 1) (sp_max_tracked sp) (sp_max_tracked sp) (led 0 sp) (led 0 sp')"
    using ledger_step.lg_reaped [of "led 0 sp" "o_completed (led 0 (joined t sp))" u] sup_inv_within [OF inv'] led
    by (intro bounded_stepI) (simp_all add: sp' joined_def)
  then show ?thesis using inv' by (simp add: sup_sim_def sp' joined_def r_into_rtranclp)
qed

lemma join_step:
  assumes inv: "sup_inv sp" and k: "hm_get (sp_tasks sp) t = Some k" "task_result k \<noteq> None"
    and ph: "joins_tasks (sp_phase sp)" and fr: "fresh_task t' sp" and c: "join_next encode t t' sp = Some sp'"
  shows "sup_inv sp' \<and> sup_sim sp sp'"
proof -
  have km: "kinds_match (hm_get (sp_jobs sp) t) (Some k)"
    using inv k(1) unfolding sup_inv_def tables_ok_def by metis
  show ?thesis
  proof (cases k)
    case (ExecEnded r)
    then show ?thesis
      using km k collect_execution_step [OF inv _ _ _ ph fr c, of r]
      by (cases "hm_get (sp_jobs sp) t"; cases "the (hm_get (sp_jobs sp) t)") auto
  next
    case (ReplyEnded e)
    then show ?thesis
      using km k collect_reply_step [OF inv _ _ _ ph c, of e]
      by (cases "hm_get (sp_jobs sp) t"; cases "the (hm_get (sp_jobs sp) t)") auto
  qed (insert k(2), simp_all add: task_result_def)
qed

subsection \<open>Admission\<close>

text \<open>An admitted message: its guard is outside the tables while the loop body handles it.\<close>

lemma admitted:
  assumes inv: "sup_inv sp" and ph: "sp_phase sp = Admitting msg"
  shows "sup_inv (sp\<lparr>sp_phase := Idle\<rparr>)" "led 0 sp = led 1 (sp\<lparr>sp_phase := Idle\<rparr>)"
    "length (sp_jobs sp) < sp_max_tracked sp"
    "within (sp_capacity sp + 1) (sp_max_tracked sp) (sp_max_tracked sp) (led 1 (sp\<lparr>sp_phase := Idle\<rparr>))"
proof -
  show "sup_inv (sp\<lparr>sp_phase := Idle\<rparr>)"
    using leave_admitting [OF inv ph, of None] sup_inv_metrics [of "sp_metrics sp" "(drop_queued None msg sp)\<lparr>sp_phase := Idle\<rparr>"]
    by (simp add: drop_queued_def)
  show l: "led 0 sp = led 1 (sp\<lparr>sp_phase := Idle\<rparr>)" using ph by (simp add: led_def admitting_w_def)
  show "length (sp_jobs sp) < sp_max_tracked sp" using inv ph by (simp add: sup_inv_def phase_ok_def admitting_w_def)
  show "within (sp_capacity sp + 1) (sp_max_tracked sp) (sp_max_tracked sp) (led 1 (sp\<lparr>sp_phase := Idle\<rparr>))"
    using sup_inv_within [OF inv] l by simp
qed

text \<open>The loop body ends without a task: the guard is dropped, the invocation perhaps cancelled.\<close>

lemma refuse_step:
  assumes inv: "sup_inv sp" and ph: "sp_phase sp = Admitting msg"
  shows "sup_inv (drop_queued u msg (sp\<lparr>sp_phase := Idle\<rparr>)) \<and> sup_sim sp (drop_queued u msg (sp\<lparr>sp_phase := Idle\<rparr>))"
    and "sup_inv (reject_message now u msg (sp\<lparr>sp_phase := Idle\<rparr>)) \<and> sup_sim sp (reject_message now u msg (sp\<lparr>sp_phase := Idle\<rparr>))"
proof -
  note A = admitted [OF inv ph]
  let ?sp = "sp\<lparr>sp_phase := Idle\<rparr>"
  show "sup_inv (drop_queued u msg ?sp) \<and> sup_sim sp (drop_queued u msg ?sp)"
    using drop_queued_sim [of _ _ _ 0 ?sp u msg] A calm_inv [OF calm_drop_queued(1) A(1)]
    by (simp add: sup_sim_def calm_drop_queued drop_queued_def)
  have "sup_inv (reject_message now u msg ?sp)"
    using calm_inv [OF calm_reject(1) A(1)] by (simp add: calm_reject)
  moreover have "sup_sim sp (reject_message now u msg ?sp)"
    using reject_sim [OF sup_inv_wf_invs [OF A(1)], of "sp_capacity sp + 1" "sp_max_tracked sp" "sp_max_tracked sp" 0 now u msg]
      A calm_fields [OF calm_reject(1) [of ?sp now u msg]]
    by (simp add: sup_sim_def)
  ultimately show "sup_inv (reject_message now u msg ?sp) \<and> sup_sim sp (reject_message now u msg ?sp)" ..
qed

lemma expire_step:
  assumes inv: "sup_inv sp" and ph: "sp_phase sp = Admitting msg" and fr: "fresh_task t sp"
  shows "sup_inv (expire_message encode client now t msg (sp\<lparr>sp_phase := Idle\<rparr>))
    \<and> sup_sim sp (expire_message encode client now t msg (sp\<lparr>sp_phase := Idle\<rparr>))"
proof (rule both_trans)
  let ?sp = "reject_message now (Some ''expired'') msg (sp\<lparr>sp_phase := Idle\<rparr>)"
  note c = calm_reject(1) [of "sp\<lparr>sp_phase := Idle\<rparr>" now "Some ''expired''" msg]
  show "sup_inv ?sp \<and> sup_sim sp ?sp" using refuse_step(2) [OF inv ph] .
  assume "sup_inv ?sp"
  moreover have "fresh_task t ?sp"
    using fr by (simp add: fresh_task_def reject_message_def drop_queued_def)
  moreover have "length (sp_jobs ?sp) < sp_max_tracked ?sp"
    using calm_length_jobs [OF c] calm_fields(7) [OF c] admitted(3) [OF inv ph] by simp
  ultimately show "sup_inv (expire_message encode client now t msg (sp\<lparr>sp_phase := Idle\<rparr>))
      \<and> sup_sim ?sp (expire_message encode client now t msg (sp\<lparr>sp_phase := Idle\<rparr>))"
    using calm_fields(8) [OF c]
    by (intro spawn_new_reply_step [of ?sp t])
      (simp_all add: expire_message_def reject_message_def Let_def split_beta)
qed

lemma spawn_job_step:
  assumes inv: "sup_inv sp" and fr: "fresh_task t sp" and ph: "sp_phase sp = Idle"
    and room: "length (sp_jobs sp) < sp_max_tracked sp" "sp_slots sp < sp_max_tracked sp"
    and dom: "job_inv job \<in> dom (hm_get (sp_invs sp))"
    and sp': "sp' = sp\<lparr>sp_metrics := snd (task_started (sp_metrics sp)), sp_slots := Suc (sp_slots sp),
      sp_tasks := hm_insert t (ExecThread (job_inv job) Working) (sp_tasks sp),
      sp_jobs := hm_insert t (ExecutionJob job) (sp_jobs sp)\<rparr>"
  shows "sup_inv sp' \<and> sup_sim sp sp'"
proof -
  have fresh: "hm_get (sp_tasks sp) t = None" "hm_get (sp_jobs sp) t = None" using fr by (simp_all add: fresh_task_def)
  have "tables_ok sp'"
    using insert_both_tables [OF _ fr, of "ExecutionJob job" "ExecThread (job_inv job) Working"] inv room
    by (simp add: sp' sup_inv_def slot_w_def tables_ok_def)
  moreover have "invs_ok sp'"
    unfolding invs_ok_def
  proof (intro conjI allI impI)
    show "hm_wf (sp_invs sp')" using sup_inv_wf_invs [OF inv] by (simp add: sp')
  next
    fix n i
    assume "hm_get (sp_invs sp') n = Some i" and e: "inv_execution i \<noteq> None"
    then have "hm_get (sp_invs sp) n = Some i" by (simp add: sp')
    from invs_okD(1) [OF sup_inv_invs [OF inv] this e]
    obtain u q where u: "hm_get (sp_tasks sp) u = Some (ExecThread n q)" "slot_w (ExecThread n q) = 1" by blast
    then have "u \<noteq> t" using fresh by auto
    with u show "\<exists>u q. hm_get (sp_tasks sp') u = Some (ExecThread n q) \<and> slot_w (ExecThread n q) = 1"
      by (intro exI [of _ u] exI [of _ q]) (simp add: sp' hm.lookup_upsert)
  next
    fix u n q
    assume "hm_get (sp_tasks sp') u = Some (ExecThread n q)"
    then show "n \<in> dom (hm_get (sp_invs sp'))"
      using dom invs_okD(2) [OF sup_inv_invs [OF inv], of u n q]
      by (cases "u = t") (auto simp: sp' hm.lookup_upsert simp del: domIff)
  qed
  moreover have "length (hm_insert t (ExecutionJob job) (sp_jobs sp)) = Suc (length (sp_jobs sp))"
    using fresh by (simp add: hm_length_insert)
  ultimately have inv': "sup_inv sp'"
    using inv ph room by (auto simp: sp' sup_inv_def queue_ok_def phase_ok_def pending_messages_def admitting_w_def)
  have stop: "wc_stopped_at (counts (sp_metrics sp)) = None" using inv ph by (simp add: sup_inv_def phase_ok_def)
  have "led 0 sp' = (led 0 sp)\<lparr>lg := snd (task_started (lg (led 0 sp))), o_tasks := Suc (o_tasks (led 0 sp))\<rparr>"
    using fresh by (simp add: led_def sp' hm_total_insert_new exec_job_w_def live_reply_w_def ended_reply_w_def)
  then have "bounded_step (sp_capacity sp + 1) (sp_max_tracked sp) (sp_max_tracked sp) (led 0 sp) (led 0 sp')"
    using sup_inv_within [OF inv'] ledger_step.lg_task [of "led 0 sp"] stop
    by (intro bounded_stepI) (simp_all add: sp' led_def)
  then show ?thesis using inv' by (simp add: sup_sim_def sp' r_into_rtranclp)
qed

lemma start_step:
  assumes inv: "sup_inv sp" and k: "hm_get (sp_tasks sp) t = Some (ExecThread n Working)"
    and room: "hm_total running_w (sp_invs sp) + hm_total terminating_w (sp_invs sp) < sp_max_tracked sp"
  shows "sup_inv (on_inv (start_execution now) n sp) \<and> sup_sim sp (on_inv (start_execution now) n sp)"
proof -
  let ?sp = "on_inv (start_execution now) n sp"
  obtain i where i: "hm_get (sp_invs sp) n = Some i"
    using invs_okD(2) [OF sup_inv_invs [OF inv] k] by blast
  let ?r = "start_execution now (i, sp_metrics sp)"
  have sp': "?sp = sp\<lparr>sp_invs := hm_insert n (fst ?r) (sp_invs sp), sp_metrics := snd ?r\<rparr>"
    using i by (simp add: on_inv_def split_beta)
  have "invs_ok ?sp"
    unfolding invs_ok_def
  proof (intro conjI allI impI)
    show "hm_wf (sp_invs ?sp)" using sup_inv_wf_invs [OF inv] by (simp add: sp' hm.wf_upsert)
  next
    fix m j
    assume j: "hm_get (sp_invs ?sp) m = Some j" "inv_execution j \<noteq> None"
    show "\<exists>u q. hm_get (sp_tasks ?sp) u = Some (ExecThread m q) \<and> slot_w (ExecThread m q) = 1"
    proof (cases "m = n")
      case True
      then show ?thesis using k by (intro exI [of _ t] exI [of _ Working]) (simp add: slot_w_def)
    next
      case False
      then show ?thesis using j invs_okD(1) [OF sup_inv_invs [OF inv], of m j] by (simp add: sp' hm.lookup_upsert)
    qed
  next
    fix u m q
    assume "hm_get (sp_tasks ?sp) u = Some (ExecThread m q)"
    then show "m \<in> dom (hm_get (sp_invs ?sp))"
      using invs_okD(2) [OF sup_inv_invs [OF inv], of u m q] by (simp add: sp' dom_insert del: domIff)
  qed
  moreover have "queue_ok ?sp" "tables_ok ?sp" "phase_ok ?sp"
    using inv start_execution_stop [of now "(i, sp_metrics sp)"]
    by (auto simp: sp' sup_inv_def queue_ok_def tables_ok_def phase_ok_def pending_messages_def dom_insert simp del: domIff)
  ultimately have inv': "sup_inv ?sp" by (simp add: sup_inv_def)
  have "(bounded_step (sp_capacity sp + 1) (sp_max_tracked sp) (sp_max_tracked sp))\<^sup>*\<^sup>* (led 0 sp)
      (inv_after (led 0 sp) i (start_execution now (i, lg (led 0 sp))))"
    using room by (intro start_execution_sim [OF sup_inv_within [OF inv] led_on_inv(2) [OF sup_inv_wf_invs [OF inv] i]])
      (simp add: led_def)
  then have "sup_sim sp ?sp"
    using led_on_inv(1) [OF sup_inv_wf_invs [OF inv] i, of 0 "start_execution now"] by (simp add: sup_sim_def sp' led_def)
  then show ?thesis using inv' by blast
qed

text \<open>The loop body either ends with the guard dropped, or spawns the execution of a trusted function.\<close>

lemma dispatch_cases:
  fixes sp :: supervisor and msg :: inv_message
  defines "sp0 \<equiv> drop_queued (Some ''admitted'') msg sp"
  shows "(\<exists>u. dispatch_message by_topic component client now t msg sp = drop_queued u msg sp) \<or>
    (\<exists>u. dispatch_message by_topic component client now t msg sp = reject_message now u msg sp) \<or>
    (\<exists>fn c job ev. by_topic (im_subject msg) = Inr (Some fn)
       \<and> component (fe_app_namespace fn, fe_app_name fn, fe_function_name fn) = Inr (Some c)
       \<and> sp_synced sp \<and> \<not> sp_sync_changed sp \<and> job_inv job = im_inv msg \<and> \<not> authority_revoked job
       \<and> dispatch_message by_topic component client now t msg sp =
           spawn_execution now t job (sp0\<lparr>sp_events := ev, sp_metrics := snd (task_started (sp_metrics sp0)),
             sp_slots := Suc (sp_slots sp)\<rparr>))"
proof (cases "by_topic (im_subject msg)")
  case (Inl e)
  then show ?thesis by (auto simp: dispatch_message_def)
next
  case (Inr found)
  show ?thesis
  proof (cases found)
    case None
    then show ?thesis using Inr by (auto simp: dispatch_message_def)
  next
    case (Some fn)
    let ?key = "(fe_app_namespace fn, fe_app_name fn, fe_function_name fn)"
    consider e where "component ?key = Inl e" | "component ?key = Inr None" | c where "component ?key = Inr (Some c)"
      by (cases "component ?key"; cases "projr (component ?key)") auto
    then show ?thesis
    proof cases
      case 3
      show ?thesis
      proof (cases "\<not> sp_synced sp \<or> sp_sync_changed sp")
        case True
        then show ?thesis using Inr Some 3 by (auto simp: dispatch_message_def)
      next
        case False
        let ?job = "\<lparr>job_inv = im_inv msg, job_identity = (fe_app_name fn, fe_app_namespace fn, fe_function_name fn),
          job_reply = \<lparr>rt_subject = im_reply msg, rt_client = client\<rparr>,
          job_record = fst (task_started (sp_metrics sp0)), authority_revoked = False\<rparr>"
        let ?k = "(fe_app_name fn, fe_app_namespace fn,
          (case fe_world_type fn of WorldHttp \<Rightarrow> ''http'' | WorldMessage \<Rightarrow> ''topic''))"
        have "dispatch_message by_topic component client now t msg sp = spawn_execution now t ?job
            (sp0\<lparr>sp_events := (sp_events sp)(?k := Suc (sp_events sp ?k)),
                 sp_metrics := snd (task_started (sp_metrics sp0)), sp_slots := Suc (sp_slots sp)\<rparr>)"
          using Inr Some 3 False unfolding sp0_def
          by (simp add: dispatch_message_def Let_def split_beta drop_queued_def)
        then show ?thesis
          using Inr Some 3 False
          by (intro disjI2 exI [of _ fn] exI [of _ c] exI [of _ ?job]
              exI [of _ "(sp_events sp)(?k := Suc (sp_events sp ?k))"] conjI) simp_all
      qed
    qed (insert Inr Some, auto simp: dispatch_message_def)
  qed
qed

lemma dispatch_step:
  assumes inv: "sup_inv sp" and ph: "sp_phase sp = Admitting msg" and fr: "fresh_task t sp"
    and slot: "sp_slots sp < sp_max_tracked sp"
  shows "sup_inv (dispatch_message by_topic component client now t msg (sp\<lparr>sp_phase := Idle\<rparr>))
    \<and> sup_sim sp (dispatch_message by_topic component client now t msg (sp\<lparr>sp_phase := Idle\<rparr>))"
    (is "sup_inv ?d \<and> sup_sim sp ?d")
proof (cases "\<exists>u. ?d = drop_queued u msg (sp\<lparr>sp_phase := Idle\<rparr>) \<or> ?d = reject_message now u msg (sp\<lparr>sp_phase := Idle\<rparr>)")
  case True
  then show ?thesis using refuse_step [OF inv ph] by fastforce
next
  case False
  let ?sp0 = "drop_queued (Some ''admitted'') msg (sp\<lparr>sp_phase := Idle\<rparr>)"
  from False obtain job ev where job: "job_inv job = im_inv msg"
    and d: "?d = spawn_execution now t job (?sp0\<lparr>sp_events := ev, sp_metrics := snd (task_started (sp_metrics ?sp0)),
      sp_slots := Suc (sp_slots sp)\<rparr>)"
    using dispatch_cases [of by_topic component client now t msg "sp\<lparr>sp_phase := Idle\<rparr>"]
    by (auto simp: drop_queued_def)
  define sp1 where "sp1 = ?sp0\<lparr>sp_events := ev\<rparr>"
  have ev: "sup_inv (s\<lparr>sp_events := e\<rparr>) = sup_inv s" "led x (s\<lparr>sp_events := e\<rparr>) = led x s" for s e x
    by (simp_all add: sup_inv_def tables_ok_def invs_ok_def queue_ok_def pending_messages_def phase_ok_def led_def)
  have s1: "sup_inv sp1 \<and> sup_sim sp sp1"
    using refuse_step(1) [OF inv ph, of "Some ''admitted''"] by (simp add: sp1_def ev sup_sim_def)
  define sp2 where "sp2 = sp1\<lparr>sp_metrics := snd (task_started (sp_metrics sp1)), sp_slots := Suc (sp_slots sp1),
      sp_tasks := hm_insert t (ExecThread (job_inv job) Working) (sp_tasks sp1),
      sp_jobs := hm_insert t (ExecutionJob job) (sp_jobs sp1)\<rparr>"
  have "im_inv msg \<in> dom (hm_get (sp_invs sp))"
    using inv ph by (auto simp: sup_inv_def queue_ok_def pending_messages_def simp del: domIff)
  then have s2: "sup_inv sp2 \<and> sup_sim sp1 sp2"
    using s1 fr slot admitted(3) [OF inv ph] job
    by (intro spawn_job_step [of sp1 t job]) (simp_all add: sp1_def sp2_def drop_queued_def fresh_task_def del: domIff)
  have "hm_total running_w (sp_invs sp2) + hm_total terminating_w (sp_invs sp2) < sp_max_tracked sp2"
    using executions_le_slots [of sp] inv slot by (simp add: sp2_def sp1_def drop_queued_def sup_inv_def)
  then have s3: "sup_inv (on_inv (start_execution now) (job_inv job) sp2) \<and> sup_sim sp2 (on_inv (start_execution now) (job_inv job) sp2)"
    using s2 by (intro start_step [of sp2 t]) (simp_all add: sp2_def hm.lookup_upsert)
  have "?d = on_inv (start_execution now) (job_inv job) sp2"
    unfolding d by (simp add: spawn_execution_def on_inv_def sp2_def sp1_def drop_queued_def split_beta Let_def split: option.split)
  then show ?thesis using s1 s2 s3 by (auto intro: sup_sim_trans)
qed

subsection \<open>Every step\<close>

lemma intake_joined_step:
  assumes inv: "sup_inv sp" and ph: "sp_phase sp = Closing" and closed: "\<not> sp_intake sp"
  shows "sup_inv ((drain_messages now None (sp_messages sp) sp)\<lparr>sp_phase := Draining\<rparr>)
    \<and> sup_sim sp ((drain_messages now None (sp_messages sp) sp)\<lparr>sp_phase := Draining\<rparr>)"
proof -
  let ?sp = "drain_messages now None (sp_messages sp) sp"
  have inv1: "sup_inv ?sp" using calm_inv [OF calm_drain inv] by (simp add: drain_messages_empty)
  have f: "sp_phase ?sp = Closing" "\<not> sp_intake ?sp" "sp_messages ?sp = []"
    using calm_fields [OF calm_drain [of sp now None "sp_messages sp"]] ph closed by (simp_all add: drain_messages_empty)
  have "led 0 (?sp\<lparr>sp_phase := Draining\<rparr>) = led 0 ?sp" using f by (simp add: led_def admitting_w_def)
  moreover have "invs_ok (?sp\<lparr>sp_phase := Draining\<rparr>)"
    by (rule invs_ok_tasks [OF sup_inv_invs [OF inv1]]) simp_all
  then have "sup_inv (?sp\<lparr>sp_phase := Draining\<rparr>)"
    using inv1 f by (auto simp: sup_inv_def tables_ok_def queue_ok_def phase_ok_def pending_messages_def admitting_w_def)
  ultimately show ?thesis
    using drain_sim [OF refl sup_inv_wf_invs [OF inv] sup_inv_within [OF inv], of now None]
      calm_fields [OF calm_drain [of sp now None "sp_messages sp"]]
    by (simp add: sup_sim_def)
qed

lemma drained_step:
  assumes inv: "sup_inv sp" and ph: "sp_phase sp = Draining" and tasks: "sp_tasks sp = []"
    and sp': "sp' = sp\<lparr>sp_metrics := drain_finished (sp_metrics sp), sp_phase := Finished\<rparr>"
  shows "sup_inv sp' \<and> sup_sim sp sp'"
proof -
  have "invs_ok sp'" by (rule invs_ok_tasks [OF sup_inv_invs [OF inv]]) (simp_all add: sp')
  then have inv': "sup_inv sp'"
    using inv ph tasks
    by (auto simp: sp' sup_inv_def tables_ok_def queue_ok_def phase_ok_def pending_messages_def admitting_w_def)
  have "led 0 sp' = (led 0 sp)\<lparr>lg := drain_finished (lg (led 0 sp))\<rparr>"
    using ph by (simp add: sp' led_def admitting_w_def)
  then have "bounded_step (sp_capacity sp + 1) (sp_max_tracked sp) (sp_max_tracked sp) (led 0 sp) (led 0 sp')"
    using sup_inv_within [OF inv'] ledger_step.lg_drained [of "led 0 sp"] by (intro bounded_stepI) (simp_all add: sp')
  then show ?thesis using inv' by (simp add: sup_sim_def sp' r_into_rtranclp)
qed

lemma idle_message_step:
  assumes inv: "sup_inv sp" and ph: "sp_phase sp = Idle" and msgs: "sp_messages sp = msg # msgs"
    and room: "length (sp_jobs sp) < sp_max_tracked sp"
    and sp': "sp' = sp\<lparr>sp_messages := msgs, sp_phase := Admitting msg\<rparr>"
  shows "sup_inv sp' \<and> sup_sim sp sp'"
proof -
  have "invs_ok sp'" by (rule invs_ok_tasks [OF sup_inv_invs [OF inv]]) (simp_all add: sp')
  then have "sup_inv sp'"
    using inv ph msgs room
    by (auto simp: sp' sup_inv_def tables_ok_def queue_ok_def phase_ok_def pending_messages_def admitting_w_def
        simp del: domIff)
  moreover have "led 0 sp' = led 0 sp" using ph msgs by (simp add: sp' led_def admitting_w_def)
  ultimately show ?thesis by (simp add: sup_sim_def sp')
qed

lemma intake_fields_step:
  assumes inv: "sup_inv sp" and ok: "length (sp_messages sp) + of_bool r \<le> sp_capacity sp" "r \<longrightarrow> b"
    and ph: "sp_phase sp \<in> {Draining, Finished} \<longrightarrow> \<not> b"
    and sp': "sp' = sp\<lparr>sp_reserved := r, sp_intake := b\<rparr>"
  shows "sup_inv sp' \<and> sup_sim sp sp'"
proof -
  have "invs_ok sp'" by (rule invs_ok_tasks [OF sup_inv_invs [OF inv]]) (simp_all add: sp')
  then have "sup_inv sp'"
    using inv ok ph by (auto simp: sp' sup_inv_def tables_ok_def queue_ok_def phase_ok_def pending_messages_def)
  moreover have "led 0 sp' = led 0 sp" by (simp add: sp' led_def)
  ultimately show ?thesis by (simp add: sup_sim_def sp')
qed

lemma sync_fields_step:
  assumes inv: "sup_inv sp"
  shows "sup_inv (sp\<lparr>sp_synced := b, sp_sync_changed := True\<rparr>) \<and> sup_sim sp (sp\<lparr>sp_synced := b, sp_sync_changed := True\<rparr>)"
proof -
  have "invs_ok (sp\<lparr>sp_synced := b, sp_sync_changed := True\<rparr>)"
    by (rule invs_ok_tasks [OF sup_inv_invs [OF inv]]) simp_all
  then show ?thesis
    using inv by (auto simp: sup_sim_def led_def sup_inv_def tables_ok_def queue_ok_def phase_ok_def pending_messages_def)
qed

lemma admit_sync_step:
  assumes inv: "sup_inv sp" and ph: "sp_phase sp = Admitting msg"
    and sp': "sp' = (drop_queued u msg (cancel_untrusted_work now (on_inv (inv_cancel now) n sp)))\<lparr>sp_phase := Idle\<rparr>"
  shows "sup_inv sp' \<and> sup_sim sp sp'"
proof -
  let ?sp1 = "on_inv (inv_cancel now) n sp"
  let ?sp2 = "cancel_untrusted_work now ?sp1"
  have s1: "sup_inv ?sp1 \<and> sup_sim sp ?sp1" using on_inv_step [OF inv_sim_cancel inv] by blast
  then have s2: "sup_inv ?sp2 \<and> sup_sim ?sp1 ?sp2" using cancel_untrusted_step by blast
  have "sp_phase ?sp2 = Admitting msg"
    using calm_fields(8) [OF calm_cancel_untrusted(1) [of ?sp1 now]] calm_fields(8) [OF calm_on_inv(1) [OF inv_sim_cancel]] ph
    by simp
  then have "sup_inv sp' \<and> sup_sim ?sp2 sp'" unfolding sp' using leave_admitting s2 by blast
  then show ?thesis using s1 s2 sup_sim_trans by blast
qed

lemma may_move_simps:
  "may_move sp n Working (ExecThread n (Cleaning r))"
  "may_move sp n (Completing v) (ExecEnded e)"
  "(\<And>i. hm_get (sp_invs sp) n = Some i \<Longrightarrow> inv_execution i = None) \<Longrightarrow> may_move sp n (Cleaning r) (ExecThread n (Completing v))"
  "(\<And>i. hm_get (sp_invs sp) n = Some i \<Longrightarrow> inv_execution i = None) \<Longrightarrow> may_move sp n (Cleaning r) (ExecEnded e)"
  by (simp_all add: may_move_def slot_w_def)

lemma on_inv_const: "hm_get (sp_invs sp) n = Some i \<Longrightarrow> f (i, sp_metrics sp) = s' \<Longrightarrow> on_inv (\<lambda>_. s') n sp = on_inv f n sp"
  by (simp add: on_inv_def)

lemma exit_no_execution:
  "hm_get (sp_invs (on_inv (exit_effect now) n sp)) n = Some i \<Longrightarrow> inv_execution i = None"
  using exit_effect_execution by (auto simp: on_inv_def split_beta hm.lookup_upsert split: option.splits)

lemma thread_exit_step:
  assumes inv: "sup_inv sp" and k: "hm_get (sp_tasks sp) t = Some (ExecThread n (Cleaning r))"
    and i: "hm_get (sp_invs sp) n = Some i" and x: "blocking_exit now r (i, sp_metrics sp) = (Some w, s')"
    and k': "k' = ExecThread n (Completing v) \<or> k' = ExecEnded e"
    and sp': "sp' = set_task t k' ((on_inv (\<lambda>_. s') n sp)\<lparr>sp_slots := sp_slots sp - 1\<rparr>)"
  shows "sup_inv sp' \<and> sup_sim sp sp'"
proof (rule thread_step [OF inv k inv_sim_exit])
  show "may_move (on_inv (exit_effect now) n sp) n (Cleaning r) k'"
    using k' may_move_simps(3,4) exit_no_execution by metis
  show "sp' = (set_task t k' (on_inv (exit_effect now) n sp))
      \<lparr>sp_slots := sp_slots sp - (slot_w (ExecThread n (Cleaning r)) - slot_w k')\<rparr>"
    using k' on_inv_const [OF i, of "exit_effect now" s'] blocking_exit_effect [OF x]
    by (auto simp: sp' set_task_def slot_w_def)
qed

lemma thread_simple_step:
  assumes "sup_inv sp" "hm_get (sp_tasks sp) t = Some (ExecThread n ph)" "inv_sim f"
    "may_move (on_inv f n sp) n ph k'" "slot_w k' = slot_w (ExecThread n ph)"
  shows "sup_inv (set_task t k' (on_inv f n sp)) \<and> sup_sim sp (set_task t k' (on_inv f n sp))"
  using assms by (intro thread_step [OF assms(1-4)]) (simp add: set_task_def)

lemma inv_sim_comp_check: "inv_sim (snd \<circ> inv_check now)"
  using inv_sim_check [of now] by (simp add: comp_def)

lemma inv_sim_cleanup: "inv_sim (apfst spawn_cleanup)" "inv_sim (apfst (cleanup_exit r))"
  by (rule inv_sim_keep, simp add: spawn_cleanup_def cleanup_exit_def Let_def)+

lemma sup_env_step_inv:
  assumes inv: "sup_inv sp" and step: "sup_env_step sp sp'"
  shows "sup_inv sp' \<and> sup_sim sp sp'"
  using step
proof cases
  case intake_reserve
  then show ?thesis using inv by (intro intake_fields_step [OF inv, of True True]) auto
next
  case (intake_message n q m now timeout subject reply payload)
  then show ?thesis by (intro intake_message_step [OF inv]) auto
next
  case intake_exit
  then show ?thesis
    using inv by (intro intake_fields_step [OF inv, of False False]) (auto simp: sup_inv_def queue_ok_def)
next
  case (sync_set b)
  then show ?thesis using sync_fields_step [OF inv] by simp
qed

lemma sup_idle_step_inv:
  assumes inv: "sup_inv sp" and step: "sup_idle_step sp sp'"
  shows "sup_inv sp' \<and> sup_sim sp sp'"
  using step
proof cases
  case (idle_shutdown now)
  then show ?thesis using begin_stop_step [OF inv] by simp
next
  case (idle_sync now)
  then show ?thesis using cancel_untrusted_step [of "sp\<lparr>sp_sync_changed := False\<rparr>"] inv by simp
next
  case (idle_sync_closed now)
  have "sp_phase (cancel_untrusted_work now sp) = Idle"
    using calm_fields(8) [OF calm_cancel_untrusted(1)] idle_sync_closed(2) by simp
  then show ?thesis
    using cancel_untrusted_step [OF inv, of now] begin_stop_step [of "cancel_untrusted_work now sp" now] idle_sync_closed(1)
      sup_sim_trans by blast
next
  case (idle_closed now)
  then show ?thesis using begin_stop_step [OF inv] by simp
next
  case (idle_unsynced msg msgs now)
  then show ?thesis using reject_step [OF inv] by simp
next
  case (idle_message msg msgs)
  then show ?thesis by (intro idle_message_step [OF inv]) auto
qed

lemma sup_admit_step_inv:
  assumes sem: "semaphore_spec sem" and inv: "sup_inv sp" and step: "sup_admit_step sem encode sp sp'"
  shows "sup_inv sp' \<and> sup_sim sp sp'"
  using step
proof cases
  case (admit_shutdown msg now)
  let ?sp1 = "on_inv (inv_cancel now) (im_inv msg) sp"
  let ?sp2 = "(drop_queued None msg ?sp1)\<lparr>sp_phase := Idle\<rparr>"
  have s1: "sup_inv ?sp1 \<and> sup_sim sp ?sp1" using on_inv_step [OF inv_sim_cancel inv] by blast
  have "sp_phase ?sp1 = Admitting msg" using calm_fields(8) [OF calm_on_inv(1) [OF inv_sim_cancel]] admit_shutdown(2) by simp
  then have s2: "sup_inv ?sp2 \<and> sup_sim ?sp1 ?sp2" using leave_admitting s1 by blast
  then have "sup_inv sp' \<and> sup_sim ?sp2 sp'"
    using begin_stop_step [of ?sp2 now] admit_shutdown(1) by (simp add: begin_stop_phase reject_message_def)
  then show ?thesis using s1 s2 sup_sim_trans by blast
next
  case (admit_sync msg now)
  let ?sp1 = "(drop_queued (Some ''error'') msg (cancel_untrusted_work now (on_inv (inv_cancel now) (im_inv msg) sp)))\<lparr>sp_phase := Idle\<rparr>"
  have "sp' = ?sp1\<lparr>sp_sync_changed := False\<rparr>" using admit_sync(1) by simp
  then show ?thesis using admit_sync_step [OF inv admit_sync(2) refl] sup_inv_sync(1) sup_sim_sync(2) by metis
next
  case (admit_sync_closed msg now)
  let ?sp1 = "(drop_queued (Some ''error'') msg (cancel_untrusted_work now (on_inv (inv_cancel now) (im_inv msg) sp)))\<lparr>sp_phase := Idle\<rparr>"
  have "sup_inv ?sp1 \<and> sup_sim sp ?sp1" using admit_sync_step [OF inv admit_sync_closed(2)] by blast
  then show ?thesis
    using begin_stop_step [of ?sp1 now] admit_sync_closed(1) sup_sim_trans by (auto simp: begin_stop_phase)
next
  case (admit_expired msg i now t client)
  then show ?thesis using expire_step [OF inv] by simp
next
  case (admit_permit msg i now t by_topic component client)
  have slot: "sp_slots sp < sp_max_tracked sp" using admit_permit(5) semaphore_spec.sem_admits_iff [OF sem] by simp
  show ?thesis unfolding admit_permit(1) by (rule dispatch_step [OF inv admit_permit(2) admit_permit(6) slot])
qed

lemma sup_task_step_inv:
  assumes inv: "sup_inv sp" and step: "sup_task_step sp sp'"
  shows "sup_inv sp' \<and> sup_sim sp sp'"
  using step
proof cases
  case (guest_check t n now)
  then show ?thesis using on_inv_step [OF inv_sim_comp_check inv] by blast
next
  case (guest_cleanup t n)
  then show ?thesis using on_inv_step [OF inv_sim_cleanup(1) inv] by blast
next
  case (cleanup_ended n i r)
  then show ?thesis using on_inv_step [OF inv_sim_cleanup(2) inv] by blast
next
  case (work_done t n r now)
  then show ?thesis
    using thread_simple_step [OF inv _ inv_sim_after_work may_move_simps(1)] by (simp add: slot_w_def)
next
  case (thread_exit t n r i now v s')
  then show ?thesis using thread_exit_step [OF inv] by blast
next
  case (thread_panic t n r i now s')
  then show ?thesis using thread_exit_step [OF inv] by blast
next
  case (thread_complete t n v i now now')
  then show ?thesis
    using thread_simple_step [OF inv _ inv_sim_comp_check may_move_simps(2)] by (simp add: slot_w_def)
next
  case (reply_done t rc outcome target body aborted result)
  then show ?thesis using reply_ended_step [OF inv] by blast
next
  case (reply_failed t rc outcome target body aborted e)
  then show ?thesis using reply_ended_step [OF inv] by blast
qed

lemma sup_drain_step_inv:
  assumes inv: "sup_inv sp" and step: "sup_drain_step encode sp sp'"
  shows "sup_inv sp' \<and> sup_sim sp sp'"
  using step
proof cases
  case (join t k t')
  then show ?thesis using join_step [OF inv] by blast
next
  case (intake_joined now)
  then show ?thesis using intake_joined_step [OF inv] by simp
next
  case drained
  then show ?thesis using drained_step [OF inv] by blast
qed

lemma sup_step_inv:
  assumes "semaphore_spec sem" "sup_inv sp" "sup_step sem encode sp sp'"
  shows "sup_inv sp' \<and> sup_sim sp sp'"
  using assms(3)
  by cases (elim sup_env_step_inv [OF assms(2)] sup_idle_step_inv [OF assms(2)] sup_admit_step_inv [OF assms(1,2)]
      sup_task_step_inv [OF assms(2)] sup_drain_step_inv [OF assms(2)])+

definition sup_init :: "nat \<Rightarrow> nat \<Rightarrow> supervisor \<Rightarrow> bool" where
  "sup_init cap lim sp \<longleftrightarrow> (\<exists>synced. sp = supervisor_new cap lim synced)"

definition sup_inv_of :: "nat \<Rightarrow> nat \<Rightarrow> supervisor \<Rightarrow> bool" where
  "sup_inv_of cap lim sp \<longleftrightarrow> sup_inv sp \<and> sp_capacity sp = cap \<and> sp_max_tracked sp = lim"

lemma sup_init_inv: "sup_init cap lim sp \<Longrightarrow> sup_inv_of cap lim sp \<and> bounded_init (cap + 1) lim lim (led 0 sp)"
  by (auto simp: sup_init_def sup_inv_of_def supervisor_new_def sup_inv_def tables_ok_def invs_ok_def queue_ok_def
      phase_ok_def pending_messages_def admitting_w_def bounded_init_def led_def configure_counts dispatch_new_def)

sublocale semaphore_spec \<subseteq> supervision: simulation "bounded_init (cap + 1) lim lim" "bounded_step (cap + 1) lim lim"
    "bounded_inv (cap + 1) lim lim" "sup_init cap lim" "sup_step sem encode" "sup_inv_of cap lim" "led 0"
  for cap lim encode
proof unfold_locales
  fix c c'
  show "sup_init cap lim c \<Longrightarrow> sup_inv_of cap lim c" "sup_init cap lim c \<Longrightarrow> bounded_init (cap + 1) lim lim (led 0 c)"
    using sup_init_inv by blast+
  assume "sup_inv_of cap lim c" "sup_step sem encode c c'"
  then show "sup_inv_of cap lim c'" "(bounded_step (cap + 1) lim lim)\<^sup>*\<^sup>* (led 0 c) (led 0 c')"
    using sup_step_inv [OF semaphore_spec_axioms, of c encode c'] by (auto simp: sup_inv_of_def sup_sim_def)
qed

context semaphore_spec
begin

lemma supervisor_reachable:
  assumes "reaches (sup_init cap lim) (sup_step sem encode) sp"
  shows "sup_inv_of cap lim sp" "bounded_inv (cap + 1) lim lim (led 0 sp)"
  using supervision.concrete_inv [OF assms] supervision.abs_inv [OF assms] .

end

section \<open>Revocation\<close>

text \<open>What the loss of the configuration leaves of the work in progress.\<close>

definition all_revoked :: "supervisor \<Rightarrow> bool" where
  "all_revoked sp \<longleftrightarrow>
     (\<forall>t job. hm_get (sp_jobs sp) t = Some (ExecutionJob job) \<longrightarrow> authority_revoked job \<and>
        (\<forall>i. hm_get (sp_invs sp) (job_inv job) = Some i \<longrightarrow> inv_cancelled i)) \<and>
     (\<forall>t record outcome target body aborted.
        hm_get (sp_tasks sp) t = Some (ReplyFuture record outcome target body aborted) \<longrightarrow> aborted) \<and>
     sp_messages sp = []"

definition job_revoked :: "supervisor \<Rightarrow> nat \<Rightarrow> bool" where
  "job_revoked sp t \<longleftrightarrow>
     (\<forall>job. hm_get (sp_jobs sp) t = Some (ExecutionJob job) \<longrightarrow> authority_revoked job \<and>
        (\<forall>i. hm_get (sp_invs sp) (job_inv job) = Some i \<longrightarrow> inv_cancelled i)) \<and>
     (\<forall>record outcome target body aborted.
        hm_get (sp_tasks sp) t = Some (ReplyFuture record outcome target body aborted) \<longrightarrow> aborted)"

lemma on_inv_cancelled:
  "hm_get (sp_invs (on_inv (inv_cancel now) n sp)) m = Some i \<Longrightarrow>
     inv_cancelled i \<or> m \<noteq> n \<and> hm_get (sp_invs sp) m = Some i"
  by (auto simp: on_inv_def split_beta hm.lookup_upsert split: option.splits if_splits)

lemma revoke_job_revokes:
  assumes km: "kinds_match (hm_get (sp_jobs sp) t) (hm_get (sp_tasks sp) t)"
  shows "job_revoked (revoke_job now t sp) t"
  using km on_inv_cancelled
  by (cases "(hm_get (sp_jobs sp) t, hm_get (sp_tasks sp) t)" rule: kinds_match.cases)
    (auto simp: job_revoked_def revoke_job_def abort_task_def hm.lookup_upsert dest!: on_inv_cancelled)

lemma revoke_job_keeps:
  assumes km: "kinds_match (hm_get (sp_jobs sp) t) (hm_get (sp_tasks sp) t)" and u: "job_revoked sp u"
  shows "job_revoked (revoke_job now t sp) u"
  using km u on_inv_cancelled
  by (cases "(hm_get (sp_jobs sp) t, hm_get (sp_tasks sp) t)" rule: kinds_match.cases)
    (auto simp: job_revoked_def revoke_job_def abort_task_def hm.lookup_upsert dest!: on_inv_cancelled split: if_splits)

lemma job_revoked_on_inv: "job_revoked sp u \<Longrightarrow> job_revoked (on_inv (inv_cancel now) n sp) u"
  by (auto simp: job_revoked_def dest!: on_inv_cancelled)

lemma job_revoked_reject: "job_revoked sp u \<Longrightarrow> job_revoked (reject_message now x msg sp) u"
proof -
  assume "job_revoked sp u"
  then have r: "job_revoked (on_inv (inv_cancel now) (im_inv msg) sp) u" by (rule job_revoked_on_inv)
  have "job_revoked (drop_queued x msg s) u = job_revoked s u" for s
    unfolding job_revoked_def drop_queued_def by simp
  then show ?thesis unfolding reject_message_def using r by simp
qed

lemma job_revoked_drain: "job_revoked sp u \<Longrightarrow> job_revoked (drain_messages now x msgs sp) u"
proof (induction now x msgs sp rule: drain_messages.induct)
  case (2 now x msg msgs sp)
  have "job_revoked (sp\<lparr>sp_messages := msgs\<rparr>) u = job_revoked sp u" unfolding job_revoked_def by simp
  with 2(2) have "job_revoked (sp\<lparr>sp_messages := msgs\<rparr>) u" by blast
  from 2(1) [OF job_revoked_reject [OF this]] show ?case by simp
qed simp

lemma revoke_all_revokes:
  "tables_ok sp \<Longrightarrow> t \<in> set ts \<or> job_revoked sp t \<Longrightarrow> job_revoked (fold (revoke_job now) ts sp) t"
proof (induction ts arbitrary: sp)
  case (Cons u ts)
  have km: "kinds_match (hm_get (sp_jobs sp) u) (hm_get (sp_tasks sp) u)"
    using Cons.prems(1) by (simp add: tables_ok_def)
  show ?case
    using Cons.IH [OF calm_tables [OF calm_revoke(1) Cons.prems(1)]] Cons.prems(2)
      revoke_job_revokes [OF km] revoke_job_keeps [OF km, of t] by auto
qed simp

lemma cancel_untrusted_revokes:
  assumes "sup_inv sp"
  shows "all_revoked (cancel_untrusted_work now sp)"
proof -
  have ok: "tables_ok sp" using assms by (simp add: sup_inv_def)
  have "job_revoked (fold (revoke_job now) (hm_keys (sp_jobs sp)) sp) t" for t
  proof (rule revoke_all_revokes [OF ok])
    have "kinds_match (hm_get (sp_jobs sp) t) (hm_get (sp_tasks sp) t)" using ok by (simp add: tables_ok_def)
    then show "t \<in> set (hm_keys (sp_jobs sp)) \<or> job_revoked sp t"
      by (cases "hm_get (sp_jobs sp) t"; cases "hm_get (sp_tasks sp) t")
        (auto simp: job_revoked_def map_of_eq_None_iff dest: map_of_SomeD intro: rev_image_eqI)
  qed
  then have "job_revoked (cancel_untrusted_work now sp) t" for t
    using job_revoked_drain by (simp add: cancel_untrusted_work_def Let_def)
  then show ?thesis
    unfolding all_revoked_def job_revoked_def using calm_cancel_untrusted(2) by blast
qed

subsection \<open>Revoked work stays silent\<close>

definition exec_revoked :: "supervisor \<Rightarrow> nat \<Rightarrow> bool" where
  "exec_revoked sp t \<longleftrightarrow> (\<exists>job. hm_get (sp_jobs sp) t = Some (ExecutionJob job) \<and> authority_revoked job)"

lemma calm_exec_revoked:
  assumes "exec_revoked sp t"
  shows "exec_revoked (on_inv f n sp) t" "exec_revoked (revoke_job now u sp) t"
    "exec_revoked (drop_queued x msg sp) t" "exec_revoked (set_task v k sp) t"
  using assms
  by (auto simp: exec_revoked_def revoke_job_def abort_task_def drop_queued_def set_task_def hm.lookup_upsert
      split: option.split owned_job.split sup_task.split)

lemma exec_revoked_reject: "exec_revoked sp t \<Longrightarrow> exec_revoked (reject_message now x msg sp) t"
  unfolding reject_message_def by (intro calm_exec_revoked)

lemma exec_revoked_fields [simp]:
  "exec_revoked (sp\<lparr>sp_messages := a\<rparr>) t = exec_revoked sp t" "exec_revoked (sp\<lparr>sp_phase := b\<rparr>) t = exec_revoked sp t"
  "exec_revoked (sp\<lparr>sp_metrics := c\<rparr>) t = exec_revoked sp t" "exec_revoked (sp\<lparr>sp_slots := d\<rparr>) t = exec_revoked sp t"
  "exec_revoked (sp\<lparr>sp_sync_changed := e\<rparr>) t = exec_revoked sp t" "exec_revoked (sp\<lparr>sp_synced := e\<rparr>) t = exec_revoked sp t"
  "exec_revoked (sp\<lparr>sp_reserved := e\<rparr>) t = exec_revoked sp t" "exec_revoked (sp\<lparr>sp_intake := e\<rparr>) t = exec_revoked sp t"
  "exec_revoked (sp\<lparr>sp_invs := g\<rparr>) t = exec_revoked sp t" "exec_revoked (sp\<lparr>sp_events := h\<rparr>) t = exec_revoked sp t"
  by (simp_all add: exec_revoked_def)

lemma exec_revoked_drain: "exec_revoked sp t \<Longrightarrow> exec_revoked (drain_messages now x msgs sp) t"
  by (induction now x msgs sp rule: drain_messages.induct) (simp_all add: exec_revoked_reject)

lemma exec_revoked_cancel: "exec_revoked sp t \<Longrightarrow> exec_revoked (cancel_untrusted_work now sp) t"
proof -
  assume r: "exec_revoked sp t"
  have "exec_revoked (fold (revoke_job now) ts sp) t" for ts
    using r by (induction ts arbitrary: sp) (simp_all add: calm_exec_revoked)
  then show ?thesis unfolding cancel_untrusted_work_def Let_def by (rule exec_revoked_drain)
qed

lemma exec_revoked_spawn:
  assumes "exec_revoked sp t" "fresh_task u sp"
  shows "exec_revoked (spawn_reply u rec a b c d sp) t" "exec_revoked (spawn_execution now u job sp) t"
proof -
  have "u \<noteq> t" using assms by (auto simp: exec_revoked_def fresh_task_def)
  then show "exec_revoked (spawn_reply u rec a b c d sp) t" "exec_revoked (spawn_execution now u job sp) t"
    using assms(1) calm_exec_revoked(1) [OF assms(1), of "start_execution now" "job_inv job"]
    by (auto simp: exec_revoked_def spawn_reply_def spawn_execution_def Let_def hm.lookup_upsert)
qed

lemma exec_revoked_dispatch:
  assumes r: "exec_revoked sp t" and fr: "fresh_task u sp"
  shows "exec_revoked (dispatch_message by_topic component client now u msg sp) t"
proof -
  let ?d = "dispatch_message by_topic component client now u msg sp"
  consider x where "?d = drop_queued x msg sp" | x where "?d = reject_message now x msg sp"
    | job ev where "?d = spawn_execution now u job ((drop_queued (Some ''admitted'') msg sp)\<lparr>sp_events := ev,
        sp_metrics := snd (task_started (sp_metrics (drop_queued (Some ''admitted'') msg sp))), sp_slots := Suc (sp_slots sp)\<rparr>)"
    using dispatch_cases [of by_topic component client now u msg sp] by blast
  then show ?thesis
  proof cases
    case 3
    show ?thesis
      unfolding 3 using calm_exec_revoked(3) [OF r] fr
      by (intro exec_revoked_spawn(2)) (simp_all add: fresh_task_def drop_queued_def)
  qed (simp_all add: calm_exec_revoked exec_revoked_reject r)
qed

lemma exec_revoked_join:
  assumes r: "exec_revoked sp t" and fr: "fresh_task u' sp" and j: "join_next encode u u' sp = Some sp'"
    and k: "hm_get (sp_tasks sp) u = Some k" "task_result k \<noteq> None"
  shows "exec_revoked sp' t \<or> u = t \<and> hm_get (sp_jobs sp') t = None \<and> sp_tasks sp' = hm_remove t (sp_tasks sp)"
proof (cases "u = t")
  case True
  then show ?thesis
    using r j k by (auto simp: exec_revoked_def join_next_def collect_def hm.lookup_discard)
next
  case False
  have "u' \<noteq> t" using r fr by (auto simp: exec_revoked_def fresh_task_def)
  then show ?thesis
    using False r j k
    by (auto simp: exec_revoked_def join_next_def collect_def spawn_reply_def hm.lookup_discard hm.lookup_upsert Let_def
        split: option.splits owned_job.splits if_splits)
qed

end
