(* ===== verification/SupervisorProperties.thy ===== *)
theory SupervisorProperties
  imports SupervisorSafety
begin

text \<open>
  The properties of the invocation supervisor: its limits and its accounting in every reachable
  state, the fate of revoked work, the collection of every task by its owner, and the end of the
  drain.
\<close>

section \<open>Revoked work through a step\<close>

lemma exec_revoked_begin_stop [simp]: "exec_revoked (begin_stop now sp) t = exec_revoked sp t"
  by (simp add: begin_stop_def)

lemma exec_revoked_set_task [simp]: "exec_revoked (set_task u k sp) t = exec_revoked sp t"
  by (simp add: exec_revoked_def set_task_def)

lemma exec_revoked_on_inv [simp]: "exec_revoked (on_inv f n sp) t = exec_revoked sp t"
  by (simp add: exec_revoked_def)

lemma exec_revoked_drop [simp]: "exec_revoked (drop_queued x msg sp) t = exec_revoked sp t"
  by (simp add: drop_queued_def)

lemmas exec_revoked_ops = exec_revoked_reject exec_revoked_drain exec_revoked_cancel

lemma exec_revoked_expire:
  assumes "exec_revoked sp t" "fresh_task u sp"
  shows "exec_revoked (expire_message encode client now u msg sp) t"
  unfolding expire_message_def Let_def split_beta
  by (rule exec_revoked_spawn(1)) (insert assms, simp_all add: fresh_task_def drop_queued_def)

lemma exec_revoked_step:
  assumes r: "exec_revoked sp t" and step: "sup_step sem encode sp sp'"
  shows "exec_revoked sp' t \<or> hm_get (sp_jobs sp') t = None \<and> sp_tasks sp' = hm_remove t (sp_tasks sp)"
  using step
proof cases
  case by_environment
  then show ?thesis by cases (simp_all add: r)
next
  case by_idle
  then show ?thesis by cases (simp_all add: r exec_revoked_ops)
next
  case by_admission
  then show ?thesis
  proof cases
    case (admit_expired msg i now u client)
    then show ?thesis
      using exec_revoked_expire [of "sp\<lparr>sp_phase := Idle\<rparr>" t u encode client now msg] r by (simp add: fresh_task_def)
  next
    case (admit_permit msg i now u by_topic component client)
    then show ?thesis
      using exec_revoked_dispatch [of "sp\<lparr>sp_phase := Idle\<rparr>" t u by_topic component client now msg] r
      by (simp add: fresh_task_def)
  qed (simp_all add: r exec_revoked_ops)
next
  case by_task
  then show ?thesis by cases (simp_all add: r)
next
  case by_drain
  then show ?thesis
  proof cases
    case (join u k u')
    then show ?thesis using exec_revoked_join [OF r] by blast
  qed (simp_all add: r exec_revoked_ops)
qed

lemma executing_card:
  assumes "tables_ok sp" "invs_ok sp"
  shows "card {n. \<exists>i. hm_get (sp_invs sp) n = Some i \<and> inv_execution i \<noteq> None} =
    hm_total running_w (sp_invs sp) + hm_total terminating_w (sp_invs sp)"
proof -
  let ?w = "\<lambda>i. running_w i + terminating_w i"
  have w: "?w i \<le> 1" "?w i = 1 \<longleftrightarrow> inv_execution i \<noteq> None" for i
    by (auto simp: running_w_def terminating_w_def split: option.split)
  have "hm_total ?w m = hm_total running_w m + hm_total terminating_w m" for m :: "(nat, invocation) hash_map"
    by (induction m) auto
  moreover have "hm_total ?w (sp_invs sp) = card {n. \<exists>i. hm_get (sp_invs sp) n = Some i \<and> ?w i = 1}"
    using assms(2) w(1) by (intro hm_total_card) (auto simp: invs_ok_def)
  ultimately show ?thesis by (simp only: w(2))
qed

section \<open>The drain\<close>

text \<open>What is left to do: the stages every task still goes through, and the cleanup tasks.\<close>

definition task_stage :: "sup_task \<Rightarrow> nat" where
  "task_stage k =
     (case k of ExecThread _ Working \<Rightarrow> 6 | ExecThread _ (Cleaning _) \<Rightarrow> 5 | ExecThread _ (Completing _) \<Rightarrow> 4
      | ExecEnded _ \<Rightarrow> 3 | ReplyFuture _ _ _ _ _ \<Rightarrow> 2 | ReplyEnded _ \<Rightarrow> 1)"

definition drain_measure :: "supervisor \<Rightarrow> nat" where
  "drain_measure sp = hm_total task_stage (sp_tasks sp) + hm_total (cl_running \<circ> inv_cleanup) (sp_invs sp)"

lemma stage_less:
  assumes "hm_wf m" "hm_get m t = Some k" "task_stage k' < task_stage k"
  shows "hm_total task_stage (hm_insert t k' m) < hm_total task_stage m"
  using hm_total_insert_old [OF assms(1,2), of task_stage k'] assms(3) by linarith

lemma cleanup_total:
  assumes "hm_wf (sp_invs sp)" "hm_get (sp_invs sp) n = Some i"
  shows "hm_total (cl_running \<circ> inv_cleanup) (sp_invs (on_inv f n sp)) + cl_running (inv_cleanup i) =
    hm_total (cl_running \<circ> inv_cleanup) (sp_invs sp) + cl_running (inv_cleanup (fst (f (i, sp_metrics sp))))"
  using hm_total_insert_old [OF assms, of "cl_running \<circ> inv_cleanup" "fst (f (i, sp_metrics sp))"] assms(2)
  by (simp add: on_inv_def split_beta)

lemma on_inv_phase [simp]: "sp_phase (on_inv f n sp) = sp_phase sp"
  by (simp add: on_inv_def split_beta split: option.split)

lemma set_task_frame [simp]:
  "sp_phase (set_task t k sp) = sp_phase sp" "sp_invs (set_task t k sp) = sp_invs sp"
  "sp_tasks (set_task t k sp) = hm_insert t k (sp_tasks sp)"
  by (simp_all add: set_task_def)

lemma check_cleanup: "inv_cleanup (fst (snd (inv_check now s))) = inv_cleanup (fst s)"
  by (simp add: inv_check_snd)

lemma exit_cleanup: "cl_running (inv_cleanup (fst (exit_effect now s))) = cl_running (inv_cleanup (fst s))"
proof -
  have "inv_cleanup (fst (ownership_drop u)) = inv_cleanup (fst u)" for u
    by (cases u) (simp add: ownership_drop_def split: option.split)
  moreover have "cl_running (inv_cleanup (snd (inv_finish i))) = cl_running (inv_cleanup i)" for i
    by (simp add: inv_finish_def Let_def)
  ultimately show ?thesis by (simp add: exit_effect_def check_cleanup)
qed

lemma progressI:
  "sup_task_step sp sp' \<Longrightarrow> sp_phase sp' = sp_phase sp \<Longrightarrow> drain_measure sp' < drain_measure sp \<Longrightarrow>
     \<exists>sp'. sup_task_step sp sp' \<and> sp_phase sp' = sp_phase sp \<and> drain_measure sp' < drain_measure sp"
  by blast

lemma exit_progress:
  assumes inv: "sup_inv sp" and k: "hm_get (sp_tasks sp) t = Some (ExecThread n (Cleaning r))"
    and i: "hm_get (sp_invs sp) n = Some i" and clean: "cl_running (inv_cleanup i) = 0"
  shows "\<exists>sp'. sup_task_step sp sp' \<and> sp_phase sp' = sp_phase sp \<and> drain_measure sp' < drain_measure sp"
proof -
  have wf: "hm_wf (sp_tasks sp)" "hm_wf (sp_invs sp)" using inv by (simp_all add: sup_inv_def tables_ok_def invs_ok_def)
  note less = stage_less [OF wf(1) k]
  obtain w s' where x: "blocking_exit 0 r (i, sp_metrics sp) = (Some w, s')"
    using clean by (cases "inv_finish i") (auto simp: blocking_exit_def inv_finish_def Let_def)
  have s': "on_inv (\<lambda>_. s') n sp = on_inv (exit_effect 0) n sp"
    using on_inv_const [OF i, of "exit_effect 0" s'] blocking_exit_effect [OF x] by simp
  note c = cleanup_total [OF wf(2) i, of "exit_effect 0"]
  show ?thesis
  proof (cases w)
    case (Returned v)
    show ?thesis
      by (rule progressI [OF sup_task_step.thread_exit [OF k i x [unfolded Returned]]],
          insert less [of "ExecThread n (Completing v)"] c)
        (simp_all add: drain_measure_def task_stage_def s' exit_cleanup)
  next
    case Unwound
    show ?thesis
      by (rule progressI [OF sup_task_step.thread_panic [OF k i x [unfolded Unwound]]],
          insert less [of "ExecEnded (Inl TaskPanicked)"] c)
        (simp_all add: drain_measure_def task_stage_def s' exit_cleanup)
  qed
qed

lemma thread_progress:
  assumes inv: "sup_inv sp" and k: "hm_get (sp_tasks sp) t = Some (ExecThread n ph)"
  shows "\<exists>sp'. sup_task_step sp sp' \<and> sp_phase sp' = sp_phase sp \<and> drain_measure sp' < drain_measure sp"
proof -
  have wf: "hm_wf (sp_tasks sp)" "hm_wf (sp_invs sp)" using inv by (simp_all add: sup_inv_def tables_ok_def invs_ok_def)
  obtain i where i: "hm_get (sp_invs sp) n = Some i" using invs_okD(2) [OF sup_inv_invs [OF inv] k] by blast
  note less = stage_less [OF wf(1) k] and clean = cleanup_total [OF wf(2) i]
  show ?thesis
  proof (cases ph)
    case Working
    let ?r = "Returned (Inr None) :: bytes option work_result"
    show ?thesis
      by (rule progressI [OF sup_task_step.work_done [OF k [unfolded Working], of ?r 0]],
          insert less [of "ExecThread n (Cleaning ?r)"] clean [of "blocking_after_work 0 ?r"] Working)
        (simp_all add: drain_measure_def task_stage_def blocking_after_work_def)
  next
    case (Cleaning r)
    show ?thesis
    proof (cases "0 < cl_running (inv_cleanup i)")
      case True
      show ?thesis
        by (rule progressI [OF sup_task_step.cleanup_ended [OF i True, of None]],
            insert clean [of "apfst (cleanup_exit None)"] True)
          (simp_all add: drain_measure_def cleanup_exit_def Let_def)
    next
      case False
      then show ?thesis using exit_progress [OF inv k [unfolded Cleaning] i] by simp
    qed
  next
    case (Completing v)
    show ?thesis
      by (rule progressI [OF sup_task_step.thread_complete [OF k [unfolded Completing] i, of 0 0]],
          insert Completing clean [of "snd \<circ> inv_check 0"] less [of "ExecEnded (Inr (v, inv_over 0 i, inv_deadline i \<le> 0))"])
        (simp_all add: drain_measure_def task_stage_def check_cleanup)
  qed
qed

text \<open>An ended task has an owner of its kind, and collecting it never panics.\<close>

lemma join_total:
  assumes inv: "sup_inv sp" and k: "hm_get (sp_tasks sp) t = Some k" "task_result k \<noteq> None"
  shows "hm_get (sp_jobs sp) t \<noteq> None" "\<exists>sp'. join_next encode t t' sp = Some sp'"
proof -
  have km: "kinds_match (hm_get (sp_jobs sp) t) (Some k)"
    using inv k(1) unfolding sup_inv_def tables_ok_def by metis
  then show "hm_get (sp_jobs sp) t \<noteq> None" by (cases "hm_get (sp_jobs sp) t") auto
  show "\<exists>sp'. join_next encode t t' sp = Some sp'"
  proof (cases k)
    case (ExecEnded r)
    then have "\<exists>outcome. collect_outcome encode (the (task_result k)) = Some outcome"
      by (cases r) (auto simp: task_result_def collect_outcome_def split: prod.split)
    then show ?thesis
      using km k ExecEnded
      by (cases "(hm_get (sp_jobs sp) t, Some k)" rule: kinds_match.cases) (auto simp: join_next_def collect_def Let_def)
  next
    case (ReplyEnded e)
    then show ?thesis
      using km k by (cases "(hm_get (sp_jobs sp) t, Some k)" rule: kinds_match.cases) (auto simp: join_next_def collect_def)
  qed (insert k(2), simp_all add: task_result_def)
qed

lemma fresh_exists: "\<exists>t. fresh_task t sp"
proof -
  have "finite (dom (hm_get (sp_tasks sp)) \<union> dom (hm_get (sp_jobs sp)))" by (simp add: finite_dom_map_of)
  then obtain t where "t \<notin> dom (hm_get (sp_tasks sp)) \<union> dom (hm_get (sp_jobs sp))"
    using infinite_UNIV_nat ex_new_if_finite by blast
  then show ?thesis by (auto simp: fresh_task_def)
qed

lemma join_measure:
  assumes inv: "sup_inv sp" and k: "hm_get (sp_tasks sp) t = Some k" "task_result k \<noteq> None"
    and fr: "fresh_task t' sp" and j: "join_next encode t t' sp = Some sp'"
  shows "drain_measure sp' < drain_measure sp \<and> sp_phase sp' = sp_phase sp"
proof -
  have wf: "hm_wf (sp_tasks sp)" using inv by (simp add: sup_inv_def tables_ok_def)
  have km: "kinds_match (hm_get (sp_jobs sp) t) (Some k)"
    using inv k(1) unfolding sup_inv_def tables_ok_def by metis
  have stage: "0 < task_stage k"
    by (cases k) (simp_all add: task_stage_def split: exec_phase.split)
  have exec: "task_stage k = 3" if "\<not> (\<exists>e. k = ReplyEnded e)"
    using that k(2) by (cases k) (auto simp: task_result_def task_stage_def)
  have "hm_get (hm_remove t (sp_tasks sp)) t' = None" using fr by (simp add: fresh_task_def hm.lookup_discard)
  then have new: "hm_total task_stage (hm_insert t' k' (hm_remove t (sp_tasks sp))) + task_stage k =
      hm_total task_stage (sp_tasks sp) + task_stage k'" for k'
    using hm_total_remove [OF wf k(1), of task_stage] by (simp add: hm_total_insert_new)
  show ?thesis
    using km k j hm_total_remove [OF wf k(1), of task_stage] stage exec new
    by (cases "(hm_get (sp_jobs sp) t, Some k)" rule: kinds_match.cases)
      (auto simp: join_next_def collect_def spawn_reply_def drain_measure_def task_stage_def Let_def
        split: if_splits option.splits)
qed

text \<open>A drain needs no step of the environment: the threads, the replies and the collection go on by themselves.\<close>

definition drain_step :: "(nat \<Rightarrow> string \<Rightarrow> bytes option) \<Rightarrow> supervisor \<Rightarrow> supervisor \<Rightarrow> bool" where
  "drain_step encode sp sp' \<longleftrightarrow> sup_task_step sp sp' \<or> sup_drain_step encode sp sp'"

lemma drain_step_step: "drain_step encode sp sp' \<Longrightarrow> sup_step sem encode sp sp'"
  by (auto simp: drain_step_def intro: sup_step.intros)

lemma drain_progress:
  assumes inv: "sup_inv sp" and ph: "sp_phase sp = Draining" and ne: "sp_tasks sp \<noteq> []"
  shows "\<exists>sp'. drain_step encode sp sp' \<and> sp_phase sp' = Draining \<and> drain_measure sp' < drain_measure sp"
proof -
  obtain t k where k: "hm_get (sp_tasks sp) t = Some k" using ne by (cases "sp_tasks sp") fastforce+
  have wf: "hm_wf (sp_tasks sp)" using inv by (simp add: sup_inv_def tables_ok_def)
  show ?thesis
  proof (cases "task_result k")
    case (Some r)
    obtain t' where fr: "fresh_task t' sp" using fresh_exists by blast
    obtain sp' where j: "join_next encode t t' sp = Some sp'" using join_total(2) [OF inv k] Some by blast
    have "sup_drain_step encode sp sp'"
      by (rule sup_drain_step.join [OF _ k _ fr j]) (simp_all add: ph Some)
    then have "drain_step encode sp sp'" by (simp add: drain_step_def)
    moreover have "drain_measure sp' < drain_measure sp \<and> sp_phase sp' = sp_phase sp"
      by (rule join_measure [OF inv k _ fr j]) (simp add: Some)
    ultimately show ?thesis using ph by auto
  next
    case None
    then consider n ph where "k = ExecThread n ph" | a b c d e where "k = ReplyFuture a b c d e"
      by (cases k) (auto simp: task_result_def split: sum.splits option.splits)
    then show ?thesis
    proof cases
      case 1
      then show ?thesis using thread_progress [OF inv, of t] k ph unfolding drain_step_def by metis
    next
      case 2
      let ?sp = "set_task t (ReplyEnded None) (sp\<lparr>sp_metrics := task_drop False
          (reply_record b (reply_publish c d Elapsed) a) (sp_metrics sp)\<rparr>)"
      have "drain_step encode sp ?sp"
        unfolding drain_step_def using k 2 by (intro disjI1 sup_task_step.reply_done) simp
      moreover have "hm_total task_stage (hm_insert t (ReplyEnded None) (sp_tasks sp)) < hm_total task_stage (sp_tasks sp)"
        using stage_less [OF wf k] 2 by (simp add: task_stage_def)
      ultimately show ?thesis
        using ph by (intro exI [of _ ?sp]) (simp add: drain_measure_def)
    qed
  qed
qed

lemma drain_reaches_end:
  assumes sem: "semaphore_spec sem"
  shows "sup_inv sp \<Longrightarrow> sp_phase sp = Draining \<Longrightarrow>
    \<exists>sp'. (drain_step encode)\<^sup>*\<^sup>* sp sp' \<and> sp_phase sp' = Finished"
proof (induction "drain_measure sp" arbitrary: sp rule: less_induct)
  case less
  show ?case
  proof (cases "sp_tasks sp = []")
    case True
    let ?sp = "sp\<lparr>sp_metrics := drain_finished (sp_metrics sp), sp_phase := Finished\<rparr>"
    have "drain_step encode sp ?sp"
      unfolding drain_step_def using less.prems True by (intro disjI2 sup_drain_step.drained)
    then have "(drain_step encode)\<^sup>*\<^sup>* sp ?sp" by (rule r_into_rtranclp)
    moreover have "sp_phase ?sp = Finished" by simp
    ultimately show ?thesis by blast
  next
    case False
    obtain sp1 where s1: "drain_step encode sp sp1" "sp_phase sp1 = Draining" "drain_measure sp1 < drain_measure sp"
      using drain_progress [OF less.prems False] by blast
    have "sup_inv sp1" using sup_step_inv [OF sem less.prems(1) drain_step_step [OF s1(1)]] by blast
    then obtain sp' where "(drain_step encode)\<^sup>*\<^sup>* sp1 sp'" "sp_phase sp' = Finished"
      using less.hyps [OF s1(3)] s1(2) by blast
    then show ?thesis using s1(1) converse_rtranclp_into_rtranclp by metis
  qed
qed

lemma drain_steps_steps: "(drain_step encode)\<^sup>*\<^sup>* sp sp' \<Longrightarrow> (sup_step sem encode)\<^sup>*\<^sup>* sp sp'"
  by (erule mono_rtranclp [rule_format, rotated]) (rule drain_step_step)

section \<open>Properties\<close>

text \<open>
  C1 (invariant). In every reachable state of the supervisor, whatever the interleaving of messages,
  configuration changes, guest threads, replies, cancellation and shutdown: the tracked jobs and
  the slots in use stay within the configured concurrency and the queue within its capacity, every
  task has its owner, the invocations in execution are covered by slots, the published work gauges
  are the true numbers, and no capacity breach, no accounting error and no admission after the
  stop is ever counted.
\<close>

theorem supervisor_within_limits:
  assumes "semaphore_spec sem" "reaches (sup_init cap lim) (sup_step sem encode) sp"
  shows "length (sp_jobs sp) \<le> lim \<and> sp_slots sp \<le> lim \<and> length (sp_messages sp) \<le> cap
    \<and> set (hm_keys (sp_jobs sp)) = set (hm_keys (sp_tasks sp))
    \<and> card {n. \<exists>i. hm_get (sp_invs sp) n = Some i \<and> inv_execution i \<noteq> None} \<le> sp_slots sp
    \<and> work_gauge (sp_metrics sp) ''tracked'' = as_gauge (length (sp_jobs sp))
    \<and> work_gauge (sp_metrics sp) ''queued'' = as_gauge (length (sp_messages sp) + admitting_w (sp_phase sp))
    \<and> (\<forall>k<3. capacity_breaches (sp_metrics sp) (CAPACITIES ! k) = 0)
    \<and> accounting_errors (sp_metrics sp) = (\<lambda>_. 0) \<and> admissions_after_stop (sp_metrics sp) = 0"
proof -
  have inv: "sup_inv sp" and lims: "sp_capacity sp = cap" "sp_max_tracked sp = lim"
    and ledger: "bounded_inv (cap + 1) lim lim (led 0 sp)"
    using semaphore_spec.supervisor_reachable [OF assms] by (simp_all add: sup_inv_of_def)
  have ok: "tables_ok sp" "invs_ok sp" using inv by (simp_all add: sup_inv_def)
  have "t \<in> set (hm_keys (sp_jobs sp)) \<longleftrightarrow> t \<in> set (hm_keys (sp_tasks sp))" for t
  proof -
    have "kinds_match (hm_get (sp_jobs sp) t) (hm_get (sp_tasks sp) t)" using ok by (simp add: tables_ok_def)
    then have "hm_get (sp_jobs sp) t = None \<longleftrightarrow> hm_get (sp_tasks sp) t = None"
      by (cases "hm_get (sp_jobs sp) t"; cases "hm_get (sp_tasks sp) t") auto
    then show ?thesis by (simp add: map_of_eq_None_iff)
  qed
  moreover have "card {n. \<exists>i. hm_get (sp_invs sp) n = Some i \<and> inv_execution i \<noteq> None} \<le> sp_slots sp"
    using executing_card [OF ok] executions_le_slots [OF ok] by simp
  moreover have "map (work_gauge (sp_metrics sp)) WORK_STATES = map as_gauge [o_queued (led 0 sp),
      o_tasks (led 0 sp) + o_completed (led 0 sp), o_completed (led 0 sp), o_running (led 0 sp), o_terminating (led 0 sp)]"
    "accounting_errors (sp_metrics sp) = (\<lambda>_. 0)"
    using ledger_balanced [of "led 0 sp"] ledger by (simp_all add: bounded_inv_def led_def)
  moreover have "capacity_breaches (sp_metrics sp) (CAPACITIES ! k) = 0" if "k < 3" for k
    using bounded_no_breach [OF ledger that] by (simp add: led_def)
  ultimately show ?thesis
    using inv lims ledger tracked_eq [OF ok(1)]
    by (auto simp: sup_inv_def tables_ok_def queue_ok_def phase_ok_def bounded_inv_def led_def WORK_STATES_def)
qed

text \<open>A supervisor with one slot on which one message was dispatched to a function.\<close>

definition sample_entry :: function_entry where
  "sample_entry = \<lparr>fe_app_name = ''a'', fe_app_namespace = ''ns'', fe_function_name = ''f'', fe_module_ref = ''ref'',
     fe_world_type = WorldHttp, fe_sql_username = None, fe_kv_enabled = False, fe_metrics = []\<rparr>"

lemma sample_dispatched:
  "\<exists>sp. reaches (sup_init 1 1) (sup_step counting_semaphore encode) sp \<and> sp_phase sp = Idle
     \<and> (\<exists>job. sp_jobs sp = [(0, ExecutionJob job)] \<and> \<not> authority_revoked job)
     \<and> sp_tasks sp = [(0, ExecThread 0 Working)]
     \<and> (\<exists>i. hm_get (sp_invs sp) 0 = Some i \<and> cl_running (inv_cleanup i) = 0)"
proof -
  let ?R = "reaches (sup_init 1 1) (sup_step counting_semaphore encode)"
  let ?s0 = "supervisor_new 1 1 True"
  let ?s1 = "?s0\<lparr>sp_reserved := True\<rparr>"
  let ?q = "metrics_queued (sp_metrics ?s1)"
  let ?msg = "\<lparr>im_subject = ''t'', im_reply = Some ''r'', im_payload = [], im_inv = 0, im_queued = fst ?q\<rparr>"
  let ?s2 = "?s1\<lparr>sp_reserved := False, sp_metrics := snd ?q, sp_invs := hm_insert 0 (inv_build 0 5 True) (sp_invs ?s1),
    sp_messages := sp_messages ?s1 @ [?msg]\<rparr>"
  let ?s3 = "?s2\<lparr>sp_messages := [], sp_phase := Admitting ?msg\<rparr>"
  let ?s4 = "dispatch_message (\<lambda>_. Inr (Some sample_entry)) (\<lambda>_. Inr (Some ())) True 0 0 ?msg (?s3\<lparr>sp_phase := Idle\<rparr>)"
  have r0: "?R ?s0" by (rule reaches_init) (auto simp: sup_init_def)
  have r1: "?R ?s1"
    by (rule reaches_step [OF r0 sup_step.by_environment [OF sup_env_step.intake_reserve]]) (simp_all add: supervisor_new_def)
  have r2: "?R ?s2"
    by (rule reaches_step [OF r1 sup_step.by_environment [OF sup_env_step.intake_message]]) (simp_all add: supervisor_new_def)
  have r3: "?R ?s3"
    by (rule reaches_step [OF r2 sup_step.by_idle [OF sup_idle_step.idle_message]]) (simp_all add: supervisor_new_def)
  have r4: "?R ?s4"
    by (rule reaches_step [OF r3 sup_step.by_admission [OF sup_admit_step.admit_permit [where i = "inv_build 0 5 True"]]])
      (simp_all add: supervisor_new_def inv_over_def inv_build_def counting_semaphore_def fresh_task_def)
  have "sp_phase ?s4 = Idle" "sp_tasks ?s4 = [(0, ExecThread 0 Working)]"
    "\<exists>job. sp_jobs ?s4 = [(0, ExecutionJob job)] \<and> \<not> authority_revoked job"
    "\<exists>i. hm_get (sp_invs ?s4) 0 = Some i \<and> cl_running (inv_cleanup i) = 0"
    by (simp_all add: dispatch_message_def sample_entry_def drop_queued_def spawn_execution_def supervisor_new_def
        on_inv_def start_execution_def inv_build_def inv_check_def inv_over_def Let_def split_beta)
  with r4 show ?thesis by blast
qed

theorem supervisor_within_limits_witness:
  "\<exists>sp. reaches (sup_init 1 1) (sup_step counting_semaphore (\<lambda>_ _. None)) sp \<and> length (sp_jobs sp) = 1
     \<and> work_gauge (sp_metrics sp) ''tracked'' = 1"
proof -
  obtain sp where r: "reaches (sup_init 1 1) (sup_step counting_semaphore (\<lambda>_ _. None)) sp" and l: "length (sp_jobs sp) = 1"
    using sample_dispatched by fastforce
  then show ?thesis
    using supervisor_within_limits [OF counting.semaphore_spec_axioms r] by (intro exI [of _ sp]) (simp add: as_gauge_def)
qed



text \<open>
  Every task that ends has an owner of its own kind: collecting it never runs into the
  code the source declares unreachable, and uses up exactly one stage of the remaining work.
\<close>

theorem collect_never_panics:
  assumes "semaphore_spec sem" "reaches (sup_init cap lim) (sup_step sem encode) sp"
    and "hm_get (sp_tasks sp) t = Some k" "task_result k \<noteq> None" "fresh_task t' sp"
  shows "hm_get (sp_jobs sp) t \<noteq> None
    \<and> (\<exists>sp'. join_next encode t t' sp = Some sp' \<and> drain_measure sp' < drain_measure sp)"
proof -
  have inv: "sup_inv sp" using semaphore_spec.supervisor_reachable(1) [OF assms(1,2)] by (simp add: sup_inv_of_def)
  obtain sp' where "join_next encode t t' sp = Some sp'" using join_total(2) [OF inv assms(3,4)] by blast
  then show ?thesis using join_total(1) [OF inv assms(3,4)] join_measure [OF inv assms(3-5)] by blast
qed

text \<open>
  C18 (liveness). A drain never gets stuck: from every reachable state of the drain some run of the
  supervisor and its tasks reaches the end; and at the end nothing is left: no task, no job, no
  message, no slot in use, no invocation in execution, and all work gauges are zero.
\<close>

theorem drain_completes:
  assumes "semaphore_spec sem" "reaches (sup_init cap lim) (sup_step sem encode) sp"
  shows "(sp_phase sp = Draining \<longrightarrow> (\<exists>sp'. (sup_step sem encode)\<^sup>*\<^sup>* sp sp' \<and> sp_phase sp' = Finished))
    \<and> (sp_phase sp = Finished \<longrightarrow> sp_tasks sp = [] \<and> sp_jobs sp = [] \<and> sp_messages sp = [] \<and> sp_slots sp = 0
        \<and> (\<forall>n i. hm_get (sp_invs sp) n = Some i \<longrightarrow> inv_execution i = None)
        \<and> map (work_gauge (sp_metrics sp)) WORK_STATES = [0, 0, 0, 0, 0])"
proof -
  have inv: "sup_inv sp" and ledger: "bounded_inv (cap + 1) lim lim (led 0 sp)"
    using semaphore_spec.supervisor_reachable [OF assms] by (simp_all add: sup_inv_of_def)
  have ok: "tables_ok sp" "invs_ok sp" using inv by (simp_all add: sup_inv_def)
  have "?thesis" if fin: "sp_phase sp = Finished"
  proof -
    have t: "sp_tasks sp = []" "sp_messages sp = []" using inv fin by (simp_all add: sup_inv_def phase_ok_def)
    have "hm_get (sp_jobs sp) u = None" for u
    proof -
      have "kinds_match (hm_get (sp_jobs sp) u) None" using ok(1) t by (simp add: tables_ok_def)
      then show ?thesis by (cases "hm_get (sp_jobs sp) u") auto
    qed
    then have "hm_get (sp_jobs sp) = Map.empty" by (rule ext)
    then have j: "sp_jobs sp = []" by (simp only: map_of_eq_empty_iff)
    have slots: "sp_slots sp = 0" using ok(1) t by (simp add: tables_ok_def)
    have idle: "inv_execution i = None" if "hm_get (sp_invs sp) n = Some i" for n i
      using invs_okD(1) [OF ok(2) that] t by (cases "inv_execution i") auto
    have "o_running (led 0 sp) = 0" "o_terminating (led 0 sp) = 0"
      using executions_le_slots [OF ok] slots by (simp_all add: led_def)
    then have "map (work_gauge (sp_metrics sp)) WORK_STATES = [0, 0, 0, 0, 0]"
      using ledger_balanced(1) [of "led 0 sp"] ledger t j fin
      by (simp add: bounded_inv_def led_def admitting_w_def as_gauge_def)
    then show ?thesis using t j slots idle fin by blast
  qed
  then show ?thesis using drain_reaches_end [OF assms(1) inv, of encode] drain_steps_steps by blast
qed

text \<open>The execution of the sample is finished by its thread, and the supervisor is stopped.\<close>

lemma sample_ended:
  assumes r: "reaches init (sup_step sem encode) sp" and k: "hm_get (sp_tasks sp) t = Some (ExecThread n Working)"
    and i: "hm_get (sp_invs sp) n = Some i" "cl_running (inv_cleanup i) = 0"
  shows "\<exists>sp'. reaches init (sup_step sem encode) sp' \<and> hm_get (sp_tasks sp') t = Some (ExecEnded (Inl TaskPanicked))"
proof -
  let ?s1 = "set_task t (ExecThread n (Cleaning Unwound)) (on_inv (blocking_after_work 0 (Unwound :: bytes option work_result)) n sp)"
  have r1: "reaches init (sup_step sem encode) ?s1"
    by (rule reaches_step [OF r sup_step.by_task [OF sup_task_step.work_done [OF k]]])
  obtain j where j: "hm_get (sp_invs ?s1) n = Some j" "cl_running (inv_cleanup j) = 0"
    using i by (simp add: on_inv_def split_beta hm.lookup_upsert blocking_after_work_def)
  obtain s' where x: "blocking_exit 0 (Unwound :: bytes option work_result) (j, sp_metrics ?s1) = (Some Unwound, s')"
    using j(2) by (cases "inv_finish j") (auto simp: blocking_exit_def blocking_result_def inv_finish_def Let_def)
  let ?s2 = "set_task t (ExecEnded (Inl TaskPanicked)) ((on_inv (\<lambda>_. s') n ?s1)\<lparr>sp_slots := sp_slots ?s1 - 1\<rparr>)"
  have "reaches init (sup_step sem encode) ?s2"
    by (rule reaches_step [OF r1 sup_step.by_task [OF sup_task_step.thread_panic [OF _ j(1) x]]]) (simp add: hm.lookup_upsert)
  moreover have "hm_get (sp_tasks ?s2) t = Some (ExecEnded (Inl TaskPanicked))" by (simp add: hm.lookup_upsert)
  ultimately show ?thesis by blast
qed

theorem collect_never_panics_witness:
  "\<exists>sp. reaches (sup_init 1 1) (sup_step counting_semaphore (\<lambda>_ _. None)) sp
     \<and> (\<exists>t t' sp'. join_next (\<lambda>_ _. None) t t' sp = Some sp' \<and> drain_measure sp' < drain_measure sp)"
proof -
  let ?R = "reaches (sup_init 1 1) (sup_step counting_semaphore (\<lambda>_ _. None))"
  obtain sp0 i where r0: "?R sp0" and k0: "sp_tasks sp0 = [(0, ExecThread 0 Working)]"
    and i: "hm_get (sp_invs sp0) 0 = Some i" "cl_running (inv_cleanup i) = 0"
    using sample_dispatched by blast
  have "hm_get (sp_tasks sp0) 0 = Some (ExecThread 0 Working)" using k0 by simp
  from sample_ended [OF r0 this i] obtain sp where r: "?R sp"
    and k: "hm_get (sp_tasks sp) 0 = Some (ExecEnded (Inl TaskPanicked))" by blast
  obtain t' where "fresh_task t' sp" using fresh_exists by blast
  then show ?thesis
    using collect_never_panics [OF counting.semaphore_spec_axioms r k, of t'] r by (auto simp: task_result_def)
qed

theorem drain_completes_witness:
  "\<exists>sp sp'. reaches (sup_init 1 1) (sup_step counting_semaphore (\<lambda>_ _. None)) sp \<and> sp_phase sp = Draining
     \<and> length (sp_jobs sp) = 1 \<and> (sup_step counting_semaphore (\<lambda>_ _. None))\<^sup>*\<^sup>* sp sp' \<and> sp_phase sp' = Finished"
proof -
  let ?R = "reaches (sup_init 1 1) (sup_step counting_semaphore (\<lambda>_ _. None))"
  obtain sp job where r: "?R sp" and ph: "sp_phase sp = Idle" and jobs: "sp_jobs sp = [(0, ExecutionJob job)]"
    using sample_dispatched by blast
  let ?s0 = "sp\<lparr>sp_synced := False, sp_sync_changed := True\<rparr>"
  have r0: "?R ?s0" by (rule reaches_step [OF r sup_step.by_environment [OF sup_env_step.sync_set]])
  have r1: "?R (begin_stop 0 ?s0)"
    by (rule reaches_step [OF r0 sup_step.by_idle [OF sup_idle_step.idle_shutdown]]) (simp add: ph)
  obtain s2 where r2: "?R s2" and ph2: "sp_phase s2 = Closing" "\<not> sp_intake s2" "sp_jobs s2 = sp_jobs sp"
  proof (cases "sp_intake (begin_stop 0 ?s0)")
    case True
    then show ?thesis
      using that reaches_step [OF r1 sup_step.by_environment [OF sup_env_step.intake_exit]] by (simp add: begin_stop_def)
  next
    case False
    then show ?thesis using that [OF r1] by (simp add: begin_stop_def)
  qed
  let ?s3 = "(drain_messages 0 None (sp_messages s2) s2)\<lparr>sp_phase := Draining\<rparr>"
  have r3: "?R ?s3"
    by (rule reaches_step [OF r2 sup_step.by_drain [OF sup_drain_step.intake_joined [OF ph2(1,2)]]])
  have "length (sp_jobs ?s3) = 1"
    using calm_length_jobs [OF calm_drain [of s2 0 None "sp_messages s2"]] jobs ph2(3) by simp
  moreover obtain sp' where "(sup_step counting_semaphore (\<lambda>_ _. None))\<^sup>*\<^sup>* ?s3 sp'" "sp_phase sp' = Finished"
    using drain_completes [OF counting.semaphore_spec_axioms r3] by auto
  ultimately show ?thesis using r3 by (intro exI [of _ ?s3] exI [of _ sp']) simp
qed

end
