(* ===== verification/HostRun.thy ===== *)
theory HostRun
  imports SupervisorProperties HostIntake
begin

text \<open>
  The running execution host: the second half of \<open>main\<close> in \<open>src/components/execution-host/src/main.rs\<close>,
  which spawns the signal handler and the tasks, binds its servers and then waits for the health server or
  for the dispatch loop. The state puts the intake of \<open>HostIntake\<close> and the supervisor of
  \<open>InvocationSupervisor\<close> side by side, with the broadcast channel that stops both. A message enters the
  queue of the supervisor only from a subscription of the intake, and the task that the supervisor joins
  when it stops is the subscription manager.
\<close>

section \<open>Definitions\<close>

text \<open>
  The places of \<open>main\<close>: before the subscription manager is spawned, while the two ports are bound, in the
  selection, in the branch of an ended health server, and returned.
\<close>

datatype main_phase =
  MainStarting | MainBinding | MainServing | MainHealthEnded "unit anyhow" | MainEnded "unit anyhow"

text \<open>
  A broadcast receiver is \<open>None\<close> before \<open>subscribe\<close>; afterwards it says whether a message waits in it.
  \<open>hr_sync_closed\<close> tells that the sender of the configuration flag is gone.
\<close>

record host_run =
  hr_signalled :: bool
  hr_subs_rx :: "bool option"
  hr_sup_rx :: "bool option"
  hr_sync_closed :: bool
  hr_main :: main_phase
  hr_intake :: intake
  hr_sup :: supervisor

definition host_run_start :: "nat \<Rightarrow> nat \<Rightarrow> nats_connection_info \<Rightarrow> host_run" where
  "host_run_start capacity max_concurrent info =
     \<lparr>hr_signalled = False, hr_subs_rx = None, hr_sup_rx = None, hr_sync_closed = False, hr_main = MainStarting,
      hr_intake = intake_start (Some info), hr_sup = supervisor_new capacity max_concurrent False\<rparr>"

text \<open>\<open>shutdown_tx.send(())\<close>: whoever has subscribed has a message, and an error is ignored.\<close>

definition broadcast_send :: "host_run \<Rightarrow> host_run" where
  "broadcast_send h = h\<lparr>hr_subs_rx := map_option (\<lambda>_. True) (hr_subs_rx h), hr_sup_rx := map_option (\<lambda>_. True) (hr_sup_rx h)\<rparr>"

definition sigterm_received :: "host_run \<Rightarrow> host_run" where
  "sigterm_received h = broadcast_send (h\<lparr>hr_signalled := True\<rparr>)"

definition spawn_subscriptions :: "host_run \<Rightarrow> host_run" where
  "spawn_subscriptions h = h\<lparr>hr_subs_rx := Some False, hr_main := MainBinding\<rparr>"

text \<open>Both ports: the first error is returned.\<close>

definition servers_bound :: "unit anyhow \<Rightarrow> unit anyhow \<Rightarrow> host_run \<Rightarrow> host_run" where
  "servers_bound health metrics h =
     (case health of
        Inl e \<Rightarrow> h\<lparr>hr_main := MainEnded (Inl e)\<rparr>
      | Inr _ \<Rightarrow>
          (case metrics of
             Inl e \<Rightarrow> h\<lparr>hr_main := MainEnded (Inl e)\<rparr>
           | Inr _ \<Rightarrow> h\<lparr>hr_sup_rx := Some False, hr_main := MainServing\<rparr>))"

definition health_ended :: "unit anyhow \<Rightarrow> host_run \<Rightarrow> host_run" where
  "health_ended result h = (broadcast_send h)\<lparr>hr_main := MainHealthEnded result\<rparr>"

definition dispatch_ended :: "host_run \<Rightarrow> host_run" where
  "dispatch_ended h =
     (case hr_main h of
        MainServing \<Rightarrow> h\<lparr>hr_main := MainEnded (Inr ())\<rparr>
      | MainHealthEnded result \<Rightarrow> h\<lparr>hr_main := MainEnded result\<rparr>
      | _ \<Rightarrow> h)"

text \<open>The dispatch loop has closed its channel once it left its loop.\<close>

definition channel_closed :: "supervisor \<Rightarrow> bool" where
  "channel_closed sp \<longleftrightarrow> sp_phase sp \<in> {Closing, Draining, Finished}"

text \<open>The subscription manager returns: its subscriptions and its sender are dropped.\<close>

definition subs_exit :: "host_run \<Rightarrow> host_run" where
  "subs_exit h = h\<lparr>hr_intake := subs_stop (hr_intake h), hr_sup := (hr_sup h)\<lparr>sp_intake := False, sp_reserved := False\<rparr>\<rparr>"

definition subs_waiting :: "intake \<Rightarrow> bool" where
  "subs_waiting i \<longleftrightarrow> in_phase i = SubsIdle \<or> (\<exists>c ts. in_phase i = Subscribing c ts)"

text \<open>The subscription manager and what it reads.\<close>

inductive host_intake_step :: "host_run \<Rightarrow> host_run \<Rightarrow> bool" where
  hi_channels: "intake_step (hr_intake h) i \<Longrightarrow> in_phase i = in_phase (hr_intake h) \<Longrightarrow> in_subs i = in_subs (hr_intake h) \<Longrightarrow>
    host_intake_step h (h\<lparr>hr_intake := i\<rparr>)"
| hi_subs: "hr_subs_rx h \<noteq> None \<Longrightarrow> in_phase (hr_intake h) \<noteq> SubsEnded \<Longrightarrow> intake_step (hr_intake h) i \<Longrightarrow> in_phase i \<noteq> SubsEnded \<Longrightarrow>
    host_intake_step h (h\<lparr>hr_intake := i\<rparr>)"
| hi_shutdown: "hr_subs_rx h = Some True \<Longrightarrow> subs_waiting (hr_intake h) \<Longrightarrow> host_intake_step h (subs_exit h)"
| hi_closed: "hr_subs_rx h \<noteq> None \<Longrightarrow> channel_closed (hr_sup h) \<Longrightarrow> subs_waiting (hr_intake h) \<Longrightarrow> host_intake_step h (subs_exit h)"
| hi_ended: "hr_subs_rx h \<noteq> None \<Longrightarrow> subs_waiting (hr_intake h) \<Longrightarrow> subs_poll (hr_intake h) = Some (subs_stop (hr_intake h)) \<Longrightarrow>
    host_intake_step h (subs_exit h)"
| hi_reserve: "hr_subs_rx h \<noteq> None \<Longrightarrow> in_phase (hr_intake h) = SubsIdle \<Longrightarrow> in_subs (hr_intake h) \<noteq> [] \<Longrightarrow>
    \<not> channel_closed (hr_sup h) \<Longrightarrow> \<not> sp_reserved (hr_sup h) \<Longrightarrow> length (sp_messages (hr_sup h)) < sp_capacity (hr_sup h) \<Longrightarrow>
    host_intake_step h (h\<lparr>hr_sup := (hr_sup h)\<lparr>sp_reserved := True\<rparr>\<rparr>)"
| hi_message: "hr_subs_rx h = Some False \<Longrightarrow> subs_takes topic client (hr_intake h) \<Longrightarrow> sp_reserved (hr_sup h) \<Longrightarrow>
    hm_get (sp_invs (hr_sup h)) n = None \<Longrightarrow> metrics_queued (sp_metrics (hr_sup h)) = (q, m) \<Longrightarrow>
    host_intake_step h (h\<lparr>hr_sup := (hr_sup h)
      \<lparr>sp_reserved := False, sp_metrics := m, sp_invs := hm_insert n (inv_build now timeout True) (sp_invs (hr_sup h)),
       sp_messages := sp_messages (hr_sup h) @
         [\<lparr>im_subject = topic, im_reply = reply, im_payload = payload, im_inv = n, im_queued = q\<rparr>]\<rparr>\<rparr>)"

text \<open>
  The dispatch loop: it leaves its loop for a shutdown message, for the loss of the configuration sender
  or because the queue is closed and empty.
\<close>

definition stop_cause :: "host_run \<Rightarrow> bool" where
  "stop_cause h \<longleftrightarrow> hr_sup_rx h = Some True \<or> hr_sync_closed h \<or> (sp_messages (hr_sup h) = [] \<and> \<not> sp_intake (hr_sup h))"

inductive host_dispatch_step :: "semaphore_api \<Rightarrow> (nat \<Rightarrow> string \<Rightarrow> bytes option) \<Rightarrow> host_run \<Rightarrow> host_run \<Rightarrow> bool"
  for sem :: semaphore_api and encode :: "nat \<Rightarrow> string \<Rightarrow> bytes option" where
  hd_loop: "hr_sup_rx h \<noteq> None \<Longrightarrow> sup_idle_step (hr_sup h) sp \<or> sup_admit_step sem encode (hr_sup h) sp \<Longrightarrow>
    (sp_phase sp = Closing \<longrightarrow> stop_cause h) \<Longrightarrow> host_dispatch_step sem encode h (h\<lparr>hr_sup := sp\<rparr>)"
| hd_task: "sup_task_step (hr_sup h) sp \<Longrightarrow> host_dispatch_step sem encode h (h\<lparr>hr_sup := sp\<rparr>)"
| hd_drain: "hr_sup_rx h \<noteq> None \<Longrightarrow> sup_drain_step encode (hr_sup h) sp \<Longrightarrow> host_dispatch_step sem encode h (h\<lparr>hr_sup := sp\<rparr>)"
| hd_synced: "host_dispatch_step sem encode h (h\<lparr>hr_sup := (hr_sup h)\<lparr>sp_synced := b, sp_sync_changed := True\<rparr>\<rparr>)"
| hd_sync_closed: "host_dispatch_step sem encode h (h\<lparr>hr_sync_closed := True\<rparr>)"

text \<open>The signal handler, which ends with its first signal, and \<open>main\<close>.\<close>

inductive host_main_step :: "host_run \<Rightarrow> host_run \<Rightarrow> bool" where
  hm_signal: "\<not> hr_signalled h \<Longrightarrow> host_main_step h (sigterm_received h)"
| hm_spawned: "hr_main h = MainStarting \<Longrightarrow> host_main_step h (spawn_subscriptions h)"
| hm_bound: "hr_main h = MainBinding \<Longrightarrow> host_main_step h (servers_bound health metrics h)"
| hm_health: "hr_main h = MainServing \<Longrightarrow> host_main_step h (health_ended result h)"
| hm_dispatched: "hr_main h \<in> {MainServing} \<union> range MainHealthEnded \<Longrightarrow> sp_phase (hr_sup h) = Finished \<Longrightarrow>
    host_main_step h (dispatch_ended h)"

definition host_step :: "semaphore_api \<Rightarrow> (nat \<Rightarrow> string \<Rightarrow> bytes option) \<Rightarrow> host_run \<Rightarrow> host_run \<Rightarrow> bool" where
  "host_step sem encode h h' \<longleftrightarrow> host_intake_step h h' \<or> host_dispatch_step sem encode h h' \<or> host_main_step h h'"

definition host_init :: "nat \<Rightarrow> nat \<Rightarrow> host_run \<Rightarrow> bool" where
  "host_init cap lim h \<longleftrightarrow> (\<exists>info. h = host_run_start cap lim info)"

section \<open>The two systems inside\<close>

text \<open>Which steps the supervisor and the intake take in a step of the host.\<close>

lemma subs_stop_step: "subs_waiting i \<Longrightarrow> intake_step i (subs_stop i)"
  unfolding subs_waiting_def by (metis intake_step.subs_shutdown)

definition intake_linked :: "bool \<Rightarrow> intake \<Rightarrow> bool" where
  "intake_linked open i \<longleftrightarrow> open = (in_phase i \<noteq> SubsEnded) \<and> (in_phase i = SubsEnded \<longrightarrow> in_subs i = [])"

definition main_linked :: "bool option \<Rightarrow> bool option \<Rightarrow> main_phase \<Rightarrow> sup_phase \<Rightarrow> bool" where
  "main_linked subs rx main phase \<longleftrightarrow>
     (case main of
        MainStarting \<Rightarrow> subs = None \<and> rx = None
      | MainBinding \<Rightarrow> subs \<noteq> None \<and> rx = None
      | MainServing \<Rightarrow> subs \<noteq> None \<and> rx \<noteq> None
      | MainHealthEnded _ \<Rightarrow> subs = Some True \<and> rx = Some True
      | MainEnded r \<Rightarrow> subs \<noteq> None \<and> (rx = None \<and> isl r \<or> phase = Finished))
     \<and> (rx = None \<longrightarrow> phase \<notin> {Closing, Draining, Finished}) \<and> (rx = Some True \<longrightarrow> subs = Some True)"

definition host_linked :: "host_run \<Rightarrow> bool" where
  "host_linked h \<longleftrightarrow> intake_linked (sp_intake (hr_sup h)) (hr_intake h)
     \<and> main_linked (hr_subs_rx h) (hr_sup_rx h) (hr_main h) (sp_phase (hr_sup h))"

subsection \<open>What a step of the supervisor leaves alone\<close>

abbreviation sup_mode :: "supervisor \<Rightarrow> bool \<times> sup_phase" where
  "sup_mode sp \<equiv> (sp_intake sp, sp_phase sp)"

lemma mode_calm: "calm sp sp' \<Longrightarrow> sup_mode sp' = sup_mode sp"
  by (simp add: calm_def)

lemma mode_on_inv: "sup_mode (on_inv f n sp) = sup_mode sp"
  by (simp add: on_inv_def split: option.split prod.split)

lemma mode_drop: "sup_mode (drop_queued u msg sp) = sup_mode sp" "sup_mode (reject_message now u msg sp) = sup_mode sp"
  by (simp_all add: drop_queued_def reject_message_def mode_on_inv [simplified])

lemmas mode_simps = mode_on_inv [simplified] mode_drop [simplified] mode_calm [OF calm_drain, simplified]
  mode_calm [OF calm_cancel_untrusted(1), simplified]

lemma mode_spawn:
  "sup_mode (spawn_reply t r u v target body sp) = sup_mode sp" "sup_mode (spawn_execution now t job sp) = sup_mode sp"
  by (simp_all add: spawn_reply_def spawn_execution_def Let_def mode_simps)

lemma mode_dispatch:
  "sup_mode (expire_message encode client now t msg sp) = sup_mode sp"
  "sup_mode (dispatch_message by_topic component client now t msg sp) = sup_mode sp"
  by (simp_all add: expire_message_def dispatch_message_def Let_def mode_simps mode_spawn [simplified]
      split: sum.split option.split prod.split)

lemma mode_join: "join_next encode t t' sp = Some sp' \<Longrightarrow> sup_mode sp' = sup_mode sp"
  by (auto simp: join_next_def collect_def Let_def mode_spawn [simplified]
      split: option.splits owned_job.splits if_splits prod.splits)

lemma idle_mode: "sup_idle_step sp sp' \<Longrightarrow> sp_intake sp' = sp_intake sp \<and> sp_phase sp = Idle"
  by (induction rule: sup_idle_step.induct) (simp_all add: begin_stop_def mode_simps)

lemma admit_mode: "sup_admit_step sem encode sp sp' \<Longrightarrow> sp_intake sp' = sp_intake sp \<and> (\<exists>msg. sp_phase sp = Admitting msg)"
  by (induction rule: sup_admit_step.induct) (simp_all add: begin_stop_def mode_simps mode_dispatch [simplified])

lemma task_mode: "sup_task_step sp sp' \<Longrightarrow> sup_mode sp' = sup_mode sp"
  by (induction rule: sup_task_step.induct) (simp_all add: set_task_def mode_simps)

lemma drain_mode:
  "sup_drain_step encode sp sp' \<Longrightarrow> sp_intake sp' = sp_intake sp
     \<and> (sp_phase sp' = sp_phase sp \<or> channel_closed sp \<and> channel_closed sp') \<and> sp_phase sp \<noteq> Finished"
  by (induction rule: sup_drain_step.induct) (auto simp: mode_simps channel_closed_def dest!: mode_join)

subsection \<open>The systems move with the host\<close>

lemmas host_op_defs = sigterm_received_def broadcast_send_def spawn_subscriptions_def servers_bound_def health_ended_def
  dispatch_ended_def subs_exit_def

lemma main_frame:
  assumes "host_main_step h h'"
  shows "hr_sup h' = hr_sup h" "hr_intake h' = hr_intake h"
  using assms by (cases, auto simp: host_op_defs split: main_phase.split sum.split)+

lemma subs_waiting_open: "subs_waiting i \<Longrightarrow> in_phase i \<noteq> SubsEnded"
  by (auto simp: subs_waiting_def)

lemma intake_side:
  assumes "host_step sem encode h h'"
  shows "intake_step\<^sup>*\<^sup>* (hr_intake h) (hr_intake h')"
proof -
  have "intake_step\<^sup>*\<^sup>* (hr_intake h) (hr_intake h')" if "host_intake_step h h'"
    using that by cases (auto simp: subs_exit_def intro: subs_stop_step)
  moreover have "hr_intake h' = hr_intake h" if "host_dispatch_step sem encode h h'"
    using that by cases simp_all
  ultimately show ?thesis using assms main_frame(2) by (auto simp: host_step_def)
qed

lemma phase_kinds: "channel_closed sp \<longleftrightarrow> \<not> (sp_phase sp = Idle \<or> (\<exists>msg. sp_phase sp = Admitting msg))"
  by (cases "sp_phase sp") (simp_all add: channel_closed_def)

lemma sup_side:
  assumes "host_linked h" "host_step sem encode h h'"
  shows "(sup_step sem encode)\<^sup>*\<^sup>* (hr_sup h) (hr_sup h')"
proof -
  have exit: "sup_step sem encode (hr_sup h) (hr_sup (subs_exit h))" if "subs_waiting (hr_intake h)"
    using assms(1) subs_waiting_open [OF that]
    by (auto simp: host_linked_def intake_linked_def subs_exit_def intro!: sup_step.by_environment sup_env_step.intake_exit)
  have "(sup_step sem encode)\<^sup>*\<^sup>* (hr_sup h) (hr_sup h')" if "host_intake_step h h'"
    using that
  proof cases
    case hi_reserve
    then have "sp_intake (hr_sup h)" "sp_phase (hr_sup h) \<in> {Idle} \<union> range Admitting"
      using assms(1) phase_kinds by (auto simp: host_linked_def intake_linked_def)
    then show ?thesis
      using hi_reserve by (auto intro!: r_into_rtranclp sup_step.by_environment sup_env_step.intake_reserve)
  next
    case (hi_message topic client n q m now timeout reply payload)
    have "sp_intake (hr_sup h)" using hi_message(3) assms(1) by (simp add: host_linked_def intake_linked_def subs_takes_def)
    from sup_step.by_environment [OF sup_env_step.intake_message [OF this hi_message(4-6)]]
    show ?thesis unfolding hi_message(1) by (auto intro: r_into_rtranclp)
  qed (auto dest: exit)
  moreover have "(sup_step sem encode)\<^sup>*\<^sup>* (hr_sup h) (hr_sup h')" if "host_dispatch_step sem encode h h'"
    using that
  proof cases
    case (hd_loop sp)
    then show ?thesis by (auto intro: sup_step.intros)
  next
    case (hd_synced b)
    then show ?thesis by (auto intro!: r_into_rtranclp sup_step.by_environment sup_env_step.sync_set)
  qed (auto intro: sup_step.intros)
  ultimately show ?thesis using assms(2) main_frame(1) by (auto simp: host_step_def)
qed

lemma intake_stays_ended: "intake_step i i' \<Longrightarrow> in_phase i = SubsEnded \<Longrightarrow> in_phase i' = SubsEnded \<and> in_subs i' = in_subs i"
  by (induction rule: intake_step.induct)
    (auto simp: manager_info_def manager_top_def manager_connected_def manager_wakes_def manager_auth_error_def manager_rotated_def
      clear_client_def Let_def split: option.splits sum.splits watch_poll.splits)

lemma linked_intake:
  assumes "host_linked h" "host_intake_step h h'"
  shows "host_linked h'"
  using assms(2)
proof cases
  case (hi_channels i)
  then show ?thesis using assms(1) by (simp add: host_linked_def intake_linked_def)
next
  case (hi_subs i)
  then show ?thesis using assms(1) by (simp add: host_linked_def intake_linked_def)
qed (use assms(1) in \<open>simp_all add: host_linked_def intake_linked_def subs_exit_def subs_stop_def\<close>)

lemma main_linked_open:
  "main_linked subs rx main phase \<Longrightarrow> rx \<noteq> None \<Longrightarrow> phase \<noteq> Finished \<Longrightarrow> main_linked subs rx main phase'"
  by (cases main) (auto simp: main_linked_def)

lemma linked_dispatch:
  assumes "host_linked h" "host_dispatch_step sem encode h h'"
  shows "host_linked h'"
  using assms(2)
proof cases
  case (hd_loop sp)
  have "sp_intake sp = sp_intake (hr_sup h)" "sp_phase (hr_sup h) \<noteq> Finished"
    using hd_loop(3) idle_mode [of "hr_sup h" sp] admit_mode [of sem encode "hr_sup h" sp] by auto
  then show ?thesis
    using assms(1) hd_loop(1,2) main_linked_open [of "hr_subs_rx h" "hr_sup_rx h" "hr_main h" "sp_phase (hr_sup h)"]
    by (simp add: host_linked_def)
next
  case (hd_task sp)
  then show ?thesis using assms(1) task_mode by (simp add: host_linked_def)
next
  case (hd_drain sp)
  then show ?thesis
    using assms(1) drain_mode [of encode "hr_sup h" sp]
      main_linked_open [of "hr_subs_rx h" "hr_sup_rx h" "hr_main h" "sp_phase (hr_sup h)"] by (simp add: host_linked_def)
qed (use assms(1) in \<open>simp_all add: host_linked_def\<close>)

lemma linked_main:
  assumes "host_linked h" "host_main_step h h'"
  shows "host_linked h'"
  using assms(2)
proof cases
  case hm_signal
  then show ?thesis using assms(1)
    by (cases "hr_main h") (auto simp: host_linked_def main_linked_def host_op_defs)
next
  case hm_dispatched
  then show ?thesis using assms(1)
    by (auto simp: host_linked_def main_linked_def host_op_defs)
qed (use assms(1) in \<open>auto simp: host_linked_def main_linked_def host_op_defs split: sum.split\<close>)

lemma linked_init: "host_init cap lim h \<Longrightarrow> host_linked h"
  by (auto simp: host_init_def host_run_start_def host_linked_def intake_linked_def main_linked_def supervisor_new_def
      intake_start_def manager_top_def Let_def)

interpretation host: invariant_system "host_init cap lim" "host_step sem encode" host_linked for cap lim sem encode
  by unfold_locales (auto simp: host_step_def intro: linked_init linked_intake linked_dispatch linked_main)

text \<open>The parts of a reachable host are reachable in their own systems.\<close>

lemma host_parts_reachable:
  assumes "reaches (host_init cap lim) (host_step sem encode) h"
  shows "reaches (sup_init cap lim) (sup_step sem encode) (hr_sup h)
    \<and> reaches (\<lambda>s. \<exists>conn. s = intake_start conn) intake_step (hr_intake h)"
  using assms
proof (induction rule: reaches.induct)
  case (reaches_init h)
  then have "sup_init cap lim (hr_sup h)" "\<exists>conn. hr_intake h = intake_start conn"
    by (auto simp: host_init_def host_run_start_def sup_init_def)
  then show ?case by (blast intro: reaches.reaches_init)
next
  case (reaches_step h h')
  have "host_linked h" using reaches_step.hyps(1) by (rule host.inv_reaches)
  then show ?case
    using reaches_step sup_side [of h sem encode h'] intake_side [of sem encode h h'] by (blast intro: reaches_steps)
qed

section \<open>Shutdown\<close>

text \<open>From every place of the subscription manager, it can return once it has a shutdown message.\<close>

lemma subs_can_exit:
  assumes "host_linked h" "hr_subs_rx h = Some True" "sp_intake (hr_sup h)"
  obtains h' where "(host_step sem encode)\<^sup>*\<^sup>* h h'" "\<not> sp_intake (hr_sup h')" "sp_phase (hr_sup h') = sp_phase (hr_sup h)"
    "hr_main h' = hr_main h" "hr_sup_rx h' = hr_sup_rx h" "hr_subs_rx h' = Some True"
proof -
  have ne: "in_phase (hr_intake h) \<noteq> SubsEnded" using assms(1,3) by (simp add: host_linked_def intake_linked_def)
  have exit: "host_step sem encode k (subs_exit k)" if "hr_subs_rx k = Some True" "subs_waiting (hr_intake k)" for k
    using hi_shutdown [OF that] by (simp add: host_step_def)
  show thesis
  proof (cases "subs_waiting (hr_intake h)")
    case True
    show thesis
      by (rule that [OF r_into_rtranclp [of "host_step sem encode", OF exit [OF assms(2) True]]])
        (simp_all add: subs_exit_def assms(2))
  next
    case False
    then have r: "in_phase (hr_intake h) = ReconcileNow" using ne by (cases "in_phase (hr_intake h)") (auto simp: subs_waiting_def)
    define k where "k = h\<lparr>hr_intake := reconcile (hr_intake h)\<rparr>"
    have w: "subs_waiting (hr_intake k)"
      by (auto simp: k_def reconcile_def subs_waiting_def subs_next_def Let_def split: option.split)
    have "host_intake_step h k"
      unfolding k_def by (rule hi_subs) (use assms(2) r ne w subs_waiting_open in \<open>auto simp: k_def intro: intake_step.subs_reconcile\<close>)
    then have "host_step sem encode h k" by (simp add: host_step_def)
    moreover have "host_step sem encode k (subs_exit k)" by (rule exit [OF _ w]) (simp add: k_def assms(2))
    ultimately have "(host_step sem encode)\<^sup>*\<^sup>* h (subs_exit k)" by (meson converse_rtranclp_into_rtranclp rtranclp.rtrancl_refl)
    then show thesis by (rule that) (simp_all add: subs_exit_def k_def assms(2))
  qed
qed

lemma lift_drain:
  assumes "(drain_step encode)\<^sup>*\<^sup>* (hr_sup h) sp" "hr_sup_rx h \<noteq> None"
  shows "(host_step sem encode)\<^sup>*\<^sup>* h (h\<lparr>hr_sup := sp\<rparr>)"
  using assms
proof (induction rule: rtranclp_induct)
  case base
  then show ?case by simp
next
  case (step sp1 sp2)
  have "host_dispatch_step sem encode (h\<lparr>hr_sup := sp1\<rparr>) ((h\<lparr>hr_sup := sp1\<rparr>)\<lparr>hr_sup := sp2\<rparr>)"
    using step.hyps(2) step.prems unfolding drain_step_def
    by (metis hd_task hd_drain host_run.ext_inject host_run.surjective host_run.update_convs(7))
  then have "host_step sem encode (h\<lparr>hr_sup := sp1\<rparr>) (h\<lparr>hr_sup := sp2\<rparr>)" by (simp add: host_step_def)
  then show ?case using step.IH [OF step.prems] by simp
qed

lemma can_close:
  assumes "hr_sup_rx h = Some True" "\<not> channel_closed (hr_sup h)"
  obtains sp where "host_step sem encode h (h\<lparr>hr_sup := sp\<rparr>)" "sp_phase sp = Closing" "sp_intake sp = sp_intake (hr_sup h)"
proof -
  obtain sp where sp: "sup_idle_step (hr_sup h) sp \<or> sup_admit_step sem encode (hr_sup h) sp" "sp_phase sp = Closing"
  proof (cases "sp_phase (hr_sup h) = Idle")
    case True
    show thesis by (rule that [OF disjI1 [OF sup_idle_step.idle_shutdown [OF True]]]) (simp add: begin_stop_def)
  next
    case False
    then obtain msg where "sp_phase (hr_sup h) = Admitting msg" using assms(2) phase_kinds by blast
    from that [OF disjI2 [OF sup_admit_step.admit_shutdown [OF this]]] show thesis by (simp add: begin_stop_def)
  qed
  have "host_dispatch_step sem encode h (h\<lparr>hr_sup := sp\<rparr>)"
    by (rule hd_loop) (use sp assms(1) in \<open>simp_all add: stop_cause_def\<close>)
  then have "host_step sem encode h (h\<lparr>hr_sup := sp\<rparr>)" by (simp add: host_step_def)
  moreover have "sp_intake sp = sp_intake (hr_sup h)" using sp(1) idle_mode admit_mode by blast
  ultimately show thesis using that sp(2) by blast
qed

text \<open>The three stages of the way out.\<close>

abbreviation main_waits :: "host_run \<Rightarrow> bool" where
  "main_waits h \<equiv> hr_main h \<in> {MainServing} \<union> range MainHealthEnded"

lemma drained_end:
  assumes "semaphore_spec sem" "reaches (host_init cap lim) (host_step sem encode) h"
    and "main_waits h" "hr_sup_rx h \<noteq> None" "sp_phase (hr_sup h) \<in> {Draining, Finished}"
  shows "\<exists>h' r. (host_step sem encode)\<^sup>*\<^sup>* h h' \<and> hr_main h' = MainEnded r"
proof -
  have inv: "sup_inv (hr_sup h)"
    using semaphore_spec.supervisor_reachable(1) [OF assms(1)] host_parts_reachable [OF assms(2)] by (auto simp: sup_inv_of_def)
  obtain sp where sp: "(drain_step encode)\<^sup>*\<^sup>* (hr_sup h) sp" "sp_phase sp = Finished"
  proof (cases "sp_phase (hr_sup h) = Finished")
    case True
    then show thesis using that by blast
  next
    case False
    then show thesis using drain_reaches_end [OF assms(1) inv, of encode] assms(5) that by auto
  qed
  let ?h = "h\<lparr>hr_sup := sp\<rparr>"
  have "host_main_step ?h (dispatch_ended ?h)" by (rule hm_dispatched) (use assms(3) sp(2) in simp_all)
  then have "host_step sem encode ?h (dispatch_ended ?h)" by (simp add: host_step_def)
  then have "(host_step sem encode)\<^sup>*\<^sup>* h (dispatch_ended ?h)"
    using lift_drain [OF sp(1) assms(4), of sem] by (rule rtranclp.rtrancl_into_rtrancl [rotated])
  moreover have "\<exists>r. hr_main (dispatch_ended ?h) = MainEnded r" using assms(3) by (auto simp: dispatch_ended_def)
  ultimately show ?thesis by blast
qed

lemma closing_end:
  assumes "semaphore_spec sem" "reaches (host_init cap lim) (host_step sem encode) h"
    and "main_waits h" "hr_sup_rx h = Some True" "sp_phase (hr_sup h) = Closing"
  shows "\<exists>h' r. (host_step sem encode)\<^sup>*\<^sup>* h h' \<and> hr_main h' = MainEnded r"
proof -
  have link: "host_linked h" using assms(2) by (rule host.inv_reaches)
  then have subs: "hr_subs_rx h = Some True" using assms(4) by (simp add: host_linked_def main_linked_def)
  obtain k where k: "(host_step sem encode)\<^sup>*\<^sup>* h k" "\<not> sp_intake (hr_sup k)" "sp_phase (hr_sup k) = Closing"
    "main_waits k" "hr_sup_rx k = Some True"
  proof (cases "sp_intake (hr_sup h)")
    case True
    obtain k where "(host_step sem encode)\<^sup>*\<^sup>* h k" "\<not> sp_intake (hr_sup k)" "sp_phase (hr_sup k) = sp_phase (hr_sup h)"
      "hr_main k = hr_main h" "hr_sup_rx k = hr_sup_rx h" by (rule subs_can_exit [OF link subs True])
    then show thesis using that assms(3-5) by metis
  qed (use that assms(3-5) in blast)
  let ?sp = "(drain_messages 0 None (sp_messages (hr_sup k)) (hr_sup k))\<lparr>sp_phase := Draining\<rparr>"
  let ?m = "k\<lparr>hr_sup := ?sp\<rparr>"
  have "host_dispatch_step sem encode k ?m"
    by (rule hd_drain) (use k in \<open>auto intro: sup_drain_step.intake_joined\<close>)
  then have "host_step sem encode k ?m" by (simp add: host_step_def)
  then have m: "(host_step sem encode)\<^sup>*\<^sup>* h ?m" using k(1) by (rule rtranclp.rtrancl_into_rtrancl [rotated])
  have "\<exists>h' r. (host_step sem encode)\<^sup>*\<^sup>* ?m h' \<and> hr_main h' = MainEnded r"
    by (rule drained_end [OF assms(1) reaches_steps [OF m assms(2)]]) (use k in simp_all)
  then show ?thesis using m rtranclp_trans by metis
qed

lemma shutdown_end:
  assumes "semaphore_spec sem" "reaches (host_init cap lim) (host_step sem encode) h"
    and "main_waits h" "hr_sup_rx h = Some True"
  shows "\<exists>h' r. (host_step sem encode)\<^sup>*\<^sup>* h h' \<and> hr_main h' = MainEnded r"
proof (cases "channel_closed (hr_sup h)")
  case True
  then show ?thesis
    using drained_end [OF assms(1,2,3)] closing_end [OF assms] assms(4) by (auto simp: channel_closed_def)
next
  case False
  obtain sp where sp: "host_step sem encode h (h\<lparr>hr_sup := sp\<rparr>)" "sp_phase sp = Closing" by (rule can_close [OF assms(4) False])
  have "\<exists>h' r. (host_step sem encode)\<^sup>*\<^sup>* (h\<lparr>hr_sup := sp\<rparr>) h' \<and> hr_main h' = MainEnded r"
    by (rule closing_end [OF assms(1) reaches_step [OF assms(2) sp(1)]]) (use assms(3,4) sp(2) in simp_all)
  then show ?thesis using sp(1) converse_rtranclp_into_rtranclp by metis
qed

lemma finished_empty:
  assumes "semaphore_spec sem" "reaches (sup_init cap lim) (sup_step sem encode) sp" "sp_phase sp = Finished"
  shows "sp_tasks sp = [] \<and> sp_jobs sp = [] \<and> sp_messages sp = [] \<and> sp_slots sp = 0 \<and> \<not> sp_intake sp"
proof -
  have inv: "sup_inv sp" using semaphore_spec.supervisor_reachable(1) [OF assms(1,2)] by (simp add: sup_inv_of_def)
  then have t: "sp_tasks sp = []" "sp_messages sp = []" "\<not> sp_intake sp" using assms(3) by (simp_all add: sup_inv_def phase_ok_def)
  have "hm_get (sp_jobs sp) u = None" for u
  proof -
    have "kinds_match (hm_get (sp_jobs sp) u) None" using inv t by (simp add: sup_inv_def tables_ok_def)
    then show ?thesis by (cases "hm_get (sp_jobs sp) u") auto
  qed
  then have "hm_get (sp_jobs sp) = Map.empty" by (rule ext)
  then have "sp_jobs sp = []" by (simp only: map_of_eq_empty_iff)
  then show ?thesis using t inv by (simp add: sup_inv_def tables_ok_def)
qed

section \<open>Properties\<close>

text \<open>
  C19 (liveness). The running host shuts down completely. From every state in which \<open>main\<close> waits and a
  shutdown message has reached the dispatch loop, whatever the intake, the guests and the replies are
  doing, the host can go on to the return of \<open>main\<close>. Whenever \<open>main\<close> has returned from its selection, the
  subscription manager has ended and holds no subscription, and no message, job, task or slot is left.
  Until then the limits of the supervisor and the exactness of the subscriptions hold in the composed
  system as well, and a message is only ever taken from a listed topic over the published client.
\<close>

theorem host_shutdown_clean:
  assumes "semaphore_spec sem" "reaches (host_init cap lim) (host_step sem encode) h"
  shows "(main_waits h \<and> hr_sup_rx h = Some True \<longrightarrow> (\<exists>h' r. (host_step sem encode)\<^sup>*\<^sup>* h h' \<and> hr_main h' = MainEnded r))
    \<and> (\<forall>r. hr_main h = MainEnded r \<and> hr_sup_rx h \<noteq> None \<longrightarrow>
         in_phase (hr_intake h) = SubsEnded \<and> in_subs (hr_intake h) = [] \<and> sp_messages (hr_sup h) = []
         \<and> sp_jobs (hr_sup h) = [] \<and> sp_tasks (hr_sup h) = [] \<and> sp_slots (hr_sup h) = 0)
    \<and> length (sp_jobs (hr_sup h)) \<le> lim \<and> length (sp_messages (hr_sup h)) \<le> cap
    \<and> (\<forall>t c. subs_takes t c (hr_intake h) \<longrightarrow>
         t \<in> set (w_value (in_topics (hr_intake h))) \<and> w_value (in_client (hr_intake h)) = Some c)"
proof -
  have link: "host_linked h" using assms(2) by (rule host.inv_reaches)
  note parts = host_parts_reachable [OF assms(2)]
  have over: "in_phase (hr_intake h) = SubsEnded \<and> in_subs (hr_intake h) = [] \<and> sp_messages (hr_sup h) = []
      \<and> sp_jobs (hr_sup h) = [] \<and> sp_tasks (hr_sup h) = [] \<and> sp_slots (hr_sup h) = 0"
    if "hr_main h = MainEnded r" "hr_sup_rx h \<noteq> None" for r
    using finished_empty [OF assms(1) conjunct1 [OF parts]] link that
    by (simp add: host_linked_def main_linked_def intake_linked_def)
  have inv: "sup_inv_of cap lim (hr_sup h)" using semaphore_spec.supervisor_reachable(1) [OF assms(1)] parts by blast
  have "length (sp_jobs (hr_sup h)) \<le> lim" "length (sp_messages (hr_sup h)) \<le> cap"
    using inv by (simp_all add: sup_inv_of_def sup_inv_def phase_ok_def queue_ok_def)
  moreover have "t \<in> set (w_value (in_topics (hr_intake h))) \<and> w_value (in_client (hr_intake h)) = Some c"
    if "subs_takes t c (hr_intake h)" for t c
    using intake.inv_reaches [OF conjunct2 [OF parts]] that by (rule taken_listed)
  ultimately show ?thesis using shutdown_end [OF assms] over by blast
qed

definition sample_host_run :: host_run where
  "sample_host_run = servers_bound (Inr ()) (Inr ()) (spawn_subscriptions (host_run_start 1 1 sample_conn))"

lemma sample_host_run_main: "hr_main sample_host_run = MainServing" "hr_sup_rx sample_host_run = Some False" "\<not> hr_signalled sample_host_run"
  by (simp_all add: sample_host_run_def host_op_defs host_run_start_def)

lemma main_reaches: "reaches init (host_step sem encode) h \<Longrightarrow> host_main_step h h' \<Longrightarrow> reaches init (host_step sem encode) h'"
  by (auto simp: host_step_def intro: reaches_step)

lemma sample_host_run_reached: "reaches (host_init 1 1) (host_step counting_semaphore (\<lambda>_ _. None)) sample_host_run"
proof -
  let ?R = "reaches (host_init 1 1) (host_step counting_semaphore (\<lambda>_ _. None))" and ?s = "host_run_start 1 1 sample_conn"
  have "?R ?s" by (rule reaches_init) (auto simp: host_init_def)
  then have "?R (spawn_subscriptions ?s)" by (rule main_reaches) (rule hm_spawned, simp add: host_run_start_def)
  then show ?thesis unfolding sample_host_run_def
    by (rule main_reaches) (rule hm_bound, simp add: spawn_subscriptions_def)
qed

theorem host_shutdown_clean_witness:
  "\<exists>h' r. (host_step counting_semaphore (\<lambda>_ _. None))\<^sup>*\<^sup>* (sigterm_received sample_host_run) h' \<and> hr_main h' = MainEnded r"
proof -
  have "reaches (host_init 1 1) (host_step counting_semaphore (\<lambda>_ _. None)) (sigterm_received sample_host_run)"
    using sample_host_run_reached by (rule main_reaches) (rule hm_signal, simp add: sample_host_run_main)
  from host_shutdown_clean [OF counting.semaphore_spec_axioms this] show ?thesis
    using sample_host_run_main by (simp add: sigterm_received_def broadcast_send_def)
qed

text \<open>
  The signal handler is spawned before anyone subscribes to the channel. A signal that arrives in between
  is lost, and since the handler has then ended, no later one is heard: the host serves on until its health
  server ends or its channels close.
\<close>

lemma early_signal_lost:
  "\<exists>h. reaches (host_init 1 1) (host_step counting_semaphore (\<lambda>_ _. None)) h \<and> hr_signalled h \<and> hr_main h = MainServing
     \<and> hr_subs_rx h = Some False \<and> hr_sup_rx h = Some False"
proof -
  let ?R = "reaches (host_init 1 1) (host_step counting_semaphore (\<lambda>_ _. None))" and ?s = "host_run_start 1 1 sample_conn"
  let ?l = "servers_bound (Inr ()) (Inr ()) (spawn_subscriptions (sigterm_received ?s))"
  have "?R ?s" by (rule reaches_init) (auto simp: host_init_def)
  then have "?R (sigterm_received ?s)" by (rule main_reaches) (rule hm_signal, simp add: host_run_start_def)
  then have "?R (spawn_subscriptions (sigterm_received ?s))"
    by (rule main_reaches) (rule hm_spawned, simp add: host_op_defs host_run_start_def)
  then have "?R ?l"
    by (rule main_reaches) (rule hm_bound, simp add: spawn_subscriptions_def)
  moreover have "hr_signalled ?l \<and> hr_main ?l = MainServing \<and> hr_subs_rx ?l = Some False \<and> hr_sup_rx ?l = Some False"
    by (simp add: host_op_defs host_run_start_def)
  ultimately show ?thesis by blast
qed

lemma lost_signal_stays:
  assumes "host_step sem encode h h'" "hr_signalled h" "hr_main h = MainServing" "hr_sup_rx h = Some False"
  shows "hr_signalled h' \<and> hr_sup_rx h' = Some False \<and> hr_main h' = MainServing
    \<or> (\<exists>r. hr_main h' = MainHealthEnded r) \<or> sp_phase (hr_sup h') = Finished"
proof -
  have "hr_signalled h' = hr_signalled h \<and> hr_sup_rx h' = hr_sup_rx h \<and> hr_main h' = hr_main h"
    if "host_intake_step h h' \<or> host_dispatch_step sem encode h h'"
    using that by (auto elim!: host_intake_step.cases host_dispatch_step.cases simp: subs_exit_def)
  moreover have ?thesis if "host_main_step h h'"
    using that assms(2-) by cases (auto simp: host_op_defs)
  ultimately show ?thesis using assms by (auto simp: host_step_def)
qed

end
