(* ===== verification/CacheStore.thy ===== *)
theory CacheStore
  imports Artifacts
begin

text \<open>
  The \<open>Store\<close> of \<open>src/components/module-cache/src/cache.rs\<close>: a content-addressed map with a byte
  budget, an entry budget and least-recently-used eviction. \<open>store_wf\<close> is its representation
  invariant; \<open>lru_of\<close> abstracts a store to the list of its entries, least recently used first,
  and the refinement lemmas relate each operation to that list. The contract a client may use is
  the locale \<open>artifact_store\<close>.
\<close>

section \<open>Definitions\<close>

record store =
  entries :: "(digest, bytes) hash_map"
  recency :: "digest list"
  store_bytes :: nat
  max_bytes :: nat
  max_entries :: nat

definition store_new :: "nat \<Rightarrow> nat \<Rightarrow> store" where
  "store_new mb me = \<lparr>entries = [], recency = [], store_bytes = 0, max_bytes = mb, max_entries = me\<rparr>"

definition store_touch :: "digest \<Rightarrow> store \<Rightarrow> store" where
  "store_touch d s = s\<lparr>recency := remove1 d (recency s) @ [d]\<rparr>"

definition store_get :: "digest \<Rightarrow> store \<Rightarrow> bytes option \<times> store" where
  "store_get d s =
     (case hm_get (entries s) d of
        None \<Rightarrow> (None, s)
      | Some b \<Rightarrow> (Some b, store_touch d s))"

text \<open>The guard of the eviction loop: room for \<open>n\<close> more bytes and one more entry is missing.\<close>

definition store_over :: "nat \<Rightarrow> store \<Rightarrow> bool" where
  "store_over n s \<longleftrightarrow> wrap_add (store_bytes s) n > max_bytes s \<or> length (entries s) \<ge> max_entries s"

text \<open>The eviction loop. The store keeps what the loop did even when the loop gives up.\<close>

function store_evict :: "nat \<Rightarrow> nat \<Rightarrow> store \<Rightarrow> (status + nat) \<times> store" where
  "store_evict n evictions s =
     (if store_over n s then
        (case recency s of
           [] \<Rightarrow> (Inl st_INTERNAL_SERVER_ERROR, s)
         | oldest # rest \<Rightarrow>
             (case hm_get (entries s) oldest of
                None \<Rightarrow> store_evict n evictions (s\<lparr>recency := rest\<rparr>)
              | Some old \<Rightarrow>
                  store_evict n (Suc evictions)
                    (s\<lparr>recency := rest, entries := hm_remove oldest (entries s),
                       store_bytes := wrap_sub (store_bytes s) (length old)\<rparr>)))
      else (Inr evictions, s))"
  by pat_completeness auto
termination
  by (relation "measure (\<lambda>(n, e, s). length (recency s))") auto

declare store_evict.simps [simp del]

definition store_insert :: "digest \<Rightarrow> bytes \<Rightarrow> store \<Rightarrow> (status + nat) \<times> store" where
  "store_insert d b s =
     (case hm_get (entries s) d of
        Some existing \<Rightarrow>
          if existing \<noteq> b then (Inl st_CONFLICT, s) else (Inr 0, store_touch d s)
      | None \<Rightarrow>
          if length b > max_bytes s \<or> max_entries s = 0 then (Inl st_PAYLOAD_TOO_LARGE, s)
          else
            (case store_evict (length b) 0 s of
               (Inl e, s') \<Rightarrow> (Inl e, s')
             | (Inr evictions, s') \<Rightarrow>
                 (Inr evictions,
                  store_touch d
                    (s'\<lparr>store_bytes := wrap_add (store_bytes s') (length b),
                        entries := hm_insert d b (entries s')\<rparr>))))"

section \<open>Invariant\<close>

definition store_wf :: "store \<Rightarrow> bool" where
  "store_wf s \<longleftrightarrow>
     hm_wf (entries s) \<and> distinct (recency s) \<and> set (recency s) = fst ` set (entries s) \<and>
     store_bytes s = hm_total length (entries s) \<and>
     store_bytes s \<le> max_bytes s \<and> length (entries s) \<le> max_entries s \<and> max_bytes s < 2 ^ 63"

text \<open>The specification state: entries with the least recently used first.\<close>

definition lru_of :: "store \<Rightarrow> (digest \<times> bytes) list" where
  "lru_of s = map (\<lambda>d. (d, the (hm_get (entries s) d))) (recency s)"

definition lru_bytes :: "(digest \<times> bytes) list \<Rightarrow> nat" where
  "lru_bytes l = sum_list (map (length \<circ> snd) l)"

definition lru_fits :: "nat \<Rightarrow> nat \<Rightarrow> nat \<Rightarrow> (digest \<times> bytes) list \<Rightarrow> bool" where
  "lru_fits mb me n l \<longleftrightarrow> lru_bytes l + n \<le> mb \<and> length l < me"

definition lru_touch :: "digest \<Rightarrow> (digest \<times> bytes) list \<Rightarrow> (digest \<times> bytes) list" where
  "lru_touch d l = filter (\<lambda>e. fst e \<noteq> d) l @ filter (\<lambda>e. fst e = d) l"

lemma store_wf_new: "mb < 2 ^ 63 \<Longrightarrow> store_wf (store_new mb me)"
  by (simp add: store_wf_def store_new_def)

lemma lru_of_new [simp]: "lru_of (store_new mb me) = []"
  by (simp add: lru_of_def store_new_def)

lemma store_wf_key_iff: "store_wf s \<Longrightarrow> hm_get (entries s) d = None \<longleftrightarrow> d \<notin> set (recency s)"
  by (simp add: store_wf_def map_of_eq_None_iff)

lemma lru_bytes_of: "store_wf s \<Longrightarrow> lru_bytes (lru_of s) = store_bytes s"
  by (simp add: store_wf_def lru_bytes_def lru_of_def o_def hm_total_map_of)

lemma lru_length_of: "store_wf s \<Longrightarrow> length (lru_of s) = length (entries s)"
  unfolding store_wf_def lru_of_def
  by (metis distinct_card length_map list.set_map)

lemma lru_get_of: "store_wf s \<Longrightarrow> map_of (lru_of s) d = hm_get (entries s) d"
  using map_of_eq_None_iff [of "entries s" d]
  by (auto simp: store_wf_def lru_of_def map_of_map_restrict restrict_map_def)

subsection \<open>Recency updates\<close>

lemma store_touch_simps [simp]:
  "entries (store_touch d s) = entries s"
  "store_bytes (store_touch d s) = store_bytes s"
  "max_bytes (store_touch d s) = max_bytes s"
  "max_entries (store_touch d s) = max_entries s"
  by (simp_all add: store_touch_def)

lemma store_wf_touch:
  assumes "store_wf s" "d \<in> set (recency s)"
  shows "store_wf (store_touch d s)"
  using assms by (auto simp: store_wf_def store_touch_def)

lemma lru_of_touch:
  assumes "store_wf s" "d \<in> set (recency s)"
  shows "lru_of (store_touch d s) = lru_touch d (lru_of s)"
proof -
  have "distinct (recency s)" using assms by (simp add: store_wf_def)
  then have "remove1 d (recency s) = filter (\<lambda>x. x \<noteq> d) (recency s)"
    by (auto simp: distinct_remove1_removeAll removeAll_filter_not_eq intro: filter_cong)
  moreover have "filter (\<lambda>x. x = d) (recency s) = [d]"
    using \<open>distinct (recency s)\<close> assms(2) by (simp add: distinct_filter_eq)
  ultimately show ?thesis
    by (simp add: lru_of_def store_touch_def lru_touch_def filter_map o_def)
qed

subsection \<open>The eviction loop\<close>

lemma store_over_iff:
  assumes "store_wf s" "n \<le> max_bytes s"
  shows "store_over n s \<longleftrightarrow> \<not> lru_fits (max_bytes s) (max_entries s) n (lru_of s)"
proof -
  have "wrap_add (store_bytes s) n = store_bytes s + n"
    using assms by (intro wrap_add_exact) (simp add: store_wf_def)
  then show ?thesis
    using assms by (auto simp: store_over_def lru_fits_def lru_bytes_of lru_length_of)
qed

definition store_evict_oldest :: "store \<Rightarrow> store" where
  "store_evict_oldest s =
     s\<lparr>recency := tl (recency s), entries := hm_remove (hd (recency s)) (entries s),
       store_bytes := wrap_sub (store_bytes s) (length (the (hm_get (entries s) (hd (recency s)))))\<rparr>"

lemma store_evict_oldest_simps [simp]:
  "max_bytes (store_evict_oldest s) = max_bytes s"
  "max_entries (store_evict_oldest s) = max_entries s"
  "recency (store_evict_oldest s) = tl (recency s)"
  "entries (store_evict_oldest s) = hm_remove (hd (recency s)) (entries s)"
  by (simp_all add: store_evict_oldest_def)

lemma store_wf_hd:
  assumes "store_wf s" "recency s = d # ds"
  obtains b where "hm_get (entries s) d = Some b"
  using assms store_wf_key_iff [OF assms(1), of d] by auto

lemma store_wf_evict_oldest:
  assumes wf: "store_wf s" and r: "recency s = d # ds"
  shows "store_wf (store_evict_oldest s)"
proof -
  obtain b where b: "hm_get (entries s) d = Some b" using store_wf_hd [OF wf r] .
  have tot: "hm_total length (entries s) = length b + hm_total length (hm_remove d (entries s))"
    using wf b by (intro hm_total_remove) (simp_all add: store_wf_def)
  have "store_bytes (store_evict_oldest s) = hm_total length (hm_remove d (entries s))"
    using wf r b tot by (simp add: store_evict_oldest_def store_wf_def wrap_sub_exact)
  moreover have "length (hm_remove d (entries s)) \<le> length (entries s)"
    by (rule length_delete_le)
  ultimately show ?thesis
    using wf r tot by (auto simp: store_wf_def hm_keys_remove distinct_delete)
qed

lemma lru_of_evict_oldest:
  assumes wf: "store_wf s" and r: "recency s = d # ds"
  shows "lru_of (store_evict_oldest s) = tl (lru_of s)"
proof -
  have "d \<notin> set ds" using wf r by (simp add: store_wf_def)
  then show ?thesis using r by (auto simp: lru_of_def AList.delete_conv')
qed

lemma store_evict_step:
  assumes wf: "store_wf s" and r: "recency s = d # ds" and over: "store_over n s"
  shows "store_evict n e s = store_evict n (Suc e) (store_evict_oldest s)"
proof -
  obtain b where "hm_get (entries s) d = Some b" using store_wf_hd [OF wf r] .
  then show ?thesis
    using r over by (subst store_evict.simps) (simp add: store_evict_oldest_def)
qed

text \<open>The loop drops the shortest prefix of the least recently used entries that makes room.\<close>

lemma store_evict_refines:
  assumes "store_wf s" "n \<le> max_bytes s" "0 < max_entries s"
  shows "\<exists>k s'. store_evict n e s = (Inr (e + k), s') \<and> store_wf s' \<and>
     lru_of s' = drop k (lru_of s) \<and> k \<le> length (lru_of s) \<and>
     max_bytes s' = max_bytes s \<and> max_entries s' = max_entries s \<and>
     lru_fits (max_bytes s) (max_entries s) n (drop k (lru_of s)) \<and>
     (\<forall>j < k. \<not> lru_fits (max_bytes s) (max_entries s) n (drop j (lru_of s)))"
  using assms
proof (induction "recency s" arbitrary: s e)
  case Nil
  then have "lru_of s = []" by (simp add: lru_of_def)
  moreover have "\<not> store_over n s"
    using Nil.prems \<open>lru_of s = []\<close> by (simp add: store_over_iff lru_fits_def lru_bytes_def)
  ultimately show ?case
    using Nil.prems by (subst store_evict.simps) (auto simp: store_over_iff)
next
  case (Cons d ds)
  note r = Cons.hyps(2) [symmetric]
  show ?case
  proof (cases "store_over n s")
    case False
    then show ?thesis
      using Cons.prems by (subst store_evict.simps) (auto simp: store_over_iff)
  next
    case True
    let ?s = "store_evict_oldest s"
    have l: "lru_of s \<noteq> []" "lru_of ?s = tl (lru_of s)"
      using r lru_of_evict_oldest [OF Cons.prems(1) r] by (simp_all add: lru_of_def)
    obtain k s' where IH: "store_evict n (Suc e) ?s = (Inr (Suc e + k), s')" "store_wf s'"
      "lru_of s' = drop k (tl (lru_of s))" "k \<le> length (tl (lru_of s))"
      "max_bytes s' = max_bytes s" "max_entries s' = max_entries s"
      "lru_fits (max_bytes s) (max_entries s) n (drop k (tl (lru_of s)))"
      "\<forall>j < k. \<not> lru_fits (max_bytes s) (max_entries s) n (drop j (tl (lru_of s)))"
      using Cons.hyps(1) [of ?s "Suc e"] Cons.prems r l store_wf_evict_oldest [OF Cons.prems(1) r]
      by auto
    have "\<forall>j < Suc k. \<not> lru_fits (max_bytes s) (max_entries s) n (drop j (lru_of s))"
      using IH(8) True Cons.prems l(1) by (auto simp: store_over_iff less_Suc_eq_0_disj drop_Suc)
    then show ?thesis
      using IH l(1) store_evict_step [OF Cons.prems(1) r True]
      by (intro exI [of _ "Suc k"] exI [of _ s']) (auto simp: drop_Suc neq_Nil_conv)
  qed
qed


section \<open>Operations against the least-recently-used list\<close>

lemma store_get_refines:
  assumes "store_wf s"
  shows "fst (store_get d s) = map_of (lru_of s) d"
    and "store_wf (snd (store_get d s))"
    and "lru_of (snd (store_get d s)) =
           (if map_of (lru_of s) d = None then lru_of s else lru_touch d (lru_of s))"
  using assms store_wf_key_iff [OF assms, of d] store_wf_touch [OF assms, of d]
    lru_of_touch [OF assms, of d]
  by (auto simp: store_get_def lru_get_of split: option.splits)

lemma store_wf_add:
  assumes wf: "store_wf s" and new: "hm_get (entries s) d = None"
    and fits: "lru_fits (max_bytes s) (max_entries s) (length b) (lru_of s)"
  shows "store_wf (store_touch d (s\<lparr>store_bytes := wrap_add (store_bytes s) (length b),
      entries := hm_insert d b (entries s)\<rparr>))" (is "store_wf ?t")
    and "lru_of (store_touch d (s\<lparr>store_bytes := wrap_add (store_bytes s) (length b),
      entries := hm_insert d b (entries s)\<rparr>)) = lru_of s @ [(d, b)]"
proof -
  have f: "store_bytes s + length b \<le> max_bytes s" "length (entries s) < max_entries s"
    using fits wf by (simp_all add: lru_fits_def lru_bytes_of lru_length_of)
  have d: "d \<notin> set (recency s)" using new store_wf_key_iff [OF wf] by blast
  have w: "wrap_add (store_bytes s) (length b) = store_bytes s + length b"
    using f wf by (intro wrap_add_exact) (simp add: store_wf_def)
  show "store_wf ?t"
    using wf f d w new
    by (auto simp: store_wf_def store_touch_def remove1_idem distinct_update hm_total_insert_new
        hm_length_insert dom_update image_Un)
  show "lru_of ?t = lru_of s @ [(d, b)]"
    using d by (auto simp: lru_of_def store_touch_def remove1_idem update_conv)
qed

lemma store_insert_new:
  assumes wf: "store_wf s" and new: "hm_get (entries s) d = None"
    and ok: "length b \<le> max_bytes s" "0 < max_entries s"
  shows "\<exists>k s'. store_insert d b s = (Inr k, s') \<and> store_wf s' \<and>
     lru_of s' = drop k (lru_of s) @ [(d, b)] \<and> k \<le> length (lru_of s) \<and>
     max_bytes s' = max_bytes s \<and> max_entries s' = max_entries s \<and>
     k = (LEAST k. lru_fits (max_bytes s) (max_entries s) (length b) (drop k (lru_of s)))"
proof -
  let ?fits = "\<lambda>k. lru_fits (max_bytes s) (max_entries s) (length b) (drop k (lru_of s))"
  obtain k s' where e: "store_evict (length b) 0 s = (Inr k, s')" "store_wf s'"
    "lru_of s' = drop k (lru_of s)" "k \<le> length (lru_of s)"
    "max_bytes s' = max_bytes s" "max_entries s' = max_entries s"
    "?fits k" "\<forall>j < k. \<not> ?fits j"
    using store_evict_refines [OF wf ok, of 0] by auto
  have "d \<notin> fst ` set (lru_of s)"
    using new by (simp add: lru_get_of [OF wf] flip: map_of_eq_None_iff)
  then have "d \<notin> fst ` set (lru_of s')"
    unfolding e(3) by (metis image_mono set_drop_subset subsetD)
  then have new': "hm_get (entries s') d = None"
    by (simp add: lru_get_of [OF e(2)] flip: map_of_eq_None_iff)
  have least: "k = Least ?fits"
    using e(7,8) by (intro Least_equality [symmetric]) (auto intro: leI)
  show ?thesis
    using new ok e(1,4,5,6) least store_wf_add [OF e(2) new', of b] e(3,7)
    by (auto simp: store_insert_def)
qed

lemma store_insert_present:
  assumes wf: "store_wf s" and old: "hm_get (entries s) d = Some c"
  shows "store_insert d b s =
      (if c = b then (Inr 0, store_touch d s) else (Inl st_CONFLICT, s))"
    and "store_wf (store_touch d s)" and "lru_of (store_touch d s) = lru_touch d (lru_of s)"
  using wf old store_wf_key_iff [OF wf, of d] store_wf_touch [OF wf, of d] lru_of_touch [OF wf, of d]
  by (auto simp: store_insert_def)

lemma store_wf_insert: "store_wf s \<Longrightarrow> store_wf (snd (store_insert d b s))"
proof (cases "hm_get (entries s) d")
  case None
  assume "store_wf s"
  then show ?thesis
    using None store_insert_new [of s d b]
    by (cases "length b \<le> max_bytes s \<and> 0 < max_entries s") (auto simp: store_insert_def)
next
  case (Some c)
  assume "store_wf s"
  then show ?thesis using store_insert_present [OF _ Some] by auto
qed

lemma store_insert_contents:
  assumes wf: "store_wf s" and c: "hm_get (entries (snd (store_insert d b s))) d' = Some c"
  shows "hm_get (entries s) d' = Some c \<or> d' = d \<and> c = b"
proof (cases "hm_get (entries s) d")
  case (Some x)
  then show ?thesis using c store_insert_present [OF wf Some] by (auto split: if_splits)
next
  case None
  show ?thesis
  proof (cases "length b \<le> max_bytes s \<and> 0 < max_entries s")
    case False
    then show ?thesis using None c by (auto simp: store_insert_def)
  next
    case True
    then obtain k s' where s': "store_insert d b s = (Inr k, s')" "store_wf s'"
      "lru_of s' = drop k (lru_of s) @ [(d, b)]"
      using store_insert_new [OF wf None] by blast
    have "(d', c) \<in> set (lru_of s')"
      using c s'(1) lru_get_of [OF s'(2), of d'] by (intro map_of_SomeD) simp
    then consider "(d', c) \<in> set (lru_of s)" | "d' = d" "c = b"
      using s'(3) by (auto dest: in_set_dropD)
    then show ?thesis
    proof cases
      case 1
      have "distinct (map fst (lru_of s))" using wf by (simp add: lru_of_def store_wf_def o_def)
      then show ?thesis using 1 lru_get_of [OF wf, of d'] by simp
    qed blast
  qed
qed

text \<open>The limits never change.\<close>

lemma store_evict_limits:
  "max_bytes (snd (store_evict n e s)) = max_bytes s \<and> max_entries (snd (store_evict n e s)) = max_entries s"
proof (induction n e s rule: store_evict.induct)
  case (1 n e s)
  then show ?case
    by (subst (1 2) store_evict.simps) (auto split: list.splits option.splits)
qed

lemma store_insert_limits [simp]:
  "max_bytes (snd (store_insert d b s)) = max_bytes s"
  "max_entries (snd (store_insert d b s)) = max_entries s"
  using store_evict_limits [of "length b" 0 s]
  by (auto simp: store_insert_def split: option.splits prod.splits sum.splits)

lemma store_get_limits [simp]:
  "max_bytes (snd (store_get d s)) = max_bytes s"
  "max_entries (snd (store_get d s)) = max_entries s"
  by (auto simp: store_get_def split: option.splits)

section \<open>The contract of a content-addressed store\<close>

text \<open>
  What the HTTP handlers rely on: a lookup returns what the store holds and changes no contents,
  an insertion adds nothing but the entry it was given, and an accepted entry is held afterwards.
\<close>

locale artifact_store =
  fixes get_op :: "'d \<Rightarrow> 's \<Rightarrow> 'b option \<times> 's"
    and insert_op :: "'d \<Rightarrow> 'b \<Rightarrow> 's \<Rightarrow> (status + nat) \<times> 's"
    and contents :: "'s \<Rightarrow> 'd \<Rightarrow> 'b option"
    and good :: "'s \<Rightarrow> bool"
  assumes good_get: "good s \<Longrightarrow> good (snd (get_op d s))"
    and good_insert: "good s \<Longrightarrow> good (snd (insert_op d b s))"
    and get_result: "good s \<Longrightarrow> fst (get_op d s) = contents s d"
    and get_frame: "good s \<Longrightarrow> contents (snd (get_op d s)) = contents s"
    and insert_only: "good s \<Longrightarrow> contents (snd (insert_op d b s)) d' = Some c \<Longrightarrow>
      contents s d' = Some c \<or> d' = d \<and> c = b"
    and insert_held: "good s \<Longrightarrow> fst (insert_op d b s) = Inr k \<Longrightarrow>
      contents (snd (insert_op d b s)) d = Some b"
begin

lemma insert_then_get:
  assumes "good s" "fst (insert_op d b s) = Inr k"
  shows "fst (get_op d (snd (insert_op d b s))) = Some b"
  using assms by (simp add: get_result good_insert insert_held)

lemma integrity_insert:
  assumes "good s" "\<And>d c. contents s d = Some c \<Longrightarrow> P d c" "P d b"
    and "contents (snd (insert_op d b s)) d' = Some c"
  shows "P d' c"
  using insert_only [OF assms(1,4)] assms(2,3) by blast

lemma integrity_get:
  assumes "good s" "\<And>d c. contents s d = Some c \<Longrightarrow> P d c" "fst (get_op d s) = Some c"
  shows "P d c"
  using assms by (simp add: get_result)

end

interpretation lru: artifact_store store_get store_insert "\<lambda>s. hm_get (entries s)" store_wf
proof unfold_locales
  fix s :: store and d b k
  assume wf: "store_wf s" and ins: "fst (store_insert d b s) = Inr k"
  show "hm_get (entries (snd (store_insert d b s))) d = Some b"
  proof (cases "hm_get (entries s) d")
    case (Some c)
    then show ?thesis using ins store_insert_present [OF wf Some] by (auto split: if_splits)
  next
    case None
    then show ?thesis
      using ins by (auto simp: store_insert_def update_conv split: if_splits prod.splits sum.splits)
  qed
next
  fix s :: store and d
  assume "store_wf s"
  then show "fst (store_get d s) = hm_get (entries s) d"
    by (simp add: store_get_refines(1) lru_get_of)
  show "hm_get (entries (snd (store_get d s))) = hm_get (entries s)"
    by (simp add: store_get_def split: option.splits)
qed (auto simp: store_get_refines store_wf_insert dest: store_insert_contents)

section \<open>Properties\<close>

text \<open>
  C15 (refinement). Inserting a digest the store does not hold, within both limits, always succeeds,
  keeps the invariant and evicts exactly the shortest prefix of the least recently used entries
  after which the new one fits the byte and entry budgets; the new entry becomes the most recently
  used one and the reported eviction count is the length of that prefix. In particular the
  internal-error branch of the eviction loop is never taken.
\<close>

theorem store_insert_lru:
  assumes "store_wf s" "hm_get (entries s) d = None" "length b \<le> max_bytes s" "0 < max_entries s"
  shows "\<exists>k s'. store_insert d b s = (Inr k, s') \<and> store_wf s' \<and>
     lru_of s' = drop k (lru_of s) @ [(d, b)] \<and>
     k = (LEAST k. lru_fits (max_bytes s) (max_entries s) (length b) (drop k (lru_of s)))"
  using store_insert_new [OF assms] by blast

theorem store_insert_lru_witness:
  "\<exists>k s'. store_insert (Sha256Digest ''b'') [2, 3]
       (snd (store_insert (Sha256Digest ''a'') [1] (store_new 2 4))) = (Inr k, s') \<and> store_wf s' \<and> k = 1"
proof -
  let ?s = "snd (store_insert (Sha256Digest ''a'') [1] (store_new 2 4))"
  have s: "?s = \<lparr>entries = [(Sha256Digest ''a'', [1])], recency = [Sha256Digest ''a''],
      store_bytes = 1, max_bytes = 2, max_entries = 4\<rparr>"
    by (simp add: store_insert_def store_new_def store_evict.simps store_over_def store_touch_def
        wrap_add_def)
  have wf: "store_wf ?s" unfolding s by (simp add: store_wf_def)
  obtain k s' where "store_insert (Sha256Digest ''b'') [2, 3] ?s = (Inr k, s')" "store_wf s'"
    using store_insert_lru [OF wf, of "Sha256Digest ''b''" "[2, 3]"] unfolding s by auto
  moreover have "fst (store_insert (Sha256Digest ''b'') [2, 3] ?s) = Inr 1"
    unfolding s by (simp add: store_insert_def store_evict.simps store_over_def wrap_add_def wrap_sub_def)
  ultimately show ?thesis by auto
qed

end
