(* ===== verification/CacheService.thy ===== *)
theory CacheService
  imports CacheStore Identity
begin

text \<open>
  The HTTP service of \<open>src/components/module-cache/src/cache.rs\<close>: authentication, the \<open>GET\<close> and
  \<open>PUT\<close> handlers of \<open>/modules/{digest}\<close>, readiness and the metrics page. A handler is split where
  it awaits something (the token review, the request body), because other requests run in
  between: \<open>cache_step\<close> interleaves the parts of any number of requests, the release of response
  bodies and the shutdown. Permits are counted as held by the requests that own them.
\<close>

section \<open>Definitions\<close>

definition MAX_UPLOADS :: nat where "MAX_UPLOADS = 2"
definition MAX_RESPONSES :: nat where "MAX_RESPONSES = 2"
definition MAX_AUTH_REQUESTS :: nat where "MAX_AUTH_REQUESTS = 8"

datatype response = Status status | WasmBody bytes | TextBody string

record cache_metrics =
  hits :: nat
  misses :: nat
  stores :: nat
  rejected :: nat
  evictions :: nat

record cache_state =
  cstore :: store
  uploads_held :: nat
  responses_held :: nat
  cmetrics :: cache_metrics
  ready :: bool

definition cache_with_limits :: "nat \<Rightarrow> nat \<Rightarrow> cache_state" where
  "cache_with_limits mb me =
     \<lparr>cstore = store_new mb me, uploads_held = 0, responses_held = 0,
      cmetrics = \<lparr>hits = 0, misses = 0, stores = 0, rejected = 0, evictions = 0\<rparr>, ready = True\<rparr>"

definition cache_new :: cache_state where
  "cache_new = cache_with_limits CACHE_MAX_BYTES CACHE_MAX_ENTRIES"

definition cache_reject :: "status \<Rightarrow> cache_state \<Rightarrow> response \<times> cache_state" where
  "cache_reject code st =
     (Status code, st\<lparr>cmetrics := (cmetrics st)\<lparr>rejected := wrap_add (rejected (cmetrics st)) 1\<rparr>\<rparr>)"

subsection \<open>Authentication\<close>

definition bearer_prefix :: bytes where
  "bearer_prefix = [0x42, 0x65, 0x61, 0x72, 0x65, 0x72, 0x20]"

datatype auth_gate = AuthRefused status | AuthReview bytes

text \<open>
  \<open>authenticate\<close> up to the review. The \<open>Authorization\<close> values are given in order, \<open>None\<close> for one
  that is not visible ASCII; \<open>held\<close> is the number of reviews in progress.
\<close>

definition authenticate_begin :: "semaphore_api \<Rightarrow> nat \<Rightarrow> bytes option list \<Rightarrow> auth_gate" where
  "authenticate_begin sem held headers =
     (let token =
        (case headers of
           Some v # _ \<Rightarrow>
             (case strip_prefix bearer_prefix v of
                Some t \<Rightarrow> if t \<noteq> [] \<and> length t \<le> MAX_TOKEN_BYTES then Some t else None
              | None \<Rightarrow> None)
         | _ \<Rightarrow> None)
      in case token of
           None \<Rightarrow> AuthRefused st_UNAUTHORIZED
         | Some t \<Rightarrow>
             if length headers > 1 then AuthRefused st_UNAUTHORIZED
             else if \<not> sem_admits sem MAX_AUTH_REQUESTS held then AuthRefused st_TOO_MANY_REQUESTS
             else AuthReview t)"

text \<open>After the review: \<open>None\<close> runs the handler, otherwise the response status.\<close>

fun authenticate_finish :: "(identity_error + unit) timed \<Rightarrow> status option" where
  "authenticate_finish (Done (Inr _)) = None"
| "authenticate_finish (Done (Inl Forbidden)) = Some st_FORBIDDEN"
| "authenticate_finish (Done (Inl Unauthenticated)) = Some st_UNAUTHORIZED"
| "authenticate_finish (Done (Inl InvalidToken)) = Some st_UNAUTHORIZED"
| "authenticate_finish _ = Some st_SERVICE_UNAVAILABLE"

subsection \<open>Handlers\<close>

definition get_module :: "semaphore_api \<Rightarrow> string \<Rightarrow> cache_state \<Rightarrow> response \<times> cache_state" where
  "get_module sem path st =
     (if \<not> ready st then cache_reject st_SERVICE_UNAVAILABLE st
      else
        (case digest_parse path of
           Inl _ \<Rightarrow> cache_reject st_BAD_REQUEST st
         | Inr d \<Rightarrow>
             (case store_get d (cstore st) of
                (Some b, s) \<Rightarrow>
                  (let st = st\<lparr>cstore := s\<rparr> in
                   if \<not> sem_admits sem MAX_RESPONSES (responses_held st)
                   then cache_reject st_TOO_MANY_REQUESTS st
                   else (WasmBody b,
                         st\<lparr>responses_held := Suc (responses_held st),
                            cmetrics := (cmetrics st)\<lparr>hits := wrap_add (hits (cmetrics st)) 1\<rparr>\<rparr>))
              | (None, s) \<Rightarrow>
                  (Status st_NOT_FOUND,
                   st\<lparr>cstore := s,
                      cmetrics := (cmetrics st)\<lparr>misses := wrap_add (misses (cmetrics st)) 1\<rparr>\<rparr>))))"

text \<open>
  \<open>put_module\<close> up to the read of the body: either the response, or the digest whose body is
  awaited under an upload permit.
\<close>

definition put_module_begin ::
  "semaphore_api \<Rightarrow> string \<Rightarrow> cache_state \<Rightarrow> (response + digest) \<times> cache_state" where
  "put_module_begin sem path st =
     (if \<not> ready st then apfst Inl (cache_reject st_SERVICE_UNAVAILABLE st)
      else
        (case digest_parse path of
           Inl _ \<Rightarrow> apfst Inl (cache_reject st_BAD_REQUEST st)
         | Inr d \<Rightarrow>
             if \<not> sem_admits sem MAX_UPLOADS (uploads_held st)
             then apfst Inl (cache_reject st_TOO_MANY_REQUESTS st)
             else (Inr d, st\<lparr>uploads_held := Suc (uploads_held st)\<rparr>)))"

text \<open>The rest of \<open>put_module\<close>, from the outcome of the body read; the permit is dropped on return.\<close>

definition put_module_finish ::
  "(bytes \<Rightarrow> string) \<Rightarrow> digest \<Rightarrow> (status + bytes) timed \<Rightarrow> cache_state \<Rightarrow> response \<times> cache_state" where
  "put_module_finish hash d body st =
     (let (r, st) =
        (case body of
           Elapsed \<Rightarrow> cache_reject st_REQUEST_TIMEOUT st
         | Done (Inl rejection) \<Rightarrow> cache_reject rejection st
         | Done (Inr b) \<Rightarrow>
             (case verify_wasm hash d b of
                Inl _ \<Rightarrow> cache_reject st_UNPROCESSABLE_ENTITY st
              | Inr _ \<Rightarrow>
                  (case store_insert d b (cstore st) of
                     (Inr n, s) \<Rightarrow>
                       (Status st_NO_CONTENT,
                        st\<lparr>cstore := s,
                           cmetrics := (cmetrics st)\<lparr>stores := wrap_add (stores (cmetrics st)) 1,
                             evictions := wrap_add (evictions (cmetrics st)) n\<rparr>\<rparr>)
                   | (Inl code, s) \<Rightarrow> cache_reject code (st\<lparr>cstore := s\<rparr>))))
      in (r, st\<lparr>uploads_held := uploads_held st - 1\<rparr>))"

definition cache_readyz :: "cache_state \<Rightarrow> status" where
  "cache_readyz st = (if ready st then st_OK else st_SERVICE_UNAVAILABLE)"

definition cache_metric_rows :: "semaphore_api \<Rightarrow> cache_state \<Rightarrow> (string \<times> string \<times> nat) list" where
  "cache_metric_rows sem st =
     [(''module_cache_bytes'', ''gauge'', store_bytes (cstore st)),
      (''module_cache_entries'', ''gauge'', length (entries (cstore st))),
      (''module_cache_uploads'', ''gauge'',
         wrap_sub MAX_UPLOADS (sem_available sem MAX_UPLOADS (uploads_held st))),
      (''module_cache_responses'', ''gauge'',
         wrap_sub MAX_RESPONSES (sem_available sem MAX_RESPONSES (responses_held st))),
      (''module_cache_hits_total'', ''counter'', hits (cmetrics st)),
      (''module_cache_misses_total'', ''counter'', misses (cmetrics st)),
      (''module_cache_stores_total'', ''counter'', stores (cmetrics st)),
      (''module_cache_rejections_total'', ''counter'', rejected (cmetrics st)),
      (''module_cache_evictions_total'', ''counter'', evictions (cmetrics st))]"

definition cache_metrics_page :: "semaphore_api \<Rightarrow> cache_state \<Rightarrow> response" where
  "cache_metrics_page sem st =
     TextBody (concat (map (\<lambda>(name, kind, v).
       ''# TYPE '' @ name @ '' '' @ kind @ [CHR 0x0A] @ name @ '' '' @ show_nat v @ [CHR 0x0A])
       (cache_metric_rows sem st)))"

subsection \<open>The service as a transition system\<close>

datatype module_request = GetModule string | PutModule string

text \<open>
  The state of the router: the shared cache state, the requests under review (each holds an
  authentication permit) and the uploads whose body is being read.
\<close>

record cache_sys =
  shared :: cache_state
  reviewing :: "module_request list"
  uploading :: "digest list"

datatype cache_event =
    Responded module_request response
  | Uploaded digest response
  | Progress

inductive cache_step ::
  "(bytes \<Rightarrow> string) \<Rightarrow> semaphore_api \<Rightarrow> cache_sys \<Rightarrow> cache_event \<Rightarrow> cache_sys \<Rightarrow> bool"
  for hash :: "bytes \<Rightarrow> string" and sem :: semaphore_api where
  arrive_refused:
    "authenticate_begin sem (length (reviewing y)) headers = AuthRefused code \<Longrightarrow>
       cache_step hash sem y (Responded rq (Status code)) y"
| arrive:
    "authenticate_begin sem (length (reviewing y)) headers = AuthReview t \<Longrightarrow>
       cache_step hash sem y Progress (y\<lparr>reviewing := rq # reviewing y\<rparr>)"
| review_refused:
    "rq \<in> set (reviewing y) \<Longrightarrow> authenticate_finish result = Some code \<Longrightarrow>
       cache_step hash sem y (Responded rq (Status code)) (y\<lparr>reviewing := remove1 rq (reviewing y)\<rparr>)"
| serve_get:
    "GetModule path \<in> set (reviewing y) \<Longrightarrow> authenticate_finish result = None \<Longrightarrow>
       get_module sem path (shared y) = (r, st) \<Longrightarrow>
       cache_step hash sem y (Responded (GetModule path) r)
         (y\<lparr>shared := st, reviewing := remove1 (GetModule path) (reviewing y)\<rparr>)"
| refuse_put:
    "PutModule path \<in> set (reviewing y) \<Longrightarrow> authenticate_finish result = None \<Longrightarrow>
       put_module_begin sem path (shared y) = (Inl r, st) \<Longrightarrow>
       cache_step hash sem y (Responded (PutModule path) r)
         (y\<lparr>shared := st, reviewing := remove1 (PutModule path) (reviewing y)\<rparr>)"
| begin_put:
    "PutModule path \<in> set (reviewing y) \<Longrightarrow> authenticate_finish result = None \<Longrightarrow>
       put_module_begin sem path (shared y) = (Inr d, st) \<Longrightarrow>
       cache_step hash sem y Progress
         (y\<lparr>shared := st, reviewing := remove1 (PutModule path) (reviewing y), uploading := d # uploading y\<rparr>)"
| finish_put:
    "d \<in> set (uploading y) \<Longrightarrow> put_module_finish hash d body (shared y) = (r, st) \<Longrightarrow>
       cache_step hash sem y (Uploaded d r) (y\<lparr>shared := st, uploading := remove1 d (uploading y)\<rparr>)"
| body_dropped:
    "0 < responses_held (shared y) \<Longrightarrow>
       cache_step hash sem y Progress
         (y\<lparr>shared := (shared y)\<lparr>responses_held := responses_held (shared y) - 1\<rparr>\<rparr>)"
| shutdown:
    "cache_step hash sem y Progress (y\<lparr>shared := (shared y)\<lparr>ready := False\<rparr>\<rparr>)"

inductive cache_reachable :: "(bytes \<Rightarrow> string) \<Rightarrow> semaphore_api \<Rightarrow> cache_sys \<Rightarrow> bool"
  for hash :: "bytes \<Rightarrow> string" and sem :: semaphore_api where
  start: "cache_reachable hash sem \<lparr>shared = cache_new, reviewing = [], uploading = []\<rparr>"
| step: "cache_reachable hash sem y \<Longrightarrow> cache_step hash sem y e y' \<Longrightarrow> cache_reachable hash sem y'"

section \<open>Invariant\<close>

text \<open>The store is well-formed and holds verified Wasm only.\<close>

definition shared_inv :: "(bytes \<Rightarrow> string) \<Rightarrow> cache_state \<Rightarrow> bool" where
  "shared_inv hash st \<longleftrightarrow>
     store_wf (cstore st) \<and> max_bytes (cstore st) = CACHE_MAX_BYTES \<and>
     max_entries (cstore st) = CACHE_MAX_ENTRIES \<and>
     (\<forall>d b. hm_get (entries (cstore st)) d = Some b \<longrightarrow> verify_wasm hash d b = Inr ())"

definition cache_inv :: "(bytes \<Rightarrow> string) \<Rightarrow> cache_sys \<Rightarrow> bool" where
  "cache_inv hash y \<longleftrightarrow>
     shared_inv hash (shared y) \<and>
     uploads_held (shared y) = length (uploading y) \<and> uploads_held (shared y) \<le> MAX_UPLOADS \<and>
     responses_held (shared y) \<le> MAX_RESPONSES \<and> length (reviewing y) \<le> MAX_AUTH_REQUESTS"

lemma cache_reject_simps [simp]:
  "fst (cache_reject c st) = Status c"
  "cstore (snd (cache_reject c st)) = cstore st"
  "uploads_held (snd (cache_reject c st)) = uploads_held st"
  "responses_held (snd (cache_reject c st)) = responses_held st"
  "shared_inv hash (snd (cache_reject c st)) = shared_inv hash st"
  by (simp_all add: cache_reject_def shared_inv_def)

lemma shared_inv_frame [simp]:
  "shared_inv hash (st\<lparr>uploads_held := n\<rparr>) = shared_inv hash st"
  "shared_inv hash (st\<lparr>responses_held := n\<rparr>) = shared_inv hash st"
  "shared_inv hash (st\<lparr>cmetrics := m\<rparr>) = shared_inv hash st"
  "shared_inv hash (st\<lparr>ready := b\<rparr>) = shared_inv hash st"
  by (simp_all add: shared_inv_def)

lemma shared_inv_new: "shared_inv hash cache_new"
  by (simp add: shared_inv_def cache_new_def cache_with_limits_def store_wf_new CACHE_MAX_BYTES_def
      store_new_def)
    (simp add: store_wf_def)

lemma shared_inv_get:
  assumes inv: "shared_inv hash st" and s: "store_get d (cstore st) = (r, s)"
  shows "shared_inv hash (st\<lparr>cstore := s\<rparr>)"
proof -
  have wf: "store_wf (cstore st)" using inv by (simp add: shared_inv_def)
  show ?thesis
    using inv s lru.good_get [OF wf, of d] lru.get_frame [OF wf, of d] store_get_limits [of d "cstore st"]
    by (simp add: shared_inv_def)
qed

lemma shared_inv_insert:
  assumes inv: "shared_inv hash st" and v: "verify_wasm hash d b = Inr ()"
    and s: "store_insert d b (cstore st) = (r, s)"
  shows "shared_inv hash (st\<lparr>cstore := s\<rparr>)"
proof -
  have wf: "store_wf (cstore st)" using inv by (simp add: shared_inv_def)
  show ?thesis
    using inv s lru.good_insert [OF wf, of d b] store_insert_limits [of d b "cstore st"]
      lru.integrity_insert [OF wf, of "\<lambda>d b. verify_wasm hash d b = Inr ()" d b, OF _ v]
    by (simp add: shared_inv_def)
qed

lemma get_module_inv:
  assumes inv: "shared_inv hash st"
  shows "shared_inv hash (snd (get_module sem path st))"
    and "uploads_held (snd (get_module sem path st)) = uploads_held st"
  using inv
  by (auto simp: get_module_def Let_def intro: shared_inv_get split: sum.splits prod.splits option.splits)

lemma get_module_body:
  assumes inv: "shared_inv hash st" and body: "fst (get_module sem path st) = WasmBody b"
  obtains d where "digest_parse path = Inr d" "verify_wasm hash d b = Inr ()"
proof -
  obtain d s where d: "digest_parse path = Inr d" "store_get d (cstore st) = (Some b, s)"
    using body
    by (auto simp: get_module_def Let_def split: if_splits sum.splits prod.splits option.splits)
  have "verify_wasm hash d b = Inr ()"
    using inv d(2) lru.get_result [of "cstore st" d] by (simp add: shared_inv_def)
  then show thesis using that d(1) by blast
qed

lemma get_module_held:
  assumes "semaphore_spec sem" "responses_held st \<le> MAX_RESPONSES"
  shows "responses_held (snd (get_module sem path st)) \<le> MAX_RESPONSES"
  using assms semaphore_spec.sem_admits_iff [OF assms(1)]
  by (auto simp: get_module_def Let_def split: sum.splits prod.splits option.splits)

lemma put_module_begin_inv:
  assumes "shared_inv hash st"
  shows "shared_inv hash (snd (put_module_begin sem path st))"
    and "responses_held (snd (put_module_begin sem path st)) = responses_held st"
  using assms by (auto simp: put_module_begin_def split: sum.splits)

lemma put_module_begin_held:
  assumes "semaphore_spec sem" "uploads_held st \<le> MAX_UPLOADS"
  shows "uploads_held (snd (put_module_begin sem path st)) =
      (case fst (put_module_begin sem path st) of Inl _ \<Rightarrow> uploads_held st | Inr _ \<Rightarrow> Suc (uploads_held st))"
    and "uploads_held (snd (put_module_begin sem path st)) \<le> MAX_UPLOADS"
  using assms semaphore_spec.sem_admits_iff [OF assms(1)]
  by (auto simp: put_module_begin_def split: sum.splits)

lemma put_module_finish_inv:
  assumes inv: "shared_inv hash st"
  shows "shared_inv hash (snd (put_module_finish hash d body st))"
    and "uploads_held (snd (put_module_finish hash d body st)) = uploads_held st - 1"
    and "responses_held (snd (put_module_finish hash d body st)) = responses_held st"
  using inv
  by (auto simp: put_module_finish_def Let_def case_prod_beta intro: shared_inv_insert [OF _ _ prod.collapse [symmetric]]
      split: timed.splits sum.splits prod.splits)

lemma cache_step_inv:
  assumes sem: "semaphore_spec sem"
  shows "cache_step hash sem y e y' \<Longrightarrow> cache_inv hash y \<Longrightarrow> cache_inv hash y'"
proof (induction rule: cache_step.induct)
  case (arrive y headers t rq)
  then have "length (reviewing y) < MAX_AUTH_REQUESTS"
    using semaphore_spec.sem_admits_iff [OF sem]
    by (auto simp: authenticate_begin_def Let_def split: if_splits option.splits list.splits)
  then show ?case using arrive by (simp add: cache_inv_def)
next
  case (serve_get path y result r st)
  then show ?case
    using get_module_inv [of hash "shared y" sem path] get_module_held [OF sem, of "shared y" path]
    by (auto simp: cache_inv_def length_remove1)
next
  case (refuse_put path y result r st)
  then show ?case
    using put_module_begin_inv [of hash "shared y" sem path] put_module_begin_held [OF sem, of "shared y" path]
    by (auto simp: cache_inv_def length_remove1)
next
  case (begin_put path y result d st)
  then show ?case
    using put_module_begin_inv [of hash "shared y" sem path] put_module_begin_held [OF sem, of "shared y" path]
    by (auto simp: cache_inv_def length_remove1)
next
  case (finish_put d y body r st)
  then show ?case
    using put_module_finish_inv [of hash "shared y" d body]
    by (auto simp: cache_inv_def length_remove1)
qed (auto simp: cache_inv_def length_remove1)

lemma cache_inv_start: "cache_inv hash \<lparr>shared = cache_new, reviewing = [], uploading = []\<rparr>"
  by (simp add: cache_inv_def shared_inv_new) (simp add: cache_new_def cache_with_limits_def)

lemma cache_reachable_inv:
  assumes "semaphore_spec sem"
  shows "cache_reachable hash sem y \<Longrightarrow> cache_inv hash y"
  by (induction rule: cache_reachable.induct) (auto intro: cache_inv_start cache_step_inv [OF assms])

inductive_cases cache_step_respondedE: "cache_step hash sem y (Responded rq r) y'"

section \<open>Properties\<close>


text \<open>A request that was admitted for review by a fresh service, used by the witnesses.\<close>

lemma sample_reachable:
  "cache_reachable hash counting_semaphore
     \<lparr>shared = cache_new, reviewing = [PutModule path], uploading = []\<rparr>"
proof -
  have a: "authenticate_begin counting_semaphore 0 [Some (bearer_prefix @ [1])] = AuthReview [1]"
    by (simp add: authenticate_begin_def counting_semaphore_def MAX_AUTH_REQUESTS_def MAX_TOKEN_BYTES_def)
  show ?thesis
    using cache_reachable.step [OF cache_reachable.start
        cache_step.arrive [where y = "\<lparr>shared = cache_new, reviewing = [], uploading = []\<rparr>" and rq = "PutModule path"]]
      a by simp
qed




text \<open>
  The occupancy gauges of the metrics page are the true occupancies: the permits
  in use and the bytes and entries held, for every state within its limits.
\<close>

theorem cache_metrics_exact:
  assumes "semaphore_spec sem" "uploads_held st \<le> MAX_UPLOADS" "responses_held st \<le> MAX_RESPONSES"
  shows "map (snd \<circ> snd) (take 4 (cache_metric_rows sem st)) =
     [store_bytes (cstore st), length (entries (cstore st)), uploads_held st, responses_held st]"
  using assms semaphore_spec.in_use_eq [OF assms(1)]
  by (simp add: cache_metric_rows_def MAX_UPLOADS_def MAX_RESPONSES_def)

theorem cache_metrics_exact_witness:
  "map (snd \<circ> snd) (take 4 (cache_metric_rows counting_semaphore (cache_new\<lparr>uploads_held := 1\<rparr>))) = [0, 0, 1, 0]"
  using cache_metrics_exact [OF counting.semaphore_spec_axioms, of "cache_new\<lparr>uploads_held := 1\<rparr>"]
  by (simp add: cache_new_def cache_with_limits_def MAX_UPLOADS_def MAX_RESPONSES_def store_new_def)

end
