(* ===== verification/Servers.thy ===== *)
theory Servers
  imports Gateway CacheService HostIntake
begin

text \<open>
  The servers around the components. \<open>src/components/gateway/src/listener.rs\<close> and \<open>http_server.rs\<close> accept
  connections under a number of permits and own a task for each; \<open>main.rs\<close> of the module cache serves until
  it is signalled and then drains for ten seconds; the metrics handlers answer with the rendered registry;
  \<open>src/lib/platform-common/src/nats_client.rs\<close> sets the options of the NATS client. Sockets, HTTP parsing and
  the text encoder are arguments.
\<close>

section \<open>Definitions\<close>

subsection \<open>Bounded connections\<close>

text \<open>A connection is its stream and the permit it was accepted with; reading and writing go to the stream.\<close>

record 's bounded_connection =
  bc_stream :: 's
  bc_permit :: nat

definition on_stream :: "('s \<Rightarrow> 'a \<times> 's) \<Rightarrow> 's bounded_connection \<Rightarrow> 'a \<times> 's bounded_connection" where
  "on_stream f c = (case f (bc_stream c) of (r, s) \<Rightarrow> (r, c\<lparr>bc_stream := s\<rparr>))"

text \<open>The operations of a stream: what they answer, and the stream afterwards.\<close>

record ('s, 'e) stream_api =
  st_read :: "bytes \<Rightarrow> 's \<Rightarrow> ('e + bytes) option \<times> 's"
  st_write :: "bytes \<Rightarrow> 's \<Rightarrow> ('e + nat) option \<times> 's"
  st_flush :: "'s \<Rightarrow> ('e + unit) option \<times> 's"
  st_shutdown :: "'s \<Rightarrow> ('e + unit) option \<times> 's"
  st_is_vectored :: "'s \<Rightarrow> bool"
  st_write_vectored :: "bytes list \<Rightarrow> 's \<Rightarrow> ('e + nat) option \<times> 's"

definition poll_read where "poll_read api buffer = on_stream (st_read api buffer)"
definition poll_write where "poll_write api buffer = on_stream (st_write api buffer)"
definition poll_flush where "poll_flush api = on_stream (st_flush api)"
definition poll_shutdown where "poll_shutdown api = on_stream (st_shutdown api)"
definition is_write_vectored where "is_write_vectored api c = st_is_vectored api (bc_stream c)"
definition poll_write_vectored where "poll_write_vectored api buffers = on_stream (st_write_vectored api buffers)"

subsection \<open>The HTTP server\<close>

text \<open>
  \<open>serve_http\<close>: the tasks of the join set that serve their connection and hold its permit, those that have
  dropped the connection on one of the runtime's worker threads and are not yet reported, and those that are
  reported as ended, with whether they panicked. The selection is biased: it polls the join set first and
  waits for a connection only when no task is reported.
\<close>

datatype server_phase = PollJoin | PollAccept

record server =
  sv_limit :: nat
  sv_serving :: "nat list"
  sv_ending :: "(nat \<times> bool) list"
  sv_ended :: "(nat \<times> bool) list"
  sv_phase :: server_phase
  sv_warnings :: nat

definition server_new :: "nat \<Rightarrow> server" where
  "server_new limit =
     \<lparr>sv_limit = limit, sv_serving = [], sv_ending = [], sv_ended = [], sv_phase = PollJoin, sv_warnings = 0\<rparr>"

definition poll_join :: "server \<Rightarrow> server" where
  "poll_join s =
     (case sv_ended s of
        (_, panicked) # rest \<Rightarrow> s\<lparr>sv_ended := rest, sv_warnings := sv_warnings s + of_bool panicked\<rparr>
      | [] \<Rightarrow> s\<lparr>sv_phase := PollAccept\<rparr>)"

text \<open>A connection arrives: without a permit it is dropped and \<open>accept\<close> goes on.\<close>

definition poll_accept :: "semaphore_api \<Rightarrow> nat \<Rightarrow> server \<Rightarrow> bool \<times> server" where
  "poll_accept sem t s =
     (if sem_admits sem (sv_limit s) (length (sv_serving s))
      then (True, s\<lparr>sv_serving := t # sv_serving s, sv_phase := PollJoin\<rparr>) else (False, s))"

text \<open>The connection is dropped, with its permit; then the runtime reports the task.\<close>

definition connection_ends :: "nat \<Rightarrow> bool \<Rightarrow> server \<Rightarrow> server" where
  "connection_ends t panicked s =
     s\<lparr>sv_serving := remove1 t (sv_serving s), sv_ending := (t, panicked) # sv_ending s\<rparr>"

definition task_reported :: "nat \<times> bool \<Rightarrow> server \<Rightarrow> server" where
  "task_reported e s = s\<lparr>sv_ending := remove1 e (sv_ending s), sv_ended := sv_ended s @ [e]\<rparr>"

definition server_tasks :: "server \<Rightarrow> nat multiset" where
  "server_tasks s = mset (sv_serving s) + mset (map fst (sv_ending s)) + mset (map fst (sv_ended s))"

inductive server_step :: "semaphore_api \<Rightarrow> nat \<Rightarrow> server \<Rightarrow> server \<Rightarrow> bool"
  for sem :: semaphore_api and workers :: nat where
  sv_join: "sv_phase s = PollJoin \<Longrightarrow> server_step sem workers s (poll_join s)"
| sv_accept: "sv_phase s = PollAccept \<Longrightarrow> t \<notin># server_tasks s \<Longrightarrow> poll_accept sem t s = (accepted, s') \<Longrightarrow>
    server_step sem workers s s'"
| sv_woken: "sv_phase s = PollAccept \<Longrightarrow> server_step sem workers s (s\<lparr>sv_phase := PollJoin\<rparr>)"
| sv_connection: "t \<in> set (sv_serving s) \<Longrightarrow> length (sv_ending s) < workers \<Longrightarrow>
    server_step sem workers s (connection_ends t panicked s)"
| sv_reported: "e \<in> set (sv_ending s) \<Longrightarrow> server_step sem workers s (task_reported e s)"

definition METRICS_CONNECTIONS :: nat where "METRICS_CONNECTIONS = 8"

text \<open>The settings of a connection: its header timeout and the bounds of its parser.\<close>

record http1_settings =
  h1_header_read_timeout :: nat
  h1_max_buf_size :: nat
  h1_max_headers :: nat

definition http1_builder :: "nat \<Rightarrow> http1_settings" where
  "http1_builder header_timeout = \<lparr>h1_header_read_timeout = header_timeout, h1_max_buf_size = 32 * 1024, h1_max_headers = 128\<rparr>"

subsection \<open>Metrics endpoints\<close>

definition metrics_render :: "('f \<Rightarrow> bytes anyhow) \<Rightarrow> 'f \<Rightarrow> string anyhow" where
  "metrics_render encode families =
     (case encode families of
        Inl e \<Rightarrow> Inl e
      | Inr buffer \<Rightarrow> if utf8_split buffer = None then Inl ''invalid utf-8 sequence'' else Inr (byte_chars buffer))"

definition host_metrics_handler :: "string anyhow \<Rightarrow> status \<times> string option \<times> string" where
  "host_metrics_handler rendered =
     (case rendered of
        Inr body \<Rightarrow> (st_OK, Some ''text/plain; version=0.0.4; charset=utf-8'', body)
      | Inl _ \<Rightarrow> (st_INTERNAL_SERVER_ERROR, None, []))"

definition gateway_metrics_handler :: "string anyhow \<Rightarrow> status \<times> string option \<times> string" where
  "gateway_metrics_handler rendered =
     (case rendered of
        Inr body \<Rightarrow> (st_OK, Some ''text/plain; version=0.0.4'', body)
      | Inl _ \<Rightarrow> (st_INTERNAL_SERVER_ERROR, None, []))"

subsection \<open>The process of the module cache\<close>

text \<open>\<open>shutdown_signal\<close>: the handler for the termination signal can be installed or not; then either signal ends the wait.\<close>

datatype signal = CtrlC "unit anyhow" | Terminate

definition shutdown_signal :: "unit anyhow \<Rightarrow> signal \<Rightarrow> unit anyhow" where
  "shutdown_signal installed received =
     (case installed of
        Inl e \<Rightarrow> Inl e
      | Inr _ \<Rightarrow> (case received of CtrlC result \<Rightarrow> result | Terminate \<Rightarrow> Inr ()))"

datatype cache_wait = ServerEnded "unit anyhow" | Signalled "unit anyhow"

definition DRAIN_SECS :: nat where "DRAIN_SECS = 10"

text \<open>
  \<open>main\<close> of the module cache after its start: the result of the process and the shared state. \<open>drained\<close> is what
  the server answers within the ten seconds of the drain.
\<close>

definition cache_main :: "cache_wait \<Rightarrow> unit anyhow timed \<Rightarrow> cache_state \<Rightarrow> unit anyhow \<times> cache_state" where
  "cache_main waited drained st =
     (case waited of
        ServerEnded result \<Rightarrow> (result, st)
      | Signalled (Inl e) \<Rightarrow> (Inl e, st)
      | Signalled (Inr _) \<Rightarrow>
          (let st = st\<lparr>ready := False\<rparr>
           in (case drained of Done result \<Rightarrow> (result, st) | Elapsed \<Rightarrow> (Inr (), st))))"

subsection \<open>Options of the NATS client\<close>

record nats_options =
  no_user :: string
  no_password :: string
  no_client_capacity :: "nat option"
  no_subscription_capacity :: "nat option"

definition connect_options :: "nat option \<Rightarrow> nats_connection_info \<Rightarrow> nats_options" where
  "connect_options message_capacity info =
     (let opts = \<lparr>no_user = nc_username info, no_password = nc_password info, no_client_capacity = None,
            no_subscription_capacity = None\<rparr>
      in case message_capacity of
           Some capacity \<Rightarrow> opts\<lparr>no_client_capacity := Some capacity, no_subscription_capacity := Some capacity\<rparr>
         | None \<Rightarrow> opts)"

datatype nats_event = AuthorizationViolation | Disconnected | Connected | OtherEvent

text \<open>The event callback: a violation is reported once, through a channel of one place.\<close>

definition event_callback :: "nats_event \<Rightarrow> bool \<Rightarrow> bool" where
  "event_callback event pending = (if event = AuthorizationViolation then True else pending)"

text \<open>\<open>NatsBroker::new\<close>: the manager of the gateway is bounded by the requests in flight, that of the host is not.\<close>

definition broker_options :: "request_limits \<Rightarrow> nats_connection_info \<Rightarrow> nats_options" where
  "broker_options limits info = connect_options (Some (lim_in_flight limits)) info"

definition host_nats_options :: "nats_connection_info \<Rightarrow> nats_options" where
  "host_nats_options info = connect_options None info"

section \<open>Connections\<close>

lemma connection_keeps_permit:
  "bc_permit (snd (poll_read api buffer c)) = bc_permit c" "bc_permit (snd (poll_write api buffer c)) = bc_permit c"
  "bc_permit (snd (poll_flush api c)) = bc_permit c" "bc_permit (snd (poll_shutdown api c)) = bc_permit c"
  "bc_permit (snd (poll_write_vectored api buffers c)) = bc_permit c"
  by (simp_all add: poll_read_def poll_write_def poll_flush_def poll_shutdown_def poll_write_vectored_def on_stream_def
      split: prod.split)

text \<open>
  While the selection waits for a connection, the join set had no reported task when it was polled last: it
  holds one task for each permit and one for each worker thread at most, and one more once a connection is
  accepted.
\<close>

definition server_inv :: "nat \<Rightarrow> nat \<Rightarrow> server \<Rightarrow> bool" where
  "server_inv limit workers s \<longleftrightarrow> sv_limit s = limit \<and> length (sv_serving s) \<le> limit \<and> length (sv_ending s) \<le> workers
     \<and> (\<forall>t. count (server_tasks s) t \<le> 1)
     \<and> size (server_tasks s) \<le> limit + workers + (case sv_phase s of PollJoin \<Rightarrow> 1 | PollAccept \<Rightarrow> 0)"

lemma server_tasks_ends: "t \<in> set (sv_serving s) \<Longrightarrow> server_tasks (connection_ends t panicked s) = server_tasks s"
  by (simp add: server_tasks_def connection_ends_def)

lemma server_tasks_reported: "e \<in> set (sv_ending s) \<Longrightarrow> server_tasks (task_reported e s) = server_tasks s"
  by (simp add: server_tasks_def task_reported_def mset_map image_mset_Diff)

lemma server_tasks_join: "server_tasks (poll_join s) \<subseteq># server_tasks s"
  by (auto simp: server_tasks_def poll_join_def split: list.split)

lemma server_size: "size (server_tasks s) = length (sv_serving s) + length (sv_ending s) + length (sv_ended s)"
  by (simp add: server_tasks_def)

lemma server_inv_join:
  assumes "server_inv limit workers s" "sv_phase s = PollJoin"
  shows "server_inv limit workers (poll_join s)"
proof -
  have "count (server_tasks (poll_join s)) t \<le> count (server_tasks s) t" for t
    using server_tasks_join by (simp add: subseteq_mset_def)
  moreover have "count (server_tasks s) t \<le> 1" for t using assms(1) by (simp add: server_inv_def)
  ultimately have "count (server_tasks (poll_join s)) t \<le> 1" for t using le_trans by blast
  then show ?thesis
    using assms by (auto simp: server_inv_def server_size poll_join_def split: list.split)
qed

context semaphore_spec
begin

lemma server_inv_step:
  assumes "server_inv limit workers s" "server_step sem workers s s'"
  shows "server_inv limit workers s'"
  using assms(2)
proof cases
  case sv_join
  then show ?thesis using assms(1) server_inv_join by blast
next
  case (sv_accept t accepted)
  show ?thesis
  proof (cases accepted)
    case True
    then have "sem_admits sem (sv_limit s) (length (sv_serving s))"
      and s': "s' = s\<lparr>sv_serving := t # sv_serving s, sv_phase := PollJoin\<rparr>"
      using sv_accept(3) by (auto simp: poll_accept_def split: if_splits)
    moreover have "server_tasks s' = add_mset t (server_tasks s)" unfolding s' by (simp add: server_tasks_def)
    ultimately show ?thesis
      using assms(1) sv_accept(1,2) by (simp add: server_inv_def sem_admits_iff not_in_iff)
  next
    case False
    then show ?thesis using sv_accept(3) assms(1) by (simp add: poll_accept_def split: if_splits)
  qed
next
  case sv_woken
  then show ?thesis using assms(1) by (simp add: server_inv_def server_tasks_def)
next
  case (sv_connection t panicked)
  then show ?thesis
    using assms(1) by (simp add: server_inv_def server_tasks_ends) (auto simp: connection_ends_def length_remove1)
next
  case (sv_reported e)
  then show ?thesis
    using assms(1) by (simp add: server_inv_def server_tasks_reported) (auto simp: task_reported_def length_remove1)
qed

sublocale http_server: invariant_system "\<lambda>s. s = server_new limit" "server_step sem workers" "server_inv limit workers"
  by unfold_locales (simp add: server_inv_def server_new_def server_tasks_def, rule server_inv_step)

lemmas server_reached_inv = http_server.inv_reaches

end

lemma server_full:
  assumes "semaphore_spec sem" "sv_limit s \<le> length (sv_serving s)"
  shows "poll_accept sem t s = (False, s)"
  using assms(2) semaphore_spec.sem_admits_iff [OF assms(1)] by (simp add: poll_accept_def)

text \<open>The public server of the gateway is the connection counter of \<open>Gateway\<close>: each of its steps is one of \<open>gw_step\<close> or none.\<close>

definition server_of_gateway :: "server \<Rightarrow> gateway \<Rightarrow> bool" where
  "server_of_gateway s g \<longleftrightarrow> sv_limit s = lim_connections (gw_limits g) \<and> length (sv_serving s) = gw_connections g"

lemma server_refines_gateway:
  assumes step: "server_step sem workers s s'" and sg: "server_of_gateway s g"
  shows "\<exists>g'. (g' = g \<or> gw_step api sem g g') \<and> server_of_gateway s' g'"
  using step
proof cases
  case (sv_accept t accepted)
  then have "gw_step api sem g (snd (accept_connection sem g)) \<and> server_of_gateway s' (snd (accept_connection sem g))"
    using sg gw_accept [of sem g "fst (accept_connection sem g)" "snd (accept_connection sem g)" api]
    by (auto simp: server_of_gateway_def poll_accept_def accept_connection_def split: if_splits)
  then show ?thesis by blast
next
  case (sv_connection t panicked)
  then have "0 < gw_connections g"
    using sg length_pos_if_in_set [of t "sv_serving s"] by (simp add: server_of_gateway_def)
  then have "gw_step api sem g (g\<lparr>gw_connections := gw_connections g - 1\<rparr>)" by (rule gw_hangup)
  moreover have "server_of_gateway s' (g\<lparr>gw_connections := gw_connections g - 1\<rparr>)"
    using sv_connection sg by (simp add: server_of_gateway_def connection_ends_def length_remove1)
  ultimately show ?thesis by blast
qed (use sg in \<open>auto simp: server_of_gateway_def poll_join_def task_reported_def split: list.split\<close>)

text \<open>
  C23 (bounds). A server that accepts connections under a number of permits owns a bounded set of tasks,
  whatever connections arrive, end or panic: no more connections are open than there are permits, no task is
  owned twice, and the join set holds at most one task for each permit, one for each worker thread and one
  for the connection accepted last; a connection beyond the permits changes nothing.
\<close>

theorem server_tasks_bounded:
  assumes "semaphore_spec sem" "reaches (\<lambda>s. s = server_new limit) (server_step sem workers) s"
  shows "length (sv_serving s) \<le> limit \<and> (\<forall>t. count (server_tasks s) t \<le> 1)
    \<and> size (server_tasks s) \<le> limit + workers + 1
    \<and> (length (sv_serving s) = limit \<longrightarrow> (\<forall>t. poll_accept sem t s = (False, s)))"
  using semaphore_spec.server_reached_inv [OF assms] server_full [OF assms(1), of s]
  by (auto simp: server_inv_def split: server_phase.splits)

lemma sample_server:
  "reaches (\<lambda>s. s = server_new 1) (server_step counting_semaphore 2)
     ((server_new 1)\<lparr>sv_serving := [7]\<rparr>)"
proof -
  let ?step = "server_step counting_semaphore 2"
  have "reaches (\<lambda>s. s = server_new 1) ?step (server_new 1)" by (simp add: reaches.reaches_init)
  then have "reaches (\<lambda>s. s = server_new 1) ?step (poll_join (server_new 1))"
    by (rule reaches.reaches_step) (simp add: sv_join server_new_def)
  then show ?thesis
    by (rule reaches.reaches_step)
      (rule sv_accept [of _ 7 _ True], simp_all add: server_new_def poll_join_def server_tasks_def poll_accept_def counting_semaphore_def)
qed

theorem server_tasks_bounded_witness:
  "poll_accept counting_semaphore 9 ((server_new 1)\<lparr>sv_serving := [7]\<rparr>) = (False, (server_new 1)\<lparr>sv_serving := [7]\<rparr>)"
  using server_tasks_bounded [OF counting.semaphore_spec_axioms sample_server] by (simp add: server_new_def)

section \<open>The drain of the module cache\<close>

definition cache_progress :: "(bytes \<Rightarrow> string) \<Rightarrow> semaphore_api \<Rightarrow> cache_sys \<Rightarrow> cache_sys \<Rightarrow> bool" where
  "cache_progress hash sem y y' \<longleftrightarrow> (\<exists>e. cache_step hash sem y e y')"

lemma drained_get: "\<not> ready st \<Longrightarrow> get_module sem path st = cache_reject st_SERVICE_UNAVAILABLE st"
  by (simp add: get_module_def)

lemma drained_put: "\<not> ready st \<Longrightarrow> put_module_begin sem path st = apfst Inl (cache_reject st_SERVICE_UNAVAILABLE st)"
  by (simp add: put_module_begin_def)

lemma put_finish_ready:
  "ready (snd (put_module_finish hash d body st)) = ready st"
  "responses_held (snd (put_module_finish hash d body st)) = responses_held st"
  by (simp_all add: put_module_finish_def cache_reject_def Let_def split: timed.split sum.split prod.split)

text \<open>A draining cache opens no upload; the uploads it has can only end.\<close>

lemma cache_drained_step:
  assumes "cache_step hash sem y e y'" "\<not> ready (shared y)"
  shows "\<not> ready (shared y')" "length (uploading y') \<le> length (uploading y)"
    "responses_held (shared y') \<le> responses_held (shared y)" "\<And>rq r. e = Responded rq r \<Longrightarrow> \<exists>code. r = Status code"
proof -
  have finish: "put_module_finish hash d body st = (r, st') \<Longrightarrow> ready st' = ready st \<and> responses_held st' = responses_held st"
    for d body st r st'
    using put_finish_ready [of hash d body st] by simp
  show "\<not> ready (shared y')" "length (uploading y') \<le> length (uploading y)"
    "responses_held (shared y') \<le> responses_held (shared y)" "\<And>rq r. e = Responded rq r \<Longrightarrow> \<exists>code. r = Status code"
    using assms
    by (induction rule: cache_step.induct)
      (auto simp: drained_get drained_put cache_reject_def length_remove1 dest!: finish)
qed

lemma cache_drained_steps:
  assumes "(cache_progress hash sem)\<^sup>*\<^sup>* y y'" "\<not> ready (shared y)"
  shows "\<not> ready (shared y') \<and> length (uploading y') \<le> length (uploading y)
    \<and> responses_held (shared y') \<le> responses_held (shared y)"
  using assms
  by (induction rule: rtranclp_induct) (fastforce simp: cache_progress_def dest: cache_drained_step(1,2,3))+

text \<open>
  Once \<open>main\<close> of the module cache was signalled, every request is answered by a status alone however the
  requests in progress interleave, no upload and no response body is added, and a drain that runs out of time
  ends the process without an error.
\<close>

lemma cache_main_drains:
  assumes "cache_main (Signalled (Inr ())) drained st = (result, shared y)"
    and "(cache_progress hash sem)\<^sup>*\<^sup>* y y'" "cache_step hash sem y' e y''"
  shows "cache_readyz (shared y'') = st_SERVICE_UNAVAILABLE \<and> (\<forall>rq r. e = Responded rq r \<longrightarrow> (\<exists>code. r = Status code))
    \<and> length (uploading y'') \<le> length (uploading y) \<and> responses_held (shared y'') \<le> responses_held (shared y)
    \<and> (drained = Elapsed \<longrightarrow> result = Inr ())"
proof -
  have "shared y = st\<lparr>ready := False\<rparr>" "drained = Elapsed \<longrightarrow> result = Inr ()"
    using assms(1) by (auto simp: cache_main_def Let_def split: timed.splits)
  then show ?thesis
    using cache_drained_steps [OF assms(2)] cache_drained_step [OF assms(3)] le_trans by (simp add: cache_readyz_def)
qed

section \<open>Queues of the NATS client\<close>

text \<open>The broker of the gateway bounds both queues of its client by the requests in flight; the credentials are those given.\<close>

lemma broker_queues_bounded:
  "no_client_capacity (broker_options limits info) = Some (lim_in_flight limits)"
  "no_subscription_capacity (broker_options limits info) = Some (lim_in_flight limits)"
  "no_user (connect_options capacity info) = nc_username info" "no_password (connect_options capacity info) = nc_password info"
  by (simp_all add: broker_options_def connect_options_def Let_def split: option.split)

text \<open>However many violations arrive before the manager looks, one is pending; other events leave none.\<close>

lemma violations_pending:
  "fold event_callback events pending \<longleftrightarrow> pending \<or> AuthorizationViolation \<in> set events"
  by (induction events arbitrary: pending) (auto simp: event_callback_def)

section \<open>Metrics endpoints\<close>

lemma metrics_endpoints:
  "fst (host_metrics_handler rendered) = (if isl rendered then st_INTERNAL_SERVER_ERROR else st_OK)"
  "fst (gateway_metrics_handler rendered) = fst (host_metrics_handler rendered)"
  "snd (snd (gateway_metrics_handler rendered)) = snd (snd (host_metrics_handler rendered))"
  by (simp_all add: host_metrics_handler_def gateway_metrics_handler_def split: sum.split)

end
