(* ===== verification/Oci.thy ===== *)
theory Oci
  imports Artifacts Identity
begin

text \<open>
  \<open>src/components/execution-host/src/oci.rs\<close> and \<open>module_cache.rs\<close>: where the host gets module bytes
  from. The URL parser, the reference grammar of the OCI package, the JSON decoder and the HTTP
  transport are arguments; the transport is a function from the requested URL to the response, so
  that a statement can say which URLs a result depends on. Strings are their UTF-8 bytes.
\<close>

section \<open>Definitions\<close>

subsection \<open>IP addresses of the standard library\<close>

text \<open>
  \<open>str::parse::<IpAddr>\<close>: a reader consumes a prefix of the input and returns the rest. A number
  reads every digit there is and fails when there are more than the maximum.
\<close>

definition hex_value :: "char \<Rightarrow> nat option" where
  "hex_value c =
     (let n = of_char c :: nat in
      if 48 \<le> n \<and> n \<le> 57 then Some (n - 48)
      else if 97 \<le> n \<and> n \<le> 102 then Some (n - 87)
      else if 65 \<le> n \<and> n \<le> 70 then Some (n - 55)
      else None)"

definition to_digit :: "nat \<Rightarrow> char \<Rightarrow> nat option" where
  "to_digit radix c = (case hex_value c of Some d \<Rightarrow> if d < radix then Some d else None | None \<Rightarrow> None)"

fun read_digits :: "nat \<Rightarrow> nat \<Rightarrow> nat \<Rightarrow> string \<Rightarrow> nat \<times> nat \<times> string" where
  "read_digits radix n v [] = (n, v, [])"
| "read_digits radix n v (c # s) =
     (case to_digit radix c of
        Some d \<Rightarrow> read_digits radix (Suc n) (v * radix + d) s
      | None \<Rightarrow> (n, v, c # s))"

definition read_number :: "nat \<Rightarrow> nat \<Rightarrow> bool \<Rightarrow> nat \<Rightarrow> string \<Rightarrow> (nat \<times> string) option" where
  "read_number radix max_digits allow_zero_prefix bound s =
     (case read_digits radix 0 0 s of
        (n, v, rest) \<Rightarrow>
          if n = 0 \<or> n > max_digits \<or> v \<ge> bound
            \<or> (\<not> allow_zero_prefix \<and> take 1 s = ''0'' \<and> n > 1)
          then None else Some (v, rest))"

definition read_separator :: "char \<Rightarrow> nat \<Rightarrow> string \<Rightarrow> string option" where
  "read_separator sep i s = (if i = 0 then Some s else strip_prefix [sep] s)"

fun read_octets :: "nat \<Rightarrow> nat \<Rightarrow> string \<Rightarrow> (nat list \<times> string) option" where
  "read_octets 0 i s = Some ([], s)"
| "read_octets (Suc k) i s =
     (case read_separator (CHR ''.'') i s of
        None \<Rightarrow> None
      | Some s1 \<Rightarrow>
          (case read_number 10 3 False 256 s1 of
             None \<Rightarrow> None
           | Some (v, s2) \<Rightarrow> map_option (\<lambda>(vs, r). (v # vs, r)) (read_octets k (Suc i) s2)))"

definition read_ipv4 :: "string \<Rightarrow> (nat list \<times> string) option" where
  "read_ipv4 s = read_octets 4 0 s"

text \<open>
  \<open>read_groups\<close>: at most \<open>k\<close> groups of an IPv6 address from position \<open>i\<close>; a dotted quad may stand for
  the last two. The result is the groups, whether a quad ended them, and the rest.
\<close>

fun read_groups :: "nat \<Rightarrow> nat \<Rightarrow> string \<Rightarrow> nat list \<times> bool \<times> string" where
  "read_groups 0 i s = ([], False, s)"
| "read_groups (Suc k) i s =
     (case (if k > 0 then Option.bind (read_separator (CHR '':'') i s) read_ipv4 else None) of
        Some (q, r) \<Rightarrow> ([q ! 0 * 256 + q ! 1, q ! 2 * 256 + q ! 3], True, r)
      | None \<Rightarrow>
          (case Option.bind (read_separator (CHR '':'') i s) (read_number 16 4 True 65536) of
             None \<Rightarrow> ([], False, s)
           | Some (v, s2) \<Rightarrow> (case read_groups k (Suc i) s2 of (vs, q, r) \<Rightarrow> (v # vs, q, r))))"

definition read_ipv6 :: "string \<Rightarrow> (nat list \<times> string) option" where
  "read_ipv6 s =
     (case read_groups 8 0 s of
        (head, quad, r) \<Rightarrow>
          if length head = 8 then Some (head, r)
          else if quad then None
          else
            (case strip_prefix ''::'' r of
               None \<Rightarrow> None
             | Some r1 \<Rightarrow>
                 (case read_groups (8 - (length head + 1)) 0 r1 of
                    (tail, _, r2) \<Rightarrow> Some (head @ replicate (8 - length head - length tail) 0 @ tail, r2))))"

definition ip_loopback :: "string \<Rightarrow> bool" where
  "ip_loopback s =
     (case read_ipv4 s of
        Some (q, r) \<Rightarrow> r = [] \<and> q ! 0 = 127
      | None \<Rightarrow>
          (case read_ipv6 s of
             Some (g, r) \<Rightarrow> r = [] \<and> g = replicate 7 0 @ [1]
           | None \<Rightarrow> False))"

subsection \<open>Registries\<close>

definition ends_with :: "string \<Rightarrow> string \<Rightarrow> bool" where
  "ends_with suffix s \<longleftrightarrow> strip_prefix (rev suffix) (rev s) \<noteq> None"

definition strip_suffix :: "string \<Rightarrow> string \<Rightarrow> string option" where
  "strip_suffix suffix s = map_option rev (strip_prefix (rev suffix) (rev s))"

definition trim_brackets :: "string \<Rightarrow> string" where
  "trim_brackets s =
     (let bracket = (\<lambda>c. c \<in> {CHR 0x5B, CHR 0x5D})
      in rev (dropWhile bracket (rev (dropWhile bracket s))))"

fun split_on :: "char \<Rightarrow> string \<Rightarrow> string list" where
  "split_on c [] = [[]]"
| "split_on c (x # s) =
     (if x = c then [] # split_on c s
      else (case split_on c s of [] \<Rightarrow> [[x]] | p # ps \<Rightarrow> (x # p) # ps))"

definition registry_url :: "(string \<Rightarrow> url option) \<Rightarrow> string \<Rightarrow> url anyhow" where
  "registry_url parse_url registry =
     (case parse_url (''https://'' @ registry) of
        None \<Rightarrow> Inl ''invalid registry origin''
      | Some u \<Rightarrow>
          if host u \<noteq> None \<and> url_username u = [] \<and> url_password u = None \<and> url_path u = ''/''
            \<and> query u = None \<and> fragment u = None \<and> \<not> ends_with ''/'' registry
            \<and> (registry = authority u \<or> strip_suffix '':443'' registry = Some (authority u))
          then Inr u else Inl ''invalid registry origin'')"

fun registry_urls :: "(string \<Rightarrow> url option) \<Rightarrow> string list \<Rightarrow> string list anyhow" where
  "registry_urls parse_url [] = Inr []"
| "registry_urls parse_url (origin # os) =
     (case registry_url parse_url origin of
        Inl e \<Rightarrow> Inl e
      | Inr _ \<Rightarrow> map_sum id (Cons origin) (registry_urls parse_url os))"

definition registry_list :: "(string \<Rightarrow> url option) \<Rightarrow> string \<Rightarrow> string list anyhow" where
  "registry_list parse_url v = (if v = [] then Inr [] else registry_urls parse_url (split_on (CHR '','') v))"

record oci_source =
  approved :: "string list"
  plaintext :: "string list"

definition local_origin :: "url \<Rightarrow> bool" where
  "local_origin u \<longleftrightarrow>
     (let h = trim_brackets (case host u of Some h \<Rightarrow> h | None \<Rightarrow> [])
      in h = ''localhost'' \<or> ends_with ''.localhost'' h \<or> ip_loopback h)"

fun check_plaintext :: "(string \<Rightarrow> url option) \<Rightarrow> string list \<Rightarrow> string list \<Rightarrow> unit anyhow" where
  "check_plaintext parse_url known [] = Inr ()"
| "check_plaintext parse_url known (registry # rs) =
     (if registry \<notin> set known then Inl ''plaintext registry must be approved''
      else
        (case registry_url parse_url registry of
           Inl e \<Rightarrow> Inl e
         | Inr u \<Rightarrow>
             if local_origin u then check_plaintext parse_url known rs
             else Inl ''plaintext registry must be a local development origin''))"

definition oci_source_new ::
  "(string \<Rightarrow> url option) \<Rightarrow> bool \<Rightarrow> string \<Rightarrow> string \<Rightarrow> oci_source anyhow" where
  "oci_source_new parse_url client_builds approved_list plaintext_list =
     (case registry_list parse_url approved_list of
        Inl e \<Rightarrow> Inl e
      | Inr as \<Rightarrow>
          if as = [] then Inl ''approved registry list must not be empty''
          else
            (case registry_list parse_url plaintext_list of
               Inl e \<Rightarrow> Inl e
             | Inr ps \<Rightarrow>
                 (case check_plaintext parse_url as ps of
                    Inl e \<Rightarrow> Inl e
                  | Inr _ \<Rightarrow>
                      if client_builds then Inr \<lparr>approved = as, plaintext = ps\<rparr>
                      else Inl ''OCI client configuration failed'')))"

text \<open>\<open>from_env\<close>: the two environment variables, \<open>None\<close> when unset.\<close>

definition oci_source_from_env ::
  "(string \<Rightarrow> url option) \<Rightarrow> bool \<Rightarrow> string option \<Rightarrow> string option \<Rightarrow> oci_source anyhow" where
  "oci_source_from_env parse_url client_builds approved_var plaintext_var =
     (case approved_var of
        None \<Rightarrow> Inl ''APPROVED_REGISTRIES is required''
      | Some a \<Rightarrow> oci_source_new parse_url client_builds a (case plaintext_var of Some p \<Rightarrow> p | None \<Rightarrow> []))"

subsection \<open>References and endpoints\<close>

record oci_reference =
  ref_registry :: string
  ref_repository :: string
  ref_digest :: "string option"

text \<open>
  \<open>parse\<close>. \<open>parse_repository\<close> is the reference grammar of the OCI package: the repository of a
  well-formed reference.
\<close>

definition oci_parse ::
  "(string \<Rightarrow> url option) \<Rightarrow> (string \<Rightarrow> string option) \<Rightarrow> oci_source \<Rightarrow> string \<Rightarrow> oci_reference anyhow" where
  "oci_parse parse_url parse_repository src image_ref =
     (let bare = (case strip_prefix ''oci://'' image_ref of Some b \<Rightarrow> b | None \<Rightarrow> image_ref)
      in if length bare > 2048 then Inl ''invalid OCI reference''
         else
           (case split_once (CHR ''/'') bare of
              None \<Rightarrow> Inl ''invalid OCI reference''
            | Some (registry, path) \<Rightarrow>
                (case registry_url parse_url registry of
                   Inl e \<Rightarrow> Inl e
                 | Inr _ \<Rightarrow>
                     if registry \<notin> set (approved src) then Inl ''OCI registry is not approved''
                     else
                       (case split_once (CHR 0x40) path of
                          None \<Rightarrow> Inl ''immutable OCI reference required''
                        | Some (repository, digest) \<Rightarrow>
                            (case digest_parse digest of
                               Inl e \<Rightarrow> Inl e
                             | Inr _ \<Rightarrow>
                                 (case parse_repository (''registry.example/'' @ repository @ [CHR 0x40] @ digest) of
                                    None \<Rightarrow> Inl ''invalid OCI reference''
                                  | Some r \<Rightarrow>
                                      Inr \<lparr>ref_registry = registry, ref_repository = r, ref_digest = Some digest\<rparr>))))))"

definition endpoint :: "oci_source \<Rightarrow> oci_reference \<Rightarrow> string \<Rightarrow> string \<Rightarrow> string" where
  "endpoint src reference kind ident =
     (if ref_registry reference \<in> set (plaintext src) then ''http'' else ''https'') @ ''://'' @
       ref_registry reference @ ''/v2/'' @ ref_repository reference @ ''/'' @ kind @ ''/'' @ ident"

subsection \<open>Responses\<close>

datatype body_event = Chunk bytes | ChunkTimeout | ChunkFailed

text \<open>A header value is absent, not visible ASCII (\<open>Some None\<close>), or a string.\<close>

record oci_response =
  resp_status :: status
  resp_digest :: "string option option"
  resp_length :: "nat option"
  resp_body :: "body_event list"

definition verify_digest_header :: "oci_response \<Rightarrow> digest \<Rightarrow> unit anyhow" where
  "verify_digest_header r expected =
     (case resp_digest r of
        None \<Rightarrow> Inr ()
      | Some None \<Rightarrow> Inl ''invalid OCI digest header''
      | Some (Some v) \<Rightarrow> if v = digest_as_str expected then Inr () else Inl ''OCI digest header mismatch'')"

fun read_chunks :: "nat \<Rightarrow> bytes \<Rightarrow> body_event list \<Rightarrow> bytes anyhow" where
  "read_chunks limit acc [] = Inr acc"
| "read_chunks limit acc (ChunkTimeout # es) = Inl ''artifact response timeout''"
| "read_chunks limit acc (ChunkFailed # es) = Inl ''artifact response read failed''"
| "read_chunks limit acc (Chunk c # es) =
     (if length c \<le> limit - length acc then read_chunks limit (acc @ c) es
      else Inl ''artifact response exceeds size limit'')"

definition read_response :: "oci_response \<Rightarrow> nat \<Rightarrow> bytes anyhow" where
  "read_response r limit =
     (if (case resp_length r of None \<Rightarrow> True | Some n \<Rightarrow> n \<le> limit) then read_chunks limit [] (resp_body r)
      else Inl ''artifact response exceeds size limit'')"

subsection \<open>Manifests and layers\<close>

record oci_layer =
  layer_media_type :: string
  layer_digest :: string
  layer_size :: int
  layer_urls :: "string list option"

record oci_image_manifest =
  schema_version :: nat
  media_type :: "string option"
  layers :: "oci_layer list"
  artifact_type :: "string option"

record wasm_artifact =
  art_reference :: string
  art_digest :: digest
  art_size :: nat

definition layer_type_ok :: "oci_image_manifest \<Rightarrow> oci_layer \<Rightarrow> bool" where
  "layer_type_ok man layer \<longleftrightarrow>
     layer_media_type layer \<in> {''application/octet-stream'', ''application/wasm'', ''application/vnd.wasm.content.layer.v1+wasm''}
     \<or> layer_media_type layer = ''application/vnd.oci.image.layer.v1.tar''
       \<and> artifact_type man = Some ''application/vnd.wasm.content.layer.v1+wasm''"

text \<open>The checks of a decoded manifest, up to the artifact it describes.\<close>

definition manifest_artifact :: "string \<Rightarrow> oci_image_manifest \<Rightarrow> wasm_artifact anyhow" where
  "manifest_artifact image_ref man =
     (if schema_version man \<noteq> 2 then Inl ''unsupported OCI schema''
      else if media_type man \<notin> {Some ''application/vnd.oci.image.manifest.v1+json'',
          Some ''application/vnd.docker.distribution.manifest.v2+json''}
      then Inl ''unsupported OCI manifest type''
      else
        (case layers man of
           [layer] \<Rightarrow>
             if \<not> layer_type_ok man layer then Inl ''unsupported Wasm layer type''
             else if (case layer_urls layer of None \<Rightarrow> False | Some urls \<Rightarrow> urls \<noteq> [])
             then Inl ''external OCI layer URLs are unsupported''
             else if layer_size layer < 0 then Inl ''invalid Wasm layer size''
             else if nat (layer_size layer) < 8 \<or> MAX_WASM_BYTES < nat (layer_size layer)
             then Inl ''Wasm layer exceeds size bounds''
             else
               (case digest_parse (layer_digest layer) of
                  Inl e \<Rightarrow> Inl e
                | Inr d \<Rightarrow> Inr \<lparr>art_reference = image_ref, art_digest = d, art_size = nat (layer_size layer)\<rparr>)
         | _ \<Rightarrow> Inl ''Wasm artifact requires exactly one layer''))"

record oci_env =
  env_url :: "string \<Rightarrow> url option"
  env_repository :: "string \<Rightarrow> string option"
  env_manifest :: "bytes \<Rightarrow> oci_image_manifest option"
  env_hash :: "bytes \<Rightarrow> string"

text \<open>The response of a request that must be answered with status 200 and a matching digest header.\<close>

definition fetch ::
  "string \<Rightarrow> string \<Rightarrow> (string \<Rightarrow> oci_response option) \<Rightarrow> string \<Rightarrow> digest \<Rightarrow> nat \<Rightarrow> bytes anyhow" where
  "fetch failed rejected http_get u d limit =
     (case http_get u of
        None \<Rightarrow> Inl failed
      | Some r \<Rightarrow>
          if resp_status r \<noteq> st_OK then Inl rejected
          else
            (case verify_digest_header r d of
               Inl e \<Rightarrow> Inl e
             | Inr _ \<Rightarrow> read_response r limit))"

definition manifest ::
  "oci_env \<Rightarrow> (string \<Rightarrow> oci_response option) \<Rightarrow> oci_source \<Rightarrow> string \<Rightarrow> wasm_artifact anyhow" where
  "manifest env http_get src image_ref =
     (case oci_parse (env_url env) (env_repository env) src image_ref of
        Inl e \<Rightarrow> Inl e
      | Inr reference \<Rightarrow>
          (case ref_digest reference of
             None \<Rightarrow> Inl ''immutable OCI reference required''
           | Some s \<Rightarrow>
               (case digest_parse s of
                  Inl e \<Rightarrow> Inl e
                | Inr d \<Rightarrow>
                    (case fetch ''OCI manifest request failed'' ''OCI manifest request rejected'' http_get
                        (endpoint src reference ''manifests'' (digest_as_str d)) d MAX_MANIFEST_BYTES of
                       Inl e \<Rightarrow> Inl e
                     | Inr b \<Rightarrow>
                         (case digest_verify (env_hash env) d b of
                            Inl e \<Rightarrow> Inl e
                          | Inr _ \<Rightarrow>
                              (case env_manifest env b of
                                 None \<Rightarrow> Inl ''invalid OCI manifest''
                               | Some man \<Rightarrow> manifest_artifact image_ref man))))))"

definition pull ::
  "oci_env \<Rightarrow> (string \<Rightarrow> oci_response option) \<Rightarrow> oci_source \<Rightarrow> wasm_artifact \<Rightarrow> bytes anyhow" where
  "pull env http_get src artifact =
     (case oci_parse (env_url env) (env_repository env) src (art_reference artifact) of
        Inl e \<Rightarrow> Inl e
      | Inr reference \<Rightarrow>
          (case fetch ''OCI blob request failed'' ''OCI blob request rejected'' http_get
              (endpoint src reference ''blobs'' (digest_as_str (art_digest artifact))) (art_digest artifact) (art_size artifact) of
             Inl e \<Rightarrow> Inl e
           | Inr b \<Rightarrow>
               if length b \<noteq> art_size artifact then Inl ''OCI layer size mismatch''
               else
                 (case verify_wasm (env_hash env) (art_digest artifact) b of Inl e \<Rightarrow> Inl e | Inr _ \<Rightarrow> Inr b)))"

subsection \<open>The module cache client\<close>

definition cache_base_url :: "(string \<Rightarrow> url option) \<Rightarrow> bool \<Rightarrow> string \<Rightarrow> url anyhow" where
  "cache_base_url parse_url client_builds base =
     (case parse_url base of
        None \<Rightarrow> Inl ''invalid module-cache URL configuration''
      | Some u \<Rightarrow>
          if scheme u \<notin> {''http'', ''https''} \<or> host u = None \<or> url_username u \<noteq> [] \<or> url_password u \<noteq> None
            \<or> query u \<noteq> None \<or> fragment u \<noteq> None
          then Inl ''invalid module-cache URL configuration''
          else
            (let u = (if ends_with ''/'' (url_path u) then u else u\<lparr>url_path := url_path u @ ''/''\<rparr>)
             in if client_builds then Inr u else Inl ''module-cache client configuration failed''))"

definition cache_url :: "(url \<Rightarrow> string \<Rightarrow> string option) \<Rightarrow> url \<Rightarrow> digest \<Rightarrow> string anyhow" where
  "cache_url join base d =
     (case join base (''modules/'' @ digest_as_str d) of
        None \<Rightarrow> Inl ''invalid module-cache URL configuration''
      | Some u \<Rightarrow> Inr u)"

record http_failure =
  is_builder :: bool
  is_timeout :: bool
  is_connect :: bool
  is_redirect :: bool
  is_body :: bool
  is_decode :: bool

definition http_error_kind :: "http_failure \<Rightarrow> string" where
  "http_error_kind e =
     (if is_builder e then ''configuration''
      else if is_timeout e then ''timeout''
      else if is_connect e then ''connection''
      else if is_redirect e then ''redirect''
      else if is_body e \<or> is_decode e then ''body''
      else ''request'')"

text \<open>
  \<open>get\<close> and \<open>put\<close>: the joined URL, the authorization header and the exchange the transport reports
  for them. The whole call is under one timeout.
\<close>

definition cache_get ::
  "(string \<Rightarrow> bytes \<Rightarrow> http_failure + oci_response) timed \<Rightarrow> string anyhow \<Rightarrow> identity_error + bytes
     \<Rightarrow> bytes option anyhow" where
  "cache_get exchange target token =
     (case exchange of
        Elapsed \<Rightarrow> Inl ''module-cache GET failed (timeout)''
      | Done send \<Rightarrow>
          (case target of
             Inl e \<Rightarrow> Inl e
           | Inr u \<Rightarrow>
               (case token of
                  Inl e \<Rightarrow> Inl (identity_message e)
                | Inr t \<Rightarrow>
                    (case send u t of
                       Inl e \<Rightarrow> Inl (''module-cache GET failed ('' @ http_error_kind e @ '')'')
                     | Inr r \<Rightarrow>
                         if resp_status r = st_NOT_FOUND then Inr None
                         else if resp_status r \<noteq> st_OK
                         then Inl (''module-cache GET returned status '' @ show_nat (resp_status r))
                         else map_sum id Some (read_response r MAX_WASM_BYTES)))))"

definition cache_put ::
  "(string \<Rightarrow> bytes \<Rightarrow> bytes \<Rightarrow> http_failure + oci_response) timed \<Rightarrow> string anyhow \<Rightarrow> identity_error + bytes
     \<Rightarrow> bytes \<Rightarrow> unit anyhow" where
  "cache_put exchange target token wasm =
     (if length wasm > MAX_WASM_BYTES then Inl ''module-cache PUT exceeds Wasm size limit''
      else
        (case exchange of
           Elapsed \<Rightarrow> Inl ''module-cache PUT failed (timeout)''
         | Done send \<Rightarrow>
             (case target of
                Inl e \<Rightarrow> Inl e
              | Inr u \<Rightarrow>
                  (case token of
                     Inl e \<Rightarrow> Inl (identity_message e)
                   | Inr t \<Rightarrow>
                       (case send u t wasm of
                          Inl e \<Rightarrow> Inl (''module-cache PUT failed ('' @ http_error_kind e @ '')'')
                        | Inr r \<Rightarrow>
                            if resp_status r < 200 \<or> 300 \<le> resp_status r
                            then Inl (''module-cache PUT returned status '' @ show_nat (resp_status r))
                            else Inr ())))))"

section \<open>Lemmas\<close>

lemma registry_urls_Inr:
  "registry_urls parse_url os = Inr rs \<Longrightarrow> rs = os \<and> (\<forall>r \<in> set os. \<exists>u. registry_url parse_url r = Inr u)"
  by (induction os arbitrary: rs) (auto simp: map_sum_def split: sum.splits)

lemma registry_list_Inr:
  assumes "registry_list parse_url v = Inr rs" "r \<in> set rs"
  shows "\<exists>u. registry_url parse_url r = Inr u"
  using assms registry_urls_Inr [of parse_url _ rs] by (auto simp: registry_list_def split: if_splits)

lemma check_plaintext_Inr:
  "check_plaintext parse_url known ps = Inr x \<Longrightarrow>
     \<forall>r \<in> set ps. r \<in> set known \<and> (\<exists>u. registry_url parse_url r = Inr u \<and> local_origin u)"
  by (induction ps) (auto split: if_splits sum.splits)

lemma oci_source_new_Inr:
  assumes "oci_source_new parse_url ok a p = Inr src"
  shows "approved src \<noteq> []"
    and "r \<in> set (approved src) \<Longrightarrow> \<exists>u. registry_url parse_url r = Inr u"
    and "r \<in> set (plaintext src) \<Longrightarrow> r \<in> set (approved src) \<and> (\<exists>u. registry_url parse_url r = Inr u \<and> local_origin u)"
  using assms
  by (auto simp: oci_source_new_def dest: registry_list_Inr check_plaintext_Inr split: sum.splits if_splits)

lemma oci_parse_Inr:
  assumes "oci_parse parse_url parse_repository src image_ref = Inr ref"
  obtains repository s where "(case strip_prefix ''oci://'' image_ref of Some b \<Rightarrow> b | None \<Rightarrow> image_ref) =
      ref_registry ref @ ''/'' @ repository @ [CHR 0x40] @ s"
    "ref_registry ref \<in> set (approved src)" "ref_digest ref = Some s" "canonical_digest s"
proof -
  let ?bare = "case strip_prefix ''oci://'' image_ref of Some b \<Rightarrow> b | None \<Rightarrow> image_ref"
  obtain registry path where 1: "split_once (CHR ''/'') ?bare = Some (registry, path)"
    using assms by (auto simp: oci_parse_def Let_def split: if_splits option.splits)
  obtain u where 2: "registry_url parse_url registry = Inr u" "registry \<in> set (approved src)"
    using assms 1 by (auto simp: oci_parse_def Let_def split: if_splits sum.splits)
  obtain repository s where 3: "split_once (CHR 0x40) path = Some (repository, s)"
    using assms 1 2 by (auto simp: oci_parse_def Let_def split: if_splits option.splits)
  obtain d where 4: "digest_parse s = Inr d"
    using assms 1 2 3 by (auto simp: oci_parse_def Let_def split: if_splits sum.splits)
  have "ref_registry ref = registry" "ref_digest ref = Some s"
    using assms 1 2 3 4 by (auto simp: oci_parse_def Let_def split: if_splits option.splits)
  then show ?thesis
    using that [of repository s] 1 2(2) 3 4 by (simp add: split_once_Some_iff digest_parse_Inr_iff)
qed

text \<open>The only URLs of a registry request.\<close>

definition registry_request :: "oci_source \<Rightarrow> string \<Rightarrow> bool" where
  "registry_request src u \<longleftrightarrow>
     (\<exists>registry \<in> set (approved src). \<exists>rest.
        u = (if registry \<in> set (plaintext src) then ''http://'' else ''https://'') @ registry @ ''/v2/'' @ rest)"

lemma endpoint_request:
  "ref_registry reference \<in> set (approved src) \<Longrightarrow> registry_request src (endpoint src reference kind ident)"
  by (auto simp: registry_request_def endpoint_def)

lemma fetch_cong: "http_get u = http_get' u \<Longrightarrow> fetch a b http_get u d n = fetch a b http_get' u d n"
  by (simp add: fetch_def)

lemma manifest_confined:
  assumes "\<And>u. registry_request src u \<Longrightarrow> http_get u = http_get' u"
  shows "manifest env http_get src image_ref = manifest env http_get' src image_ref"
proof (cases "oci_parse (env_url env) (env_repository env) src image_ref")
  case (Inr reference)
  then have "ref_registry reference \<in> set (approved src)" by (rule oci_parse_Inr)
  then have "http_get (endpoint src reference kind ident) = http_get' (endpoint src reference kind ident)" for kind ident
    by (intro assms endpoint_request)
  then show ?thesis by (simp add: manifest_def Inr fetch_def split: option.split sum.split)
qed (simp add: manifest_def)

lemma pull_confined:
  assumes "\<And>u. registry_request src u \<Longrightarrow> http_get u = http_get' u"
  shows "pull env http_get src artifact = pull env http_get' src artifact"
proof (cases "oci_parse (env_url env) (env_repository env) src (art_reference artifact)")
  case (Inr reference)
  then have "ref_registry reference \<in> set (approved src)" by (rule oci_parse_Inr)
  then have "http_get (endpoint src reference kind ident) = http_get' (endpoint src reference kind ident)" for kind ident
    by (intro assms endpoint_request)
  then show ?thesis by (simp add: pull_def Inr fetch_def)
qed (simp add: pull_def)

lemma read_chunks_Inr_iff:
  "length acc \<le> limit \<Longrightarrow>
     read_chunks limit acc es = Inr b \<longleftrightarrow> (\<exists>cs. es = map Chunk cs \<and> b = acc @ concat cs \<and> length b \<le> limit)"
proof (induction limit acc es rule: read_chunks.induct)
  case (4 limit acc c es)
  show ?case
  proof (cases "length c \<le> limit - length acc")
    case True
    then have "length (acc @ c) \<le> limit" using 4(2) by simp
    note IH = 4(1) [OF True this]
    show ?thesis
      using True 4(2) by (auto simp: IH Cons_eq_map_conv)
  next
    case False
    then show ?thesis using 4(2) by (auto simp: Cons_eq_map_conv)
  qed
qed (auto simp: Cons_eq_map_conv)

lemma read_response_Inr_iff:
  "read_response r limit = Inr b \<longleftrightarrow>
     (\<forall>n. resp_length r = Some n \<longrightarrow> n \<le> limit) \<and> (\<exists>cs. resp_body r = map Chunk cs \<and> b = concat cs \<and> length b \<le> limit)"
  by (auto simp: read_response_def read_chunks_Inr_iff split: option.splits)

lemma fetch_Inr:
  assumes "fetch x y http_get u d n = Inr b"
  obtains r where "http_get u = Some r" "resp_status r = st_OK" "verify_digest_header r d = Inr ()" "read_response r n = Inr b"
  using assms by (auto simp: fetch_def split: option.splits if_splits sum.splits)

lemma manifest_artifact_Inr:
  assumes "manifest_artifact image_ref man = Inr a"
  shows "art_reference a = image_ref \<and> 8 \<le> art_size a \<and> art_size a \<le> MAX_WASM_BYTES
    \<and> digest_parse (digest_as_str (art_digest a)) = Inr (art_digest a)"
  using assms
  by (auto simp: manifest_artifact_def digest_parse_Inr_iff split: if_splits list.splits sum.splits option.splits)

lemma manifest_Inr:
  assumes "manifest env http_get src image_ref = Inr a"
  obtains reference b man where "oci_parse (env_url env) (env_repository env) src image_ref = Inr reference"
    "ref_digest reference = Some (digest_as_str (digest_from_bytes (env_hash env) b))"
    "length b \<le> MAX_MANIFEST_BYTES" "env_manifest env b = Some man" "manifest_artifact image_ref man = Inr a"
proof -
  obtain reference where 1: "oci_parse (env_url env) (env_repository env) src image_ref = Inr reference"
    using assms by (auto simp: manifest_def split: sum.splits)
  obtain s where 2: "ref_digest reference = Some s" "canonical_digest s" using 1 by (rule oci_parse_Inr)
  have 3: "digest_parse s = Inr (Sha256Digest s)" using 2(2) by (simp add: digest_parse_Inr_iff)
  obtain b where 4: "fetch ''OCI manifest request failed'' ''OCI manifest request rejected'' http_get
      (endpoint src reference ''manifests'' s) (Sha256Digest s) MAX_MANIFEST_BYTES = Inr b"
    using assms 1 2 3 by (auto simp: manifest_def split: sum.splits)
  have 5: "Sha256Digest s = digest_from_bytes (env_hash env) b"
    using assms 1 2 3 4 by (auto simp: manifest_def digest_verify_Inr_iff split: sum.splits)
  then have 6: "s = digest_as_str (digest_from_bytes (env_hash env) b)" by (metis digest_as_str.simps)
  obtain man where 7: "env_manifest env b = Some man" "manifest_artifact image_ref man = Inr a"
    using assms 1 2 3 4 by (auto simp: manifest_def split: sum.splits option.splits)
  have "length b \<le> MAX_MANIFEST_BYTES" using 4 by (elim fetch_Inr) (auto simp: read_response_Inr_iff)
  then show ?thesis using that [OF 1 _ _ 7] 2(1) 6 by simp
qed

lemma pull_Inr:
  assumes "pull env http_get src a = Inr b"
  shows "length b = art_size a \<and> verify_wasm (env_hash env) (art_digest a) b = Inr ()"
  using assms by (auto simp: pull_def split: sum.splits if_splits)

lemma cache_get_Inr:
  "cache_get exchange target token = Inr (Some b) \<Longrightarrow> length b \<le> MAX_WASM_BYTES"
  by (auto simp: cache_get_def map_sum_def read_response_Inr_iff split: timed.splits sum.splits if_splits)

section \<open>Properties\<close>

text \<open>
  C31 (safety). A source that was accepted has a non-empty list of well-formed approved registries;
  each registry it may reach over plain HTTP is approved and is a local development origin. What
  \<open>manifest\<close> and \<open>pull\<close> return depends on the network only through requests to approved registries,
  over HTTPS unless the registry is such a local one: two networks that agree on those requests
  give the same results.
\<close>

theorem registry_requests_confined:
  assumes "oci_source_new parse_url ok approved_list plaintext_list = Inr src"
    and "\<And>u. registry_request src u \<Longrightarrow> http_get u = http_get' u"
  shows "approved src \<noteq> []
    \<and> (\<forall>r \<in> set (approved src). \<exists>u. registry_url parse_url r = Inr u)
    \<and> (\<forall>r \<in> set (plaintext src). r \<in> set (approved src) \<and> (\<exists>u. registry_url parse_url r = Inr u \<and> local_origin u))
    \<and> manifest env http_get src image_ref = manifest env http_get' src image_ref
    \<and> pull env http_get src artifact = pull env http_get' src artifact"
  using oci_source_new_Inr [OF assms(1)] manifest_confined [of src http_get http_get' env image_ref]
    pull_confined [of src http_get http_get' env artifact] assms(2) by blast

text \<open>
  C29 (safety). A layer that was pulled is the bounded Wasm binary with the size and the digest its
  manifest states, and the manifest itself has the digest that pins the reference, at an approved
  registry.
\<close>

theorem pulled_artifact_verified:
  assumes "manifest env http_get src image_ref = Inr a" "pull env http_get' src a = Inr wasm"
  shows "length wasm = art_size a \<and> 8 \<le> art_size a \<and> art_size a \<le> MAX_WASM_BYTES \<and> take 4 wasm = wasm_magic
    \<and> art_digest a = digest_from_bytes (env_hash env) wasm
    \<and> (\<exists>registry repository bytes man.
        (case strip_prefix ''oci://'' image_ref of Some b \<Rightarrow> b | None \<Rightarrow> image_ref) =
          registry @ ''/'' @ repository @ [CHR 0x40] @ digest_as_str (digest_from_bytes (env_hash env) bytes)
        \<and> registry \<in> set (approved src) \<and> length bytes \<le> MAX_MANIFEST_BYTES
        \<and> env_manifest env bytes = Some man \<and> manifest_artifact image_ref man = Inr a)"
proof -
  obtain reference b man where m: "oci_parse (env_url env) (env_repository env) src image_ref = Inr reference"
      "ref_digest reference = Some (digest_as_str (digest_from_bytes (env_hash env) b))"
      "length b \<le> MAX_MANIFEST_BYTES" "env_manifest env b = Some man" "manifest_artifact image_ref man = Inr a"
    using assms(1) by (rule manifest_Inr)
  obtain repository s where r: "(case strip_prefix ''oci://'' image_ref of Some b \<Rightarrow> b | None \<Rightarrow> image_ref) =
      ref_registry reference @ ''/'' @ repository @ [CHR 0x40] @ s"
    "ref_registry reference \<in> set (approved src)" "ref_digest reference = Some s"
    using m(1) by (rule oci_parse_Inr)
  have "s = digest_as_str (digest_from_bytes (env_hash env) b)" using r(3) m(2) by simp
  then show ?thesis
    using r(1,2) m pull_Inr [OF assms(2)] manifest_artifact_Inr [OF m(5)]
    by (auto simp: verify_wasm_Inr_iff)
qed

text \<open>
  Reading a response succeeds exactly when the declared length, if any, is within the
  limit, no chunk fails and the chunks together are within the limit; the result is their
  concatenation. A cache hit is therefore never longer than the Wasm limit.
\<close>

theorem read_response_exact:
  "(read_response r limit = Inr b) =
      ((\<forall>n. resp_length r = Some n \<longrightarrow> n \<le> limit) \<and> (\<exists>cs. resp_body r = map Chunk cs \<and> b = concat cs \<and> length b \<le> limit))
    \<and> (cache_get exchange target token = Inr (Some hit) \<longrightarrow> length hit \<le> MAX_WASM_BYTES)"
  using read_response_Inr_iff cache_get_Inr by blast

subsection \<open>Witnesses\<close>

definition sample_origin :: "string \<Rightarrow> url" where
  "sample_origin auth = \<lparr>scheme = ''https'', host = Some (takeWhile (\<lambda>c. c \<noteq> CHR '':'') auth), url_username = [],
     url_password = None, url_path = ''/'', query = None, fragment = None, authority = auth\<rparr>"

definition sample_hex :: string where
  "sample_hex = replicate 64 (CHR ''0'')"

definition sample_wasm :: bytes where
  "sample_wasm = wasm_magic @ [1, 0, 0, 0]"

definition sample_env :: oci_env where
  "sample_env = \<lparr>env_url = (\<lambda>s. map_option sample_origin (strip_prefix ''https://'' s)),
     env_repository = (\<lambda>s. map_option (\<lambda>r. fst (the (split_once (CHR 0x40) r))) (strip_prefix ''registry.example/'' s)),
     env_manifest = (\<lambda>_. Some \<lparr>schema_version = 2, media_type = Some ''application/vnd.oci.image.manifest.v1+json'',
       layers = [\<lparr>layer_media_type = ''application/wasm'', layer_digest = ''sha256:'' @ sample_hex, layer_size = 8,
         layer_urls = None\<rparr>], artifact_type = None\<rparr>),
     env_hash = (\<lambda>_. sample_hex)\<rparr>"

definition sample_source :: oci_source where
  "sample_source = \<lparr>approved = [''ghcr.io'', ''localhost:5000''], plaintext = [''localhost:5000'']\<rparr>"

definition sample_ref :: string where
  "sample_ref = ''oci://ghcr.io/acme/app'' @ [CHR 0x40] @ ''sha256:'' @ sample_hex"

definition sample_get :: "string \<Rightarrow> oci_response option" where
  "sample_get u = Some \<lparr>resp_status = 200, resp_digest = None, resp_length = Some 8, resp_body = [Chunk sample_wasm]\<rparr>"

definition sample_artifact :: wasm_artifact where
  "sample_artifact = \<lparr>art_reference = sample_ref, art_digest = Sha256Digest (''sha256:'' @ sample_hex), art_size = 8\<rparr>"

lemma read_octets_numeral [simp]:
  "read_octets (numeral k) i s =
     (case read_separator (CHR ''.'') i s of
        None \<Rightarrow> None
      | Some s1 \<Rightarrow>
          (case read_number 10 3 False 256 s1 of
             None \<Rightarrow> None
           | Some (v, s2) \<Rightarrow> map_option (\<lambda>(vs, r). (v # vs, r)) (read_octets (pred_numeral k) (Suc i) s2)))"
  by (simp only: numeral_eq_Suc read_octets.simps)

lemmas ip_defs = ip_loopback_def read_ipv4_def read_ipv6_def read_separator_def read_number_def to_digit_def hex_value_def

lemmas text_defs = ends_with_def strip_suffix_def trim_brackets_def local_origin_def registry_list_def registry_url_def

lemma sample_hex_ok [simp]: "length sample_hex = 64" "list_all is_lower_hex sample_hex"
  by (simp_all add: sample_hex_def list_all_iff is_lower_hex_def is_ascii_digit_def)

lemma sample_loopback: "ip_loopback ''127.1.2.3''" "\<not> ip_loopback ''10.0.0.1''"
  by (simp_all add: ip_defs)

lemma sample_source_new:
  "oci_source_new (env_url sample_env) True ''ghcr.io,localhost:5000'' ''localhost:5000'' = Inr sample_source"
  by (simp add: oci_source_new_def text_defs sample_env_def sample_origin_def sample_source_def Let_def)

lemma sample_parse:
  "oci_parse (env_url sample_env) (env_repository sample_env) sample_source sample_ref =
     Inr \<lparr>ref_registry = ''ghcr.io'', ref_repository = ''acme/app'', ref_digest = Some (''sha256:'' @ sample_hex)\<rparr>"
  by (simp add: oci_parse_def text_defs sample_env_def sample_origin_def sample_source_def sample_ref_def Let_def digest_parse_def)

lemma sample_env_sel:
  "env_hash sample_env b = sample_hex"
  "env_manifest sample_env b = Some \<lparr>schema_version = 2, media_type = Some ''application/vnd.oci.image.manifest.v1+json'',
     layers = [\<lparr>layer_media_type = ''application/wasm'', layer_digest = ''sha256:'' @ sample_hex, layer_size = 8,
       layer_urls = None\<rparr>], artifact_type = None\<rparr>"
  by (simp_all add: sample_env_def)

lemma sample_manifest: "manifest sample_env sample_get sample_source sample_ref = Inr sample_artifact"
  by (simp add: manifest_def sample_parse fetch_def sample_get_def verify_digest_header_def read_response_def
      digest_parse_def digest_verify_def digest_from_bytes_def sample_env_sel manifest_artifact_def layer_type_ok_def
      sample_artifact_def MAX_WASM_BYTES_def MAX_MANIFEST_BYTES_def sample_wasm_def)

lemma sample_artifact_reference [simp]: "art_reference sample_artifact = sample_ref"
  by (simp add: sample_artifact_def)

lemma sample_pull: "pull sample_env sample_get sample_source sample_artifact = Inr sample_wasm"
  by (simp add: pull_def sample_parse fetch_def sample_get_def verify_digest_header_def read_response_def
      verify_wasm_def digest_verify_def digest_from_bytes_def sample_artifact_def MAX_WASM_BYTES_def sample_wasm_def sample_env_sel)

text \<open>A network that answers registry requests only gives the same manifest as one that answers all.\<close>

definition sample_confined_get :: "string \<Rightarrow> oci_response option" where
  "sample_confined_get u = (if registry_request sample_source u then sample_get u else None)"

theorem registry_requests_confined_witness:
  "\<not> registry_request sample_source ''http://evil/''
     \<and> manifest sample_env sample_confined_get sample_source sample_ref = Inr sample_artifact"
proof -
  have "manifest sample_env sample_get sample_source sample_ref = manifest sample_env sample_confined_get sample_source sample_ref"
    using registry_requests_confined [OF sample_source_new, of sample_get sample_confined_get sample_env sample_ref]
    by (simp add: sample_confined_get_def)
  then show ?thesis
    using sample_manifest by (simp add: registry_request_def sample_source_def)
qed

theorem pulled_artifact_verified_witness:
  "pull sample_env sample_get sample_source sample_artifact = Inr sample_wasm
     \<and> art_digest sample_artifact = digest_from_bytes (env_hash sample_env) sample_wasm"
  using pulled_artifact_verified [OF sample_manifest sample_pull] sample_pull by simp

theorem read_response_exact_witness:
  "read_response \<lparr>resp_status = 200, resp_digest = None, resp_length = None, resp_body = [Chunk [1, 2], Chunk [3]]\<rparr> 3 = Inr [1, 2, 3]"
  using read_response_exact [of "\<lparr>resp_status = 200, resp_digest = None, resp_length = None, resp_body = [Chunk [1, 2], Chunk [3]]\<rparr>"
      3 "[1, 2, 3]"]
  by (auto intro!: exI [of _ "[[1, 2], [3]]"])

end
