(* ===== verification/ModuleRegistry.thy ===== *)
theory ModuleRegistry
  imports Oci PreparationMetrics
begin

text \<open>
  \<open>src/components/execution-host/src/modules.rs\<close>: the registry of compiled components and the
  bounded preparation of new ones. A preparation has two concurrent parts: the asynchronous task of
  \<open>load_admitted\<close>, which waits, registers and may give up at its deadline, and the blocking compiler,
  which owns the permits and cannot be interrupted. The model interleaves submissions, tasks,
  compilers, removals and the clock; a step is what happens between two suspension points.
  Compilation and serialisation belong to the Wasm engine and are parameters.
\<close>

section \<open>Definitions\<close>

definition MAX_QUEUED_PREPARATIONS :: nat where "MAX_QUEUED_PREPARATIONS = 16"
definition MAX_RETAINED_COMPONENTS :: nat where "MAX_RETAINED_COMPONENTS = 32"
definition MAX_RETAINED_NATIVE_BYTES :: nat where "MAX_RETAINED_NATIVE_BYTES = 128 * 1024 * 1024"

text \<open>Times are milliseconds.\<close>

definition PREPARATION_TIMEOUT :: nat where "PREPARATION_TIMEOUT = 30000"

type_synonym module_key = "string \<times> string \<times> string"

text \<open>A component of the engine is an opaque handle.\<close>

type_synonym component = nat

record compiler =
  compile_component :: "bytes \<Rightarrow> component option"
  serialize_component :: "component \<Rightarrow> bytes option"

subsection \<open>The registry\<close>

record registered_component =
  rc_component :: component
  rc_native_bytes :: nat

record registry_state =
  components :: "(module_key, registered_component) hash_map"
  native_bytes :: nat
  poisoned :: bool

definition registry_default :: registry_state where
  "registry_default = \<lparr>components = [], native_bytes = 0, poisoned = False\<rparr>"

definition module_key :: "string \<Rightarrow> string \<Rightarrow> string \<Rightarrow> module_key" where
  "module_key namespace app_name fn_name = (namespace, app_name, fn_name)"

definition registry_get :: "string \<Rightarrow> string \<Rightarrow> string \<Rightarrow> registry_state \<Rightarrow> component option anyhow" where
  "registry_get namespace app_name fn_name st =
     (if poisoned st then Inl ''module registry lock poisoned''
      else Inr (map_option rc_component (hm_get (components st) (module_key namespace app_name fn_name))))"

definition registry_remove :: "string \<Rightarrow> string \<Rightarrow> string \<Rightarrow> registry_state \<Rightarrow> unit anyhow \<times> registry_state" where
  "registry_remove namespace app_name fn_name st =
     (if poisoned st then (Inl ''module registry lock poisoned'', st)
      else
        (case hm_get (components st) (module_key namespace app_name fn_name) of
           None \<Rightarrow> (Inr (), st)
         | Some rc \<Rightarrow>
             (Inr (), st\<lparr>components := hm_remove (module_key namespace app_name fn_name) (components st),
                         native_bytes := wrap_sub (native_bytes st) (rc_native_bytes rc)\<rparr>)))"

record prepared =
  pr_component :: component
  pr_native_bytes :: nat
  pr_digest :: digest
  pr_cache_write :: "bytes option"

text \<open>The registration closure of \<open>load_admitted\<close>, run under the write lock.\<close>

definition register_component ::
  "nat \<Rightarrow> nat \<Rightarrow> module_key \<Rightarrow> prepared \<Rightarrow> registry_state \<Rightarrow> unit anyhow \<times> registry_state" where
  "register_component now deadline key p st =
     (if poisoned st then (Inl ''module registry lock poisoned'', st)
      else if \<not> now < deadline then (Inl ''module preparation deadline expired'', st)
      else
        (let replaced = (case hm_get (components st) key of Some rc \<Rightarrow> rc_native_bytes rc | None \<Rightarrow> 0);
             retained = wrap_add (wrap_sub (native_bytes st) replaced) (pr_native_bytes p)
         in if \<not> (hm_get (components st) key \<noteq> None \<or> length (components st) < MAX_RETAINED_COMPONENTS)
            then (Inl ''module registry component count limit exceeded'', st)
            else if \<not> retained \<le> MAX_RETAINED_NATIVE_BYTES
            then (Inl ''module registry native byte budget exceeded'', st)
            else (Inr (),
              st\<lparr>components := hm_insert key \<lparr>rc_component = pr_component p, rc_native_bytes = pr_native_bytes p\<rparr> (components st),
                 native_bytes := retained\<rparr>)))"

subsection \<open>Preparing a component\<close>

definition validate_bytes :: "(bytes \<Rightarrow> string) \<Rightarrow> wasm_artifact \<Rightarrow> bytes \<Rightarrow> unit anyhow" where
  "validate_bytes hash artifact wasm =
     (if length wasm \<noteq> art_size artifact then Inl ''Wasm artifact size mismatch''
      else verify_wasm hash (art_digest artifact) wasm)"

text \<open>
  The asynchronous part of \<open>prepare\<close>: the artifact, its bytes, and whether the cache missed.
  \<open>cache\<close> is the answer of the cache client for a digest.
\<close>

definition prepare_bytes ::
  "oci_env \<Rightarrow> oci_source \<Rightarrow> (string \<Rightarrow> oci_response option) \<Rightarrow> (digest \<Rightarrow> bytes option anyhow)
     \<Rightarrow> (string \<Rightarrow> oci_response option) \<Rightarrow> string \<Rightarrow> (wasm_artifact \<times> bytes \<times> bool) anyhow" where
  "prepare_bytes env src manifest_get cache pull_get module_ref =
     (case manifest env manifest_get src module_ref of
        Inl e \<Rightarrow> Inl e
      | Inr artifact \<Rightarrow>
          (let cached = (case cache (art_digest artifact) of
                           Inr (Some wasm) \<Rightarrow>
                             (case validate_bytes (env_hash env) artifact wasm of Inr _ \<Rightarrow> Some wasm | Inl _ \<Rightarrow> None)
                         | Inr None \<Rightarrow> None
                         | Inl _ \<Rightarrow> None);
               cache_miss = (cached = None)
           in case (case cached of Some wasm \<Rightarrow> Inr wasm | None \<Rightarrow> pull env pull_get src artifact) of
                Inl e \<Rightarrow> Inl e
              | Inr wasm \<Rightarrow>
                  (case validate_bytes (env_hash env) artifact wasm of
                     Inl e \<Rightarrow> Inl e
                   | Inr _ \<Rightarrow> Inr (artifact, wasm, cache_miss))))"

definition compile_module :: "compiler \<Rightarrow> bytes \<Rightarrow> (component \<times> nat) anyhow" where
  "compile_module cc wasm =
     (case compile_component cc wasm of
        None \<Rightarrow> Inl ''Wasm component compilation failed''
      | Some c \<Rightarrow>
          (case serialize_component cc c of
             None \<Rightarrow> Inl ''Wasm component size measurement failed''
           | Some b \<Rightarrow>
               if length b \<le> MAX_RETAINED_NATIVE_BYTES then Inr (c, length b)
               else Inl ''compiled component exceeds native byte budget''))"

text \<open>The blocking closure, before and after the compiler runs.\<close>

definition expire :: "nat \<Rightarrow> nat \<Rightarrow> prep_state \<times> prep_metrics \<Rightarrow> prep_state \<times> prep_metrics" where
  "expire now deadline sm = (if now \<ge> deadline then prep_terminate PrepTimeout deadline sm else sm)"

definition compile_begin :: "nat \<Rightarrow> nat \<Rightarrow> prep_state \<times> prep_metrics \<Rightarrow> prep_state \<times> prep_metrics" where
  "compile_begin now deadline sm = prep_compiling now (expire now deadline sm)"

definition compile_end ::
  "nat \<Rightarrow> nat \<Rightarrow> (component \<times> nat) anyhow \<Rightarrow> prep_state \<times> prep_metrics \<Rightarrow> prep_state \<times> prep_metrics" where
  "compile_end now deadline compiled sm =
     (let outcome = (case compiled of Inr _ \<Rightarrow> PrepSuccess | Inl _ \<Rightarrow> PrepError);
          (s, m) = prep_compilation_finished outcome (expire now deadline sm)
      in case compiled of Inl _ \<Rightarrow> (s, m) | Inr _ \<Rightarrow> (prep_finish PrepCancelled s, m))"

subsection \<open>Preparation tasks\<close>

text \<open>
  Where a preparation is: spawned but not polled, waiting for the active permit, fetching, handed to
  the blocking pool, compiling, compiled, or writing to the cache after its registration.
\<close>

datatype prep_phase =
    Spawned
  | WaitActive
  | Fetching
  | Handed wasm_artifact bytes bool
  | InCompiler wasm_artifact bytes bool
  | Compiled prepared
  | Writing

record prep_task =
  pt_key :: module_key
  pt_ref :: string
  pt_deadline :: nat
  pt_phase :: prep_phase
  pt_waiting :: bool
  pt_work :: prep_state

text \<open>Phases in which the permits belong to the future of \<open>prepare\<close>, and those with the active permit.\<close>

fun in_future :: "prep_phase \<Rightarrow> bool" where
  "in_future Spawned = True"
| "in_future WaitActive = True"
| "in_future Fetching = True"
| "in_future _ = False"

fun holds_active :: "prep_phase \<Rightarrow> bool" where
  "holds_active Spawned = False"
| "holds_active WaitActive = False"
| "holds_active _ = True"

record module_sys =
  ms_registry :: registry_state
  ms_metrics :: prep_metrics
  ms_waiting :: nat
  ms_tasks :: "prep_task multiset"
  ms_now :: nat
  ms_compilations :: "string \<times> string \<times> string \<Rightarrow> nat"
  ms_admitted :: "(module_key \<times> string) set"

definition active_permits :: "prep_task multiset \<Rightarrow> nat" where
  "active_permits ts = size (filter_mset (\<lambda>t. holds_active (pt_phase t)) ts)"

definition module_registry_new :: "(string \<Rightarrow> url option) \<Rightarrow> bool \<Rightarrow> string \<Rightarrow> nat \<Rightarrow> module_sys anyhow" where
  "module_registry_new parse_url client_builds base_url now =
     (case cache_base_url parse_url client_builds base_url of
        Inl e \<Rightarrow> Inl e
      | Inr _ \<Rightarrow>
          Inr \<lparr>ms_registry = registry_default, ms_metrics = prep_new (MAX_QUEUED_PREPARATIONS + 1) 1, ms_waiting = 0,
               ms_tasks = {#}, ms_now = now, ms_compilations = (\<lambda>_. 0), ms_admitted = {}\<rparr>)"

text \<open>\<open>submit_load\<close>, up to the wait for a record permit and from its end.\<close>

datatype acquired = Acquired | Closed

definition submit_begin :: "module_sys \<Rightarrow> module_sys" where
  "submit_begin s = s\<lparr>ms_metrics := snd (prep_submission (ms_metrics s)), ms_waiting := Suc (ms_waiting s)\<rparr>"

definition submit_end :: "acquired timed \<Rightarrow> module_key \<Rightarrow> string \<Rightarrow> module_sys \<Rightarrow> unit anyhow \<times> module_sys" where
  "submit_end r key module_ref s =
     (let submission = \<lparr>sub_outcome = ''cancelled'', sub_completed = False\<rparr>;
          s = s\<lparr>ms_waiting := ms_waiting s - 1\<rparr>
      in case r of
           Done Closed \<Rightarrow>
             (Inl ''module preparation admission closed'', s\<lparr>ms_metrics := submission_closed submission (ms_metrics s)\<rparr>)
         | Elapsed \<Rightarrow>
             (Inl ''module submission capacity deadline expired'', s\<lparr>ms_metrics := submission_timed_out submission (ms_metrics s)\<rparr>)
         | Done Acquired \<Rightarrow>
             (case submission_admitted submission (ms_metrics s) of
                (work, m) \<Rightarrow>
                  (Inr (), s\<lparr>ms_metrics := m,
                     ms_tasks := add_mset \<lparr>pt_key = key, pt_ref = module_ref, pt_deadline = ms_now s + PREPARATION_TIMEOUT,
                        pt_phase = Spawned, pt_waiting = True, pt_work = work\<rparr> (ms_tasks s),
                     ms_admitted := insert (key, module_ref) (ms_admitted s)\<rparr>)))"

text \<open>The submitting future is dropped while it waits.\<close>

definition submit_drop :: "module_sys \<Rightarrow> module_sys" where
  "submit_drop s = s\<lparr>ms_waiting := ms_waiting s - 1,
     ms_metrics := submission_drop \<lparr>sub_outcome = ''cancelled'', sub_completed = False\<rparr> (ms_metrics s)\<rparr>"

text \<open>A task changes, or ends by dropping its permits.\<close>

definition task_moves :: "prep_task multiset \<Rightarrow> prep_task \<Rightarrow> prep_state \<times> prep_metrics \<Rightarrow> module_sys \<Rightarrow> module_sys" where
  "task_moves ts t sm s = s\<lparr>ms_metrics := snd sm, ms_tasks := add_mset (t\<lparr>pt_work := fst sm\<rparr>) ts\<rparr>"

definition task_ends :: "prep_task multiset \<Rightarrow> bool \<Rightarrow> prep_state \<times> prep_metrics \<Rightarrow> module_sys \<Rightarrow> module_sys" where
  "task_ends ts panicking sm s = s\<lparr>ms_metrics := snd (prep_drop panicking sm), ms_tasks := ts\<rparr>"

text \<open>
  The future of \<open>load_admitted\<close> gives up (its deadline, or the future is dropped): the control handle
  terminates the work; permits still in the future are dropped with it, permits in the blocking
  pool stay there.
\<close>

definition task_gives_up :: "prep_outcome \<Rightarrow> nat \<Rightarrow> prep_task multiset \<Rightarrow> prep_task \<Rightarrow> module_sys \<Rightarrow> module_sys" where
  "task_gives_up outcome at ts t s =
     (let sm = prep_terminate outcome at (pt_work t, ms_metrics s)
      in if in_future (pt_phase t) then task_ends ts False sm s
         else task_moves ts (t\<lparr>pt_waiting := False\<rparr>) sm s)"

text \<open>The result of the compiler is registered; \<open>later\<close> is the second reading of the clock.\<close>

definition task_registers :: "nat \<Rightarrow> prep_task multiset \<Rightarrow> prep_task \<Rightarrow> prepared \<Rightarrow> module_sys \<Rightarrow> module_sys" where
  "task_registers later ts t p s =
     (case register_component (ms_now s) (pt_deadline t) (pt_key t) p (ms_registry s) of
        (Inl _, st) \<Rightarrow>
          (case expire later (pt_deadline t) (pt_work t, ms_metrics s) of
             (w, m) \<Rightarrow> task_ends ts False (prep_finish PrepError w, m) (s\<lparr>ms_registry := st, ms_now := later\<rparr>))
      | (Inr _, st) \<Rightarrow>
          (case pr_cache_write p of
             Some _ \<Rightarrow> task_moves ts (t\<lparr>pt_phase := Writing\<rparr>) (pt_work t, ms_metrics s) (s\<lparr>ms_registry := st\<rparr>)
           | None \<Rightarrow> task_ends ts False (prep_finish PrepSuccess (pt_work t), ms_metrics s) (s\<lparr>ms_registry := st\<rparr>)))"

definition record_compilation :: "string \<Rightarrow> string \<Rightarrow> string \<Rightarrow> module_sys \<Rightarrow> module_sys" where
  "record_compilation app_name app_namespace result s =
     s\<lparr>ms_compilations := (ms_compilations s)((app_name, app_namespace, result) := Suc (ms_compilations s (app_name, app_namespace, result)))\<rparr>"

text \<open>The compiler returned: a failure drops the permits, a component waits to be collected.\<close>

definition task_compiled :: "compiler \<Rightarrow> prep_task multiset \<Rightarrow> prep_task \<Rightarrow> wasm_artifact \<Rightarrow> bytes \<Rightarrow> bool \<Rightarrow> module_sys \<Rightarrow> module_sys" where
  "task_compiled cc ts t artifact wasm cache_miss s =
     (let compiled = compile_module cc wasm;
          s = record_compilation (fst (snd (pt_key t))) (fst (pt_key t)) (case compiled of Inr _ \<Rightarrow> ''ok'' | Inl _ \<Rightarrow> ''err'') s;
          sm = compile_end (ms_now s) (pt_deadline t) compiled (pt_work t, ms_metrics s)
      in case compiled of
           Inl _ \<Rightarrow> task_ends ts False sm s
         | Inr (c, n) \<Rightarrow>
             task_moves ts (t\<lparr>pt_phase := Compiled \<lparr>pr_component = c, pr_native_bytes = n, pr_digest = art_digest artifact,
               pr_cache_write = (if cache_miss then Some wasm else None)\<rparr>\<rparr>) sm s)"

subsection \<open>Steps\<close>

text \<open>Submissions, the clock and removals.\<close>

inductive module_env_step :: "semaphore_api \<Rightarrow> module_sys \<Rightarrow> module_sys \<Rightarrow> bool" for sem where
  ms_tick: "ms_now s \<le> later \<Longrightarrow> module_env_step sem s (s\<lparr>ms_now := later\<rparr>)"
| ms_submit: "module_env_step sem s (submit_begin s)"
| ms_admit: "ms_waiting s = Suc n \<Longrightarrow> sem_admits sem (MAX_QUEUED_PREPARATIONS + 1) (size (ms_tasks s)) \<Longrightarrow>
    module_env_step sem s (snd (submit_end (Done Acquired) key module_ref s))"
| ms_refuse: "ms_waiting s = Suc n \<Longrightarrow> r \<noteq> Done Acquired \<Longrightarrow>
    module_env_step sem s (snd (submit_end r key module_ref s))"
| ms_submit_drop: "ms_waiting s = Suc n \<Longrightarrow> module_env_step sem s (submit_drop s)"
| ms_remove: "module_env_step sem s (s\<lparr>ms_registry := snd (registry_remove a b c (ms_registry s))\<rparr>)"

text \<open>One step of a preparation.\<close>

inductive prep_task_step ::
  "semaphore_api \<Rightarrow> oci_env \<Rightarrow> oci_source \<Rightarrow> compiler \<Rightarrow> module_sys \<Rightarrow> module_sys \<Rightarrow> bool"
  for sem env src cc where
  pt_begin: "ms_tasks s = add_mset t ts \<Longrightarrow> pt_phase t = Spawned \<Longrightarrow> pt_waiting t \<Longrightarrow>
    prep_task_step sem env src cc s
      (task_moves ts (t\<lparr>pt_phase := WaitActive\<rparr>) (prep_finish PrepError (pt_work t), ms_metrics s) s)"
| pt_activate: "ms_tasks s = add_mset t ts \<Longrightarrow> pt_phase t = WaitActive \<Longrightarrow> pt_waiting t \<Longrightarrow>
    sem_admits sem 1 (active_permits (ms_tasks s)) \<Longrightarrow>
    prep_task_step sem env src cc s
      (task_moves ts (t\<lparr>pt_phase := Fetching\<rparr>) (prep_activate (pt_work t, ms_metrics s)) s)"
| pt_fetched: "ms_tasks s = add_mset t ts \<Longrightarrow> pt_phase t = Fetching \<Longrightarrow> pt_waiting t \<Longrightarrow>
    prepare_bytes env src manifest_get cache pull_get (pt_ref t) = Inr (artifact, wasm, miss) \<Longrightarrow>
    prep_task_step sem env src cc s
      (task_moves ts (t\<lparr>pt_phase := Handed artifact wasm miss\<rparr>) (pt_work t, ms_metrics s) s)"
| pt_fetch_failed: "ms_tasks s = add_mset t ts \<Longrightarrow> pt_phase t = Fetching \<Longrightarrow> pt_waiting t \<Longrightarrow>
    prepare_bytes env src manifest_get cache pull_get (pt_ref t) = Inl e \<Longrightarrow>
    prep_task_step sem env src cc s (task_ends ts False (pt_work t, ms_metrics s) s)"
| pt_compile: "ms_tasks s = add_mset t ts \<Longrightarrow> pt_phase t = Handed artifact wasm miss \<Longrightarrow>
    prep_task_step sem env src cc s
      (task_moves ts (t\<lparr>pt_phase := InCompiler artifact wasm miss\<rparr>)
         (compile_begin (ms_now s) (pt_deadline t) (pt_work t, ms_metrics s)) s)"
| pt_compiled: "ms_tasks s = add_mset t ts \<Longrightarrow> pt_phase t = InCompiler artifact wasm miss \<Longrightarrow>
    prep_task_step sem env src cc s (task_compiled cc ts t artifact wasm miss s)"
| pt_panicked: "ms_tasks s = add_mset t ts \<Longrightarrow> pt_phase t = InCompiler artifact wasm miss \<Longrightarrow>
    prep_task_step sem env src cc s (task_ends ts True (pt_work t, ms_metrics s) s)"
| pt_register: "ms_tasks s = add_mset t ts \<Longrightarrow> pt_phase t = Compiled p \<Longrightarrow> pt_waiting t \<Longrightarrow> ms_now s \<le> later \<Longrightarrow>
    prep_task_step sem env src cc s (task_registers later ts t p s)"
| pt_discard: "ms_tasks s = add_mset t ts \<Longrightarrow> pt_phase t = Compiled p \<Longrightarrow> \<not> pt_waiting t \<Longrightarrow>
    prep_task_step sem env src cc s (task_ends ts False (pt_work t, ms_metrics s) s)"
| pt_written: "ms_tasks s = add_mset t ts \<Longrightarrow> pt_phase t = Writing \<Longrightarrow>
    prep_task_step sem env src cc s (task_ends ts False (prep_finish PrepSuccess (pt_work t), ms_metrics s) s)"
| pt_timed_out: "ms_tasks s = add_mset t ts \<Longrightarrow> pt_waiting t \<Longrightarrow> pt_phase t \<noteq> Writing \<Longrightarrow> pt_deadline t \<le> ms_now s \<Longrightarrow>
    prep_task_step sem env src cc s (task_gives_up PrepTimeout (pt_deadline t) ts t s)"
| pt_cancelled: "ms_tasks s = add_mset t ts \<Longrightarrow> pt_waiting t \<Longrightarrow> pt_phase t \<noteq> Writing \<Longrightarrow>
    prep_task_step sem env src cc s (task_gives_up PrepCancelled (ms_now s) ts t s)"
| pt_write_cancelled: "ms_tasks s = add_mset t ts \<Longrightarrow> pt_phase t = Writing \<Longrightarrow>
    prep_task_step sem env src cc s (task_ends ts False (pt_work t, ms_metrics s) s)"

definition module_step ::
  "semaphore_api \<Rightarrow> oci_env \<Rightarrow> oci_source \<Rightarrow> compiler \<Rightarrow> module_sys \<Rightarrow> module_sys \<Rightarrow> bool" where
  "module_step sem env src cc s s' \<longleftrightarrow> module_env_step sem s s' \<or> prep_task_step sem env src cc s s'"

end
