(* ===== verification/ModuleSafety.thy ===== *)
theory ModuleSafety
  imports ModuleRegistry
begin

text \<open>
  Invariants of the module registry: its budgets, where a registered component comes from, the
  phases of a preparation against its accounting state, and the simulation of the preparation
  ledger by the whole system.
\<close>

section \<open>The registry\<close>

definition registry_ok :: "registry_state \<Rightarrow> bool" where
  "registry_ok st \<longleftrightarrow> hm_wf (components st) \<and> length (components st) \<le> MAX_RETAINED_COMPONENTS \<and>
     native_bytes st = hm_total rc_native_bytes (components st) \<and> native_bytes st \<le> MAX_RETAINED_NATIVE_BYTES \<and>
     \<not> poisoned st"

lemma registry_default_ok [simp]: "registry_ok registry_default"
  by (simp add: registry_ok_def registry_default_def)

lemma native_limit: "MAX_RETAINED_NATIVE_BYTES + MAX_RETAINED_NATIVE_BYTES < 2 ^ 64"
  by (simp add: MAX_RETAINED_NATIVE_BYTES_def)

text \<open>The retained bytes never wrap around.\<close>

lemma retained_exact:
  fixes key :: module_key
  assumes "registry_ok st" "pr_native_bytes p \<le> MAX_RETAINED_NATIVE_BYTES"
  defines "replaced \<equiv> case hm_get (components st) key of Some rc \<Rightarrow> rc_native_bytes rc | None \<Rightarrow> 0"
  shows "wrap_add (wrap_sub (native_bytes st) replaced) (pr_native_bytes p) = native_bytes st - replaced + pr_native_bytes p"
    and "replaced \<le> native_bytes st"
proof -
  show le: "replaced \<le> native_bytes st"
    using assms(1) hm_total_member [of "components st" key _ rc_native_bytes]
    by (auto simp: replaced_def registry_ok_def split: option.split)
  have "native_bytes st - replaced + pr_native_bytes p < 2 ^ 64"
    using assms(1,2) native_limit unfolding registry_ok_def by linarith
  then show "wrap_add (wrap_sub (native_bytes st) replaced) (pr_native_bytes p) = native_bytes st - replaced + pr_native_bytes p"
    using le by (simp add: usize_simps)
qed

lemma register_component_ok:
  assumes ok: "registry_ok st" and p: "pr_native_bytes p \<le> MAX_RETAINED_NATIVE_BYTES"
    and r: "register_component now deadline key p st = (r, st')"
  shows "registry_ok st'
    \<and> (case r of
         Inl _ \<Rightarrow> st' = st
       | Inr _ \<Rightarrow> now < deadline \<and> components st' =
           hm_insert key \<lparr>rc_component = pr_component p, rc_native_bytes = pr_native_bytes p\<rparr> (components st))"
proof (cases r)
  case (Inl e)
  then have "st' = st" using r by (auto simp: register_component_def Let_def split: if_splits)
  then show ?thesis using ok Inl by simp
next
  case (Inr u)
  let ?rc = "\<lparr>rc_component = pr_component p, rc_native_bytes = pr_native_bytes p\<rparr>"
  let ?replaced = "case hm_get (components st) key of Some rc \<Rightarrow> rc_native_bytes rc | None \<Rightarrow> 0"
  note ex = retained_exact [OF ok p, of key]
  have st': "components st' = hm_insert key ?rc (components st)" "native_bytes st' = native_bytes st - ?replaced + pr_native_bytes p"
    "poisoned st' = poisoned st" and now: "now < deadline"
    and bounds: "hm_get (components st) key \<noteq> None \<or> length (components st) < MAX_RETAINED_COMPONENTS"
    "native_bytes st - ?replaced + pr_native_bytes p \<le> MAX_RETAINED_NATIVE_BYTES"
    using r Inr ex by (auto simp: register_component_def Let_def split: if_splits)
  have "hm_total rc_native_bytes (hm_insert key ?rc (components st)) = native_bytes st - ?replaced + pr_native_bytes p"
  proof (cases "hm_get (components st) key")
    case None
    then show ?thesis using ok by (simp add: hm_total_insert_new registry_ok_def)
  next
    case (Some rc)
    then show ?thesis
      using ok ex(2) hm_total_insert_old [of "components st" key rc rc_native_bytes ?rc] by (simp add: registry_ok_def)
  qed
  then have "registry_ok st'"
    using ok st' bounds by (auto simp: registry_ok_def distinct_update hm_length_insert)
  then show ?thesis using Inr now st' by simp
qed

lemma registry_remove_ok:
  assumes "registry_ok st" "registry_remove a b c st = (r, st')"
  shows "registry_ok st' \<and> r = Inr () \<and> components st' = hm_remove (module_key a b c) (components st)"
proof (cases "hm_get (components st) (module_key a b c)")
  case None
  then have "hm_remove (module_key a b c) (components st) = components st"
    by (simp add: delete_id map_of_eq_None_iff)
  then show ?thesis using assms None by (auto simp: registry_remove_def registry_ok_def)
next
  case (Some rc)
  have wf: "hm_wf (components st)" using assms(1) by (simp add: registry_ok_def)
  have "rc_native_bytes rc + hm_total rc_native_bytes (hm_remove (module_key a b c) (components st)) = native_bytes st"
    using hm_total_remove [OF wf Some, of rc_native_bytes] assms(1) by (simp add: registry_ok_def)
  then show ?thesis
    using assms wf Some
    by (auto simp: registry_remove_def registry_ok_def wrap_sub_exact distinct_delete hm_length_remove)
qed

section \<open>Work of a task\<close>

lemma terminate_shape:
  assumes "prep_wf w"
  shows "prep_wf (fst (prep_terminate u at (w, m)))"
    and "ps_stage (fst (prep_terminate u at (w, m))) = Some Queued \<longleftrightarrow> ps_stage w = Some Queued"
    and "ps_compilation_started_at (fst (prep_terminate u at (w, m))) = ps_compilation_started_at w"
  using assms by (cases "ps_cancellation w"; auto simp: prep_terminate_def prep_wf_def Let_def split: if_splits)+

lemma activate_shape:
  assumes "prep_wf w" "ps_stage w = Some Queued"
  shows "prep_wf (fst (prep_activate (w, m))) \<and> ps_stage (fst (prep_activate (w, m))) = Some Preparing
    \<and> ps_compilation_started_at (fst (prep_activate (w, m))) = None"
  using assms by (auto simp: prep_activate_def prep_wf_def)

lemma compiling_shape:
  assumes "prep_wf w" "ps_stage w \<in> {Some Preparing, Some Terminating}"
  shows "prep_wf (fst (prep_compiling now (w, m))) \<and> ps_compilation_started_at (fst (prep_compiling now (w, m))) \<noteq> None
    \<and> ps_stage (fst (prep_compiling now (w, m))) \<noteq> Some Queued"
  using assms by (auto simp: prep_compiling_def prep_wf_def Let_def)

lemma compilation_finished_shape:
  assumes "prep_wf w" "ps_compilation_started_at w \<noteq> None"
  shows "prep_wf (fst (prep_compilation_finished u (w, m)))
    \<and> ps_compilation_started_at (fst (prep_compilation_finished u (w, m))) = None
    \<and> ps_stage (fst (prep_compilation_finished u (w, m))) \<in> {Some Preparing, Some Terminating}"
  using assms
  by (auto simp: prep_compilation_finished_def control_compilation_finished_def prep_wf_def Let_def split: option.splits)

lemma prep_finish_sel [simp]:
  "ps_stage (prep_finish u w) = ps_stage w"
  "ps_compilation_started_at (prep_finish u w) = ps_compilation_started_at w"
  by (simp_all add: prep_finish_def)

fun phase_shape :: "prep_phase \<Rightarrow> prep_state \<Rightarrow> bool" where
  "phase_shape Spawned w = (ps_stage w = Some Queued)"
| "phase_shape WaitActive w = (ps_stage w = Some Queued)"
| "phase_shape (InCompiler a b c) w = (ps_compilation_started_at w \<noteq> None)"
| "phase_shape _ w = (ps_stage w \<noteq> Some Queued \<and> ps_compilation_started_at w = None)"

definition task_ok :: "prep_task \<Rightarrow> bool" where
  "task_ok t \<longleftrightarrow> prep_wf (pt_work t) \<and> phase_shape (pt_phase t) (pt_work t)"

lemma task_ok_active:
  "task_ok t \<Longrightarrow> holds_active (pt_phase t) \<longleftrightarrow> ps_stage (pt_work t) \<noteq> Some Queued"
  "task_ok t \<Longrightarrow> ps_compilation_started_at (pt_work t) \<noteq> None \<Longrightarrow> holds_active (pt_phase t)"
  by (cases "pt_phase t"; auto simp: task_ok_def prep_wf_def)+

text \<open>A work state that has left the queue and is not compiling is being prepared or terminated.\<close>

lemma idle_stage:
  "prep_wf w \<Longrightarrow> ps_stage w \<noteq> Some Queued \<Longrightarrow> ps_compilation_started_at w = None \<Longrightarrow>
     ps_stage w \<in> {Some Preparing, Some Terminating}"
  by (cases "ps_stage w"; cases "the (ps_stage w)") (simp_all add: prep_wf_def)

lemma active_permits_add [simp]:
  "active_permits {#} = 0"
  "active_permits (add_mset t ts) = (if holds_active (pt_phase t) then Suc (active_permits ts) else active_permits ts)"
  by (simp_all add: active_permits_def)

lemma tasks_owners:
  assumes "\<forall>t \<in># ts. task_ok t"
  shows "size ts - staged Queued (image_mset pt_work ts) = active_permits ts
    \<and> staged Queued (image_mset pt_work ts) \<le> size ts \<and> compilations (image_mset pt_work ts) \<le> active_permits ts"
  using assms
proof (induction ts)
  case (add t ts)
  then have IH: "size ts - staged Queued (image_mset pt_work ts) = active_permits ts"
    "staged Queued (image_mset pt_work ts) \<le> size ts" "compilations (image_mset pt_work ts) \<le> active_permits ts"
    and t: "task_ok t" by simp_all
  then show ?case using task_ok_active [OF t] by auto
qed simp

lemma tasks_within:
  "\<forall>t \<in># ts. task_ok t \<Longrightarrow> size ts \<le> r \<Longrightarrow> active_permits ts \<le> a \<Longrightarrow> owners_within r a (image_mset pt_work ts)"
  using tasks_owners [of ts] by (simp add: owners_within_def)

section \<open>Permits\<close>

definition tasks_inv :: "prep_task multiset \<Rightarrow> bool" where
  "tasks_inv ts \<longleftrightarrow> (\<forall>t \<in># ts. task_ok t) \<and> size ts \<le> MAX_QUEUED_PREPARATIONS + 1 \<and> active_permits ts \<le> 1"

lemma tasks_inv_remove: "tasks_inv (add_mset t ts) \<Longrightarrow> tasks_inv ts"
  by (auto simp: tasks_inv_def split: if_splits)

lemma tasks_inv_replace:
  "tasks_inv (add_mset t ts) \<Longrightarrow> task_ok t' \<Longrightarrow> (holds_active (pt_phase t') \<longrightarrow> holds_active (pt_phase t)) \<Longrightarrow>
     tasks_inv (add_mset t' ts)"
  by (auto simp: tasks_inv_def split: if_splits)

lemma tasks_inv_member: "tasks_inv (add_mset t ts) \<Longrightarrow> task_ok t"
  by (simp add: tasks_inv_def)

lemma tasks_inv_within: "tasks_inv ts \<Longrightarrow> owners_within (Suc MAX_QUEUED_PREPARATIONS) (Suc 0) (image_mset pt_work ts)"
  using tasks_within [of ts] by (simp add: tasks_inv_def)

lemma expire_shape:
  assumes "prep_wf w"
  shows "prep_wf (fst (expire now d (w, m)))"
    and "ps_stage (fst (expire now d (w, m))) = Some Queued \<longleftrightarrow> ps_stage w = Some Queued"
    and "ps_compilation_started_at (fst (expire now d (w, m))) = ps_compilation_started_at w"
  using terminate_shape [OF assms] assms by (simp_all add: expire_def)

lemma compile_begin_shape:
  assumes "prep_wf w" "ps_stage w \<noteq> Some Queued" "ps_compilation_started_at w = None"
  shows "prep_wf (fst (compile_begin now d (w, m))) \<and> ps_compilation_started_at (fst (compile_begin now d (w, m))) \<noteq> None"
proof -
  let ?sm = "expire now d (w, m)"
  have "ps_stage (fst ?sm) \<in> {Some Preparing, Some Terminating}"
    by (rule idle_stage) (insert expire_shape [OF assms(1)] assms, simp_all)
  then show ?thesis
    using compiling_shape [of "fst ?sm" now "snd ?sm"] expire_shape(1) [OF assms(1)] by (simp add: compile_begin_def)
qed

lemma compile_end_eq:
  "compile_end now d compiled sm =
     (let (w, m) = prep_compilation_finished (case compiled of Inr _ \<Rightarrow> PrepSuccess | Inl _ \<Rightarrow> PrepError) (expire now d sm)
      in (case compiled of Inl _ \<Rightarrow> w | Inr _ \<Rightarrow> prep_finish PrepCancelled w, m))"
  by (simp add: compile_end_def Let_def split: sum.split prod.split)

lemma compile_end_shape:
  assumes "prep_wf w" "ps_compilation_started_at w \<noteq> None"
  shows "prep_wf (fst (compile_end now d compiled (w, m)))
    \<and> ps_stage (fst (compile_end now d compiled (w, m))) \<noteq> Some Queued
    \<and> ps_compilation_started_at (fst (compile_end now d compiled (w, m))) = None"
proof -
  let ?sm = "expire now d (w, m)" and ?u = "case compiled of Inr _ \<Rightarrow> PrepSuccess | Inl _ \<Rightarrow> PrepError"
  obtain w1 m1 where 1: "prep_compilation_finished ?u ?sm = (w1, m1)" by fastforce
  have "prep_wf w1 \<and> ps_compilation_started_at w1 = None \<and> ps_stage w1 \<in> {Some Preparing, Some Terminating}"
    using compilation_finished_shape [of "fst ?sm" ?u "snd ?sm"] expire_shape [OF assms(1), of now d m] assms(2) 1 by simp
  then show ?thesis by (auto simp: compile_end_eq 1 finish_balanced(2) split: sum.split)
qed

lemma task_ok_compiling: "task_ok t \<Longrightarrow> pt_phase t = InCompiler a b c \<Longrightarrow> ps_compilation_started_at (pt_work t) \<noteq> None"
  by (simp add: task_ok_def)

fun in_compiler :: "prep_phase \<Rightarrow> bool" where
  "in_compiler (InCompiler a b c) = True"
| "in_compiler _ = False"

lemma task_ok_idle:
  "task_ok t \<Longrightarrow> holds_active (pt_phase t) \<Longrightarrow> \<not> in_compiler (pt_phase t) \<Longrightarrow>
     ps_stage (pt_work t) \<noteq> Some Queued \<and> ps_compilation_started_at (pt_work t) = None"
  by (cases "pt_phase t") (simp_all add: task_ok_def)

lemma task_ok_wf: "task_ok t \<Longrightarrow> prep_wf (pt_work t)"
  by (simp add: task_ok_def)

lemma submit_end_tasks:
  assumes "tasks_inv (ms_tasks s)" "r = Done Acquired \<Longrightarrow> size (ms_tasks s) < MAX_QUEUED_PREPARATIONS + 1"
  shows "tasks_inv (ms_tasks (snd (submit_end r key ref s)))"
proof (cases "r = Done Acquired")
  case True
  obtain w m where w: "submission_admitted \<lparr>sub_outcome = ''cancelled'', sub_completed = False\<rparr> (ms_metrics s) = (w, m)"
    by fastforce
  then have "prep_wf w \<and> ps_stage w = Some Queued" by (auto simp: submission_admitted_def Let_def prep_wf_def)
  then show ?thesis using assms True w by (auto simp: submit_end_def Let_def tasks_inv_def task_ok_def)
next
  case False
  then have "ms_tasks (snd (submit_end r key ref s)) = ms_tasks s"
    by (auto simp: submit_end_def Let_def split: timed.split acquired.split)
  then show ?thesis using assms(1) by simp
qed

lemma task_moves_sel [simp]:
  "ms_tasks (task_moves ts t sm s) = add_mset (t\<lparr>pt_work := fst sm\<rparr>) ts"
  "ms_metrics (task_moves ts t sm s) = snd sm"
  "ms_registry (task_moves ts t sm s) = ms_registry s"
  "ms_waiting (task_moves ts t sm s) = ms_waiting s"
  "ms_admitted (task_moves ts t sm s) = ms_admitted s"
  "ms_now (task_moves ts t sm s) = ms_now s"
  by (simp_all add: task_moves_def)

lemma task_ends_sel [simp]:
  "ms_tasks (task_ends ts b sm s) = ts"
  "ms_metrics (task_ends ts b sm s) = snd (prep_drop b sm)"
  "ms_registry (task_ends ts b sm s) = ms_registry s"
  "ms_waiting (task_ends ts b sm s) = ms_waiting s"
  "ms_admitted (task_ends ts b sm s) = ms_admitted s"
  "ms_now (task_ends ts b sm s) = ms_now s"
  by (simp_all add: task_ends_def)

lemma record_compilation_sel [simp]:
  "ms_tasks (record_compilation a b r s) = ms_tasks s"
  "ms_metrics (record_compilation a b r s) = ms_metrics s"
  "ms_registry (record_compilation a b r s) = ms_registry s"
  "ms_waiting (record_compilation a b r s) = ms_waiting s"
  "ms_admitted (record_compilation a b r s) = ms_admitted s"
  "ms_now (record_compilation a b r s) = ms_now s"
  by (simp_all add: record_compilation_def)

lemma task_gives_up_tasks:
  assumes "tasks_inv (add_mset t ts)"
  shows "tasks_inv (ms_tasks (task_gives_up u at ts t s))"
proof (cases "in_future (pt_phase t)")
  case True
  then show ?thesis using tasks_inv_remove [OF assms] by (simp add: task_gives_up_def Let_def)
next
  case False
  have ok: "task_ok t" using assms by (rule tasks_inv_member)
  have "phase_shape (pt_phase t) (fst (prep_terminate u at (pt_work t, ms_metrics s)))"
    using ok terminate_shape [OF task_ok_wf [OF ok], of u at "ms_metrics s"]
    by (cases "pt_phase t") (simp_all add: task_ok_def)
  then have "task_ok (t\<lparr>pt_waiting := False, pt_work := fst (prep_terminate u at (pt_work t, ms_metrics s))\<rparr>)"
    using terminate_shape(1) [OF task_ok_wf [OF ok]] by (simp add: task_ok_def)
  then show ?thesis using False tasks_inv_replace [OF assms] by (simp add: task_gives_up_def Let_def)
qed

lemma task_registers_tasks:
  assumes "tasks_inv (add_mset t ts)" "pt_phase t = Compiled p"
  shows "tasks_inv (ms_tasks (task_registers later ts t p s))"
proof -
  have ok: "task_ok t" using assms(1) by (rule tasks_inv_member)
  have "task_ok (t\<lparr>pt_phase := Writing\<rparr>)" using ok assms(2) by (simp add: task_ok_def)
  then have "tasks_inv (add_mset (t\<lparr>pt_phase := Writing\<rparr>) ts)" using tasks_inv_replace [OF assms(1)] assms(2) by simp
  then show ?thesis
    using tasks_inv_remove [OF assms(1)]
    by (auto simp: task_registers_def Let_def split: sum.split prod.split option.split)
qed

lemma task_compiled_tasks:
  assumes "tasks_inv (add_mset t ts)" "pt_phase t = InCompiler a w miss"
  shows "tasks_inv (ms_tasks (task_compiled cc ts t a w miss s))"
proof (cases "compile_module cc w")
  case Inl
  then show ?thesis using tasks_inv_remove [OF assms(1)] by (simp add: task_compiled_def Let_def)
next
  case (Inr cn)
  have ok: "task_ok t" using assms(1) by (rule tasks_inv_member)
  note sh = compile_end_shape [OF task_ok_wf [OF ok] task_ok_compiling [OF ok assms(2)], of "ms_now s" "pt_deadline t" "Inr cn" "ms_metrics s"]
  have "task_ok (t\<lparr>pt_phase := Compiled p, pt_work := fst (compile_end (ms_now s) (pt_deadline t) (Inr cn) (pt_work t, ms_metrics s))\<rparr>)" for p
    using sh by (simp add: task_ok_def)
  then show ?thesis
    using Inr assms(2) tasks_inv_replace [OF assms(1)] by (cases cn) (simp add: task_compiled_def Let_def)
qed

lemma prep_task_step_tasks:
  assumes "prep_task_step sem env src cc s s'" "tasks_inv (ms_tasks s)"
    and sem: "\<And>capacity held. sem_admits sem capacity held \<longleftrightarrow> held < capacity"
  shows "tasks_inv (ms_tasks s')"
  using assms(1)
proof cases
  case (pt_begin t ts)
  then have inv: "tasks_inv (add_mset t ts)" using assms(2) by simp
  have "task_ok (t\<lparr>pt_phase := WaitActive, pt_work := prep_finish PrepError (pt_work t)\<rparr>)"
    using tasks_inv_member [OF inv] pt_begin by (simp add: task_ok_def finish_balanced(2))
  then show ?thesis using pt_begin tasks_inv_replace [OF inv] by simp
next
  case (pt_activate t ts)
  then have inv: "tasks_inv (add_mset t ts)" using assms(2) by simp
  have ok: "prep_wf (pt_work t)" "ps_stage (pt_work t) = Some Queued"
    using tasks_inv_member [OF inv] pt_activate by (simp_all add: task_ok_def)
  have "task_ok (t\<lparr>pt_phase := Fetching, pt_work := fst (prep_activate (pt_work t, ms_metrics s))\<rparr>)"
    using activate_shape [OF ok] by (simp add: task_ok_def)
  moreover have "active_permits ts = 0" using pt_activate by (simp add: sem)
  ultimately show ?thesis using pt_activate inv by (simp add: tasks_inv_def)
next
  case (pt_fetched t ts manifest_get cache pull_get artifact wasm miss)
  then have inv: "tasks_inv (add_mset t ts)" using assms(2) by simp
  have "task_ok (t\<lparr>pt_phase := Handed artifact wasm miss\<rparr>)"
    using tasks_inv_member [OF inv] pt_fetched by (simp add: task_ok_def)
  then show ?thesis using pt_fetched tasks_inv_replace [OF inv] by simp
next
  case (pt_compile t ts artifact wasm miss)
  then have inv: "tasks_inv (add_mset t ts)" using assms(2) by simp
  have ok: "prep_wf (pt_work t)" "ps_stage (pt_work t) \<noteq> Some Queued" "ps_compilation_started_at (pt_work t) = None"
    using tasks_inv_member [OF inv] pt_compile by (simp_all add: task_ok_def)
  have "task_ok (t\<lparr>pt_phase := InCompiler artifact wasm miss,
      pt_work := fst (compile_begin (ms_now s) (pt_deadline t) (pt_work t, ms_metrics s))\<rparr>)"
    using compile_begin_shape [OF ok] by (simp add: task_ok_def)
  then show ?thesis using pt_compile tasks_inv_replace [OF inv] by simp
qed (insert assms(2), auto simp: task_gives_up_tasks task_registers_tasks task_compiled_tasks intro: tasks_inv_remove)

lemma module_env_step_tasks:
  assumes "module_env_step sem s s'" "tasks_inv (ms_tasks s)"
    and sem: "\<And>capacity held. sem_admits sem capacity held \<longleftrightarrow> held < capacity"
  shows "tasks_inv (ms_tasks s')"
  using assms(1)
proof cases
  case (ms_admit n key ref)
  then show ?thesis using assms(2) submit_end_tasks by (simp add: sem)
next
  case (ms_refuse n r key ref)
  then show ?thesis using assms(2) submit_end_tasks [of s r key ref] by simp
qed (insert assms(2), simp_all add: submit_begin_def submit_drop_def)

section \<open>The ledger of the registry\<close>

abbreviation prep_bstep :: "prep_ledger \<Rightarrow> prep_ledger \<Rightarrow> bool" where
  "prep_bstep \<equiv> prep_bounded_step (Suc MAX_QUEUED_PREPARATIONS) (Suc 0)"

abbreviation works_within :: "prep_state multiset \<Rightarrow> bool" where
  "works_within \<equiv> owners_within (Suc MAX_QUEUED_PREPARATIONS) (Suc 0)"

definition mod_abs :: "module_sys \<Rightarrow> prep_ledger" where
  "mod_abs s = \<lparr>pl = ms_metrics s, pl_waiting = ms_waiting s, pl_works = image_mset pt_work (ms_tasks s)\<rparr>"

text \<open>The ledger with one work singled out.\<close>

definition led_of :: "nat \<Rightarrow> prep_state multiset \<Rightarrow> prep_state \<times> prep_metrics \<Rightarrow> prep_ledger" where
  "led_of n ws sm = \<lparr>pl = snd sm, pl_waiting = n, pl_works = add_mset (fst sm) ws\<rparr>"

lemma owners_within_change:
  "owners_within r a (add_mset w ws) \<Longrightarrow> (ps_stage w' = Some Queued \<longleftrightarrow> ps_stage w = Some Queued) \<Longrightarrow>
     (ps_compilation_started_at w' \<noteq> None \<longrightarrow> ps_compilation_started_at w \<noteq> None) \<Longrightarrow> owners_within r a (add_mset w' ws)"
  by (auto simp: owners_within_def split: if_splits)

lemma staged_le: "staged st ps \<le> size ps"
  by (simp add: staged_def size_filter_mset_lesseq)

lemma owners_within_less: "owners_within r a (add_mset w ws) \<Longrightarrow> owners_within r a ws"
  using staged_le [of Queued ws] by (auto simp: owners_within_def split: if_splits)

lemma led_terminate:
  assumes "works_within (add_mset (fst sm) ws)" "prep_wf (fst sm)"
  shows "prep_bstep (led_of n ws sm) (led_of n ws (prep_terminate u at sm))"
proof -
  obtain w m where sm: "sm = (w, m)" by fastforce
  have "prep_ledger_step (led_of n ws sm) (led_of n ws (prep_terminate u at sm))"
    using prep_ledger_step.pl_terminate [of "led_of n ws sm" w ws u at "fst (prep_terminate u at sm)" "snd (prep_terminate u at sm)"]
    by (simp add: led_of_def sm)
  moreover have "works_within (add_mset (fst (prep_terminate u at sm)) ws)"
    by (rule owners_within_change [OF assms(1)]) (insert terminate_shape [of w u at m] assms(2), simp_all add: sm)
  ultimately show ?thesis by (simp add: prep_bounded_step_def led_of_def)
qed

lemma led_expire:
  assumes "works_within (add_mset (fst sm) ws)" "prep_wf (fst sm)"
  shows "prep_bstep\<^sup>*\<^sup>* (led_of n ws sm) (led_of n ws (expire now d sm))"
  using led_terminate [OF assms] by (auto simp: expire_def)

lemma led_finish:
  assumes "works_within (add_mset w ws)"
  shows "prep_bstep (led_of n ws (w, m)) (led_of n ws (prep_finish u w, m))"
proof -
  have "prep_ledger_step (led_of n ws (w, m)) (led_of n ws (prep_finish u w, m))"
    using prep_ledger_step.pl_finish [of "led_of n ws (w, m)" w ws u] by (simp add: led_of_def)
  moreover have "works_within (add_mset (prep_finish u w) ws)" by (rule owners_within_change [OF assms]) simp_all
  ultimately show ?thesis by (simp add: prep_bounded_step_def led_of_def)
qed

lemma led_drop:
  assumes "works_within (add_mset (fst sm) ws)"
  shows "prep_bstep (led_of n ws sm) \<lparr>pl = snd (prep_drop b sm), pl_waiting = n, pl_works = ws\<rparr>"
proof -
  obtain w m where sm: "sm = (w, m)" by fastforce
  have "prep_ledger_step (led_of n ws sm) \<lparr>pl = snd (prep_drop b sm), pl_waiting = n, pl_works = ws\<rparr>"
    using prep_ledger_step.pl_drop [of "led_of n ws sm" w ws b "fst (prep_drop b sm)" "snd (prep_drop b sm)"]
    by (simp add: led_of_def sm)
  then show ?thesis using owners_within_less [OF assms] by (simp add: prep_bounded_step_def)
qed

lemma led_activate:
  assumes "works_within (add_mset (fst (prep_activate (w, m))) ws)" "ps_stage w = Some Queued"
  shows "prep_bstep (led_of n ws (w, m)) (led_of n ws (prep_activate (w, m)))"
  using assms prep_ledger_step.pl_activate [of "led_of n ws (w, m)" w ws "fst (prep_activate (w, m))" "snd (prep_activate (w, m))"]
  by (simp add: led_of_def prep_bounded_step_def)

lemma led_compile_begin:
  assumes within: "works_within (add_mset w ws)" "works_within (add_mset (fst (compile_begin now d (w, m))) ws)"
    and w: "prep_wf w" "ps_stage w \<noteq> Some Queued" "ps_compilation_started_at w = None"
  shows "prep_bstep\<^sup>*\<^sup>* (led_of n ws (w, m)) (led_of n ws (compile_begin now d (w, m)))"
proof -
  let ?sm = "expire now d (w, m)"
  have 1: "prep_bstep\<^sup>*\<^sup>* (led_of n ws (w, m)) (led_of n ws ?sm)" using within(1) w(1) by (intro led_expire) simp_all
  have "ps_stage (fst ?sm) \<in> {Some Preparing, Some Terminating}"
    by (rule idle_stage) (insert expire_shape [OF w(1)] w, simp_all)
  then have "prep_ledger_step (led_of n ws ?sm) (led_of n ws (prep_compiling now ?sm))"
    using prep_ledger_step.pl_compiling [of "led_of n ws ?sm" "fst ?sm" ws now "fst (prep_compiling now ?sm)" "snd (prep_compiling now ?sm)"]
      expire_shape(3) [OF w(1), of now d m] w(3) by (simp add: led_of_def)
  then have "prep_bstep (led_of n ws ?sm) (led_of n ws (compile_begin now d (w, m)))"
    using within(2) by (simp add: prep_bounded_step_def led_of_def compile_begin_def)
  with 1 show ?thesis by (rule rtranclp.rtrancl_into_rtrancl)
qed

lemma led_compile_end:
  assumes within: "works_within (add_mset w ws)" and w: "prep_wf w" "ps_compilation_started_at w \<noteq> None"
  shows "prep_bstep\<^sup>*\<^sup>* (led_of n ws (w, m)) (led_of n ws (compile_end now d compiled (w, m)))"
proof -
  let ?sm = "expire now d (w, m)" and ?u = "case compiled of Inr _ \<Rightarrow> PrepSuccess | Inl _ \<Rightarrow> PrepError"
  obtain w1 m1 where f: "prep_compilation_finished ?u ?sm = (w1, m1)" by fastforce
  have 1: "prep_bstep\<^sup>*\<^sup>* (led_of n ws (w, m)) (led_of n ws ?sm)" using within(1) w(1) by (intro led_expire) simp_all
  note sh = expire_shape [OF w(1), of now d m]
  have st: "ps_stage (fst ?sm) \<noteq> Some Queued" using sh w by (auto simp: prep_wf_def)
  have w1: "ps_stage w1 \<noteq> Some Queued" "ps_compilation_started_at w1 = None"
    using compilation_finished_shape [of "fst ?sm" ?u "snd ?sm"] sh w(2) f by auto
  have in1: "works_within (add_mset w1 ws)"
    by (rule owners_within_change [OF within]) (insert w1 st sh, simp_all)
  have "prep_ledger_step (led_of n ws ?sm) (led_of n ws (w1, m1))"
    using prep_ledger_step.pl_compiled [of "led_of n ws ?sm" "fst ?sm" ws ?u w1 m1] sh(3) w(2) f by (simp add: led_of_def)
  then have 2: "prep_bstep (led_of n ws ?sm) (led_of n ws (w1, m1))"
    using in1 by (simp add: prep_bounded_step_def led_of_def)
  have 3: "prep_bstep\<^sup>*\<^sup>* (led_of n ws (w1, m1)) (led_of n ws (compile_end now d compiled (w, m)))"
    using led_finish [OF in1, of n m1 PrepCancelled] f by (cases compiled) (auto simp: compile_end_eq)
  from rtranclp_trans [OF rtranclp.rtrancl_into_rtrancl [OF 1 2] 3] show ?thesis .
qed

lemma mod_abs_task: "ms_tasks s = add_mset t ts \<Longrightarrow> mod_abs s = led_of (ms_waiting s) (image_mset pt_work ts) (pt_work t, ms_metrics s)"
  by (simp add: mod_abs_def led_of_def)

lemma mod_abs_moves:
  "mod_abs (task_moves ts t sm s) = led_of (ms_waiting s) (image_mset pt_work ts) sm"
  "mod_abs (task_ends ts b sm s) = \<lparr>pl = snd (prep_drop b sm), pl_waiting = ms_waiting s, pl_works = image_mset pt_work ts\<rparr>"
  by (simp_all add: mod_abs_def led_of_def)

lemma mod_abs_frame [simp]:
  "mod_abs (s\<lparr>ms_now := n\<rparr>) = mod_abs s"
  "mod_abs (s\<lparr>ms_registry := st\<rparr>) = mod_abs s"
  "mod_abs (record_compilation a b r s) = mod_abs s"
  by (simp_all add: mod_abs_def)

lemma task_within:
  "tasks_inv (add_mset t ts) \<Longrightarrow> works_within (add_mset (pt_work t) (image_mset pt_work ts))"
  using tasks_inv_within [of "add_mset t ts"] by simp

lemma gives_up_sim:
  assumes "ms_tasks s = add_mset t ts" "tasks_inv (add_mset t ts)"
  shows "prep_bstep\<^sup>*\<^sup>* (mod_abs s) (mod_abs (task_gives_up u at ts t s))"
proof -
  let ?sm = "prep_terminate u at (pt_work t, ms_metrics s)" and ?ws = "image_mset pt_work ts" and ?n = "ms_waiting s"
  have wf: "prep_wf (pt_work t)" using tasks_inv_member [OF assms(2)] by (rule task_ok_wf)
  have 1: "prep_bstep (led_of ?n ?ws (pt_work t, ms_metrics s)) (led_of ?n ?ws ?sm)"
    using task_within [OF assms(2)] wf by (intro led_terminate) simp_all
  then have "works_within (add_mset (fst ?sm) ?ws)" by (simp add: prep_bounded_step_def led_of_def)
  from led_drop [OF this] 1 show ?thesis
    unfolding mod_abs_task [OF assms(1)] task_gives_up_def Let_def
    by (auto simp: mod_abs_moves intro: rtranclp.rtrancl_into_rtrancl)
qed

lemma finish_drop_sim:
  assumes "works_within (add_mset w ws)"
  shows "prep_bstep\<^sup>*\<^sup>* (led_of n ws (w, m)) \<lparr>pl = snd (prep_drop b (prep_finish u w, m)), pl_waiting = n, pl_works = ws\<rparr>"
proof -
  have 1: "prep_bstep (led_of n ws (w, m)) (led_of n ws (prep_finish u w, m))" using assms by (rule led_finish)
  then have "works_within (add_mset (fst (prep_finish u w, m)) ws)" by (simp add: prep_bounded_step_def led_of_def)
  from led_drop [OF this] 1 show ?thesis by (meson converse_rtranclp_into_rtranclp r_into_rtranclp)
qed

lemma ends_sim:
  assumes "ms_tasks s = add_mset t ts" "tasks_inv (add_mset t ts)"
  shows "prep_bstep\<^sup>*\<^sup>* (mod_abs s) (mod_abs (task_ends ts b (pt_work t, ms_metrics s) s))"
  using led_drop [of "(pt_work t, ms_metrics s)" "image_mset pt_work ts" "ms_waiting s" b] task_within [OF assms(2)]
  unfolding mod_abs_task [OF assms(1)] mod_abs_moves by (simp add: r_into_rtranclp)

lemma registers_sim:
  assumes s: "ms_tasks s = add_mset t ts" and inv: "tasks_inv (add_mset t ts)"
  shows "prep_bstep\<^sup>*\<^sup>* (mod_abs s) (mod_abs (task_registers later ts t p s))"
proof -
  let ?ws = "image_mset pt_work ts" and ?n = "ms_waiting s"
  have wf: "prep_wf (pt_work t)" using tasks_inv_member [OF inv] by (rule task_ok_wf)
  note within = task_within [OF inv]
  obtain w m where e: "expire later (pt_deadline t) (pt_work t, ms_metrics s) = (w, m)" by fastforce
  have 1: "prep_bstep\<^sup>*\<^sup>* (led_of ?n ?ws (pt_work t, ms_metrics s)) (led_of ?n ?ws (w, m))"
    using led_expire [of "(pt_work t, ms_metrics s)" ?ws ?n later "pt_deadline t"] within wf e by simp
  have "works_within (add_mset w ?ws)"
    by (rule owners_within_change [OF within]) (insert expire_shape [OF wf, of later "pt_deadline t" "ms_metrics s"] e, simp_all)
  note 2 = rtranclp_trans [OF 1 finish_drop_sim [OF this]]
  show ?thesis
    unfolding mod_abs_task [OF s] task_registers_def
    using 2 finish_drop_sim [OF within]
    by (auto simp: e mod_abs_moves split: sum.split prod.split option.split)
qed

lemma compiled_sim:
  assumes s: "ms_tasks s = add_mset t ts" and inv: "tasks_inv (add_mset t ts)" and ph: "pt_phase t = InCompiler a wasm miss"
  shows "prep_bstep\<^sup>*\<^sup>* (mod_abs s) (mod_abs (task_compiled cc ts t a wasm miss s))"
proof -
  let ?ws = "image_mset pt_work ts" and ?n = "ms_waiting s" and ?c = "compile_module cc wasm"
  let ?sm = "compile_end (ms_now s) (pt_deadline t) ?c (pt_work t, ms_metrics s)"
  have ok: "task_ok t" using inv by (rule tasks_inv_member)
  note w = task_ok_wf [OF ok] task_ok_compiling [OF ok ph]
  have 1: "prep_bstep\<^sup>*\<^sup>* (led_of ?n ?ws (pt_work t, ms_metrics s)) (led_of ?n ?ws ?sm)"
    using task_within [OF inv] w by (rule led_compile_end)
  have "ps_stage (pt_work t) \<noteq> Some Queued" using w by (auto simp: prep_wf_def)
  then have "works_within (add_mset (fst ?sm) ?ws)"
    using compile_end_shape [OF w, of "ms_now s" "pt_deadline t" ?c "ms_metrics s"]
    by (intro owners_within_change [OF task_within [OF inv]]) simp_all
  note 2 = rtranclp.rtrancl_into_rtrancl [OF 1 led_drop [OF this]]
  show ?thesis
    unfolding mod_abs_task [OF s] task_compiled_def Let_def
    using 1 2 by (cases ?c) (auto simp: mod_abs_moves split: prod.split)
qed

lemma prep_task_step_sim:
  assumes step: "prep_task_step sem env src cc s s'" and inv: "tasks_inv (ms_tasks s)" and inv': "tasks_inv (ms_tasks s')"
  shows "prep_bstep\<^sup>*\<^sup>* (mod_abs s) (mod_abs s')"
  using step
proof cases
  case (pt_begin t ts)
  then show ?thesis using led_finish [OF task_within] inv by (simp add: mod_abs_task mod_abs_moves r_into_rtranclp)
next
  case (pt_activate t ts)
  then have q: "ps_stage (pt_work t) = Some Queued" using inv by (simp add: tasks_inv_def task_ok_def)
  have "works_within (add_mset (fst (prep_activate (pt_work t, ms_metrics s))) (image_mset pt_work ts))"
    using tasks_inv_within [OF inv'] pt_activate by simp
  from led_activate [OF this q] show ?thesis
    using pt_activate by (simp add: mod_abs_task mod_abs_moves r_into_rtranclp)
next
  case (pt_compile t ts a wasm miss)
  then have ok: "task_ok t" using inv by (simp add: tasks_inv_def)
  then have w: "prep_wf (pt_work t)" "ps_stage (pt_work t) \<noteq> Some Queued" "ps_compilation_started_at (pt_work t) = None"
    using pt_compile by (simp_all add: task_ok_def)
  have "works_within (add_mset (fst (compile_begin (ms_now s) (pt_deadline t) (pt_work t, ms_metrics s))) (image_mset pt_work ts))"
    using tasks_inv_within [OF inv'] pt_compile by simp
  from led_compile_begin [OF _ this w] show ?thesis
    using pt_compile inv task_within [of t ts] by (simp add: mod_abs_task mod_abs_moves)
next
  case (pt_fetched t ts g c h a wasm miss)
  then show ?thesis by (simp add: mod_abs_task mod_abs_moves)
next
  case (pt_compiled t ts a wasm miss)
  then show ?thesis using compiled_sim inv by simp
next
  case (pt_register t ts p later)
  then show ?thesis using registers_sim inv by simp
next
  case (pt_written t ts)
  then show ?thesis using finish_drop_sim [OF task_within] inv by (simp add: mod_abs_task mod_abs_moves)
qed (insert inv, simp_all add: gives_up_sim ends_sim)

lemma submit_end_refused:
  assumes "r \<noteq> Done Acquired"
  shows "\<exists>x. x \<noteq> ''admitted'' \<and> snd (submit_end r key ref s) =
    s\<lparr>ms_waiting := ms_waiting s - 1, ms_metrics := submission_drop \<lparr>sub_outcome = x, sub_completed = False\<rparr> (ms_metrics s)\<rparr>"
proof (cases r)
  case (Done q)
  then have "q = Closed" using assms by (cases q) simp_all
  with Done show ?thesis
    by (intro exI [of _ "''closed''"]) (simp add: submit_end_def Let_def submission_closed_def)
next
  case Elapsed
  then show ?thesis
    by (intro exI [of _ "''timeout''"]) (simp add: submit_end_def Let_def submission_timed_out_def)
qed

lemma module_env_step_sim:
  assumes step: "module_env_step sem s s'" and inv: "tasks_inv (ms_tasks s)" "tasks_inv (ms_tasks s')"
  shows "prep_bstep\<^sup>*\<^sup>* (mod_abs s) (mod_abs s')"
  using step
proof cases
  case ms_submit
  then have "prep_bstep (mod_abs s) (mod_abs s')"
    using prep_ledger_step.pl_submission [of "mod_abs s"] tasks_inv_within [OF inv(1)]
    by (simp add: prep_bounded_step_def mod_abs_def submit_begin_def)
  then show ?thesis by blast
next
  case (ms_admit n key ref)
  obtain w m where w: "submission_admitted \<lparr>sub_outcome = ''cancelled'', sub_completed = False\<rparr> (ms_metrics s) = (w, m)"
    by fastforce
  then have "prep_bstep (mod_abs s) (mod_abs s')"
    using prep_ledger_step.pl_admitted [of "mod_abs s" n _ w m] tasks_inv_within [OF inv(2)] ms_admit
    by (auto simp: prep_bounded_step_def mod_abs_def submit_end_def Let_def)
  then show ?thesis by blast
next
  case (ms_refuse n r key ref)
  then obtain x where "x \<noteq> ''admitted''" "ms_metrics s' = submission_drop \<lparr>sub_outcome = x, sub_completed = False\<rparr> (ms_metrics s)"
    "ms_waiting s' = n" "ms_tasks s' = ms_tasks s"
    using submit_end_refused [OF ms_refuse(3), of key ref s] by auto
  then have "prep_bstep (mod_abs s) (mod_abs s')"
    using prep_ledger_step.pl_abandoned [of "mod_abs s" n "\<lparr>sub_outcome = x, sub_completed = False\<rparr>"] tasks_inv_within [OF inv(1)] ms_refuse
    by (simp add: prep_bounded_step_def mod_abs_def)
  then show ?thesis by blast
next
  case (ms_submit_drop n)
  then have "prep_bstep (mod_abs s) (mod_abs s')"
    using prep_ledger_step.pl_abandoned [of "mod_abs s" n "\<lparr>sub_outcome = ''cancelled'', sub_completed = False\<rparr>"] tasks_inv_within [OF inv(1)]
    by (simp add: prep_bounded_step_def mod_abs_def submit_drop_def)
  then show ?thesis by blast
qed simp_all

end
