(* ===== verification/ModuleProperties.thy ===== *)
theory ModuleProperties
  imports ModuleSafety
begin

text \<open>
  The properties of the module registry over all interleavings: budgets and accounting, where each
  registered component comes from, the deadline of a registration, the end of every preparation,
  and what a removal does not stop.
\<close>

section \<open>Where a component comes from\<close>

definition fetched :: "oci_env \<Rightarrow> oci_source \<Rightarrow> string \<Rightarrow> wasm_artifact \<Rightarrow> bytes \<Rightarrow> bool" where
  "fetched env src ref artifact wasm \<longleftrightarrow>
     (\<exists>http_get. manifest env http_get src ref = Inr artifact) \<and> validate_bytes (env_hash env) artifact wasm = Inr ()"

lemma prepare_bytes_fetched:
  "prepare_bytes env src manifest_get cache pull_get ref = Inr (artifact, wasm, miss) \<Longrightarrow> fetched env src ref artifact wasm"
  by (auto simp: prepare_bytes_def fetched_def Let_def split: sum.splits option.splits)

text \<open>The handle and the size of a component that was built for a key from an admitted reference.\<close>

definition built ::
  "oci_env \<Rightarrow> oci_source \<Rightarrow> compiler \<Rightarrow> (module_key \<times> string) set \<Rightarrow> module_key \<Rightarrow> component \<times> nat \<Rightarrow> bool" where
  "built env src cc admitted key cn \<longleftrightarrow>
     (\<exists>ref artifact wasm. (key, ref) \<in> admitted \<and> fetched env src ref artifact wasm \<and> compile_module cc wasm = Inr cn)"

fun phase_from :: "oci_env \<Rightarrow> oci_source \<Rightarrow> compiler \<Rightarrow> string \<Rightarrow> prep_phase \<Rightarrow> bool" where
  "phase_from env src cc ref (Handed artifact wasm miss) = fetched env src ref artifact wasm"
| "phase_from env src cc ref (InCompiler artifact wasm miss) = fetched env src ref artifact wasm"
| "phase_from env src cc ref (Compiled p) =
     (\<exists>artifact wasm. fetched env src ref artifact wasm \<and> compile_module cc wasm = Inr (pr_component p, pr_native_bytes p))"
| "phase_from env src cc ref ph = True"

definition task_from :: "oci_env \<Rightarrow> oci_source \<Rightarrow> compiler \<Rightarrow> (module_key \<times> string) set \<Rightarrow> prep_task \<Rightarrow> bool" where
  "task_from env src cc admitted t \<longleftrightarrow>
     (pt_key t, pt_ref t) \<in> admitted \<and> phase_from env src cc (pt_ref t) (pt_phase t) \<and>
     (in_future (pt_phase t) \<longrightarrow> pt_waiting t)"

definition module_inv :: "oci_env \<Rightarrow> oci_source \<Rightarrow> compiler \<Rightarrow> module_sys \<Rightarrow> bool" where
  "module_inv env src cc s \<longleftrightarrow>
     registry_ok (ms_registry s) \<and>
     (\<forall>k rc. hm_get (components (ms_registry s)) k = Some rc \<longrightarrow>
        built env src cc (ms_admitted s) k (rc_component rc, rc_native_bytes rc)) \<and>
     (\<forall>t \<in># ms_tasks s. task_from env src cc (ms_admitted s) t) \<and> tasks_inv (ms_tasks s)"

lemma built_mono: "built env src cc A k cn \<Longrightarrow> A \<subseteq> B \<Longrightarrow> built env src cc B k cn"
  by (auto simp: built_def)

lemma task_from_mono: "task_from env src cc A t \<Longrightarrow> A \<subseteq> B \<Longrightarrow> task_from env src cc B t"
  by (auto simp: task_from_def)

lemma compile_module_bounded: "compile_module cc wasm = Inr (c, n) \<Longrightarrow> n \<le> MAX_RETAINED_NATIVE_BYTES"
  by (auto simp: compile_module_def split: option.splits if_splits)

text \<open>The part of the invariant about the origin of components and tasks.\<close>

definition origin_inv :: "oci_env \<Rightarrow> oci_source \<Rightarrow> compiler \<Rightarrow> module_sys \<Rightarrow> bool" where
  "origin_inv env src cc s \<longleftrightarrow>
     registry_ok (ms_registry s) \<and>
     (\<forall>k rc. hm_get (components (ms_registry s)) k = Some rc \<longrightarrow>
        built env src cc (ms_admitted s) k (rc_component rc, rc_native_bytes rc)) \<and>
     (\<forall>t \<in># ms_tasks s. task_from env src cc (ms_admitted s) t)"

lemma module_inv_split: "module_inv env src cc s \<longleftrightarrow> origin_inv env src cc s \<and> tasks_inv (ms_tasks s)"
  by (auto simp: module_inv_def origin_inv_def)

lemma origin_frame:
  assumes "origin_inv env src cc s" "ms_registry s' = ms_registry s" "ms_admitted s' = ms_admitted s"
    and "\<forall>t \<in># ms_tasks s'. task_from env src cc (ms_admitted s) t"
  shows "origin_inv env src cc s'"
  using assms by (simp add: origin_inv_def)

lemma task_from_member:
  "origin_inv env src cc s \<Longrightarrow> ms_tasks s = add_mset t ts \<Longrightarrow> task_from env src cc (ms_admitted s) t"
  "origin_inv env src cc s \<Longrightarrow> ms_tasks s = add_mset t ts \<Longrightarrow> \<forall>t \<in># ts. task_from env src cc (ms_admitted s) t"
  by (simp_all add: origin_inv_def)

lemma ends_origin:
  assumes "origin_inv env src cc s" "ms_tasks s = add_mset t ts"
  shows "origin_inv env src cc (task_ends ts b sm s)"
  by (rule origin_frame [OF assms(1)]) (insert task_from_member(2) [OF assms], simp_all)

lemma moves_origin:
  assumes "origin_inv env src cc s" "ms_tasks s = add_mset t ts" "phase_from env src cc (pt_ref t) ph"
    and "pt_waiting t \<or> \<not> in_future ph"
  shows "origin_inv env src cc (task_moves ts (t\<lparr>pt_phase := ph\<rparr>) sm s)"
  by (rule origin_frame [OF assms(1)]) (insert task_from_member [OF assms(1,2)] assms(3,4), auto simp: task_from_def)

lemma gives_up_origin:
  assumes "origin_inv env src cc s" "ms_tasks s = add_mset t ts"
  shows "origin_inv env src cc (task_gives_up u at ts t s)"
  by (rule origin_frame [OF assms(1)])
    (insert task_from_member [OF assms], auto simp: task_gives_up_def Let_def task_from_def)

lemma registers_origin:
  assumes inv: "origin_inv env src cc s" and s: "ms_tasks s = add_mset t ts" and ph: "pt_phase t = Compiled p"
  shows "origin_inv env src cc (task_registers later ts t p s)"
proof -
  note t = task_from_member [OF inv s]
  obtain artifact wasm where "fetched env src (pt_ref t) artifact wasm" "compile_module cc wasm = Inr (pr_component p, pr_native_bytes p)"
    using t(1) ph by (auto simp: task_from_def)
  then have b: "built env src cc (ms_admitted s) (pt_key t) (pr_component p, pr_native_bytes p)"
    and n: "pr_native_bytes p \<le> MAX_RETAINED_NATIVE_BYTES"
    using t(1) compile_module_bounded [of cc wasm] by (auto simp: built_def task_from_def)
  obtain r st where r: "register_component (ms_now s) (pt_deadline t) (pt_key t) p (ms_registry s) = (r, st)" by fastforce
  have ok: "registry_ok (ms_registry s)" using inv by (simp add: origin_inv_def)
  note reg = register_component_ok [OF ok n r]
  have "origin_inv env src cc (s\<lparr>ms_registry := st\<rparr>)"
    using inv reg b by (cases r) (auto simp: origin_inv_def update_conv)
  moreover have "task_from env src cc (ms_admitted s) (t\<lparr>pt_phase := Writing\<rparr>)"
    using t(1) by (simp add: task_from_def)
  ultimately show ?thesis
    using t(2) s unfolding task_registers_def
    by (auto simp: r origin_inv_def split: sum.split option.split prod.split)
qed

lemma compiled_origin:
  assumes inv: "origin_inv env src cc s" and s: "ms_tasks s = add_mset t ts" and ph: "pt_phase t = InCompiler a wasm miss"
  shows "origin_inv env src cc (task_compiled cc ts t a wasm miss s)"
proof -
  note t = task_from_member [OF inv s]
  have f: "fetched env src (pt_ref t) a wasm" using t(1) ph by (simp add: task_from_def)
  show ?thesis
  proof (cases "compile_module cc wasm")
    case Inl
    then show ?thesis using t(2) inv by (intro origin_frame [OF inv]) (simp_all add: task_compiled_def Let_def)
  next
    case (Inr cn)
    then show ?thesis
      using t f inv by (intro origin_frame [OF inv]) (auto simp: task_compiled_def Let_def task_from_def split: prod.split)
  qed
qed

lemma prep_task_step_origin:
  assumes step: "prep_task_step sem env src cc s s'" and inv: "origin_inv env src cc s"
  shows "origin_inv env src cc s'"
  using step
proof cases
  case (pt_begin t ts)
  then show ?thesis using moves_origin [OF inv] by simp
next
  case (pt_activate t ts)
  then show ?thesis using moves_origin [OF inv] by simp
next
  case (pt_compile t ts a wasm miss)
  then have "phase_from env src cc (pt_ref t) (InCompiler a wasm miss)"
    using task_from_member(1) [OF inv] by (fastforce simp: task_from_def)
  then show ?thesis using pt_compile moves_origin [OF inv] by simp
next
  case (pt_fetched t ts g c h a wasm miss)
  then show ?thesis using moves_origin [OF inv] prepare_bytes_fetched by simp
next
  case (pt_compiled t ts a wasm miss)
  then show ?thesis using compiled_origin [OF inv] by simp
next
  case (pt_register t ts p later)
  then show ?thesis using registers_origin [OF inv] by simp
next
  case (pt_timed_out t ts)
  then show ?thesis using gives_up_origin [OF inv] by simp
next
  case (pt_cancelled t ts)
  then show ?thesis using gives_up_origin [OF inv] by simp
qed (simp_all add: ends_origin [OF inv])

lemma submit_end_registry [simp]: "ms_registry (snd (submit_end r key ref s)) = ms_registry s"
  by (simp add: submit_end_def Let_def split: timed.split acquired.split prod.split)

lemma submit_end_origin:
  assumes inv: "origin_inv env src cc s"
  shows "origin_inv env src cc (snd (submit_end r key ref s))"
proof (cases "r = Done Acquired")
  case True
  obtain w m where "submission_admitted \<lparr>sub_outcome = ''cancelled'', sub_completed = False\<rparr> (ms_metrics s) = (w, m)" by fastforce
  note w = this
  let ?B = "insert (key, ref) (ms_admitted s)" and ?t = "\<lparr>pt_key = key, pt_ref = ref, pt_deadline = ms_now s + PREPARATION_TIMEOUT,
    pt_phase = Spawned, pt_waiting = True, pt_work = w\<rparr>"
  have "task_from env src cc ?B ?t" by (simp add: task_from_def)
  moreover have "\<forall>t \<in># ms_tasks s. task_from env src cc ?B t"
    using inv task_from_mono [of env src cc "ms_admitted s" _ ?B] unfolding origin_inv_def by blast
  moreover have "\<forall>k rc. hm_get (components (ms_registry s)) k = Some rc \<longrightarrow> built env src cc ?B k (rc_component rc, rc_native_bytes rc)"
    using inv built_mono [of env src cc "ms_admitted s" _ _ ?B] unfolding origin_inv_def by blast
  ultimately show ?thesis
    using inv w True unfolding origin_inv_def submit_end_def Let_def by simp
next
  case False
  from submit_end_refused [OF this, of key ref s] show ?thesis using inv by (auto simp: origin_inv_def)
qed

lemma module_env_step_origin:
  assumes step: "module_env_step sem s s'" and inv: "origin_inv env src cc s"
  shows "origin_inv env src cc s'"
  using step
proof cases
  case (ms_remove a b c)
  obtain r st where r: "registry_remove a b c (ms_registry s) = (r, st)" by fastforce
  have "registry_ok (ms_registry s)" using inv by (simp add: origin_inv_def)
  from registry_remove_ok [OF this r] show ?thesis
    using inv ms_remove r by (auto simp: origin_inv_def delete_conv' split: if_splits)
qed (insert inv submit_end_origin [OF inv], simp_all add: origin_inv_def submit_begin_def submit_drop_def)

definition module_init :: "module_sys \<Rightarrow> bool" where
  "module_init s \<longleftrightarrow> (\<exists>parse_url ok base now. module_registry_new parse_url ok base now = Inr s)"

lemma module_init_eq:
  assumes "module_init s"
  shows "ms_registry s = registry_default \<and> ms_metrics s = prep_new (MAX_QUEUED_PREPARATIONS + 1) 1 \<and>
    ms_waiting s = 0 \<and> ms_tasks s = {#} \<and> ms_admitted s = {}"
proof -
  obtain parse_url ok base now where new: "module_registry_new parse_url ok base now = Inr s"
    using assms by (auto simp: module_init_def)
  then show ?thesis
    by (cases "cache_base_url parse_url ok base") (auto simp: module_registry_new_def)
qed

lemma module_init_inv:
  "module_init s \<Longrightarrow> module_inv env src cc s \<and> prep_ledger_init (Suc MAX_QUEUED_PREPARATIONS) (Suc 0) (mod_abs s)"
  using module_init_eq [of s]
  by (auto simp: module_inv_def tasks_inv_def mod_abs_def prep_ledger_init_def registry_default_def registry_ok_def)

sublocale semaphore_spec \<subseteq> preparing: simulation "prep_ledger_init (Suc MAX_QUEUED_PREPARATIONS) (Suc 0)" prep_bstep
    "prep_bounded_inv (Suc MAX_QUEUED_PREPARATIONS) (Suc 0)" module_init "module_step sem env src cc" "module_inv env src cc" mod_abs
  for env src cc
proof unfold_locales
  fix c c'
  show "module_init c \<Longrightarrow> module_inv env src cc c" "module_init c \<Longrightarrow> prep_ledger_init (Suc MAX_QUEUED_PREPARATIONS) (Suc 0) (mod_abs c)"
    using module_init_inv by blast+
  assume inv: "module_inv env src cc c" and step: "module_step sem env src cc c c'"
  have inv': "tasks_inv (ms_tasks c')"
    using inv step module_env_step_tasks [OF _ _ sem_admits_iff] prep_task_step_tasks [OF _ _ sem_admits_iff]
    by (auto simp: module_inv_split module_step_def)
  then show "module_inv env src cc c'"
    using inv step module_env_step_origin prep_task_step_origin by (auto simp: module_inv_split module_step_def)
  show "prep_bstep\<^sup>*\<^sup>* (mod_abs c) (mod_abs c')"
    using inv inv' step module_env_step_sim prep_task_step_sim by (auto simp: module_inv_split module_step_def)
qed

context semaphore_spec
begin

lemma registry_reachable:
  assumes "reaches module_init (module_step sem env src cc) s"
  shows "module_inv env src cc s" "prep_bounded_inv (Suc MAX_QUEUED_PREPARATIONS) (Suc 0) (mod_abs s)"
  using preparing.concrete_inv [OF assms] preparing.abs_inv [OF assms] .

end

section \<open>The end of a preparation\<close>

text \<open>How many steps a task is from its end once its deadline has passed.\<close>

fun steps_left :: "prep_phase \<Rightarrow> nat" where
  "steps_left (Handed a b c) = 3"
| "steps_left (InCompiler a b c) = 2"
| "steps_left _ = 1"

definition tasks_left :: "prep_task multiset \<Rightarrow> nat" where
  "tasks_left ts = (\<Sum>t \<in># ts. steps_left (pt_phase t))"

lemma tasks_left_add [simp]:
  "tasks_left {#} = 0" "tasks_left (add_mset t ts) = steps_left (pt_phase t) + tasks_left ts"
  by (simp_all add: tasks_left_def)

lemma steps_left_pos [simp]: "0 < steps_left ph"
  by (cases ph) simp_all

text \<open>When every deadline has passed, the first task moves towards its end.\<close>

lemma task_advances:
  assumes inv: "origin_inv env src cc s" and s: "ms_tasks s = add_mset t ts" and late: "pt_deadline t \<le> ms_now s"
  shows "\<exists>s'. prep_task_step sem env src cc s s' \<and> tasks_left (ms_tasks s') < tasks_left (ms_tasks s)
    \<and> ms_now s' = ms_now s \<and> image_mset pt_deadline (ms_tasks s') \<subseteq># image_mset pt_deadline (ms_tasks s)"
proof -
  have tf: "task_from env src cc (ms_admitted s) t" using inv s by (rule task_from_member)
  have ends: ?thesis if "prep_task_step sem env src cc s s'" "ms_tasks s' = ts" "ms_now s' = ms_now s" for s'
    using that s by (intro exI [of _ s']) simp
  have times_out: ?thesis if "in_future (pt_phase t)"
  proof (rule ends)
    show "prep_task_step sem env src cc s (task_gives_up PrepTimeout (pt_deadline t) ts t s)"
      using tf that late by (intro prep_task_step.pt_timed_out [OF s]) (auto simp: task_from_def)
  qed (insert that, simp_all add: task_gives_up_def Let_def)
  show ?thesis
  proof (cases "pt_phase t")
    case (Handed a w m)
    show ?thesis
      by (rule exI, rule conjI [OF prep_task_step.pt_compile [OF s Handed]]) (simp add: s Handed)
  next
    case (InCompiler a w m)
    show ?thesis
      by (rule exI, rule conjI [OF prep_task_step.pt_compiled [OF s InCompiler]])
        (simp add: s InCompiler task_compiled_def Let_def split: sum.split prod.split)
  next
    case (Compiled p)
    show ?thesis
    proof (cases "pt_waiting t")
      case True
      show ?thesis
        by (rule ends [OF prep_task_step.pt_register [OF s Compiled True order_refl]])
          (insert late, auto simp: task_registers_def register_component_def split: prod.split)
    next
      case False
      show ?thesis by (rule ends [OF prep_task_step.pt_discard [OF s Compiled False]]) simp_all
    qed
  next
    case Writing
    show ?thesis by (rule ends [OF prep_task_step.pt_written [OF s Writing]]) simp_all
  qed (simp_all add: times_out)
qed

context semaphore_spec
begin

lemma tasks_drain:
  assumes "module_inv env src cc s" "\<forall>t \<in># ms_tasks s. pt_deadline t \<le> ms_now s"
  shows "\<exists>s'. (module_step sem env src cc)\<^sup>*\<^sup>* s s' \<and> ms_tasks s' = {#}"
  using assms
proof (induction "tasks_left (ms_tasks s)" arbitrary: s rule: less_induct)
  case less
  show ?case
  proof (cases "ms_tasks s")
    case empty
    then show ?thesis by blast
  next
    case (add t ts)
    obtain s1 where s1: "prep_task_step sem env src cc s s1" "tasks_left (ms_tasks s1) < tasks_left (ms_tasks s)"
        "ms_now s1 = ms_now s" "image_mset pt_deadline (ms_tasks s1) \<subseteq># image_mset pt_deadline (ms_tasks s)"
      using task_advances [of env src cc s t ts] less.prems add by (auto simp: module_inv_split)
    have step: "module_step sem env src cc s s1" using s1(1) by (simp add: module_step_def)
    have "pt_deadline u \<le> ms_now s1" if "u \<in># ms_tasks s1" for u
    proof -
      have "pt_deadline u \<in># image_mset pt_deadline (ms_tasks s)" using mset_subset_eqD [OF s1(4), of "pt_deadline u"] that by simp
      then show ?thesis using less.prems(2) s1(3) by auto
    qed
    then obtain s' where "(module_step sem env src cc)\<^sup>*\<^sup>* s1 s'" "ms_tasks s' = {#}"
      using less.hyps [OF s1(2)] preparing.cstep_inv [OF less.prems(1) step] by blast
    then show ?thesis using step by (meson converse_rtranclp_into_rtranclp)
  qed
qed

end

section \<open>A run\<close>

definition sample_compiler :: compiler where
  "sample_compiler = \<lparr>compile_component = (\<lambda>_. Some 7), serialize_component = (\<lambda>_. Some [1, 2, 3])\<rparr>"

abbreviation sample_step :: "module_sys \<Rightarrow> module_sys \<Rightarrow> bool" where
  "sample_step \<equiv> module_step counting_semaphore sample_env sample_source sample_compiler"

definition sample_key :: module_key where
  "sample_key = module_key ''demo'' ''shop'' ''cart''"

text \<open>What the run looks at: one preparation in a phase, before its deadline.\<close>

definition one_task :: "prep_phase \<Rightarrow> module_sys \<Rightarrow> bool" where
  "one_task ph s \<longleftrightarrow> (\<exists>t. ms_tasks s = {#t#} \<and> pt_phase t = ph \<and> pt_waiting t \<and> pt_key t = sample_key \<and> pt_ref t = sample_ref \<and>
     ms_now s < pt_deadline t)"

lemma one_task_move:
  assumes "one_task ph s"
    and "\<And>t. ms_tasks s = {#t#} \<Longrightarrow> pt_phase t = ph \<Longrightarrow> pt_waiting t \<Longrightarrow> pt_ref t = sample_ref \<Longrightarrow>
      \<exists>sm s1. sample_step s (task_moves {#} (t\<lparr>pt_phase := ph'\<rparr>) sm s1) \<and> ms_registry s1 = ms_registry s \<and> ms_now s1 = ms_now s
        \<and> ms_admitted s1 = ms_admitted s"
  shows "\<exists>s'. sample_step s s' \<and> one_task ph' s' \<and> ms_registry s' = ms_registry s \<and> ms_admitted s' = ms_admitted s"
proof -
  obtain t where t: "ms_tasks s = {#t#}" "pt_phase t = ph" "pt_waiting t" "pt_key t = sample_key" "pt_ref t = sample_ref"
      "ms_now s < pt_deadline t"
    using assms(1) by (auto simp: one_task_def)
  obtain sm s1 where "sample_step s (task_moves {#} (t\<lparr>pt_phase := ph'\<rparr>) sm s1)" "ms_registry s1 = ms_registry s" "ms_now s1 = ms_now s"
      "ms_admitted s1 = ms_admitted s"
    using assms(2) [OF t(1,2,3,5)] by blast
  then show ?thesis using t by (intro exI [of _ "task_moves {#} (t\<lparr>pt_phase := ph'\<rparr>) sm s1"]) (simp add: one_task_def)
qed

lemma sample_prepare_bytes:
  "prepare_bytes sample_env sample_source sample_get (\<lambda>_. Inr None) sample_get sample_ref = Inr (sample_artifact, sample_wasm, True)"
proof -
  have "validate_bytes (env_hash sample_env) sample_artifact sample_wasm = Inr ()"
    using pull_Inr [OF sample_pull] by (simp add: validate_bytes_def)
  then show ?thesis by (simp add: prepare_bytes_def sample_manifest sample_pull)
qed

definition sample_prepared :: prepared where
  "sample_prepared = \<lparr>pr_component = 7, pr_native_bytes = 3, pr_digest = art_digest sample_artifact, pr_cache_write = Some sample_wasm\<rparr>"

lemma sample_compile: "compile_module sample_compiler sample_wasm = Inr (7, 3)"
  by (simp add: compile_module_def sample_compiler_def MAX_RETAINED_NATIVE_BYTES_def)

lemma sample_moves:
  "one_task Spawned s \<Longrightarrow> \<exists>s'. sample_step s s' \<and> one_task WaitActive s' \<and> ms_registry s' = ms_registry s \<and> ms_admitted s' = ms_admitted s"
  "one_task WaitActive s \<Longrightarrow> \<exists>s'. sample_step s s' \<and> one_task Fetching s' \<and> ms_registry s' = ms_registry s \<and> ms_admitted s' = ms_admitted s"
  "one_task Fetching s \<Longrightarrow> \<exists>s'. sample_step s s' \<and> one_task (Handed sample_artifact sample_wasm True) s' \<and> ms_registry s' = ms_registry s \<and> ms_admitted s' = ms_admitted s"
  "one_task (Handed sample_artifact sample_wasm True) s \<Longrightarrow>
     \<exists>s'. sample_step s s' \<and> one_task (InCompiler sample_artifact sample_wasm True) s' \<and> ms_registry s' = ms_registry s \<and> ms_admitted s' = ms_admitted s"
  "one_task (InCompiler sample_artifact sample_wasm True) s \<Longrightarrow>
     \<exists>s'. sample_step s s' \<and> one_task (Compiled sample_prepared) s' \<and> ms_registry s' = ms_registry s \<and> ms_admitted s' = ms_admitted s"
proof -
  show "one_task Spawned s \<Longrightarrow> \<exists>s'. sample_step s s' \<and> one_task WaitActive s' \<and> ms_registry s' = ms_registry s \<and> ms_admitted s' = ms_admitted s"
    by (rule one_task_move, assumption)
      (metis module_step_def prep_task_step.pt_begin)
  show "one_task WaitActive s \<Longrightarrow> \<exists>s'. sample_step s s' \<and> one_task Fetching s' \<and> ms_registry s' = ms_registry s \<and> ms_admitted s' = ms_admitted s"
  proof (rule one_task_move, assumption)
    fix t
    assume t: "ms_tasks s = {#t#}" "pt_phase t = WaitActive" "pt_waiting t"
    have "prep_task_step counting_semaphore sample_env sample_source sample_compiler s
        (task_moves {#} (t\<lparr>pt_phase := Fetching\<rparr>) (prep_activate (pt_work t, ms_metrics s)) s)"
      by (rule prep_task_step.pt_activate) (simp_all add: t counting_semaphore_def)
    then show "\<exists>sm s1. sample_step s (task_moves {#} (t\<lparr>pt_phase := Fetching\<rparr>) sm s1) \<and> ms_registry s1 = ms_registry s \<and>
        ms_now s1 = ms_now s \<and> ms_admitted s1 = ms_admitted s"
      unfolding module_step_def by blast
  qed
  show "one_task Fetching s \<Longrightarrow> \<exists>s'. sample_step s s' \<and> one_task (Handed sample_artifact sample_wasm True) s' \<and> ms_registry s' = ms_registry s \<and> ms_admitted s' = ms_admitted s"
    by (rule one_task_move, assumption) (metis module_step_def prep_task_step.pt_fetched sample_prepare_bytes)
  show "one_task (Handed sample_artifact sample_wasm True) s \<Longrightarrow>
     \<exists>s'. sample_step s s' \<and> one_task (InCompiler sample_artifact sample_wasm True) s' \<and> ms_registry s' = ms_registry s \<and> ms_admitted s' = ms_admitted s"
    by (rule one_task_move, assumption) (metis module_step_def prep_task_step.pt_compile)
  show "one_task (InCompiler sample_artifact sample_wasm True) s \<Longrightarrow>
     \<exists>s'. sample_step s s' \<and> one_task (Compiled sample_prepared) s' \<and> ms_registry s' = ms_registry s \<and> ms_admitted s' = ms_admitted s"
  proof (rule one_task_move, assumption)
    fix t
    assume t: "ms_tasks s = {#t#}" "pt_phase t = InCompiler sample_artifact sample_wasm True"
    let ?sm = "compile_end (ms_now s) (pt_deadline t) (Inr (7, 3)) (pt_work t, ms_metrics s)"
    let ?s1 = "record_compilation (fst (snd (pt_key t))) (fst (pt_key t)) ''ok'' s"
    have "sample_step s (task_moves {#} (t\<lparr>pt_phase := Compiled sample_prepared\<rparr>) ?sm ?s1)"
      using prep_task_step.pt_compiled [OF t, of counting_semaphore sample_env sample_source sample_compiler]
      by (simp add: module_step_def task_compiled_def Let_def sample_compile sample_prepared_def)
    then show "\<exists>sm s1. sample_step s (task_moves {#} (t\<lparr>pt_phase := Compiled sample_prepared\<rparr>) sm s1) \<and> ms_registry s1 = ms_registry s \<and>
        ms_now s1 = ms_now s \<and> ms_admitted s1 = ms_admitted s"
      by (intro exI conjI) (assumption, simp_all)
  qed
qed

lemma sample_start: "\<exists>s. reaches module_init sample_step s \<and> one_task Spawned s \<and> ms_registry s = registry_default \<and> ms_admitted s = {(sample_key, sample_ref)}"
proof -
  define s0 where "s0 = \<lparr>ms_registry = registry_default, ms_metrics = prep_new (MAX_QUEUED_PREPARATIONS + 1) 1, ms_waiting = 0,
     ms_tasks = {#}, ms_now = 0, ms_compilations = (\<lambda>_. 0), ms_admitted = {}\<rparr>"
  have "module_registry_new (\<lambda>s. Some ((sample_origin s)\<lparr>scheme := ''http''\<rparr>)) True ''module-cache'' 0 = Inr s0"
    by (simp only: module_registry_new_def cache_base_url_def sample_origin_def s0_def ends_with_def option.case url.simps Let_def) simp
  then have r0: "reaches module_init sample_step s0" by (intro reaches_init) (auto simp: module_init_def)
  have r1: "reaches module_init sample_step (submit_begin s0)"
    using r0 by (rule reaches_step) (simp add: module_step_def module_env_step.ms_submit)
  let ?s2 = "snd (submit_end (Done Acquired) sample_key sample_ref (submit_begin s0))"
  have "module_env_step counting_semaphore (submit_begin s0) ?s2"
    by (rule module_env_step.ms_admit [of _ 0]) (simp_all add: submit_begin_def s0_def counting_semaphore_def)
  then have "reaches module_init sample_step ?s2" using reaches_step [OF r1] by (simp add: module_step_def)
  moreover obtain w m where "submission_admitted \<lparr>sub_outcome = ''cancelled'', sub_completed = False\<rparr> (ms_metrics (submit_begin s0)) = (w, m)"
    by fastforce
  then have "one_task Spawned ?s2" "ms_registry ?s2 = registry_default" "ms_admitted ?s2 = {(sample_key, sample_ref)}"
    by (simp_all add: one_task_def submit_end_def Let_def PREPARATION_TIMEOUT_def) (simp_all add: submit_begin_def s0_def)
  ultimately show ?thesis by blast
qed

lemma one_task_registers:
  assumes "one_task (Compiled sample_prepared) s" "ms_registry s = registry_default"
  shows "\<exists>s'. sample_step s s' \<and> registry_get ''demo'' ''shop'' ''cart'' (ms_registry s') = Inr (Some 7) \<and> ms_admitted s' = ms_admitted s"
proof -
  obtain t where t: "ms_tasks s = {#t#}" "pt_phase t = Compiled sample_prepared" "pt_waiting t" "pt_key t = sample_key"
      "ms_now s < pt_deadline t"
    using assms(1) by (auto simp: one_task_def)
  have "sample_step s (task_registers (ms_now s) {#} t sample_prepared s)"
    using prep_task_step.pt_register [OF t(1,2,3) order_refl, of counting_semaphore sample_env sample_source sample_compiler]
    by (simp add: module_step_def)
  moreover have "ms_registry (task_registers (ms_now s) {#} t sample_prepared s) =
      registry_default\<lparr>components := [(sample_key, \<lparr>rc_component = 7, rc_native_bytes = 3\<rparr>)], native_bytes := 3\<rparr>
    \<and> ms_admitted (task_registers (ms_now s) {#} t sample_prepared s) = ms_admitted s"
    using t(4,5) assms(2)
    by (simp add: task_registers_def register_component_def registry_default_def sample_prepared_def wrap_add_def wrap_sub_def
        MAX_RETAINED_COMPONENTS_def MAX_RETAINED_NATIVE_BYTES_def Let_def)
  ultimately show ?thesis
    by (intro exI [of _ "task_registers (ms_now s) {#} t sample_prepared s"])
      (simp add: registry_get_def registry_default_def sample_key_def)
qed

lemma sample_in_compiler:
  "\<exists>s. reaches module_init sample_step s \<and> one_task (InCompiler sample_artifact sample_wasm True) s
     \<and> ms_registry s = registry_default \<and> ms_admitted s = {(sample_key, sample_ref)}"
proof -
  obtain s0 where 0: "reaches module_init sample_step s0" "one_task Spawned s0" "ms_registry s0 = registry_default"
      "ms_admitted s0 = {(sample_key, sample_ref)}" using sample_start by blast
  obtain s1 where 1: "sample_step s0 s1" "one_task WaitActive s1" "ms_registry s1 = ms_registry s0" "ms_admitted s1 = ms_admitted s0"
    using sample_moves(1) [OF 0(2)] by blast
  obtain s2 where 2: "sample_step s1 s2" "one_task Fetching s2" "ms_registry s2 = ms_registry s1" "ms_admitted s2 = ms_admitted s1"
    using sample_moves(2) [OF 1(2)] by blast
  obtain s3 where 3: "sample_step s2 s3" "one_task (Handed sample_artifact sample_wasm True) s3" "ms_registry s3 = ms_registry s2"
      "ms_admitted s3 = ms_admitted s2"
    using sample_moves(3) [OF 2(2)] by blast
  obtain s4 where 4: "sample_step s3 s4" "one_task (InCompiler sample_artifact sample_wasm True) s4" "ms_registry s4 = ms_registry s3"
      "ms_admitted s4 = ms_admitted s3"
    using sample_moves(4) [OF 3(2)] by blast
  have "reaches module_init sample_step s4"
    by (rule reaches_step [OF reaches_step [OF reaches_step [OF reaches_step [OF 0(1) 1(1)] 2(1)] 3(1)] 4(1)])
  then show ?thesis using 4 3(3,4) 2(3,4) 1(3,4) 0(3,4) by (intro exI [of _ s4]) simp
qed

lemma sample_registration:
  assumes "one_task (InCompiler sample_artifact sample_wasm True) s" "ms_registry s = registry_default"
  obtains s1 s2 where "sample_step s s1" "sample_step s1 s2" "registry_get ''demo'' ''shop'' ''cart'' (ms_registry s2) = Inr (Some 7)"
    "ms_admitted s2 = ms_admitted s"
proof -
  obtain s1 where 1: "sample_step s s1" "one_task (Compiled sample_prepared) s1" "ms_registry s1 = ms_registry s" "ms_admitted s1 = ms_admitted s"
    using sample_moves(5) [OF assms(1)] by blast
  obtain s2 where "sample_step s1 s2" "registry_get ''demo'' ''shop'' ''cart'' (ms_registry s2) = Inr (Some 7)" "ms_admitted s2 = ms_admitted s1"
    using one_task_registers [OF 1(2)] 1(3) assms(2) by auto
  then show thesis using that [of s1 s2] 1 by simp
qed

lemma sample_registered: "\<exists>s. reaches module_init sample_step s \<and> registry_get ''demo'' ''shop'' ''cart'' (ms_registry s) = Inr (Some 7)"
proof -
  obtain s where s: "reaches module_init sample_step s" "one_task (InCompiler sample_artifact sample_wasm True) s" "ms_registry s = registry_default"
    using sample_in_compiler by blast
  obtain s1 s2 where "sample_step s s1" "sample_step s1 s2" "registry_get ''demo'' ''shop'' ''cart'' (ms_registry s2) = Inr (Some 7)"
    using sample_registration [OF s(2,3)] by blast
  then show ?thesis using reaches_step [OF reaches_step [OF s(1)]] by blast
qed

section \<open>Properties\<close>

text \<open>
  C9 (invariant). In every reachable state the registry holds at most 32 components and at most
  128 MiB of native code, its byte count is the sum over the components (no wrap-around), at most 17
  preparations are tracked and at most one is active, the published preparation gauges are exact,
  and neither a capacity breach nor an accounting error has ever been counted.
\<close>

theorem registry_within_budget:
  assumes "semaphore_spec sem" "reaches module_init (module_step sem env src cc) s"
  shows "length (components (ms_registry s)) \<le> 32
    \<and> native_bytes (ms_registry s) = hm_total rc_native_bytes (components (ms_registry s))
    \<and> native_bytes (ms_registry s) \<le> 128 * 1024 * 1024
    \<and> size (ms_tasks s) \<le> 17 \<and> active_permits (ms_tasks s) \<le> 1
    \<and> map (pm_work (ms_metrics s)) PREP_WORK_STATES =
        map as_gauge (ms_waiting s # map (\<lambda>st. staged st (image_mset pt_work (ms_tasks s))) [Queued, Preparing, Compiling, Terminating])
    \<and> pm_breaches (ms_metrics s) = (\<lambda>_. 0) \<and> pm_errors (ms_metrics s) = (\<lambda>_. 0)"
proof -
  note inv = semaphore_spec.registry_reachable [OF assms]
  have led: "prep_ledger_inv (mod_abs s)" "pm_breaches (ms_metrics s) = (\<lambda>_. 0)"
    using inv(2) by (simp_all add: prep_bounded_inv_def mod_abs_def)
  then show ?thesis
    using inv(1)
    by (simp add: module_inv_def registry_ok_def tasks_inv_def prep_ledger_inv_def prep_balanced_def prep_sound_def
        prep_published_def mod_abs_def MAX_RETAINED_COMPONENTS_def MAX_RETAINED_NATIVE_BYTES_def MAX_QUEUED_PREPARATIONS_def)
qed

theorem registry_within_budget_witness:
  "\<exists>s. reaches module_init sample_step s \<and> registry_get ''demo'' ''shop'' ''cart'' (ms_registry s) = Inr (Some 7)
     \<and> native_bytes (ms_registry s) \<le> 128 * 1024 * 1024 \<and> pm_errors (ms_metrics s) = (\<lambda>_. 0)"
proof -
  obtain s where s: "reaches module_init sample_step s" "registry_get ''demo'' ''shop'' ''cart'' (ms_registry s) = Inr (Some 7)"
    using sample_registered by blast
  show ?thesis using registry_within_budget [OF counting.semaphore_spec_axioms s(1)] s by blast
qed



text \<open>
  A step changes what is registered for a function only by removing it, or by
  registering the result of a preparation of that function whose task has not given up and whose
  deadline has not passed.
\<close>

theorem registration_respects_deadline:
  assumes "semaphore_spec sem" "reaches module_init (module_step sem env src cc) s" "module_step sem env src cc s s'"
    and "hm_get (components (ms_registry s')) k \<noteq> hm_get (components (ms_registry s)) k"
  shows "hm_get (components (ms_registry s')) k = None
    \<or> (\<exists>t \<in># ms_tasks s. \<exists>p. pt_key t = k \<and> pt_phase t = Compiled p \<and> pt_waiting t \<and> ms_now s < pt_deadline t
        \<and> hm_get (components (ms_registry s')) k = Some \<lparr>rc_component = pr_component p, rc_native_bytes = pr_native_bytes p\<rparr>)"
proof -
  have inv: "origin_inv env src cc s"
    using semaphore_spec.registry_reachable(1) [OF assms(1,2)] by (simp add: module_inv_split)
  then have ok: "registry_ok (ms_registry s)" by (simp add: origin_inv_def)
  from assms(3) consider (e) "module_env_step sem s s'" | (p) "prep_task_step sem env src cc s s'"
    by (auto simp: module_step_def)
  then show ?thesis
  proof cases
    case e
    then show ?thesis
    proof cases
      case (ms_remove a b c)
      then show ?thesis
        using assms(4) registry_remove_ok [OF ok prod.collapse [symmetric], of a b c] by (auto simp: delete_conv' split: if_splits)
    qed (insert assms(4), simp_all add: submit_begin_def submit_drop_def)
  next
    case p
    then show ?thesis
    proof cases
      case (pt_register t ts q later)
      obtain r st where r: "register_component (ms_now s) (pt_deadline t) (pt_key t) q (ms_registry s) = (r, st)" by fastforce
      have "pr_native_bytes q \<le> MAX_RETAINED_NATIVE_BYTES"
        using task_from_member(1) [OF inv pt_register(2)] pt_register(3) compile_module_bounded by (fastforce simp: task_from_def)
      note reg = register_component_ok [OF ok this r]
      have "ms_registry s' = st"
        using pt_register(1) r by (auto simp: task_registers_def split: sum.split option.split prod.split)
      then show ?thesis
        using reg assms(4) pt_register by (cases r) (auto simp: update_conv split: if_splits)
    qed (insert assms(4), auto simp: task_gives_up_def task_compiled_def Let_def split: sum.splits prod.splits if_splits)
  qed
qed

theorem registration_respects_deadline_witness:
  "\<exists>s s'. reaches module_init sample_step s \<and> sample_step s s'
     \<and> (\<exists>t \<in># ms_tasks s. pt_key t = sample_key \<and> pt_waiting t \<and> ms_now s < pt_deadline t)
     \<and> registry_get ''demo'' ''shop'' ''cart'' (ms_registry s') = Inr (Some 7)"
proof -
  obtain s where s: "reaches module_init sample_step s" "one_task (InCompiler sample_artifact sample_wasm True) s" "ms_registry s = registry_default"
    using sample_in_compiler by blast
  obtain s1 where 1: "sample_step s s1" "one_task (Compiled sample_prepared) s1" "ms_registry s1 = registry_default"
    using sample_moves(5) [OF s(2)] s(3) by auto
  obtain s2 where 2: "sample_step s1 s2" "registry_get ''demo'' ''shop'' ''cart'' (ms_registry s2) = Inr (Some 7)"
    using one_task_registers [OF 1(2,3)] by blast
  have r1: "reaches module_init sample_step s1" using reaches_step [OF s(1) 1(1)] .
  have "hm_get (components (ms_registry s2)) sample_key \<noteq> hm_get (components (ms_registry s1)) sample_key"
    using 2(2) 1(3) by (auto simp: registry_get_def registry_default_def sample_key_def split: if_splits)
  from registration_respects_deadline [OF counting.semaphore_spec_axioms r1 2(1) this] show ?thesis
    using r1 2 by (auto simp: registry_get_def sample_key_def split: if_splits)
qed



text \<open>
  Removing a function does not stop a preparation of it that is in flight: there
  is a reachable state in which the function is removed and, without any further submission for
  it, is registered again afterwards.
\<close>

theorem removal_leaves_preparation:
  "\<exists>s s'. reaches module_init sample_step s
     \<and> sample_step\<^sup>*\<^sup>* (s\<lparr>ms_registry := snd (registry_remove ''demo'' ''shop'' ''cart'' (ms_registry s))\<rparr>) s'
     \<and> ms_admitted s' = ms_admitted s
     \<and> registry_get ''demo'' ''shop'' ''cart'' (ms_registry s') = Inr (Some 7)"
proof -
  obtain s where s: "reaches module_init sample_step s" "one_task (InCompiler sample_artifact sample_wasm True) s" "ms_registry s = registry_default"
    using sample_in_compiler by blast
  let ?r = "s\<lparr>ms_registry := snd (registry_remove ''demo'' ''shop'' ''cart'' (ms_registry s))\<rparr>"
  have "one_task (InCompiler sample_artifact sample_wasm True) ?r" "ms_registry ?r = registry_default"
    using s(2,3) by (simp_all add: one_task_def registry_remove_def registry_default_def)
  then obtain s1 s2 where "sample_step ?r s1" "sample_step s1 s2" "registry_get ''demo'' ''shop'' ''cart'' (ms_registry s2) = Inr (Some 7)"
      "ms_admitted s2 = ms_admitted ?r"
    by (rule sample_registration)
  then show ?thesis
    using s(1) by (intro exI [of _ s] exI [of _ s2]) (auto intro: converse_rtranclp_into_rtranclp)
qed

end
