(* ===== verification/GatewaySafety.thy ===== *)
theory GatewaySafety
  imports Gateway
begin

text \<open>
  Invariants of the gateway. \<open>lease_inv\<close> is about the leases, permits and counters, \<open>session_inv\<close>
  about the reply sessions and the registrations the requests hold in them; each operation of
  \<open>Gateway\<close> keeps both.
\<close>

section \<open>Registrations held by requests\<close>

definition phase_guards :: "nat \<Rightarrow> gw_phase \<Rightarrow> (nat \<times> nat) list" where
  "phase_guards s phase =
     (case phase of
        Publishing t i h _ \<Rightarrow> if t = s then [(i, h)] else []
      | AwaitingReply t i h \<Rightarrow> if t = s then [(i, h)] else []
      | _ \<Rightarrow> [])"

definition session_guards :: "nat \<Rightarrow> (nat, gw_request) hash_map \<Rightarrow> (nat \<times> nat) list" where
  "session_guards s = hm_items (phase_guards s \<circ> rq_phase)"

abbreviation pending_of :: "gateway \<Rightarrow> nat \<Rightarrow> pending" where
  "pending_of g s \<equiv> ses_pending (gw_sessions g ! s)"

text \<open>The sessions are in order for the registrations that a function of the session lists.\<close>

definition sessions_ok :: "(nat \<Rightarrow> (nat \<times> nat) list) \<Rightarrow> gateway \<Rightarrow> bool" where
  "sessions_ok G g \<longleftrightarrow> (\<forall>s. if s < length (gw_sessions g)
     then pending_wf (pending_of g s) \<and> guards_ok (G s) (pending_of g s)
       \<and> pd_capacity (pending_of g s) = lim_in_flight (gw_limits g)
     else G s = [])"

definition loop_ok :: "gateway \<Rightarrow> bool" where
  "loop_ok g \<longleftrightarrow> (case gw_loop g of
       Serving s \<Rightarrow> gw_current g = Some s
     | LoopTop \<Rightarrow> True
     | _ \<Rightarrow> gw_current g = None)
   \<and> (\<forall>s. gw_current g = Some s \<longrightarrow> s < length (gw_sessions g))
   \<and> (\<forall>s < length (gw_sessions g). pd_retired (pending_of g s) \<longleftrightarrow> gw_loop g \<noteq> Serving s)
   \<and> gw_ready g = (gw_current g \<noteq> None)"

lemma guards_ok_mset: "mset gs = mset gs' \<Longrightarrow> guards_ok gs p = guards_ok gs' p"
proof -
  assume m: "mset gs = mset gs'"
  have "set gs = set gs'" using m by (rule mset_eq_setD)
  moreover have "distinct (map f gs) = distinct (map f gs')" for f :: "nat \<times> nat \<Rightarrow> nat"
    using m by (metis mset_eq_imp_distinct_iff mset_map)
  ultimately show ?thesis by (simp add: guards_ok_def)
qed

lemma sessions_ok_mset:
  "(\<And>s. mset (G s) = mset (G' s)) \<Longrightarrow> sessions_ok G g = sessions_ok G' g"
  unfolding sessions_ok_def by (metis guards_ok_mset mset_zero_iff_right mset_zero_iff)

lemma phase_guards_length: "length (phase_guards s phase) \<le> 1"
  by (auto simp: phase_guards_def split: gw_phase.split)

lemma session_guards_length: "length (session_guards s m) \<le> length m"
  unfolding session_guards_def by (rule hm_items_length) (simp add: phase_guards_length [simplified])

lemma session_guards_remove:
  "hm_wf m \<Longrightarrow> map_of m k = Some rq \<Longrightarrow>
     mset (session_guards s m) = mset (phase_guards s (rq_phase rq) @ session_guards s (hm_remove k m))"
  using hm_items_remove [of m k rq "phase_guards s \<circ> rq_phase"] by (simp add: session_guards_def)

lemma session_guards_insert:
  "hm_wf m \<Longrightarrow> mset (session_guards s (hm_insert k rq m)) = mset (phase_guards s (rq_phase rq) @ session_guards s (hm_remove k m))"
  using hm_items_insert [of m "phase_guards s \<circ> rq_phase" k rq] by (simp add: session_guards_def)

section \<open>Sessions\<close>

lemma sessions_okD:
  assumes "sessions_ok G g" "s < length (gw_sessions g)"
  shows "pending_wf (pending_of g s)" "guards_ok (G s) (pending_of g s)"
    "pd_capacity (pending_of g s) = lim_in_flight (gw_limits g)"
  using assms unfolding sessions_ok_def by metis+

lemma sessions_ok_outside: "sessions_ok G g \<Longrightarrow> (i, h) \<in> set (G s) \<Longrightarrow> s < length (gw_sessions g)"
  unfolding sessions_ok_def by (metis empty_iff list.set(1))

lemma set_pending_simps [simp]:
  "gw_limits (set_pending s p g) = gw_limits g" "gw_table (set_pending s p g) = gw_table g"
  "gw_held (set_pending s p g) = gw_held g" "gw_connections (set_pending s p g) = gw_connections g"
  "gw_counts (set_pending s p g) = gw_counts g" "gw_authority (set_pending s p g) = gw_authority g"
  "gw_version (set_pending s p g) = gw_version g" "gw_authority_closed (set_pending s p g) = gw_authority_closed g"
  "gw_requests (set_pending s p g) = gw_requests g" "gw_admitted (set_pending s p g) = gw_admitted g"
  "gw_clients (set_pending s p g) = gw_clients g" "gw_clients_changed (set_pending s p g) = gw_clients_changed g"
  "gw_clients_closed (set_pending s p g) = gw_clients_closed g"
  "gw_loop (set_pending s p g) = gw_loop g" "gw_ready (set_pending s p g) = gw_ready g"
  "gw_current (set_pending s p g) = gw_current g" "length (gw_sessions (set_pending s p g)) = length (gw_sessions g)"
  by (simp_all add: set_pending_def)

lemma pending_of_set [simp]:
  "s < length (gw_sessions g) \<Longrightarrow> pending_of (set_pending s p g) t = (if t = s then p else pending_of g t)"
  by (simp add: set_pending_def nth_list_update)

lemma prefix_of_set [simp]: "ses_prefix (gw_sessions (set_pending s p g) ! t) = ses_prefix (gw_sessions g ! t)"
  by (cases "s < length (gw_sessions g)") (simp_all add: set_pending_def nth_list_update list_update_beyond)

lemma sessions_ok_set:
  assumes "sessions_ok G g" "s < length (gw_sessions g)" "\<And>t. t \<noteq> s \<Longrightarrow> mset (G' t) = mset (G t)"
    "pending_wf p" "guards_ok (G' s) p" "pd_capacity p = pd_capacity (pending_of g s)"
  shows "sessions_ok G' (set_pending s p g)"
proof -
  have "guards_ok (G' t) (pending_of g t)" if "t \<noteq> s" "t < length (gw_sessions g)" for t
    using sessions_okD(2) [OF assms(1) that(2)] guards_ok_mset [OF assms(3) [OF that(1)]] by simp
  moreover have "G' t = []" if "\<not> t < length (gw_sessions g)" for t
  proof -
    have "t \<noteq> s" "G t = []" using assms(1,2) that by (auto simp: sessions_ok_def)
    then show ?thesis using assms(3) [of t] by simp
  qed
  ultimately show ?thesis unfolding sessions_ok_def
    using assms(2,4,5,6) sessions_okD [OF assms(1)] by simp
qed

text \<open>
  \<open>session_frame\<close>: an operation changed nothing but the registries, and neither retired one nor
  touched a channel of the registrations \<open>G\<close>.
\<close>

definition session_frame :: "(nat \<Rightarrow> (nat \<times> nat) list) \<Rightarrow> gateway \<Rightarrow> gateway \<Rightarrow> bool" where
  "session_frame G g g' \<longleftrightarrow> (\<exists>ss. g' = g\<lparr>gw_sessions := ss\<rparr>)
     \<and> length (gw_sessions g') = length (gw_sessions g)
     \<and> (\<forall>s. ses_prefix (gw_sessions g' ! s) = ses_prefix (gw_sessions g ! s))
     \<and> (\<forall>s < length (gw_sessions g). pd_retired (pending_of g' s) = pd_retired (pending_of g s)
          \<and> (\<forall>(i, h) \<in> set (G s). pd_channels (pending_of g' s) ! h = pd_channels (pending_of g s) ! h))"

lemma session_frame_refl: "session_frame G g g"
proof -
  have "g = g\<lparr>gw_sessions := gw_sessions g\<rparr>" by simp
  then have "\<exists>ss. g = g\<lparr>gw_sessions := ss\<rparr>" by blast
  then show ?thesis by (simp add: session_frame_def)
qed

lemma session_frame_set:
  assumes "s < length (gw_sessions g)" "pd_retired p = pd_retired (pending_of g s)"
    "\<forall>(i, h) \<in> set (G s). pd_channels p ! h = pd_channels (pending_of g s) ! h"
  shows "session_frame G g (set_pending s p g)"
proof -
  have "\<exists>ss. set_pending s p g = g\<lparr>gw_sessions := ss\<rparr>" by (auto simp: set_pending_def)
  then show ?thesis using assms by (simp add: session_frame_def)
qed

lemma release_request_ok:
  assumes ok: "sessions_ok G g" and m: "(i, h) \<in> set (G s)" and G': "\<And>t. mset (G' t) = mset (if t = s then remove1 (i, h) (G s) else G t)"
  shows "sessions_ok G' (release_request s i h g) \<and> session_frame G' g (release_request s i h g)"
proof -
  have s: "s < length (gw_sessions g)" using sessions_ok_outside [OF ok m] .
  note r = release_guards [OF sessions_okD(1,2) [OF ok s] m]
  have "set (G' s) = set (remove1 (i, h) (G s))" using mset_eq_setD [OF G' [of s]] by simp
  then show ?thesis unfolding release_request_def
    using r guards_ok_mset [OF G' [of s]] G' s
    by (intro conjI sessions_ok_set [OF ok s] session_frame_set [OF s]) auto
qed


section \<open>Dispatch\<close>

lemma broker_request_ok:
  assumes ok: "sessions_ok G g" and cur: "\<And>s. gw_current g = Some s \<Longrightarrow> s < length (gw_sessions g)"
    and r: "broker_request env deadline payload g = (q, g')"
  shows "(case q of Inl _ \<Rightarrow> g' = g
      | Inr (s, i, h) \<Rightarrow> gw_current g = Some s \<and> s < length (gw_sessions g)
          \<and> sessions_ok (\<lambda>t. if t = s then (i, h) # G s else G t) g' \<and> session_frame G g g'
          \<and> length payload \<le> en_max_payload env \<and> en_later env < deadline)"
proof (cases "deadline \<le> en_later env \<or> gw_current g = None \<or> \<not> en_connected env \<or> en_max_payload env < length payload")
  case True
  then show ?thesis using r by (auto simp: broker_request_def split: if_splits option.splits)
next
  case False
  then obtain s where s: "gw_current g = Some s" by auto
  obtain x p where x: "reserve (pending_of g s) = (x, p)" by fastforce
  note w = sessions_okD [OF ok cur [OF s]]
  show ?thesis
  proof (cases x)
    case (Inl e)
    have "p = pending_of g s" using reserve_Inl [OF w(1)] x Inl by blast
    then have "set_pending s p g = g" by (simp add: set_pending_def)
    then show ?thesis using r False s x Inl by (auto simp: broker_request_def)
  next
    case (Inr ih)
    obtain i h where ih: "ih = (i, h)" by fastforce
    have y: "reserve (pending_of g s) = (Inr (i, h), p)" using x Inr ih by simp
    note v = replies.reserved [OF conjI [OF w(1,2)] y]
    have "sessions_ok (\<lambda>t. if t = s then (i, h) # G s else G t) (set_pending s p g)"
      using v by (intro sessions_ok_set [OF ok cur [OF s]]) auto
    moreover have "session_frame G g (set_pending s p g)"
      using v by (intro session_frame_set cur s) auto
    ultimately show ?thesis using r False s y cur [OF s] by (auto simp: broker_request_def)
  qed
qed

text \<open>The registrations left once a segment of a request is over.\<close>

abbreviation left_guards :: "gw_response + gw_phase \<Rightarrow> nat \<Rightarrow> (nat \<times> nat) list" where
  "left_guards q s \<equiv> (case q of Inl _ \<Rightarrow> [] | Inr phase \<Rightarrow> phase_guards s phase)"

lemma dispatch_send_ok:
  assumes ok: "sessions_ok R g" and cur: "\<And>s. gw_current g = Some s \<Longrightarrow> s < length (gw_sessions g)"
    and d: "dispatch_send api env now rq body g = (q, g')"
  shows "sessions_ok (\<lambda>s. left_guards q s @ R s) g' \<and> session_frame R g g'"
proof (cases "\<exists>r. q = Inl r \<and> g' = g")
  case True
  then show ?thesis using ok session_frame_refl by auto
next
  case False
  then obtain payload where p:
    "write_pieces (lim_payload_bytes (gw_limits g)) (ha_encode api (request_payload api (rq_head rq) body)) [] = Some payload"
    using d by (auto simp: dispatch_send_def split: option.splits)
  obtain x g1 where x: "broker_request env (rq_deadline rq) payload g = (x, g1)" by fastforce
  note b = broker_request_ok [OF ok cur x]
  show ?thesis
  proof (cases x)
    case (Inl e)
    then show ?thesis using d p x b False by (auto simp: dispatch_send_def split: if_splits)
  next
    case (Inr y)
    obtain s i h where y: "y = (s, i, h)" by (metis surj_pair)
    have q: "q = Inr (Publishing s i h payload)" "g' = g1"
      using d p x Inr y False by (auto simp: dispatch_send_def split: if_splits)
    have "sessions_ok (\<lambda>t. if t = s then (i, h) # R s else R t) g1" using b Inr y by simp
    moreover have "(\<lambda>t. left_guards q t @ R t) = (\<lambda>t. if t = s then (i, h) # R s else R t)"
      by (auto simp: q phase_guards_def)
    ultimately show ?thesis using b Inr y q(2) by simp
  qed
qed


text \<open>A request waiting on a registration ends the wait by releasing it, or keeps it.\<close>

lemma release_left:
  assumes "sessions_ok (\<lambda>t. phase_guards t phase @ R t) g"
    and "phase = Publishing s i h payload \<or> phase = AwaitingReply s i h"
  shows "sessions_ok R (release_request s i h g) \<and> session_frame R g (release_request s i h g)"
  using assms(2) by (intro release_request_ok [OF assms(1)]) (auto simp: phase_guards_def)

lemma dispatch_poll_ok:
  assumes ok: "sessions_ok (\<lambda>s. phase_guards s (rq_phase rq) @ R s) g"
    and cur: "\<And>s. gw_current g = Some s \<Longrightarrow> s < length (gw_sessions g)"
    and d: "dispatch_poll api env now rq g = (q, g')"
  shows "sessions_ok (\<lambda>s. left_guards q s @ R s) g' \<and> session_frame R g g'"
proof (cases "rq_phase rq")
  case Admitted
  then have "g' = g" "\<forall>s. left_guards q s = []" "sessions_ok R g"
    using d ok by (auto simp: dispatch_poll_def dispatch_begin_def phase_guards_def split: if_splits)
  then show ?thesis using session_frame_refl by simp
next
  case (ReadingBody bd bs)
  then have R: "sessions_ok R g" using ok by (simp add: phase_guards_def)
  show ?thesis
  proof (cases "en_body env = BodyEnd")
    case True
    then show ?thesis using d ReadingBody dispatch_send_ok [OF R cur] by (simp add: dispatch_poll_def)
  next
    case False
    then have "g' = g" "\<forall>s. left_guards q s = []"
      using d ReadingBody
      by (auto simp: dispatch_poll_def read_body_chunk_def phase_guards_def split: if_splits gw_body_event.splits)
    then show ?thesis using R session_frame_refl by simp
  qed
next
  case (Publishing s i h payload)
  have "(\<exists>r. q = Inl r) \<and> g' = release_request s i h g \<or> g' = g \<and> (\<forall>t. left_guards q t = phase_guards t (rq_phase rq))"
    using d Publishing
    by (auto simp: dispatch_poll_def dispatch_publish_def phase_guards_def split: if_splits option.splits bool.splits)
  then show ?thesis using release_left [OF ok, of s i h payload] Publishing ok session_frame_refl by auto
next
  case (AwaitingReply s i h)
  have "(\<exists>r. q = Inl r) \<and> g' = release_request s i h g \<or> g' = g \<and> (\<forall>t. left_guards q t = phase_guards t (rq_phase rq))"
    using d AwaitingReply
    by (auto simp: dispatch_poll_def dispatch_receive_def phase_guards_def split: if_splits oneshot.splits sum.splits)
  then show ?thesis using release_left [OF ok, of s i h "[]"] AwaitingReply ok session_frame_refl by auto
next
  case (Replying r frames)
  then have "g' = g" "\<forall>s. left_guards q s = []" "sessions_ok R g"
    using d ok by (auto simp: dispatch_poll_def phase_guards_def)
  then show ?thesis using session_frame_refl by simp
qed

lemma drop_wait_ok:
  assumes "sessions_ok (\<lambda>s. phase_guards s phase @ R s) g"
  shows "sessions_ok R (drop_wait phase g) \<and> session_frame R g (drop_wait phase g)"
  using assms release_left [OF assms] session_frame_refl
  by (cases phase) (auto simp: drop_wait_def phase_guards_def)

section \<open>Session invariant\<close>

definition session_inv :: "gateway \<Rightarrow> bool" where
  "session_inv g \<longleftrightarrow> hm_wf (gw_requests g) \<and> sessions_ok (\<lambda>s. session_guards s (gw_requests g)) g \<and> loop_ok g"

lemma session_invD:
  assumes "session_inv g"
  shows "hm_wf (gw_requests g)" "sessions_ok (\<lambda>s. session_guards s (gw_requests g)) g" "loop_ok g"
    "gw_current g = Some s \<Longrightarrow> s < length (gw_sessions g)"
  using assms by (auto simp: session_inv_def loop_ok_def)

text \<open>The registrations of one request, and those of the others.\<close>

lemma session_inv_focus:
  assumes "session_inv g" "hm_get (gw_requests g) k = Some rq"
  shows "sessions_ok (\<lambda>s. phase_guards s (rq_phase rq) @ session_guards s (hm_remove k (gw_requests g))) g"
proof -
  have "mset (session_guards s (gw_requests g)) =
      mset (phase_guards s (rq_phase rq) @ session_guards s (hm_remove k (gw_requests g)))" for s
    using session_guards_remove [OF session_invD(1) [OF assms(1)] assms(2), of s] by simp
  from sessions_ok_mset [OF this] session_invD(2) [OF assms(1)] show ?thesis by simp
qed

lemma loop_ok_frame:
  assumes "loop_ok g" "session_frame G g g'"
  shows "loop_ok g'"
proof -
  obtain ss where "g' = g\<lparr>gw_sessions := ss\<rparr>" using assms(2) by (auto simp: session_frame_def)
  then show ?thesis using assms by (auto simp: loop_ok_def session_frame_def split: reply_loop.splits)
qed

lemma sessions_ok_cong:
  "gw_sessions g' = gw_sessions g \<Longrightarrow> gw_limits g' = gw_limits g \<Longrightarrow> sessions_ok G g' = sessions_ok G g"
  by (simp add: sessions_ok_def)

lemma loop_ok_cong:
  "gw_sessions g' = gw_sessions g \<Longrightarrow> gw_loop g' = gw_loop g \<Longrightarrow> gw_current g' = gw_current g \<Longrightarrow>
     gw_ready g' = gw_ready g \<Longrightarrow> loop_ok g' = loop_ok g"
  by (simp add: loop_ok_def split: reply_loop.split)


lemma session_inv_set_phase:
  assumes inv: "session_inv g"
    and ok: "sessions_ok (\<lambda>s. phase_guards s phase @ session_guards s (hm_remove k (gw_requests g))) g1"
    and fr: "session_frame G g g1"
  shows "session_inv (set_phase k rq c phase g1)"
proof -
  have g1: "gw_requests g1 = gw_requests g" using fr by (auto simp: session_frame_def)
  have "mset (session_guards s (gw_requests (set_phase k rq c phase g1)))
      = mset (phase_guards s phase @ session_guards s (hm_remove k (gw_requests g)))" for s
    using session_guards_insert [OF session_invD(1) [OF inv], of s k "rq\<lparr>rq_completed := c, rq_phase := phase\<rparr>"]
    by (simp add: set_phase_def g1)
  from sessions_ok_mset [OF this] ok
  have "sessions_ok (\<lambda>s. session_guards s (gw_requests (set_phase k rq c phase g1))) g1" by simp
  then show ?thesis unfolding session_inv_def
    using loop_ok_frame [OF session_invD(3) [OF inv] fr] session_invD(1) [OF inv]
      sessions_ok_cong [of "set_phase k rq c phase g1" g1] loop_ok_cong [of "set_phase k rq c phase g1" g1]
    by (simp add: set_phase_def g1 distinct_update)
qed

lemma session_inv_drop_lease:
  assumes inv: "session_inv g" and ok: "sessions_ok (\<lambda>s. session_guards s (hm_remove k (gw_requests g))) g1"
    and fr: "session_frame G g g1"
  shows "session_inv (drop_lease k c g1)"
proof -
  have g1: "gw_requests g1 = gw_requests g" using fr by (auto simp: session_frame_def)
  show ?thesis unfolding session_inv_def
    using loop_ok_frame [OF session_invD(3) [OF inv] fr] session_invD(1) [OF inv] ok
      sessions_ok_cong [of "drop_lease k c g1" g1] loop_ok_cong [of "drop_lease k c g1" g1]
    by (simp add: drop_lease_def g1 distinct_delete)
qed

lemma dropped_session_inv:
  assumes "session_inv g" "hm_get (gw_requests g) k = Some rq"
  shows "session_inv (drop_lease k c (drop_wait (rq_phase rq) g))"
  using drop_wait_ok [OF session_inv_focus [OF assms]] by (blast intro: session_inv_drop_lease [OF assms(1)])

abbreviation next_phase :: "http_api \<Rightarrow> gw_response + gw_phase \<Rightarrow> gw_phase" where
  "next_phase api q \<equiv> (case q of Inl r \<Rightarrow> Replying r (ha_frames api (gr_body r)) | Inr phase \<Rightarrow> phase)"

lemma continue_dispatch:
  assumes "\<not> (\<exists>r fs. rq_phase rq = Replying r fs)" "dispatch_poll api env now rq g = (q, g1)"
  shows "continue_request api env now k rq g = set_phase k rq (rq_completed rq \<or> (\<exists>r. q = Inl r)) (next_phase api q) g1"
  using assms by (cases "rq_phase rq"; cases q) (simp_all add: continue_request_def)

lemma continue_session_inv:
  assumes inv: "session_inv g" and k: "hm_get (gw_requests g) k = Some rq"
  shows "session_inv (continue_request api env now k rq g)"
proof -
  note f = session_inv_focus [OF inv k]
  have r: "session_inv (continue_request api env now k rq g)" if p: "rq_phase rq = Replying r fs" for r fs
  proof (cases fs)
    case Nil
    then show ?thesis using dropped_session_inv [OF inv k, of "rq_completed rq"] p
      by (simp add: continue_request_def drop_wait_def)
  next
    case (Cons f' fs')
    have "sessions_ok (\<lambda>s. phase_guards s (Replying r fs') @ session_guards s (hm_remove k (gw_requests g))) g"
      using f p by (simp add: phase_guards_def)
    then show ?thesis using session_inv_set_phase [OF inv _ session_frame_refl] p Cons
      by (simp add: continue_request_def)
  qed
  show ?thesis
  proof (cases "\<exists>r fs. rq_phase rq = Replying r fs")
    case False
    obtain q g1 where d: "dispatch_poll api env now rq g = (q, g1)" by fastforce
    have o1: "sessions_ok (\<lambda>s. left_guards q s @ session_guards s (hm_remove k (gw_requests g))) g1
        \<and> session_frame (\<lambda>s. session_guards s (hm_remove k (gw_requests g))) g g1"
      using session_invD(4) [OF inv] by (intro dispatch_poll_ok [OF f _ d])
    note p = continue_dispatch [OF False d]
    have "(\<lambda>s. left_guards q s @ session_guards s (hm_remove k (gw_requests g)))
        = (\<lambda>s. phase_guards s (next_phase api q) @ session_guards s (hm_remove k (gw_requests g)))"
      by (auto simp: phase_guards_def split: sum.split)
    then show ?thesis unfolding p using o1 by (auto intro: session_inv_set_phase [OF inv])
  qed (auto intro: r)
qed


lemma session_inv_cong:
  assumes "session_inv g" "gw_requests g' = gw_requests g" "gw_sessions g' = gw_sessions g" "gw_limits g' = gw_limits g"
    "gw_loop g' = gw_loop g" "gw_current g' = gw_current g" "gw_ready g' = gw_ready g"
  shows "session_inv g'"
  using assms sessions_ok_cong [of g' g] loop_ok_cong [of g' g] by (simp add: session_inv_def)

definition new_request :: "nat \<Rightarrow> http_request \<Rightarrow> route_entry \<Rightarrow> gateway \<Rightarrow> gw_request" where
  "new_request now req route g = \<lparr>rq_head = req, rq_subject = re_subject route,
     rq_deadline = now + secs (lim_timeout (gw_limits g)), rq_seen = gw_version g, rq_completed = False, rq_phase = Admitted\<rparr>"

lemma handle_admitted:
  assumes "handle api sem now req g = (Inr k, g')"
  shows "\<exists>route. rt_get (hq_path req) (gw_table g) = Inr (Some route) \<and> k = gw_admitted g
    \<and> gw_authority g \<and> \<not> gw_authority_closed g
    \<and> (re_methods route = [] \<or> (\<exists>m \<in> set (re_methods route). eq_ignore_ascii_case m (hq_method req)))
    \<and> sem_admits sem (lim_in_flight (gw_limits g)) (gw_held g)
    \<and> g' = g\<lparr>gw_held := Suc (gw_held g), gw_admitted := Suc (gw_admitted g),
        gw_counts := (gw_counts g)\<lparr>gc_high_water := max (gc_high_water (gw_counts g)) (gw_in_flight sem (g\<lparr>gw_held := Suc (gw_held g)\<rparr>))\<rparr>,
        gw_requests := hm_insert (gw_admitted g) (new_request now req route g) (gw_requests g)\<rparr>"
  using assms by (auto simp: handle_def Let_def new_request_def split: if_splits sum.splits option.splits)

lemma handle_refused:
  assumes "handle api sem now req g = (Inl r, g')"
  shows "g' = g \<or> g' = g\<lparr>gw_counts := (gw_counts g)\<lparr>gc_rejected := wrap_add (gc_rejected (gw_counts g)) 1\<rparr>\<rparr>"
  using assms by (auto simp: handle_def Let_def split: if_splits sum.splits option.splits)

lemma handle_session_inv:
  assumes inv: "session_inv g" and k: "\<forall>k \<in> fst ` set (gw_requests g). k < gw_admitted g"
    and h: "handle api sem now req g = (r, g')"
  shows "session_inv g'"
proof (cases r)
  case (Inl resp)
  with handle_refused [OF h [unfolded Inl]] show ?thesis by (auto intro: session_inv_cong [OF inv])
next
  case (Inr k)
  from handle_admitted [OF h [unfolded Inr]] obtain route c where
    g': "g' = g\<lparr>gw_held := Suc (gw_held g), gw_admitted := Suc (gw_admitted g), gw_counts := c,
      gw_requests := hm_insert (gw_admitted g) (new_request now req route g) (gw_requests g)\<rparr>" by blast
  have new: "gw_admitted g \<notin> fst ` set (gw_requests g)" using k by blast
  have "mset (session_guards s (gw_requests g')) = mset (session_guards s (gw_requests g))" for s
    using session_guards_insert [OF session_invD(1) [OF inv], of s "gw_admitted g" "new_request now req route g"] new
    by (simp add: g' new_request_def phase_guards_def delete_id)
  from sessions_ok_mset [OF this] show ?thesis
    using session_invD [OF inv] sessions_ok_cong [of g' g] loop_ok_cong [of g' g]
    by (simp add: session_inv_def g' distinct_update)
qed

subsection \<open>The reply session loop\<close>

lemma session_inv_idle:
  assumes "session_inv g" "gw_loop g = LoopTop \<or> gw_loop g = AwaitClient \<or> gw_loop g = SubscribeRetry \<or> gw_loop g = Subscribing c prefix"
    "g' = g\<lparr>gw_clients_changed := b, gw_loop := l, gw_current := None, gw_ready := False\<rparr>" "\<And>s. l \<noteq> Serving s"
  shows "session_inv g'"
  using assms(1,2,4) sessions_ok_cong [of g' g] by (auto simp: session_inv_def loop_ok_def assms(3) split: reply_loop.splits)

lemma loop_top_session_inv: "session_inv g \<Longrightarrow> gw_loop g = LoopTop \<Longrightarrow> session_inv (loop_top inbox g)"
  by (rule session_inv_idle [where b = False and l = "case gw_clients g of None \<Rightarrow> AwaitClient | Some c \<Rightarrow> Subscribing c (inbox @ ''.'')"])
    (auto simp: loop_top_def split: option.split)

lemma loop_await_session_inv:
  assumes "session_inv g" "gw_loop g = AwaitClient \<or> gw_loop g = SubscribeRetry"
  shows "session_inv (loop_await g)"
proof -
  have "gw_current g = None" "gw_ready g = False" using assms by (auto simp: session_inv_def loop_ok_def)
  then have "session_inv (g\<lparr>gw_clients_changed := b, gw_loop := l\<rparr>)" if "\<And>s. l \<noteq> Serving s" for b l
    using assms(2) that by (intro session_inv_idle [OF assms(1), where b = b and l = l]) auto
  from this [of LoopTop False] this [of LoopEnded "gw_clients_changed g"] assms(1)
  show ?thesis by (simp add: loop_await_def clients_changed_def)
qed

lemma subscribed_session_inv:
  assumes inv: "session_inv g" and l: "gw_loop g = Subscribing c prefix"
  shows "session_inv (loop_subscribed c prefix outcome g)"
proof (cases "\<exists>u. outcome = Done (Inr u)")
  case False
  then have "loop_subscribed c prefix outcome g = g\<lparr>gw_loop := SubscribeRetry\<rparr>"
    by (auto simp: loop_subscribed_def split: timed.split sum.split)
  then show ?thesis using inv l sessions_ok_cong [of "g\<lparr>gw_loop := SubscribeRetry\<rparr>" g]
    by (simp add: session_inv_def loop_ok_def)
next
  case True
  let ?s = "length (gw_sessions g)"
  have e: "session_guards ?s (gw_requests g) = []"
    using session_invD(2) [OF inv] unfolding sessions_ok_def by (metis less_irrefl)
  have n: "pending_wf (pending_new n) \<and> guards_ok [] (pending_new n) \<and> pd_capacity (pending_new n) = n \<and> \<not> pd_retired (pending_new n)" for n
    by (simp add: pending_new_def pending_wf_def guards_ok_def)
  have g': "loop_subscribed c prefix outcome g = g\<lparr>gw_sessions := gw_sessions g @
                 [\<lparr>ses_client = c, ses_prefix = prefix, ses_pending = pending_new (lim_in_flight (gw_limits g))\<rparr>],
             gw_current := Some ?s, gw_ready := True, gw_loop := Serving ?s\<rparr>" (is "_ = ?g'")
    using True by (auto simp: loop_subscribed_def Let_def)
  have "sessions_ok (\<lambda>s. session_guards s (gw_requests g)) ?g'"
    using session_invD(2) [OF inv] e n
    by (auto simp: sessions_ok_def nth_append less_Suc_eq)
  moreover have "loop_ok ?g'" using session_invD(3) [OF inv] l n by (auto simp: loop_ok_def nth_append less_Suc_eq)
  ultimately show ?thesis using session_invD(1) [OF inv] unfolding g' session_inv_def by simp
qed


lemma serving_session:
  assumes "session_inv g" "gw_loop g = Serving s"
  shows "s < length (gw_sessions g)" "gw_current g = Some s"
  using assms by (auto simp: session_inv_def loop_ok_def)

lemma end_session_inv:
  assumes inv: "session_inv g" and l: "gw_loop g = Serving s"
  shows "session_inv (end_session s gone g)"
proof -
  note s = serving_session [OF inv l]
  note w = sessions_okD [OF session_invD(2) [OF inv] s(1)]
  let ?p = "snd (retire (pending_of g s))"
  have r: "pending_wf ?p \<and> guards_ok (session_guards s (gw_requests g)) ?p
      \<and> pd_capacity ?p = pd_capacity (pending_of g s) \<and> pd_retired ?p"
    using retire_guards [OF w(1,2), of "fst (retire (pending_of g s))" ?p] by simp
  have ok: "sessions_ok (\<lambda>s. session_guards s (gw_requests g)) (set_pending s ?p g)"
    using r by (intro sessions_ok_set [OF session_invD(2) [OF inv] s(1)]) auto
  have "loop_ok (end_session s gone g)"
    using session_invD(3) [OF inv] l s r by (auto simp: loop_ok_def end_session_def Let_def)
  then show ?thesis unfolding session_inv_def
    using session_invD(1) [OF inv] ok sessions_ok_cong [of "end_session s gone g" "set_pending s ?p g"]
    by (simp add: end_session_def Let_def)
qed

lemma serve_clients_session_inv:
  assumes inv: "session_inv g" and l: "gw_loop g = Serving s"
  shows "session_inv (serve_clients s g)"
proof -
  have "session_inv (g\<lparr>gw_clients_changed := b\<rparr>)" for b by (rule session_inv_cong [OF inv]) simp_all
  from end_session_inv [OF this] end_session_inv [OF inv l] inv l show ?thesis
    by (simp add: serve_clients_def clients_changed_def)
qed

lemma set_pending_session_inv:
  assumes inv: "session_inv g" and s: "s < length (gw_sessions g)"
    and p: "pending_wf p" "guards_ok (session_guards s (gw_requests g)) p"
      "pd_capacity p = pd_capacity (pending_of g s)" "pd_retired p = pd_retired (pending_of g s)"
  shows "session_inv (set_pending s p g)"
proof -
  have "sessions_ok (\<lambda>s. session_guards s (gw_requests g)) (set_pending s p g)"
    using p by (intro sessions_ok_set [OF session_invD(2) [OF inv] s]) auto
  moreover have "loop_ok (set_pending s p g)"
    using session_invD(3) [OF inv] p(4) s by (auto simp: loop_ok_def split: reply_loop.splits)
  ultimately show ?thesis using session_invD(1) [OF inv] by (simp add: session_inv_def)
qed

lemma serve_message_session_inv:
  assumes inv: "session_inv g" and l: "gw_loop g = Serving s"
  shows "session_inv (serve_message s message g)"
proof (cases "\<exists>m i. message = Some m \<and> message_id (ses_prefix (gw_sessions g ! s)) m = Some i")
  case False
  then show ?thesis using inv end_session_inv [OF inv l] by (auto simp: serve_message_def split: option.split)
next
  case True
  then obtain m i where m: "message = Some m" "message_id (ses_prefix (gw_sessions g ! s)) m = Some i" by blast
  note s = serving_session [OF inv l]
  obtain q p where d: "deliver i (message_reply m) (pending_of g s) = (q, p)" by fastforce
  note r = replies.delivered [OF conjI [OF sessions_okD(1,2) [OF session_invD(2) [OF inv] s(1)]] d]
  then have "session_inv (set_pending s p g)" by (intro set_pending_session_inv [OF inv s(1)]) auto
  then show ?thesis using r m d by (auto simp: serve_message_def)
qed


section \<open>Leases\<close>

definition phase_within :: "request_limits \<Rightarrow> nat \<Rightarrow> gw_phase \<Rightarrow> bool" where
  "phase_within limits deadline phase \<longleftrightarrow>
     (case phase of
        ReadingBody bd bs \<Rightarrow> bd \<le> deadline \<and> length bs \<le> lim_body_bytes limits
      | Publishing _ _ _ payload \<Rightarrow> length payload \<le> lim_payload_bytes limits
      | _ \<Rightarrow> True)"

definition request_ok :: "request_limits \<Rightarrow> gw_request \<Rightarrow> bool" where
  "request_ok limits rq \<longleftrightarrow> phase_within limits (rq_deadline rq) (rq_phase rq)
     \<and> (rq_completed rq \<longleftrightarrow> (\<exists>r fs. rq_phase rq = Replying r fs))"

text \<open>Every request admitted is in flight or was counted once, up to the width of the counters.\<close>

definition accounted :: "gw_counts \<Rightarrow> nat \<Rightarrow> nat \<Rightarrow> bool" where
  "accounted c held admitted \<longleftrightarrow> (gc_completed c + gc_cancelled c + held) mod 2 ^ 64 = admitted mod 2 ^ 64"

definition lease_inv :: "request_limits \<Rightarrow> gateway \<Rightarrow> bool" where
  "lease_inv limits g \<longleftrightarrow> gw_limits g = limits \<and> \<not> rt_poisoned (gw_table g)
     \<and> hm_wf (gw_requests g) \<and> (\<forall>k \<in> fst ` set (gw_requests g). k < gw_admitted g)
     \<and> gw_held g = length (gw_requests g) \<and> gw_held g \<le> lim_in_flight limits
     \<and> gw_held g \<le> gc_high_water (gw_counts g) \<and> gc_high_water (gw_counts g) \<le> lim_in_flight limits
     \<and> gw_connections g \<le> lim_connections limits
     \<and> accounted (gw_counts g) (gw_held g) (gw_admitted g)
     \<and> (\<forall>rq \<in> snd ` set (gw_requests g). request_ok limits rq)"

lemma write_pieces_within:
  "length written \<le> limit \<Longrightarrow> write_pieces limit ps written = Some payload \<Longrightarrow>
     payload = written @ concat ps \<and> length payload \<le> limit"
proof (induction ps arbitrary: written)
  case (Cons p ps)
  have "length (written @ p) \<le> limit" "write_pieces limit ps (written @ p) = Some payload"
    using Cons.prems by (auto simp: payload_write_def wrap_sub_def split: if_splits)
  from Cons.IH [OF this] show ?case by (metis append_assoc concat.simps(2))
qed simp

lemma write_pieces_refused:
  "length written \<le> limit \<Longrightarrow> write_pieces limit ps written = None \<longleftrightarrow> limit < length written + length (concat ps)"
  by (induction ps arbitrary: written) (auto simp: payload_write_def wrap_sub_def)

lemma dispatch_poll_within:
  assumes "phase_within (gw_limits g) (rq_deadline rq) (rq_phase rq)" "dispatch_poll api env now rq g = (Inr phase, g')"
    "\<not> (\<exists>r fs. rq_phase rq = Replying r fs)"
  shows "phase_within (gw_limits g) (rq_deadline rq) phase \<and> \<not> (\<exists>r fs. phase = Replying r fs)"
proof (cases "rq_phase rq")
  case (ReadingBody bd bs)
  show ?thesis
  proof (cases "en_body env = BodyEnd")
    case True
    then show ?thesis using assms(2) ReadingBody write_pieces_within [of "[]"]
      by (auto simp: dispatch_poll_def dispatch_send_def phase_within_def split: option.splits if_splits prod.splits sum.splits)
  next
    case False
    then have "phase = ReadingBody bd bs
        \<or> (\<exists>chunk cs. read_body_chunk (lim_body_bytes (gw_limits g)) chunk bs = Inr cs \<and> phase = ReadingBody bd cs)"
      using assms(2) ReadingBody
      by (cases "en_body env") (auto simp: dispatch_poll_def map_sum_def split: if_splits sum.splits)
    then show ?thesis using assms(1) ReadingBody
      by (auto simp: read_body_chunk_def phase_within_def wrap_sub_def split: if_splits)
  qed
next
  case Admitted
  then show ?thesis using assms(2) by (auto simp: dispatch_poll_def dispatch_begin_def phase_within_def split: if_splits)
next
  case (Publishing s i h payload)
  then have "phase = Publishing s i h payload \<or> phase = AwaitingReply s i h" using assms(2)
    by (auto simp: dispatch_poll_def dispatch_publish_def split: option.splits bool.splits if_splits)
  then show ?thesis using assms(1) Publishing by (auto simp: phase_within_def)
next
  case (AwaitingReply s i h)
  then have "phase = AwaitingReply s i h" using assms(2)
    by (auto simp: dispatch_poll_def dispatch_receive_def split: oneshot.splits sum.splits if_splits)
  then show ?thesis by (simp add: phase_within_def)
next
  case (Replying r fs)
  then show ?thesis using assms(3) by blast
qed


lemma lease_invD:
  assumes "lease_inv limits g"
  shows "gw_limits g = limits" "\<not> rt_poisoned (gw_table g)" "hm_wf (gw_requests g)"
    "\<forall>k \<in> fst ` set (gw_requests g). k < gw_admitted g" "gw_held g = length (gw_requests g)"
    "gw_held g \<le> lim_in_flight limits" "gw_held g \<le> gc_high_water (gw_counts g)"
    "gc_high_water (gw_counts g) \<le> lim_in_flight limits" "gw_connections g \<le> lim_connections limits"
    "accounted (gw_counts g) (gw_held g) (gw_admitted g)"
    "hm_get (gw_requests g) k = Some rq \<Longrightarrow> request_ok limits rq"
  using assms unfolding lease_inv_def by (auto dest!: map_of_SomeD simp: rev_image_eqI)

text \<open>Only the registries, the sessions' loop, the clients and the authority are free to change.\<close>

lemma lease_inv_cong:
  assumes "lease_inv limits g" "gw_limits g' = gw_limits g" "gw_table g' = gw_table g" "gw_requests g' = gw_requests g"
    "gw_admitted g' = gw_admitted g" "gw_held g' = gw_held g" "gw_counts g' = gw_counts g" "gw_connections g' = gw_connections g"
  shows "lease_inv limits g'"
  using assms by (auto simp: lease_inv_def)

lemma lease_inv_frame: "lease_inv limits g \<Longrightarrow> session_frame G g g' \<Longrightarrow> lease_inv limits g'"
  by (auto simp: session_frame_def intro: lease_inv_cong)

lemma lease_inv_set_phase:
  assumes inv: "lease_inv limits g" and k: "hm_get (gw_requests g) k = Some rq"
    and ok: "request_ok limits (rq\<lparr>rq_completed := c, rq_phase := phase\<rparr>)"
  shows "lease_inv limits (set_phase k rq c phase g)"
proof -
  let ?m = "hm_insert k (rq\<lparr>rq_completed := c, rq_phase := phase\<rparr>) (gw_requests g)"
  have "fst ` set ?m = fst ` set (gw_requests g)" using k
    by (metis dom_map_of_conv_image_fst domI dom_fun_upd insert_absorb option.distinct(1) update_conv')
  moreover have "length ?m = length (gw_requests g)" using k by (simp add: hm_length_insert)
  moreover have "\<forall>rq \<in> snd ` set ?m. request_ok limits rq"
  proof
    fix x assume "x \<in> snd ` set ?m"
    then obtain j where "(j, x) \<in> set ?m" by auto
    moreover have "hm_wf ?m" using lease_invD(3) [OF inv] by (rule distinct_update)
    ultimately have "map_of ?m j = Some x" by simp
    then show "request_ok limits x" using ok lease_invD(11) [OF inv] by (auto simp: update_conv' split: if_splits)
  qed
  ultimately show ?thesis using inv
    by (auto simp: lease_inv_def set_phase_def distinct_update)
qed

lemma accounted_drop:
  assumes "accounted c (Suc n) m"
  shows "accounted (c\<lparr>gc_completed := wrap_add (gc_completed c) 1\<rparr>) n m"
    "accounted (c\<lparr>gc_cancelled := wrap_add (gc_cancelled c) 1\<rparr>) n m"
proof -
  let ?a = "gc_completed c" and ?b = "gc_cancelled c"
  have "(wrap_add ?a 1 + (?b + n)) mod 2 ^ 64 = (?a + 1 + (?b + n)) mod 2 ^ 64" unfolding wrap_add_def by (rule mod_add_left_eq)
  moreover have "(wrap_add ?b 1 + (?a + n)) mod 2 ^ 64 = (?b + 1 + (?a + n)) mod 2 ^ 64" unfolding wrap_add_def by (rule mod_add_left_eq)
  ultimately show "accounted (c\<lparr>gc_completed := wrap_add ?a 1\<rparr>) n m" "accounted (c\<lparr>gc_cancelled := wrap_add ?b 1\<rparr>) n m"
    using assms unfolding accounted_def by (simp_all add: ac_simps)
qed

lemma accounted_admit: "accounted c n m \<Longrightarrow> accounted c (Suc n) (Suc m)"
  unfolding accounted_def by (metis add_Suc_right mod_Suc_eq)

lemma accounted_cong:
  "gc_completed c' = gc_completed c \<Longrightarrow> gc_cancelled c' = gc_cancelled c \<Longrightarrow> accounted c' n m = accounted c n m"
  by (simp add: accounted_def)

lemma lease_inv_drop:
  assumes inv: "lease_inv limits g" and k: "hm_get (gw_requests g) k = Some rq"
  shows "lease_inv limits (drop_lease k c g)"
proof -
  have "0 < length (gw_requests g)" using k by (cases "gw_requests g") auto
  then have n: "gw_held g = Suc (length (hm_remove k (gw_requests g)))"
    using hm_length_remove [OF lease_invD(3) [OF inv], of k] k lease_invD(5) [OF inv] by simp
  have sub: "set (hm_remove k (gw_requests g)) \<subseteq> set (gw_requests g)" by (auto simp: AList.delete_eq)
  have "\<forall>j \<in> fst ` set (hm_remove k (gw_requests g)). j < gw_admitted g"
    using lease_invD(4) [OF inv] sub by blast
  moreover have "\<forall>rq \<in> snd ` set (hm_remove k (gw_requests g)). request_ok limits rq"
    using inv sub unfolding lease_inv_def by blast
  ultimately show ?thesis unfolding lease_inv_def drop_lease_def
    using lease_invD(1-3,6-9) [OF inv] n accounted_drop [OF lease_invD(10) [OF inv, unfolded n]]
    by (simp add: distinct_delete)
qed

lemma continue_lease_inv:
  assumes inv: "lease_inv limits g" and ses: "session_inv g" and k: "hm_get (gw_requests g) k = Some rq"
  shows "lease_inv limits (continue_request api env now k rq g)"
proof -
  note ok = lease_invD(11) [OF inv k]
  show ?thesis
  proof (cases "\<exists>r fs. rq_phase rq = Replying r fs")
    case True
    then obtain r fs where p: "rq_phase rq = Replying r fs" by blast
    have "lease_inv limits (set_phase k rq (rq_completed rq) (Replying r fs') g)" for fs'
      using ok p by (intro lease_inv_set_phase [OF inv k]) (simp add: request_ok_def phase_within_def)
    then show ?thesis using p lease_inv_drop [OF inv k] by (cases fs) (simp_all add: continue_request_def)
  next
    case False
    obtain q g1 where d: "dispatch_poll api env now rq g = (q, g1)" by fastforce
    have f: "session_frame (\<lambda>s. session_guards s (hm_remove k (gw_requests g))) g g1"
      using dispatch_poll_ok [OF session_inv_focus [OF ses k] _ d] session_invD(4) [OF ses] by blast
    have g1: "lease_inv limits g1" "hm_get (gw_requests g1) k = Some rq"
      using lease_inv_frame [OF inv f] f k by (auto simp: session_frame_def)
    have "request_ok limits (rq\<lparr>rq_completed := rq_completed rq \<or> (\<exists>r. q = Inl r), rq_phase := next_phase api q\<rparr>)"
      using ok False dispatch_poll_within [of g rq api env now _ g1] lease_invD(1) [OF inv] d
      by (cases q) (auto simp: request_ok_def phase_within_def)
    then show ?thesis unfolding continue_dispatch [OF False d] by (rule lease_inv_set_phase [OF g1])
  qed
qed

lemma dropped_lease_inv:
  assumes inv: "lease_inv limits g" and ses: "session_inv g" and k: "hm_get (gw_requests g) k = Some rq"
  shows "lease_inv limits (drop_lease k c (drop_wait (rq_phase rq) g))"
proof -
  have f: "session_frame (\<lambda>s. session_guards s (hm_remove k (gw_requests g))) g (drop_wait (rq_phase rq) g)"
    using drop_wait_ok [OF session_inv_focus [OF ses k]] by blast
  then show ?thesis using lease_inv_frame [OF inv f] k
    by (intro lease_inv_drop) (auto simp: session_frame_def)
qed

section \<open>Every step\<close>

definition gw_inv :: "request_limits \<Rightarrow> gateway \<Rightarrow> bool" where
  "gw_inv limits g \<longleftrightarrow> lim_in_flight limits < 2 ^ 64 \<and> lease_inv limits g \<and> session_inv g"

lemma gw_inv_new: "lim_in_flight limits < 2 ^ 64 \<Longrightarrow> gw_inv limits (gateway_new limits route_table_new)"
  by (simp add: gw_inv_def lease_inv_def session_inv_def gateway_new_def route_table_new_def accounted_def
      sessions_ok_def loop_ok_def session_guards_def)

lemma gw_inv_quiet:
  assumes "gw_inv limits g" "gw_limits g' = gw_limits g" "gw_table g' = gw_table g \<or> \<not> rt_poisoned (gw_table g')"
    "gw_requests g' = gw_requests g" "gw_admitted g' = gw_admitted g" "gw_held g' = gw_held g"
    "gw_counts g' = gw_counts g" "gw_connections g' = gw_connections g \<or> gw_connections g' \<le> lim_connections limits"
    "gw_sessions g' = gw_sessions g" "gw_loop g' = gw_loop g" "gw_current g' = gw_current g" "gw_ready g' = gw_ready g"
  shows "gw_inv limits g'"
  using assms session_inv_cong [of g g'] by (auto simp: gw_inv_def lease_inv_def)

lemma gw_inv_loop:
  assumes "gw_inv limits g" "session_inv g'" "gw_limits g' = gw_limits g" "gw_table g' = gw_table g" "gw_requests g' = gw_requests g"
    "gw_admitted g' = gw_admitted g" "gw_held g' = gw_held g" "gw_counts g' = gw_counts g" "gw_connections g' = gw_connections g"
  shows "gw_inv limits g'"
  using assms lease_inv_cong [of limits g g'] by (simp add: gw_inv_def)

lemma loop_quiet:
  shows "clients_changed g = (x, g') \<Longrightarrow> g' = g\<lparr>gw_clients_changed := gw_clients_changed g'\<rparr>"
    and "\<exists>b l. loop_await g = g\<lparr>gw_clients_changed := b, gw_loop := l\<rparr>"
proof -
  show c: "clients_changed g = (x, g') \<Longrightarrow> g' = g\<lparr>gw_clients_changed := gw_clients_changed g'\<rparr>" for x g'
    by (auto simp: clients_changed_def split: if_splits)
  have "loop_await g = g\<lparr>gw_clients_changed := gw_clients_changed (loop_await g), gw_loop := gw_loop (loop_await g)\<rparr>"
    by (simp add: loop_await_def clients_changed_def)
  then show "\<exists>b l. loop_await g = g\<lparr>gw_clients_changed := b, gw_loop := l\<rparr>" by blast
qed

text \<open>The reply session touches neither leases nor connections.\<close>

lemma serve_quiet:
  shows "\<exists>b l ss c r. serve_clients t g = g\<lparr>gw_clients_changed := b, gw_loop := l, gw_sessions := ss, gw_current := c, gw_ready := r\<rparr>"
    and "\<exists>l ss. serve_message t message g = g\<lparr>gw_loop := l, gw_sessions := ss\<rparr>"
proof -
  have "serve_clients t g = g\<lparr>gw_clients_changed := gw_clients_changed (serve_clients t g), gw_loop := gw_loop (serve_clients t g),
      gw_sessions := gw_sessions (serve_clients t g), gw_current := gw_current (serve_clients t g), gw_ready := gw_ready (serve_clients t g)\<rparr>"
    by (simp add: serve_clients_def clients_changed_def end_session_def Let_def set_pending_def)
  then show "\<exists>b l ss c r. serve_clients t g = g\<lparr>gw_clients_changed := b, gw_loop := l, gw_sessions := ss, gw_current := c, gw_ready := r\<rparr>"
    by blast
  have "serve_message t message g = g\<lparr>gw_loop := gw_loop (serve_message t message g), gw_sessions := gw_sessions (serve_message t message g)\<rparr>"
    by (simp add: serve_message_def end_session_def Let_def set_pending_def split: option.split prod.split sum.split)
  then show "\<exists>l ss. serve_message t message g = g\<lparr>gw_loop := l, gw_sessions := ss\<rparr>" by blast
qed

context semaphore_spec
begin

lemma handle_lease_inv:
  assumes inv: "lease_inv limits g" and n: "lim_in_flight limits < 2 ^ 64" and h: "handle api sem now req g = (r, g')"
  shows "lease_inv limits g'"
proof (cases r)
  case (Inl resp)
  have "lease_inv limits (g\<lparr>gw_counts := (gw_counts g)\<lparr>gc_rejected := x\<rparr>\<rparr>)" for x
    using inv by (auto simp: lease_inv_def accounted_def)
  then show ?thesis using handle_refused [OF h [unfolded Inl]] inv by auto
next
  case (Inr k)
  from handle_admitted [OF h [unfolded Inr]] obtain route where
    adm: "sem_admits sem (lim_in_flight limits) (gw_held g)" and g': "g' = g\<lparr>gw_held := Suc (gw_held g), gw_admitted := Suc (gw_admitted g),
      gw_counts := (gw_counts g)\<lparr>gc_high_water := max (gc_high_water (gw_counts g)) (gw_in_flight sem (g\<lparr>gw_held := Suc (gw_held g)\<rparr>))\<rparr>,
      gw_requests := hm_insert (gw_admitted g) (new_request now req route g) (gw_requests g)\<rparr>"
    using lease_invD(1) [OF inv] by blast
  have held: "Suc (gw_held g) \<le> lim_in_flight limits" using adm by (simp add: sem_admits_iff)
  have f: "gw_in_flight sem (g\<lparr>gw_held := Suc (gw_held g)\<rparr>) = Suc (gw_held g)"
    using in_use_eq [OF held n] lease_invD(1) [OF inv] by (simp add: gw_in_flight_def)
  have new: "gw_admitted g \<notin> fst ` set (gw_requests g)" using lease_invD(4) [OF inv] by blast
  have "request_ok limits (new_request now req route g)" by (simp add: request_ok_def new_request_def phase_within_def)
  then show ?thesis using inv held f accounted_admit [OF lease_invD(10) [OF inv]] new
    by (auto simp: lease_inv_def g' update_fresh accounted_def less_SucI)
qed

lemma gw_inv_step:
  assumes inv: "gw_inv limits g" and step: "gw_step api sem g g'"
  shows "gw_inv limits g'"
proof -
  have l: "lease_inv limits g" and s: "session_inv g" and n: "lim_in_flight limits < 2 ^ 64"
    using inv by (simp_all add: gw_inv_def)
  note c = continue_lease_inv [OF l s] continue_session_inv [OF s]
  note d = dropped_lease_inv [OF l s] dropped_session_inv [OF s]
  show ?thesis
    using step
  proof cases
    case (gw_handle now req r)
    then show ?thesis using handle_lease_inv [OF l n] handle_session_inv [OF s lease_invD(4) [OF l]] n by (simp add: gw_inv_def)
  next
    case (gw_poll k rq env now)
    then show ?thesis using c d n by (simp add: gw_inv_def poll_request_def cancel_request_def)
  next
    case (gw_continue k rq env now)
    then show ?thesis using c n by (simp add: gw_inv_def)
  next
    case (gw_abandon k rq)
    then show ?thesis using d n by (simp add: gw_inv_def abandon_request_def)
  next
    case (gw_loop_top inbox)
    then show ?thesis using loop_top_session_inv [OF s] by (intro gw_inv_loop [OF inv]) (auto simp: loop_top_def)
  next
    case gw_loop_await
    then show ?thesis using loop_await_session_inv [OF s] loop_quiet(2) [of g]
      by (intro gw_inv_loop [OF inv]) auto
  next
    case (gw_loop_subscribed c prefix outcome)
    then show ?thesis using subscribed_session_inv [OF s]
      by (intro gw_inv_loop [OF inv]) (auto simp: loop_subscribed_def Let_def split: timed.split sum.split)
  next
    case (gw_loop_retry slept)
    then have "session_inv (g\<lparr>gw_loop := LoopTop\<rparr>)"
      using s sessions_ok_cong [of "g\<lparr>gw_loop := LoopTop\<rparr>" g] by (auto simp: session_inv_def loop_ok_def)
    with gw_loop_retry show ?thesis using loop_await_session_inv [OF s] loop_quiet(2) [of g]
      by (intro gw_inv_loop [OF inv]) (auto simp: loop_retry_def)
  next
    case (gw_serve_clients t)
    then show ?thesis using serve_clients_session_inv [OF s] serve_quiet(1) [of t g] by (intro gw_inv_loop [OF inv]) auto
  next
    case (gw_serve_message t message)
    then show ?thesis using serve_message_session_inv [OF s] serve_quiet(2) [of t message g] by (intro gw_inv_loop [OF inv]) auto
  next
    case (gw_accept accepted)
    then have "\<exists>m. g' = g\<lparr>gw_connections := m\<rparr> \<and> m \<le> lim_connections limits"
      using lease_invD(1,9) [OF l] sem_admits_iff by (auto simp: accept_connection_def intro: exI [of _ "gw_connections g"] split: if_splits)
    then show ?thesis by (auto intro: gw_inv_quiet [OF inv])
  next
    case gw_hangup
    then show ?thesis using lease_invD(9) [OF l] by (auto intro: gw_inv_quiet [OF inv])
  qed (auto intro!: gw_inv_quiet [OF inv] simp: set_authority_def rt_upsert_def rt_remove_def rt_replace_all_def lease_invD(2) [OF l])
qed

end

sublocale semaphore_spec \<subseteq> gateway_system: invariant_system
  "\<lambda>g. gw_init limits g \<and> lim_in_flight limits < 2 ^ 64" "gw_step api sem" "gw_inv limits"
  for limits api
  by unfold_locales (auto simp: gw_init_def gw_inv_new intro: gw_inv_step)

end
