(* ===== verification/GatewayProperties.thy ===== *)
theory GatewayProperties
  imports GatewaySafety
begin

text \<open>
  What the gateway guarantees: its limits and gauges, that reply registrations never run out for a
  request in flight, that a reply reaches the request it belongs to, that nothing is dispatched
  without the authority, and that a request past its deadline ends.
\<close>

section \<open>Samples\<close>

definition sample_variables :: "string \<Rightarrow> env_var" where
  "sample_variables v = (if v = ''OPERATOR_ADDR'' then Var ''http://operator'' else NotPresent)"

definition sample_limits :: request_limits where
  "sample_limits = \<lparr>lim_in_flight = 32, lim_connections = 128, lim_body_bytes = 131072, lim_payload_bytes = 786432,
     lim_metadata_bytes = 16384, lim_body_read_timeout = 5, lim_timeout = 30\<rparr>"

definition sample_config :: gateway_config where
  "sample_config = \<lparr>cfg_operator_addr = ''http://operator'', cfg_gateway_id = ''unknown'',
     cfg_requests = sample_limits, cfg_http_port = 3000\<rparr>"

definition sample_api :: http_api where
  "sample_api = \<lparr>ha_status = (\<lambda>n. if 100 \<le> n \<and> n < 1000 then Some n else None), ha_name = Some, ha_value = (\<lambda>_. Some []),
     ha_to_str = (\<lambda>_. Some []), ha_encode = (\<lambda>_. [[1, 2], [3]]), ha_decode = (\<lambda>_. None), ha_frames = (\<lambda>b. [b]),
     ha_bad_header = plain st_INTERNAL_SERVER_ERROR\<rparr>"

definition sample_request :: http_request where
  "sample_request = \<lparr>hq_method = ''get'', hq_uri = ''/hello'', hq_path = ''/hello'', hq_query = None, hq_headers = []\<rparr>"

text \<open>A gateway with one route and one client of the message system, serving a session.\<close>

definition sample_serving :: gateway where
  "sample_serving = (gateway_new sample_limits
     (route_table_new\<lparr>rt_map := [(''/hello'', \<lparr>re_methods = [''GET''], re_subject = ''fn.hello''\<rparr>)]\<rparr>))
     \<lparr>gw_authority := True, gw_version := 1, gw_clients := Some 7, gw_loop := Serving 0, gw_ready := True,
      gw_sessions := [\<lparr>ses_client = 7, ses_prefix = ''inbox.'', ses_pending = pending_new 32\<rparr>], gw_current := Some 0\<rparr>"

definition sample_env_gw :: gw_env where
  "sample_env_gw = \<lparr>en_connected = True, en_max_payload = 1048576, en_body = BodyEnd, en_publish = Some True, en_later = 1\<rparr>"

text \<open>The same gateway with one request at a given wait.\<close>

definition sample_at :: "gw_phase \<Rightarrow> pending \<Rightarrow> gateway" where
  "sample_at phase p = sample_serving
     \<lparr>gw_held := 1, gw_admitted := 1, gw_counts := \<lparr>gc_high_water = 1, gc_rejected = 0, gc_completed = 0, gc_cancelled = 0\<rparr>,
      gw_requests := [(0, \<lparr>rq_head = sample_request, rq_subject = ''fn.hello'', rq_deadline = secs 30, rq_seen = 1,
        rq_completed = False, rq_phase = phase\<rparr>)],
      gw_sessions := [\<lparr>ses_client = 7, ses_prefix = ''inbox.'', ses_pending = p\<rparr>]\<rparr>"

abbreviation sample_reaches :: "gateway \<Rightarrow> bool" where
  "sample_reaches \<equiv> reaches (gw_init (cfg_requests sample_config)) (gw_step sample_api counting_semaphore)"

lemma sample_config_read: "config_from_env sample_variables = Inr sample_config"
  by (simp add: config_from_env_def limit_settings_def read_limit_def parse_limit_def parse_unsigned_def
      sample_variables_def sample_config_def sample_limits_def)

lemma sample_serving_reached: "sample_reaches sample_serving"
proof -
  let ?g0 = "gateway_new sample_limits route_table_new"
  let ?t = "route_table_new\<lparr>rt_map := [(''/hello'', \<lparr>re_methods = [''GET''], re_subject = ''fn.hello''\<rparr>)]\<rparr>"
  let ?g1 = "?g0\<lparr>gw_table := ?t\<rparr>"
  let ?g2 = "set_authority True ?g1"
  let ?g3 = "?g2\<lparr>gw_clients := Some 7, gw_clients_changed := True\<rparr>"
  let ?g4 = "loop_top ''inbox'' ?g3"
  let ?step = "gw_step sample_api counting_semaphore"
  have "sample_reaches ?g0" by (rule reaches_init) (simp add: gw_init_def sample_config_def)
  moreover have "?step ?g0 ?g1"
    by (rule gw_upsert [where r = "Inr ()"]) (simp add: rt_upsert_def gateway_new_def route_table_new_def)
  moreover have "?step ?g1 ?g2" by (rule gw_set_authority) (simp add: gateway_new_def)
  moreover have "?step ?g2 ?g3" by (rule gw_client) (simp add: gateway_new_def set_authority_def)
  moreover have "?step ?g3 ?g4" by (rule gw_loop_top) (simp add: gateway_new_def set_authority_def)
  moreover have "?step ?g4 (loop_subscribed 7 ''inbox.'' (Done (Inr ())) ?g4)"
    by (rule gw_loop_subscribed) (simp add: loop_top_def)
  ultimately have "sample_reaches (loop_subscribed 7 ''inbox.'' (Done (Inr ())) ?g4)"
    by (meson reaches_step)
  then show ?thesis
    by (simp add: loop_subscribed_def loop_top_def set_authority_def gateway_new_def sample_serving_def sample_limits_def Let_def)
qed


definition sample_reserved :: pending where
  "sample_reserved = (pending_new 32)\<lparr>pd_next := 1, pd_replies := [(0, 0)], pd_channels := [ChannelOpen]\<rparr>"

lemmas sample_eval = sample_at_def sample_serving_def sample_limits_def sample_request_def sample_api_def sample_env_gw_def
  gateway_new_def route_table_new_def pending_new_def secs_def

lemma sample_admitted_reached: "sample_reaches (sample_at Admitted (pending_new 32))"
proof -
  have "handle sample_api counting_semaphore 0 sample_request sample_serving = (Inr 0, sample_at Admitted (pending_new 32))"
    by (simp add: handle_def rt_get_def eq_ignore_ascii_case_def ascii_lower_def counting_semaphore_def Let_def
        gw_in_flight_def wrap_sub_def char_of_eq_iff sample_eval)
  then show ?thesis by (rule reaches_step [OF sample_serving_reached gw_handle])
qed

lemma sample_continue:
  assumes "sample_reaches (sample_at phase p)"
    "continue_request sample_api env now 0 (snd (hd (gw_requests (sample_at phase p)))) (sample_at phase p) = sample_at phase' p'"
  shows "sample_reaches (sample_at phase' p')"
proof -
  have "hm_get (gw_requests (sample_at phase p)) 0 = Some (snd (hd (gw_requests (sample_at phase p))))"
    by (simp add: sample_at_def)
  from reaches_step [OF assms(1) gw_continue [OF this]] assms(2) show ?thesis by metis
qed

lemma sample_reading_reached: "sample_reaches (sample_at (ReadingBody (secs 5) []) (pending_new 32))"
  by (rule sample_continue [OF sample_admitted_reached, where env = sample_env_gw and now = 0])
    (simp add: continue_request_def dispatch_poll_def dispatch_begin_def metadata_bytes_def content_length_def
      broker_available_def set_phase_def sample_eval)

lemma sample_publishing_reached: "sample_reaches (sample_at (Publishing 0 0 0 [1, 2, 3]) sample_reserved)"
  by (rule sample_continue [OF sample_reading_reached, where env = sample_env_gw and now = 0])
    (simp add: continue_request_def dispatch_poll_def dispatch_send_def payload_write_def wrap_sub_def
      broker_request_def reserve_def checked_add_def set_pending_def set_phase_def sample_reserved_def Let_def sample_eval)

lemma sample_awaiting_reached: "sample_reaches (sample_at (AwaitingReply 0 0 0) sample_reserved)"
  by (rule sample_continue [OF sample_publishing_reached, where env = sample_env_gw and now = 0])
    (simp add: continue_request_def dispatch_poll_def dispatch_publish_def set_phase_def sample_eval)


section \<open>Lemmas\<close>

context semaphore_spec
begin

lemma gw_system_inv:
  "lim_in_flight limits < 2 ^ 64 \<Longrightarrow> reaches (gw_init limits) (gw_step api sem) g \<Longrightarrow> gw_inv limits g"
  using gateway_system.inv_reaches [of limits api g] by simp

end

lemma gw_reached_inv:
  assumes "semaphore_spec sem" "config_from_env env = Inr cfg" "reaches (gw_init (cfg_requests cfg)) (gw_step api sem) g"
  shows "gw_inv (cfg_requests cfg) g"
  using config_limits(2) [OF assms(2)] by (intro semaphore_spec.gw_system_inv [OF assms(1) _ assms(3)]) simp

lemma gw_invD:
  assumes "gw_inv limits g"
  shows "lim_in_flight limits < 2 ^ 64" "lease_inv limits g" "session_inv g"
  using assms by (simp_all add: gw_inv_def)

lemma session_replies:
  assumes "gw_inv limits g" "s < length (gw_sessions g)"
  shows "length (pd_replies (pending_of g s)) \<le> length (gw_requests g)"
  using guards_bound [OF sessions_okD(1,2) [OF session_invD(2) [OF gw_invD(3) [OF assms(1)]] assms(2)]]
    session_guards_length [of s "gw_requests g"] by linarith

section \<open>Properties\<close>

text \<open>
  C2 (invariant). With a configuration read from the environment and whatever requests, replies,
  clients and authorities come and go, the gateway holds at most the configured number of requests
  and connections, and reports exactly how many; the high-water mark lies between the number in
  flight and the limit; every request admitted is in flight or was counted completed or cancelled
  once, up to the 64 bits of the counters; no session has more registrations than requests in
  flight; and no request buffers more than the limits for bodies and payloads.
\<close>

theorem gateway_within_limits:
  assumes "semaphore_spec sem" "config_from_env env = Inr cfg" "reaches (gw_init (cfg_requests cfg)) (gw_step api sem) g"
  shows "length (gw_requests g) \<le> lim_in_flight (cfg_requests cfg)
    \<and> gs_in_flight (snapshot sem g) = length (gw_requests g)
    \<and> gs_in_flight_limit (snapshot sem g) = lim_in_flight (cfg_requests cfg)
    \<and> length (gw_requests g) \<le> gs_high_water (snapshot sem g)
    \<and> gs_high_water (snapshot sem g) \<le> lim_in_flight (cfg_requests cfg)
    \<and> gw_connections g \<le> lim_connections (cfg_requests cfg)
    \<and> gs_connection_count (snapshot sem g) = gw_connections g
    \<and> (gs_completed (snapshot sem g) + gs_cancelled (snapshot sem g) + gs_in_flight (snapshot sem g)) mod 2 ^ 64
        = gw_admitted g mod 2 ^ 64
    \<and> (\<forall>ses \<in> set (gw_sessions g). length (pd_replies (ses_pending ses)) \<le> length (gw_requests g))
    \<and> (\<forall>(k, rq) \<in> set (gw_requests g).
         (\<forall>bd bs. rq_phase rq = ReadingBody bd bs \<longrightarrow> length bs \<le> lim_body_bytes (cfg_requests cfg))
       \<and> (\<forall>s i h payload. rq_phase rq = Publishing s i h payload \<longrightarrow> length payload \<le> lim_payload_bytes (cfg_requests cfg)))"
proof -
  note inv = gw_reached_inv [OF assms]
  note l = lease_invD [OF gw_invD(2) [OF inv]]
  have n: "lim_connections (cfg_requests cfg) < 2 ^ 64" using config_limits(4) [OF assms(2)] by simp
  have f: "gw_in_flight sem g = gw_held g"
    using semaphore_spec.in_use_eq [OF assms(1) l(6) gw_invD(1) [OF inv]] l(1) by (simp add: gw_in_flight_def)
  have c: "gs_connection_count (snapshot sem g) = gw_connections g"
    using semaphore_spec.in_use_eq [OF assms(1) l(9) n] l(1) by (simp add: snapshot_def)
  have r: "\<forall>ses \<in> set (gw_sessions g). length (pd_replies (ses_pending ses)) \<le> length (gw_requests g)"
    using session_replies [OF inv] by (metis in_set_conv_nth)
  have b: "request_ok (cfg_requests cfg) rq" if "(k, rq) \<in> set (gw_requests g)" for k rq
    using l(11) l(3) that by simp
  have b1: "length bs \<le> lim_body_bytes (cfg_requests cfg)" if "(k, rq) \<in> set (gw_requests g)" "rq_phase rq = ReadingBody bd bs" for k rq bd bs
    using b [OF that(1)] that(2) by (simp add: request_ok_def phase_within_def)
  have b2: "length payload \<le> lim_payload_bytes (cfg_requests cfg)"
    if "(k, rq) \<in> set (gw_requests g)" "rq_phase rq = Publishing s i h payload" for k rq s i h payload
    using b [OF that(1)] that(2) by (simp add: request_ok_def phase_within_def)
  show ?thesis using l(1,5-10) f c r b1 b2 by (auto simp: snapshot_def accounted_def)
qed

theorem gateway_within_limits_witness:
  "gs_in_flight (snapshot counting_semaphore (sample_at (AwaitingReply 0 0 0) sample_reserved)) = 1
     \<and> gs_in_flight_limit (snapshot counting_semaphore (sample_at (AwaitingReply 0 0 0) sample_reserved)) = 32"
  using gateway_within_limits [OF counting.semaphore_spec_axioms sample_config_read sample_awaiting_reached]
  by (simp add: sample_at_def sample_config_def sample_limits_def)


text \<open>A request that holds no registration leaves room for one in every session.\<close>

lemma room_for_one:
  assumes inv: "gw_inv limits g" and k: "hm_get (gw_requests g) k = Some rq" and none: "phase_guards s (rq_phase rq) = []"
    and s: "s < length (gw_sessions g)"
  shows "length (session_guards s (gw_requests g)) < pd_capacity (pending_of g s)"
proof -
  note l = lease_invD [OF gw_invD(2) [OF inv]]
  have "mset (session_guards s (gw_requests g)) = mset (session_guards s (hm_remove k (gw_requests g)))"
    using session_guards_remove [OF l(3) k, of s] none by simp
  then have "length (session_guards s (gw_requests g)) \<le> length (hm_remove k (gw_requests g))"
    using session_guards_length [of s "hm_remove k (gw_requests g)"] by (metis size_mset)
  also have "\<dots> < length (gw_requests g)"
    using hm_length_remove [OF l(3), of k] k by (cases "gw_requests g") auto
  also have "\<dots> \<le> pd_capacity (pending_of g s)"
    using sessions_okD(3) [OF session_invD(2) [OF gw_invD(3) [OF inv]] s] l(1,5,6) by simp
  finally show ?thesis .
qed

lemma serving_or_retired:
  assumes "session_inv g" "gw_current g = Some s" "pd_retired (pending_of g s)"
  shows "gw_loop g = LoopTop"
  using assms by (auto simp: session_inv_def loop_ok_def split: reply_loop.splits)

text \<open>
  C28 (error). The registry of pending replies has as many slots as requests are admitted, so a
  request that has read its body is never refused a registration for lack of room: it fails only
  past its deadline, without a session or connection or while the session is being replaced, with a
  payload above the bound of the server, or when the 64-bit identifiers are used up; and failing
  leaves no trace.
\<close>

theorem reply_capacity_suffices:
  assumes "semaphore_spec sem" "config_from_env env = Inr cfg" "reaches (gw_init (cfg_requests cfg)) (gw_step api sem) g"
    and "hm_get (gw_requests g) k = Some rq" "rq_phase rq = ReadingBody bd bs"
    and "broker_request e deadline payload g = (Inl err, g')"
  shows "g' = g \<and>
    (case err of
       Unavailable \<Rightarrow> gw_current g = None \<or> \<not> en_connected e \<or> gw_loop g = LoopTop
     | PayloadTooLarge \<Rightarrow> en_max_payload e < length payload
     | RequestTimeout \<Rightarrow> deadline \<le> en_later e
     | RequestFailed \<Rightarrow> \<exists>s. gw_current g = Some s \<and> 2 ^ 64 \<le> Suc (pd_next (pending_of g s)))"
proof -
  note inv = gw_reached_inv [OF assms(1-3)]
  note ses = gw_invD(3) [OF inv]
  have same: "g' = g" using broker_request_ok [OF session_invD(2) [OF ses] _ assms(6)] session_invD(4) [OF ses] by simp
  show ?thesis
  proof (cases "deadline \<le> en_later e \<or> gw_current g = None \<or> \<not> en_connected e \<or> en_max_payload e < length payload")
    case True
    then show ?thesis using assms(6) by (auto simp: broker_request_def split: if_splits option.splits)
  next
    case False
    then obtain s where s: "gw_current g = Some s" by auto
    have r: "reserve (pending_of g s) = (Inl err, snd (reserve (pending_of g s)))"
      using assms(6) False s by (cases "reserve (pending_of g s)") (auto simp: broker_request_def split: sum.splits)
    have n: "s < length (gw_sessions g)" using session_invD(4) [OF ses s] .
    have "length (pd_replies (pending_of g s)) < pd_capacity (pending_of g s)"
      using room_for_one [OF inv assms(4) _ n] assms(5) guards_bound [OF sessions_okD(1,2) [OF session_invD(2) [OF ses] n]]
      by (simp add: phase_guards_def)
    with reserve_Inl [OF sessions_okD(1) [OF session_invD(2) [OF ses] n] r] serving_or_retired [OF ses s] s same
    show ?thesis by auto
  qed
qed

theorem reply_capacity_suffices_witness:
  "broker_request (sample_env_gw\<lparr>en_connected := False\<rparr>) (secs 30) [1] (sample_at (ReadingBody (secs 5) []) (pending_new 32))
     = (Inl Unavailable, sample_at (ReadingBody (secs 5) []) (pending_new 32))"
proof -
  let ?g = "sample_at (ReadingBody (secs 5) []) (pending_new 32)"
  obtain g' where b: "broker_request (sample_env_gw\<lparr>en_connected := False\<rparr>) (secs 30) [1] ?g = (Inl Unavailable, g')"
    by (simp add: broker_request_def sample_eval)
  have k: "hm_get (gw_requests ?g) 0 = Some (snd (hd (gw_requests ?g)))" "rq_phase (snd (hd (gw_requests ?g))) = ReadingBody (secs 5) []"
    by (simp_all add: sample_at_def)
  from reply_capacity_suffices [OF counting.semaphore_spec_axioms sample_config_read sample_reading_reached k b] b
  show ?thesis by simp
qed

text \<open>
  C34 (functional). What is published for a request is the serialisation of its head and of the body
  it read, whole, within the limits of gateway and server; at that time the gateway had the
  authority and the deadline was ahead; and the reply subject belongs to no other request of the
  session.
\<close>

theorem published_request_exact:
  assumes "semaphore_spec sem" "config_from_env env = Inr cfg" "reaches (gw_init (cfg_requests cfg)) (gw_step api sem) g"
    and "hm_get (gw_requests g) k = Some rq" "rq_phase rq = ReadingBody bd bs"
    and "dispatch_poll api e now rq g = (Inr (Publishing s i h payload), g')"
  shows "payload = concat (ha_encode api (request_payload api (rq_head rq) bs))
    \<and> length payload \<le> lim_payload_bytes (cfg_requests cfg) \<and> length payload \<le> en_max_payload e
    \<and> length bs \<le> lim_body_bytes (cfg_requests cfg)
    \<and> gw_authority g \<and> now < rq_deadline rq \<and> en_later e < rq_deadline rq \<and> gw_current g = Some s
    \<and> (\<forall>(k', rq') \<in> set (gw_requests g). \<forall>j h'. (j, h') \<in> set (phase_guards s (rq_phase rq')) \<longrightarrow>
         reply_subject g' s j \<noteq> reply_subject g' s i)"
proof -
  note inv = gw_reached_inv [OF assms(1-3)]
  note ses = gw_invD(3) [OF inv] and l = lease_invD [OF gw_invD(2) [OF inv]]
  have d: "dispatch_send api e now rq bs g = (Inr (Publishing s i h payload), g')"
    using assms(5,6) by (auto simp: dispatch_poll_def map_sum_def split: gw_body_event.splits if_splits sum.splits)
  then have w: "write_pieces (lim_payload_bytes (gw_limits g)) (ha_encode api (request_payload api (rq_head rq) bs)) [] = Some payload"
    and a: "gw_authority g" "now < rq_deadline rq" and b: "broker_request e (rq_deadline rq) payload g = (Inr (s, i, h), g')"
    by (auto simp: dispatch_send_def split: option.splits if_splits prod.splits sum.splits)
  have q: "gw_current g = Some s" "s < length (gw_sessions g)" "length payload \<le> en_max_payload e" "en_later e < rq_deadline rq"
    "sessions_ok (\<lambda>t. if t = s then (i, h) # session_guards s (gw_requests g) else session_guards t (gw_requests g)) g'"
    "session_frame (\<lambda>s. session_guards s (gw_requests g)) g g'"
    using broker_request_ok [OF session_invD(2) [OF ses] _ b] session_invD(4) [OF ses] by auto
  have n: "s < length (gw_sessions g')" using q(2,6) by (auto simp: session_frame_def)
  have "i \<notin> fst ` set (session_guards s (gw_requests g))"
    using guards_okD(2) [OF sessions_okD(2) [OF q(5) n]] by simp
  then have "j \<noteq> i" if "(k', rq') \<in> set (gw_requests g)" "(j, h') \<in> set (phase_guards s (rq_phase rq'))" for k' rq' j h'
    using that unfolding session_guards_def by (force simp: hm_items_member image_iff)
  moreover have "show_nat j = show_nat i \<Longrightarrow> j = i" for j by (metis option.inject show_nat_digits)
  ultimately have "\<forall>(k', rq') \<in> set (gw_requests g). \<forall>j h'. (j, h') \<in> set (phase_guards s (rq_phase rq')) \<longrightarrow>
      reply_subject g' s j \<noteq> reply_subject g' s i"
    unfolding reply_subject_def by fastforce
  moreover have "length bs \<le> lim_body_bytes (cfg_requests cfg)"
    using l(11) [OF assms(4)] assms(5) by (simp add: request_ok_def phase_within_def)
  ultimately show ?thesis using write_pieces_within [OF _ w] a q(1,3,4) l(1) by auto
qed

theorem published_request_exact_witness:
  "\<exists>g'. dispatch_poll sample_api sample_env_gw 0 (snd (hd (gw_requests (sample_at (ReadingBody (secs 5) []) (pending_new 32)))))
      (sample_at (ReadingBody (secs 5) []) (pending_new 32)) = (Inr (Publishing 0 0 0 [1, 2, 3]), g')
    \<and> length [1, 2, 3 :: byte] \<le> lim_payload_bytes (cfg_requests sample_config)"
proof -
  let ?g = "sample_at (ReadingBody (secs 5) []) (pending_new 32)"
  have k: "hm_get (gw_requests ?g) 0 = Some (snd (hd (gw_requests ?g)))" "rq_phase (snd (hd (gw_requests ?g))) = ReadingBody (secs 5) []"
    by (simp_all add: sample_at_def)
  have "\<exists>g'. dispatch_poll sample_api sample_env_gw 0 (snd (hd (gw_requests ?g))) ?g = (Inr (Publishing 0 0 0 [1, 2, 3]), g')"
    by (simp add: dispatch_poll_def dispatch_send_def payload_write_def wrap_sub_def broker_request_def reserve_def
        checked_add_def Let_def sample_eval)
  then show ?thesis
    using published_request_exact [OF counting.semaphore_spec_axioms sample_config_read sample_reading_reached k] by blast
qed


subsection \<open>Replies\<close>

text \<open>What becomes of the open channel of a request when another part of the gateway moves.\<close>

abbreviation channel_of :: "gateway \<Rightarrow> nat \<Rightarrow> nat \<Rightarrow> oneshot" where
  "channel_of g s h \<equiv> pd_channels (pending_of g s) ! h"

lemma guard_member:
  assumes "hm_get (gw_requests g) k = Some rq" "(i, h) \<in> set (phase_guards s (rq_phase rq))"
  shows "(i, h) \<in> set (session_guards s (gw_requests g))"
  using assms by (force simp: session_guards_def hm_items_member dest: map_of_SomeD)

lemma guard_kept:
  assumes "hm_get (gw_requests g) k = Some rq" "(i, h) \<in> set (phase_guards s (rq_phase rq))" "k' \<noteq> k"
  shows "(i, h) \<in> set (session_guards s (hm_remove k' (gw_requests g)))"
proof -
  have "hm_get (hm_remove k' (gw_requests g)) k = Some rq" using assms(1,3) by (simp add: delete_conv')
  then show ?thesis using assms(2) by (force simp: session_guards_def hm_items_member dest: map_of_SomeD)
qed

lemma release_closes:
  assumes ok: "sessions_ok G g" and m: "(i, h) \<in> set (G s)"
  shows "channel_of (release_request s i h g) s h = ReceiverDropped"
proof -
  have s: "s < length (gw_sessions g)" using sessions_ok_outside [OF ok m] .
  note w = sessions_okD(1,2) [OF ok s]
  show ?thesis using guards_okD(5) [OF w(2) m]
    by (simp add: release_request_def s release_eq [OF w m])
qed

lemma own_channel:
  assumes inv: "session_inv g" and k: "hm_get (gw_requests g) k = Some rq"
    and m: "(i, h) \<in> set (phase_guards s (rq_phase rq))" and o1: "channel_of g s h = ChannelOpen"
  shows "channel_of (snd (dispatch_poll api e now rq g)) s h \<in> {ChannelOpen, ReceiverDropped}"
    and "channel_of (drop_wait (rq_phase rq) g) s h = ReceiverDropped"
proof -
  have r: "channel_of (release_request s i h g) s h = ReceiverDropped"
    using release_closes [OF session_inv_focus [OF inv k], of i h s] m by simp
  have p: "(\<exists>payload. rq_phase rq = Publishing s i h payload) \<or> rq_phase rq = AwaitingReply s i h"
    using m by (auto simp: phase_guards_def split: gw_phase.splits if_splits)
  then show "channel_of (drop_wait (rq_phase rq) g) s h = ReceiverDropped" using r by (auto simp: drop_wait_def)
  show "channel_of (snd (dispatch_poll api e now rq g)) s h \<in> {ChannelOpen, ReceiverDropped}"
    using p r o1 by (auto simp: dispatch_poll_def dispatch_publish_def dispatch_receive_def split: option.split bool.split)
qed

lemma continue_channel:
  assumes inv: "session_inv g" and k: "hm_get (gw_requests g) k = Some rq"
    and m: "(i, h) \<in> set (phase_guards s (rq_phase rq))" and o1: "channel_of g s h = ChannelOpen"
    and k': "hm_get (gw_requests g) k' = Some rq'"
  shows "channel_of (continue_request api e now k' rq' g) s h \<in> {ChannelOpen, ReceiverDropped}"
proof (cases "\<exists>r fs. rq_phase rq' = Replying r fs")
  case True
  then have "gw_sessions (continue_request api e now k' rq' g) = gw_sessions g"
    by (auto simp: continue_request_def drop_lease_def set_phase_def split: list.split)
  then show ?thesis using o1 by simp
next
  case False
  obtain q g1 where d: "dispatch_poll api e now rq' g = (q, g1)" by fastforce
  have c: "channel_of (continue_request api e now k' rq' g) s h = channel_of g1 s h"
    by (simp add: continue_dispatch [OF False d] set_phase_def)
  show ?thesis
  proof (cases "k' = k")
    case True
    then show ?thesis using own_channel(1) [OF inv k m o1, of api e now] k k' d c by simp
  next
    case False
    have "session_frame (\<lambda>s. session_guards s (hm_remove k' (gw_requests g))) g g1"
      using dispatch_poll_ok [OF session_inv_focus [OF inv k'] _ d] session_invD(4) [OF inv] by blast
    moreover have "s < length (gw_sessions g)" using sessions_ok_outside [OF session_invD(2) [OF inv] guard_member [OF k m]] .
    ultimately show ?thesis using guard_kept [OF k m False] o1 c by (fastforce simp: session_frame_def)
  qed
qed

lemma dropped_channel:
  assumes inv: "session_inv g" and k: "hm_get (gw_requests g) k = Some rq"
    and m: "(i, h) \<in> set (phase_guards s (rq_phase rq))" and o1: "channel_of g s h = ChannelOpen"
    and k': "hm_get (gw_requests g) k' = Some rq'"
  shows "channel_of (drop_lease k' c (drop_wait (rq_phase rq') g)) s h \<in> {ChannelOpen, ReceiverDropped}"
proof (cases "k' = k")
  case True
  then show ?thesis using own_channel(2) [OF inv k m o1] k k' by (simp add: drop_lease_def)
next
  case False
  have "session_frame (\<lambda>s. session_guards s (hm_remove k' (gw_requests g))) g (drop_wait (rq_phase rq') g)"
    using drop_wait_ok [OF session_inv_focus [OF inv k']] by blast
  moreover have "s < length (gw_sessions g)" using sessions_ok_outside [OF session_invD(2) [OF inv] guard_member [OF k m]] .
  ultimately show ?thesis using guard_kept [OF k m False] o1 by (fastforce simp: session_frame_def drop_lease_def)
qed


lemma ended_channel:
  assumes inv: "session_inv g" and l: "gw_loop g = Serving t" and m: "(i, h) \<in> set (session_guards s (gw_requests g))"
    and o1: "channel_of g s h = ChannelOpen"
  shows "channel_of (end_session t gone g) s h \<in> {ChannelOpen, SenderDropped}"
proof -
  have s: "t < length (gw_sessions g)" using serving_session [OF inv l] by blast
  let ?p = "snd (retire (pending_of g t))"
  have r: "\<forall>(j, h) \<in> set (session_guards t (gw_requests g)). pd_channels ?p ! h = drop_sender (channel_of g t h)"
    using retire_guards [OF sessions_okD(1,2) [OF session_invD(2) [OF inv] s], of "fst (retire (pending_of g t))" ?p] by simp
  have "channel_of (end_session t gone g) s h = (if s = t then pd_channels ?p ! h else channel_of g s h)"
    using s by (simp add: end_session_def Let_def)
  then show ?thesis using r m o1 by (auto simp: drop_sender_def)
qed

lemma clients_channel:
  assumes inv: "session_inv g" and l: "gw_loop g = Serving t" and m: "(i, h) \<in> set (session_guards s (gw_requests g))"
    and o1: "channel_of g s h = ChannelOpen"
  shows "channel_of (serve_clients t g) s h \<in> {ChannelOpen, SenderDropped}"
proof -
  let ?g = "g\<lparr>gw_clients_changed := False\<rparr>"
  have "session_inv ?g" by (rule session_inv_cong [OF inv]) simp_all
  then have "channel_of (end_session t False ?g) s h \<in> {ChannelOpen, SenderDropped}"
    using l m o1 by (intro ended_channel [of ?g t i h s]) simp_all
  then show ?thesis using ended_channel [OF assms, of True] o1
    by (simp add: serve_clients_def clients_changed_def)
qed

lemma message_channel:
  assumes inv: "session_inv g" and l: "gw_loop g = Serving t" and m: "(i, h) \<in> set (session_guards s (gw_requests g))"
    and o1: "channel_of g s h = ChannelOpen" and sent: "channel_of (serve_message t message g) s h = Sent r"
  shows "t = s \<and> (\<exists>msg. message = Some msg \<and> message_id (ses_prefix (gw_sessions g ! s)) msg = Some i \<and> r = message_reply msg)"
proof (cases "\<exists>msg j. message = Some msg \<and> message_id (ses_prefix (gw_sessions g ! t)) msg = Some j")
  case False
  then have "channel_of (serve_message t message g) s h \<in> {ChannelOpen, SenderDropped}"
    using ended_channel [OF inv l m o1] o1 by (auto simp: serve_message_def split: option.split)
  then show ?thesis using sent by auto
next
  case True
  then obtain msg j where j: "message = Some msg" "message_id (ses_prefix (gw_sessions g ! t)) msg = Some j" by blast
  have n: "t < length (gw_sessions g)" using serving_session [OF inv l] by blast
  obtain q p where d: "deliver j (message_reply msg) (pending_of g t) = (q, p)" by fastforce
  note r = replies.delivered [OF conjI [OF sessions_okD(1,2) [OF session_invD(2) [OF inv] n]] d]
  have "serve_message t message g = set_pending t p g" using r j d by (auto simp: serve_message_def)
  then have c: "Sent r = (if s = t then pd_channels p ! h else channel_of g s h)" using sent n by (auto split: if_splits)
  then have "s = t" using o1 by (auto split: if_splits)
  moreover have "pd_channels p ! h = (if i = j then Sent (message_reply msg) else ChannelOpen)"
    using r m o1 \<open>s = t\<close> by fastforce
  ultimately show ?thesis using c j by (auto split: if_splits)
qed

text \<open>A step that answers an open channel is the delivery of a message with the identifier of its guard.\<close>

lemma message_answers:
  assumes inv: "session_inv g" and step: "gw_step api sem g g'"
    and k: "hm_get (gw_requests g) k = Some rq" "(i, h) \<in> set (phase_guards s (rq_phase rq))"
    and o1: "pd_channels (ses_pending (gw_sessions g ! s)) ! h = ChannelOpen"
    and o2: "pd_channels (ses_pending (gw_sessions g' ! s)) ! h = Sent r"
  shows "gw_loop g = Serving s \<and> (\<exists>m. message_id (ses_prefix (gw_sessions g ! s)) m = Some i \<and> r = message_reply m
    \<and> g' = serve_message s (Some m) g)"
proof -
  note m = guard_member [OF k]
  have n: "s < length (gw_sessions g)" using sessions_ok_outside [OF session_invD(2) [OF inv] m] .
  show ?thesis
    using step
  proof cases
    case (gw_handle now req x)
    then have "gw_sessions g' = gw_sessions g"
      using handle_admitted [of api sem now req g] handle_refused [of api sem now req g] by (cases x) fastforce+
    then show ?thesis using o1 o2 by simp
  next
    case (gw_poll k' rq' e now)
    then show ?thesis using continue_channel [OF inv k o1, of k' rq' api e now]
        dropped_channel [OF inv k o1, of k' rq' False] o2
      by (auto simp: poll_request_def cancel_request_def split: if_splits)
  next
    case (gw_continue k' rq' e now)
    then show ?thesis using continue_channel [OF inv k o1, of k' rq' api e now] o2 by auto
  next
    case (gw_abandon k' rq')
    then show ?thesis using dropped_channel [OF inv k o1, of k' rq' "rq_completed rq'"] o2
      by (auto simp: abandon_request_def)
  next
    case (gw_loop_retry slept)
    then show ?thesis using o1 o2 loop_quiet(2) [of g] by (auto simp: loop_retry_def split: if_splits)
  next
    case (gw_serve_clients t)
    then show ?thesis using clients_channel [OF inv gw_serve_clients(2) m o1] o2 by auto
  next
    case (gw_serve_message t message)
    then show ?thesis using message_channel [OF inv gw_serve_message(2) m o1] o2 by auto
  next
    case (gw_loop_subscribed c prefix outcome)
    then show ?thesis using o1 o2 n
      by (auto simp: loop_subscribed_def Let_def nth_append split: timed.splits sum.splits)
  next
    case gw_loop_await
    then show ?thesis using o1 o2 loop_quiet(2) [of g] by auto
  next
    case (gw_accept accepted)
    then show ?thesis using o1 o2 by (auto simp: accept_connection_def split: if_splits)
  qed (insert o1 o2, simp_all add: loop_top_def set_authority_def)
qed



subsection \<open>Authority\<close>

text \<open>
  C13 (safety). Without the authority no request is admitted, and none that was admitted earlier
  starts to publish. When the authority changes hands, the next poll of a request ends it: its lease
  is given back, it counts as cancelled and not as completed, even while its response is being
  sent, and its reply registration is gone.
\<close>

theorem authority_gates_requests:
  assumes "semaphore_spec sem" "config_from_env env = Inr cfg" "reaches (gw_init (cfg_requests cfg)) (gw_step api sem) g"
  shows "(\<not> gw_authority g \<or> gw_authority_closed g \<longrightarrow> handle api sem now req g = (Inl (plain st_SERVICE_UNAVAILABLE), g))
    \<and> (\<not> gw_authority g \<and> dispatch_poll api e now rq g = (Inr (Publishing s i h payload), g1) \<longrightarrow> rq_phase rq = Publishing s i h payload)
    \<and> (hm_get (gw_requests g) k = Some rq \<and> authority_changed rq g \<longrightarrow>
        (let g' = poll_request api e now k rq g in
           gw_held g = Suc (gw_held g') \<and> hm_get (gw_requests g') k = None
         \<and> gc_cancelled (gw_counts g') = wrap_add (gc_cancelled (gw_counts g)) 1 \<and> gc_completed (gw_counts g') = gc_completed (gw_counts g)
         \<and> (\<forall>t j c. (j, c) \<in> set (phase_guards t (rq_phase rq)) \<longrightarrow> j \<notin> fst ` set (pd_replies (ses_pending (gw_sessions g' ! t))))))"
proof (intro conjI impI)
  note inv = gw_reached_inv [OF assms]
  assume a: "hm_get (gw_requests g) k = Some rq \<and> authority_changed rq g"
  let ?g1 = "drop_wait (rq_phase rq) g"
  have p: "poll_request api e now k rq g = drop_lease k False ?g1" using a by (simp add: poll_request_def cancel_request_def)
  note w = drop_wait_ok [OF session_inv_focus [OF gw_invD(3) [OF inv]]]
  have f: "session_frame (\<lambda>s. session_guards s (hm_remove k (gw_requests g))) g ?g1"
    "sessions_ok (\<lambda>s. session_guards s (hm_remove k (gw_requests g))) ?g1" using w a by blast+
  have l: "gw_held g = length (gw_requests g)" "gw_requests g \<noteq> []"
    using lease_invD(5) [OF gw_invD(2) [OF inv]] a by auto
  have "j \<notin> fst ` set (pd_replies (pending_of ?g1 t))" if m: "(j, c) \<in> set (phase_guards t (rq_phase rq))" for t j c
  proof
    assume "j \<in> fst ` set (pd_replies (pending_of ?g1 t))"
    then obtain c' where c': "(j, c') \<in> set (pd_replies (pending_of ?g1 t))" by auto
    have ok: "sessions_ok (\<lambda>s. phase_guards s (rq_phase rq) @ session_guards s (hm_remove k (gw_requests g))) g"
      using session_inv_focus [OF gw_invD(3) [OF inv]] a by blast
    have t: "t < length (gw_sessions g)" using sessions_ok_outside [OF ok, of j c t] m by simp
    then have "(j, c') \<in> set (session_guards t (hm_remove k (gw_requests g)))"
      using guards_okD(1) [OF sessions_okD(2) [OF f(2), of t]] f(1) c' by (auto simp: session_frame_def)
    then show False using guards_okD(2) [OF sessions_okD(2) [OF ok t]] m by force
  qed
  moreover have "gw_held ?g1 = gw_held g" "gw_counts ?g1 = gw_counts g" "gw_requests ?g1 = gw_requests g"
    using f(1) by (auto simp: session_frame_def)
  ultimately show "let g' = poll_request api e now k rq g in
           gw_held g = Suc (gw_held g') \<and> hm_get (gw_requests g') k = None
         \<and> gc_cancelled (gw_counts g') = wrap_add (gc_cancelled (gw_counts g)) 1 \<and> gc_completed (gw_counts g') = gc_completed (gw_counts g)
         \<and> (\<forall>t j c. (j, c) \<in> set (phase_guards t (rq_phase rq)) \<longrightarrow> j \<notin> fst ` set (pd_replies (ses_pending (gw_sessions g' ! t))))"
    using l by (auto simp: p drop_lease_def delete_conv' Let_def)
next
  assume "\<not> gw_authority g \<and> dispatch_poll api e now rq g = (Inr (Publishing s i h payload), g1)"
  then show "rq_phase rq = Publishing s i h payload"
    by (cases "rq_phase rq")
      (auto simp: dispatch_poll_def dispatch_begin_def dispatch_send_def dispatch_publish_def dispatch_receive_def map_sum_def
         split: gw_body_event.splits if_splits option.splits bool.splits oneshot.splits sum.splits)
qed (auto simp: handle_def)

theorem authority_gates_requests_witness:
  "gc_cancelled (gw_counts (poll_request sample_api sample_env_gw 0 0 ((snd (hd (gw_requests (sample_at (AwaitingReply 0 0 0) sample_reserved)))))
     (set_authority False (sample_at (AwaitingReply 0 0 0) sample_reserved)))) = 1"
proof -
  let ?g = "sample_at (AwaitingReply 0 0 0) sample_reserved"
  let ?g' = "set_authority False ?g"
  let ?rq = "snd (hd (gw_requests ?g))"
  have "sample_reaches ?g'"
    by (rule reaches_step [OF sample_awaiting_reached], rule gw_set_authority) (simp add: sample_eval)
  note r = authority_gates_requests [OF counting.semaphore_spec_axioms sample_config_read this, where k = 0 and rq = ?rq
      and e = sample_env_gw and now = 0]
  have "hm_get (gw_requests ?g') 0 = Some ?rq \<and> authority_changed ?rq ?g'"
    by (simp add: set_authority_def authority_changed_def sample_eval)
  then show ?thesis using r by (auto simp: Let_def set_authority_def sample_at_def wrap_add_def)
qed


subsection \<open>Deadlines\<close>

text \<open>Polling one request at a given time, with nothing new from its client or the message system.\<close>

definition poll_at :: "http_api \<Rightarrow> gw_env \<Rightarrow> nat \<Rightarrow> nat \<Rightarrow> gateway \<Rightarrow> gateway" where
  "poll_at api e now k g =
     (case hm_get (gw_requests g) k of None \<Rightarrow> g | Some rq \<Rightarrow> poll_request api e now k rq g)"

definition ends_alone :: "http_api \<Rightarrow> gw_env \<Rightarrow> nat \<Rightarrow> nat \<Rightarrow> gateway \<Rightarrow> bool" where
  "ends_alone api e now k g \<longleftrightarrow> (\<exists>n. hm_get (gw_requests ((poll_at api e now k ^^ n) g)) k = None
     \<and> (\<forall>k'. k' \<noteq> k \<longrightarrow> hm_get (gw_requests ((poll_at api e now k ^^ n) g)) k' = hm_get (gw_requests g) k'))"

lemma broker_request_requests: "broker_request e deadline payload g = (q, g') \<Longrightarrow> gw_requests g' = gw_requests g"
  by (auto simp: broker_request_def split: if_splits option.splits prod.splits sum.splits)

lemma dispatch_poll_requests: "dispatch_poll api e now rq g = (q, g') \<Longrightarrow> gw_requests g' = gw_requests g"
  by (auto simp: dispatch_poll_def dispatch_send_def dispatch_publish_def dispatch_receive_def release_request_def
      dest: broker_request_requests
      split: gw_phase.splits gw_body_event.splits option.splits if_splits bool.splits oneshot.splits sum.splits prod.splits)

lemma drop_wait_requests: "gw_requests (drop_wait phase g) = gw_requests g"
  by (simp add: drop_wait_def release_request_def split: gw_phase.split)

lemma poll_others: "k' \<noteq> k \<Longrightarrow> hm_get (gw_requests (poll_at api e now k g)) k' = hm_get (gw_requests g) k'"
  by (auto simp: poll_at_def poll_request_def cancel_request_def continue_request_def drop_lease_def set_phase_def drop_wait_requests
      delete_conv' update_conv' dest!: dispatch_poll_requests
      split: option.split gw_phase.split list.split sum.split prod.split)

lemma ends_alone_gone: "hm_get (gw_requests g) k = None \<Longrightarrow> ends_alone api e now k g"
  unfolding ends_alone_def by (rule exI [of _ 0]) simp

lemma ends_alone_poll: "ends_alone api e now k (poll_at api e now k g) \<Longrightarrow> ends_alone api e now k g"
proof -
  assume "ends_alone api e now k (poll_at api e now k g)"
  then obtain n where n: "hm_get (gw_requests ((poll_at api e now k ^^ n) (poll_at api e now k g))) k = None"
    "\<forall>k'. k' \<noteq> k \<longrightarrow> hm_get (gw_requests ((poll_at api e now k ^^ n) (poll_at api e now k g))) k' = hm_get (gw_requests (poll_at api e now k g)) k'"
    unfolding ends_alone_def by blast
  have "(poll_at api e now k ^^ Suc n) g = (poll_at api e now k ^^ n) (poll_at api e now k g)" by (simp add: funpow_swap1)
  then show ?thesis unfolding ends_alone_def using n poll_others by (intro exI [of _ "Suc n"]) simp
qed

lemma ends_alone_changed:
  "hm_get (gw_requests g) k = Some rq \<Longrightarrow> authority_changed rq g \<Longrightarrow> ends_alone api e now k g"
  by (rule ends_alone_poll, rule ends_alone_gone)
    (simp add: poll_at_def poll_request_def cancel_request_def drop_lease_def delete_conv')

lemma ends_alone_replying:
  "hm_get (gw_requests g) k = Some rq \<Longrightarrow> rq_phase rq = Replying r fs \<Longrightarrow> ends_alone api e now k g"
proof (induction fs arbitrary: g rq)
  case Nil
  show ?case
    by (rule ends_alone_poll, rule ends_alone_gone)
      (insert Nil, simp add: poll_at_def poll_request_def cancel_request_def continue_request_def drop_lease_def delete_conv')
next
  case (Cons f fs)
  show ?case
  proof (cases "authority_changed rq g")
    case False
    let ?rq = "rq\<lparr>rq_completed := rq_completed rq, rq_phase := Replying r fs\<rparr>"
    have "hm_get (gw_requests (poll_at api e now k g)) k = Some ?rq"
      using Cons.prems False by (simp add: poll_at_def poll_request_def continue_request_def set_phase_def update_conv')
    then have "ends_alone api e now k (poll_at api e now k g)" by (rule Cons.IH) simp
    then show ?thesis by (rule ends_alone_poll)
  qed (rule ends_alone_changed [OF Cons.prems(1)])
qed

text \<open>One poll that answers the request is followed by the frames of the answer.\<close>

lemma ends_alone_answer:
  assumes k: "hm_get (gw_requests g) k = Some rq" and p: "\<not> (\<exists>r fs. rq_phase rq = Replying r fs)"
    and d: "dispatch_poll api e now rq g = (Inl r, g1)"
  shows "ends_alone api e now k g"
proof (cases "authority_changed rq g")
  case False
  let ?rq = "rq\<lparr>rq_completed := True, rq_phase := Replying r (ha_frames api (gr_body r))\<rparr>"
  have "hm_get (gw_requests (poll_at api e now k g)) k = Some ?rq"
    using k False by (simp add: poll_at_def poll_request_def continue_dispatch [OF p d] set_phase_def update_conv')
  then have "ends_alone api e now k (poll_at api e now k g)" by (rule ends_alone_replying) simp
  then show ?thesis by (rule ends_alone_poll)
qed (rule ends_alone_changed [OF k])


lemma late_poll_answers:
  assumes "rq_deadline rq \<le> now" "en_body e = BodyPending" "en_publish e = None" "phase_within limits (rq_deadline rq) (rq_phase rq)"
    "rq_phase rq \<noteq> Admitted" "\<not> (\<exists>r fs. rq_phase rq = Replying r fs)"
  shows "\<exists>r g1. dispatch_poll api e now rq g = (Inl r, g1)"
  using assms by (cases "rq_phase rq")
    (auto simp: dispatch_poll_def dispatch_publish_def dispatch_receive_def phase_within_def split: oneshot.split sum.split)

lemma late_request_ends:
  assumes k: "hm_get (gw_requests g) k = Some rq" and ok: "phase_within limits (rq_deadline rq) (rq_phase rq)"
    and late: "rq_deadline rq \<le> now" "en_body e = BodyPending" "en_publish e = None" and a: "rq_phase rq \<noteq> Admitted"
  shows "ends_alone api e now k g"
proof (cases "\<exists>r fs. rq_phase rq = Replying r fs")
  case True
  then show ?thesis using ends_alone_replying [OF k] by blast
next
  case False
  obtain r g1 where "dispatch_poll api e now rq g = (Inl r, g1)" using late_poll_answers [OF late ok a False] by blast
  then show ?thesis by (rule ends_alone_answer [OF k False])
qed

text \<open>
  C16 (termination). A request whose deadline has passed ends, without anything from its client or
  from the message system: polled alone, whatever wait it is at, finitely many times, it has given
  back its lease, and every other request is at the wait where it was.
\<close>

theorem request_deadline_ends:
  assumes "semaphore_spec sem" "config_from_env env = Inr cfg" "reaches (gw_init (cfg_requests cfg)) (gw_step api sem) g"
    and "hm_get (gw_requests g) k = Some rq" "rq_deadline rq \<le> now" "en_body e = BodyPending" "en_publish e = None"
  shows "\<exists>n. hm_get (gw_requests ((poll_at api e now k ^^ n) g)) k = None
    \<and> (\<forall>k'. k' \<noteq> k \<longrightarrow> hm_get (gw_requests ((poll_at api e now k ^^ n) g)) k' = hm_get (gw_requests g) k')"
proof -
  have ok: "phase_within (cfg_requests cfg) (rq_deadline rq) (rq_phase rq)"
    using lease_invD(11) [OF gw_invD(2) [OF gw_reached_inv [OF assms(1-3)]] assms(4)] by (simp add: request_ok_def)
  have "ends_alone api e now k g"
  proof (cases "rq_phase rq = Admitted \<and> \<not> authority_changed rq g")
    case True
    then have p: "\<not> (\<exists>r fs. rq_phase rq = Replying r fs)" by simp
    show ?thesis
    proof (cases "dispatch_begin api e now rq g")
      case (Inl r)
      then have "dispatch_poll api e now rq g = (Inl r, g)" using True by (simp add: dispatch_poll_def)
      then show ?thesis by (rule ends_alone_answer [OF assms(4) p])
    next
      case (Inr phase)
      then obtain bd where bd: "phase = ReadingBody bd []" "bd \<le> rq_deadline rq"
        by (auto simp: dispatch_begin_def split: if_splits)
      let ?rq = "rq\<lparr>rq_completed := rq_completed rq, rq_phase := ReadingBody bd []\<rparr>"
      have d: "dispatch_poll api e now rq g = (Inr phase, g)" using True Inr by (simp add: dispatch_poll_def)
      have "hm_get (gw_requests (poll_at api e now k g)) k = Some ?rq"
        using assms(4) True bd by (simp add: poll_at_def poll_request_def continue_dispatch [OF p d] set_phase_def update_conv')
      then have "ends_alone api e now k (poll_at api e now k g)"
        using assms(5-7) bd by (intro late_request_ends [where limits = "cfg_requests cfg" and rq = ?rq]) (simp_all add: phase_within_def)
      then show ?thesis by (rule ends_alone_poll)
    qed
  qed (insert ends_alone_changed [OF assms(4)] late_request_ends [OF assms(4) ok assms(5-7)], blast)
  then show ?thesis by (simp only: ends_alone_def)
qed

theorem request_deadline_ends_witness:
  "\<exists>n. hm_get (gw_requests ((poll_at sample_api (sample_env_gw\<lparr>en_body := BodyPending, en_publish := None\<rparr>) (secs 31) 0 ^^ n)
     (sample_at (AwaitingReply 0 0 0) sample_reserved))) 0 = None"
proof -
  let ?g = "sample_at (AwaitingReply 0 0 0) sample_reserved"
  have k: "hm_get (gw_requests ?g) 0 = Some (snd (hd (gw_requests ?g)))" "rq_deadline (snd (hd (gw_requests ?g))) \<le> secs 31"
    by (simp_all add: sample_at_def secs_def)
  show ?thesis
    using request_deadline_ends [OF counting.semaphore_spec_axioms sample_config_read sample_awaiting_reached k,
        of "sample_env_gw\<lparr>en_body := BodyPending, en_publish := None\<rparr>"] by auto
qed

end
