(* ===== verification/SqlPool.thy ===== *)
theory SqlPool
  imports Prelude
begin

text \<open>
  \<open>src/components/execution-host/src/sql_pool.rs\<close>: the connection pools per application and
  database user. A pool is the URL it was connected with. \<open>ensure\<close> waits for its connection
  between the check and the insertion, so it is two operations.
\<close>

section \<open>Definitions\<close>

type_synonym pool_key = "string \<times> string \<times> string"

record sql_pools =
  sp_pools :: "(pool_key, string) hash_map"
  sp_max_connections :: nat

definition sql_pools_new :: "nat \<Rightarrow> sql_pools" where
  "sql_pools_new n = \<lparr>sp_pools = [], sp_max_connections = n\<rparr>"

definition pool_get :: "string \<Rightarrow> string \<Rightarrow> string \<Rightarrow> sql_pools \<Rightarrow> string option" where
  "pool_get ns app user p = hm_get (sp_pools p) (ns, app, user)"

text \<open>\<open>ensure\<close>: whether it goes on to connect, and what it does with the outcome.\<close>

definition ensure_begin :: "string \<times> string \<times> string \<times> string \<Rightarrow> sql_pools \<Rightarrow> bool" where
  "ensure_begin t p = (case t of (ns, app, user, url) \<Rightarrow> hm_get (sp_pools p) (ns, app, user) = None)"

definition ensure_connected :: "string \<times> string \<times> string \<times> string \<Rightarrow> (string + unit) \<Rightarrow> sql_pools \<Rightarrow> sql_pools" where
  "ensure_connected t outcome p =
     (case t of (ns, app, user, url) \<Rightarrow>
        (case outcome of
           Inl _ \<Rightarrow> p
         | Inr _ \<Rightarrow> p\<lparr>sp_pools := hm_insert (ns, app, user) url (sp_pools p)\<rparr>))"

text \<open>\<open>evict\<close>: the pools removed are the ones to close.\<close>

fun evict_keys :: "pool_key list \<Rightarrow> sql_pools \<Rightarrow> string list \<times> sql_pools" where
  "evict_keys [] p = ([], p)"
| "evict_keys (k # ks) p =
     (case hm_get (sp_pools p) k of
        None \<Rightarrow> evict_keys ks p
      | Some pool \<Rightarrow> apfst ((#) pool) (evict_keys ks (p\<lparr>sp_pools := hm_remove k (sp_pools p)\<rparr>)))"

definition evict_app :: "string \<Rightarrow> string \<Rightarrow> sql_pools \<Rightarrow> string list \<times> sql_pools" where
  "evict_app ns app p = evict_keys (filter (\<lambda>(n, a, u). n = ns \<and> a = app) (hm_keys (sp_pools p))) p"

text \<open>The kind of a driver error that is logged in place of its text.\<close>

datatype sqlx_error =
  SqlxConfiguration string | SqlxDatabase string | SqlxIo string | SqlxTls string | SqlxProtocol string
  | SqlxPoolTimedOut | SqlxPoolClosed | SqlxOther string

fun sql_error_kind :: "sqlx_error \<Rightarrow> string" where
  "sql_error_kind (SqlxConfiguration _) = ''configuration''"
| "sql_error_kind (SqlxDatabase _) = ''database''"
| "sql_error_kind (SqlxIo _) = ''io''"
| "sql_error_kind (SqlxTls _) = ''tls''"
| "sql_error_kind (SqlxProtocol _) = ''protocol''"
| "sql_error_kind SqlxPoolTimedOut = ''pool_timeout''"
| "sql_error_kind SqlxPoolClosed = ''pool_closed''"
| "sql_error_kind (SqlxOther _) = ''sql''"

section \<open>Lemmas\<close>

text \<open>The credentials in the text of a driver error never reach the log.\<close>

lemma sql_error_kind_closed:
  "sql_error_kind e \<in> {''configuration'', ''database'', ''io'', ''tls'', ''protocol'', ''pool_timeout'', ''pool_closed'', ''sql''}"
  by (cases e) simp_all

lemma evict_keys_map: "sp_pools (snd (evict_keys ks p)) = fold hm_remove ks (sp_pools p)"
  by (induction ks p rule: evict_keys.induct) (auto simp: delete_id map_of_eq_None_iff split: option.splits)

lemma evict_app_get:
  "pool_get n a u (snd (evict_app ns app p)) = (if n = ns \<and> a = app then None else pool_get n a u p)"
proof (cases "hm_get (sp_pools p) (n, a, u)")
  case None
  then show ?thesis by (auto simp: pool_get_def evict_app_def evict_keys_map hm.lookup_discard_all)
next
  case (Some url)
  then have "(n, a, u) \<in> set (hm_keys (sp_pools p))" by (force dest: map_of_SomeD)
  then show ?thesis using Some by (auto simp: pool_get_def evict_app_def evict_keys_map hm.lookup_discard_all)
qed

end
