(* ===== verification/ConfigSync.thy ===== *)
theory ConfigSync
  imports SyncLoop AppRegistry SqlPool
begin

text \<open>
  \<open>src/components/execution-host/src/config_sync.rs\<close>: the session that keeps the application
  registry in step with the operator and carries out the module and pool changes of every
  snapshot and update. What the operator, the transport, the module registry and the pools answer
  is an argument; every wait may end with the expiry of the session.
\<close>

section \<open>Definitions\<close>

record full_config =
  cf_redis :: "string option"
  cf_applications :: "application_config list"

record config_update =
  cu_version :: string
  cu_redis :: "string option"
  cu_updates :: "app_update list"

text \<open>
  What the host publishes and asks for: the registry, the topics and the Redis address, the metric
  definitions handed to the metrics, the modules removed and submitted, the pools with the
  \<open>ensure\<close> tasks spawned, and the versions acknowledged.
\<close>

record config_state =
  cs_registry :: app_registry
  cs_topics :: "string list"
  cs_redis :: "string option"
  cs_metric_defs :: "(string \<times> string \<times> metric_definition list) list"
  cs_removed :: "(string \<times> string \<times> string) list"
  cs_submitted :: "(string \<times> string \<times> string \<times> string) list"
  cs_pools :: sql_pools
  cs_ensures :: "(string \<times> string \<times> string \<times> string) list"
  cs_acks :: "string list"

definition config_state_new :: "nat \<Rightarrow> config_state" where
  "config_state_new n = \<lparr>cs_registry = app_registry_new, cs_topics = [], cs_redis = None, cs_metric_defs = [],
     cs_removed = [], cs_submitted = [], cs_pools = sql_pools_new n, cs_ensures = [], cs_acks = []\<rparr>"

abbreviation config_expired :: "unit anyhow" where
  "config_expired \<equiv> Inl ''config sync session expired''"

definition apply_redis_config :: "string option \<Rightarrow> config_state \<Rightarrow> config_state" where
  "apply_redis_config redis s = s\<lparr>cs_redis := redis\<rparr>"

text \<open>Modules: every removal, then one submission after the other until one fails.\<close>

fun submit_loads ::
  "(nat \<Rightarrow> unit anyhow timed) \<Rightarrow> nat \<Rightarrow> (string \<times> string \<times> string \<times> string) list \<Rightarrow> config_state
     \<Rightarrow> unit anyhow \<times> config_state" where
  "submit_loads answer n [] s = (Inr (), s)"
| "submit_loads answer n (m # ms) s =
     (case answer n of
        Elapsed \<Rightarrow> (config_expired, s)
      | Done (Inl e) \<Rightarrow> (Inl e, s)
      | Done (Inr _) \<Rightarrow> submit_loads answer (Suc n) ms (s\<lparr>cs_submitted := cs_submitted s @ [m]\<rparr>))"

definition apply_module_changes ::
  "(nat \<Rightarrow> unit anyhow timed) \<Rightarrow> config_diff \<Rightarrow> config_state \<Rightarrow> unit anyhow \<times> config_state" where
  "apply_module_changes answer diff s =
     submit_loads answer 0 (modules_to_load diff) (s\<lparr>cs_removed := cs_removed s @ modules_to_evict diff\<rparr>)"

text \<open>Pools: each eviction waits until its pools are closed; then the \<open>ensure\<close> tasks are spawned.\<close>

fun evict_pools :: "(nat \<Rightarrow> bool) \<Rightarrow> nat \<Rightarrow> (string \<times> string) list \<Rightarrow> config_state \<Rightarrow> bool \<times> config_state" where
  "evict_pools closed n [] s = (True, s)"
| "evict_pools closed n ((ns, app) # rest) s =
     (let s1 = s\<lparr>cs_pools := snd (evict_app ns app (cs_pools s))\<rparr> in
      if closed n then evict_pools closed (Suc n) rest s1 else (False, s1))"

definition apply_pool_changes :: "(nat \<Rightarrow> bool) \<Rightarrow> config_diff \<Rightarrow> config_state \<Rightarrow> unit anyhow \<times> config_state" where
  "apply_pool_changes closed diff s =
     (case evict_pools closed 0 (pools_to_evict_apps diff) s of
        (False, s) \<Rightarrow> (config_expired, s)
      | (True, s) \<Rightarrow> (Inr (), s\<lparr>cs_ensures := cs_ensures s @ pools_to_create diff\<rparr>))"

record change_answers =
  ca_submit :: "nat \<Rightarrow> unit anyhow timed"
  ca_closed :: "nat \<Rightarrow> bool"

definition apply_changes :: "change_answers \<Rightarrow> config_diff \<Rightarrow> config_state \<Rightarrow> unit anyhow \<times> config_state" where
  "apply_changes ans diff s =
     (case apply_module_changes (ca_submit ans) diff s of
        (Inl e, s) \<Rightarrow> (Inl e, s)
      | (Inr _, s) \<Rightarrow> apply_pool_changes (ca_closed ans) diff s)"

text \<open>The metric definitions and the topics of the registry.\<close>

definition publish_registry :: "config_state \<Rightarrow> unit anyhow \<times> config_state" where
  "publish_registry s =
     (case all_app_metric_defs (cs_registry s) of
        Inl e \<Rightarrow> (Inl e, s)
      | Inr defs \<Rightarrow>
          (case topics (cs_registry s) of
             Inl e \<Rightarrow> (Inl e, s\<lparr>cs_metric_defs := defs\<rparr>)
           | Inr ts \<Rightarrow> (Inr (), s\<lparr>cs_metric_defs := defs, cs_topics := ts\<rparr>)))"

record config_exchange =
  cx_channel :: "(identity_error + unit) timed"
  cx_token :: "(identity_error + bytes) timed"
  cx_answer :: "(string + full_config option) timed"
  cx_changes :: change_answers

definition fetch_full_config :: "config_exchange \<Rightarrow> config_state \<Rightarrow> unit anyhow \<times> config_state" where
  "fetch_full_config x s =
     (case cx_channel x of
        Elapsed \<Rightarrow> (config_expired, s)
      | Done (Inl _) \<Rightarrow> (Inl ''config snapshot connection failed'', s)
      | Done (Inr _) \<Rightarrow>
          (case cx_token x of
             Elapsed \<Rightarrow> (config_expired, s)
           | Done (Inl e) \<Rightarrow> (Inl (identity_message e), s)
           | Done (Inr _) \<Rightarrow>
               (case cx_answer x of
                  Elapsed \<Rightarrow> (config_expired, s)
                | Done (Inl code) \<Rightarrow> (Inl (''config snapshot RPC failed ('' @ code @ '')''), s)
                | Done (Inr None) \<Rightarrow> (Inl ''operator returned uninitialized full config response'', s)
                | Done (Inr (Some full)) \<Rightarrow>
                    (let s = apply_redis_config (cf_redis full) s in
                     case apply_full_config (cf_applications full) (cs_registry s) of
                       (Inl e, reg) \<Rightarrow> (Inl e, s\<lparr>cs_registry := reg\<rparr>)
                     | (Inr diff, reg) \<Rightarrow> apply_changes (cx_changes x) diff (s\<lparr>cs_registry := reg\<rparr>)))))"

definition apply_config_update ::
  "change_answers \<Rightarrow> config_update \<Rightarrow> config_state \<Rightarrow> unit anyhow \<times> config_state" where
  "apply_config_update ans c s =
     (let s = apply_redis_config (cu_redis c) s in
      case apply_incremental (cu_updates c) (cs_registry s) of
        (Inl e, reg) \<Rightarrow> (Inl e, s\<lparr>cs_registry := reg\<rparr>)
      | (Inr diff, reg) \<Rightarrow>
          (case publish_registry (s\<lparr>cs_registry := reg\<rparr>) of
             (Inl e, s) \<Rightarrow> (Inl e, s)
           | (Inr _, s) \<Rightarrow> apply_changes ans diff s))"

text \<open>The stream: a message, the answers to its changes, and what became of its acknowledgement.\<close>

type_synonym config_event = "(config_update option \<times> change_answers \<times> bool timed) stream_event"

fun config_stream :: "config_event list \<Rightarrow> config_state \<Rightarrow> unit anyhow \<times> config_state" where
  "config_stream [] s = (Inr (), s)"
| "config_stream (StreamFailed code # es) s = (Inl (''config update stream failed ('' @ code @ '')''), s)"
| "config_stream (StreamExpired # es) s = (config_expired, s)"
| "config_stream (Message (None, ans, ack) # es) s = config_stream es s"
| "config_stream (Message (Some c, ans, ack) # es) s =
     (case apply_config_update ans c s of
        (Inl e, s) \<Rightarrow> (Inl e, s)
      | (Inr _, s) \<Rightarrow>
          (case ack of
             Elapsed \<Rightarrow> (config_expired, s)
           | Done False \<Rightarrow> (Inr (), s)
           | Done True \<Rightarrow> config_stream es (s\<lparr>cs_acks := cs_acks s @ [cu_version c]\<rparr>)))"

record config_session =
  cse_snapshot :: config_exchange
  cse_channel :: "(identity_error + unit) timed"
  cse_token :: "(identity_error + bytes) timed"
  cse_open :: "(string + unit) timed"
  cse_initial_ack :: "bool timed"
  cse_events :: "config_event list"

definition run_config_sync :: "config_session \<Rightarrow> config_state \<Rightarrow> unit anyhow \<times> bool \<times> config_state" where
  "run_config_sync x s =
     (case fetch_full_config (cse_snapshot x) s of
        (Inl e, s) \<Rightarrow> (Inl e, False, s)
      | (Inr _, s) \<Rightarrow>
          (case publish_registry s of
             (Inl e, s) \<Rightarrow> (Inl e, False, s)
           | (Inr _, s) \<Rightarrow>
               (case cse_channel x of
                  Elapsed \<Rightarrow> (config_expired, False, s)
                | Done (Inl _) \<Rightarrow> (Inl ''config update connection failed'', False, s)
                | Done (Inr _) \<Rightarrow>
                    (case cse_token x of
                       Elapsed \<Rightarrow> (config_expired, False, s)
                     | Done (Inl e) \<Rightarrow> (Inl (identity_message e), False, s)
                     | Done (Inr _) \<Rightarrow>
                         (case cse_open x of
                            Elapsed \<Rightarrow> (config_expired, False, s)
                          | Done (Inl code) \<Rightarrow> (Inl (''config update RPC failed ('' @ code @ '')''), False, s)
                          | Done (Inr _) \<Rightarrow>
                              (case cse_initial_ack x of
                                 Elapsed \<Rightarrow> (config_expired, False, s)
                               | Done False \<Rightarrow> (Inr (), False, s)
                               | Done True \<Rightarrow>
                                   (case config_stream (cse_events x) (s\<lparr>cs_acks := cs_acks s @ [[]]\<rparr>) of
                                      (r, s) \<Rightarrow> (r, True, s))))))))"

text \<open>A session of the loop: when it is over, no topic is subscribed any more.\<close>

definition config_sync_session :: "config_session \<Rightarrow> config_state \<Rightarrow> unit anyhow \<times> bool \<times> config_state" where
  "config_sync_session x s = (case run_config_sync x s of (r, synced, s) \<Rightarrow> (r, synced, s\<lparr>cs_topics := []\<rparr>))"


section \<open>What the operator asked for\<close>

definition config_ok :: "config_state \<Rightarrow> bool" where
  "config_ok s \<longleftrightarrow> hm_wf (reg_entries (cs_registry s)) \<and> \<not> reg_poisoned (cs_registry s)"

abbreviation routes_of :: "config_state \<Rightarrow> string \<rightharpoonup> function_entry" where
  "routes_of s \<equiv> hm_get (reg_entries (cs_registry s))"

definition config_snapshot :: "config_exchange \<Rightarrow> full_config option" where
  "config_snapshot x =
     (case (cx_channel x, cx_token x, cx_answer x) of
        (Done (Inr _), Done (Inr _), Done (Inr full)) \<Rightarrow> full
      | _ \<Rightarrow> None)"

text \<open>The updates a stream carries, in their order.\<close>

fun config_messages :: "config_event list \<Rightarrow> config_update list" where
  "config_messages [] = []"
| "config_messages (Message (Some c, _, _) # es) = c # config_messages es"
| "config_messages (_ # es) = config_messages es"

subsection \<open>Changes\<close>

text \<open>Carrying out a plan touches neither the registry nor what is derived from it.\<close>

definition same_config :: "config_state \<Rightarrow> config_state \<Rightarrow> bool" where
  "same_config s s' \<longleftrightarrow> cs_registry s' = cs_registry s \<and> cs_topics s' = cs_topics s \<and> cs_redis s' = cs_redis s
     \<and> cs_metric_defs s' = cs_metric_defs s \<and> cs_acks s' = cs_acks s"

lemma submit_loads_frame:
  "submit_loads answer n ms s = (r, s') \<Longrightarrow>
     \<exists>sub. s' = s\<lparr>cs_submitted := cs_submitted s @ sub\<rparr> \<and> (r = Inr () \<longrightarrow> sub = ms)"
proof (induction answer n ms s rule: submit_loads.induct)
  case (1 answer n s)
  then show ?case by (auto intro: exI [of _ "[]"])
next
  case (2 answer n m ms s)
  show ?case
  proof (cases "\<exists>u. answer n = Done (Inr u)")
    case True
    then obtain u where u: "answer n = Done (Inr u)" by blast
    with 2 obtain sub where "s' = s\<lparr>cs_submitted := cs_submitted s @ m # sub\<rparr> \<and> (r = Inr () \<longrightarrow> sub = ms)"
      by fastforce
    then show ?thesis by (intro exI [of _ "m # sub"]) simp
  next
    case False
    then show ?thesis using 2(2) by (auto intro!: exI [of _ "[]"] split: timed.splits sum.splits)
  qed
qed

lemma evict_pools_frame:
  "evict_pools closed n apps s = (b, s') \<Longrightarrow>
     (\<exists>p. s' = s\<lparr>cs_pools := p\<rparr>)
     \<and> (b \<longrightarrow> (\<forall>ns a u. pool_get ns a u (cs_pools s') = (if (ns, a) \<in> set apps then None else pool_get ns a u (cs_pools s))))"
proof (induction closed n apps s rule: evict_pools.induct)
  case (1 closed n s)
  then show ?case by (auto intro: exI [of _ "cs_pools s"])
next
  case (2 closed n ns app rest s)
  then show ?case by (cases "closed n") (fastforce simp: Let_def evict_app_get)+
qed

lemma apply_changes_frame:
  assumes "apply_changes ans diff s = (r, s')"
  shows "same_config s s' \<and> set (cs_submitted s) \<subseteq> set (cs_submitted s')
    \<and> (r = Inr () \<longrightarrow> cs_submitted s' = cs_submitted s @ modules_to_load diff \<and> cs_ensures s' = cs_ensures s @ pools_to_create diff
        \<and> cs_removed s' = cs_removed s @ modules_to_evict diff
        \<and> (\<forall>ns a u. pool_get ns a u (cs_pools s') =
             (if (ns, a) \<in> set (pools_to_evict_apps diff) then None else pool_get ns a u (cs_pools s))))"
proof -
  obtain q s1 where m: "apply_module_changes (ca_submit ans) diff s = (q, s1)" by fastforce
  then obtain sub where s1: "s1 = s\<lparr>cs_removed := cs_removed s @ modules_to_evict diff, cs_submitted := cs_submitted s @ sub\<rparr>"
    "q = Inr () \<longrightarrow> sub = modules_to_load diff"
    using submit_loads_frame unfolding apply_module_changes_def by fastforce
  show ?thesis
  proof (cases q)
    case (Inl e)
    then show ?thesis using assms m s1 by (auto simp: apply_changes_def same_config_def)
  next
    case (Inr u)
    obtain b s2 where e: "evict_pools (ca_closed ans) 0 (pools_to_evict_apps diff) s1 = (b, s2)" by fastforce
    have "r = (if b then Inr () else config_expired)"
      "s' = (if b then s2\<lparr>cs_ensures := cs_ensures s2 @ pools_to_create diff\<rparr> else s2)"
      using assms m Inr e by (auto simp: apply_changes_def apply_pool_changes_def split: bool.splits)
    then show ?thesis using s1 Inr evict_pools_frame [OF e] by (auto simp: same_config_def)
  qed
qed


subsection \<open>The registry and the modules submitted\<close>

text \<open>Every function of the registry has been submitted.\<close>

definition all_submitted :: "config_state \<Rightarrow> bool" where
  "all_submitted s \<longleftrightarrow> (\<forall>t e. routes_of s t = Some e \<longrightarrow> entry_load e \<in> set (cs_submitted s))"

lemma app_function_load:
  assumes "(t, e) \<in> set (app_functions app)"
  shows "entry_load e \<in> set (functions_to_load app)"
proof -
  obtain f where f: "f \<in> set (ac_functions app)" "fc_topic f = Some t" "e = function_entry_from app f"
    using assms by (auto simp: app_functions_def split: option.splits)
  then show ?thesis unfolding functions_to_load_def by force
qed

lemma update_loads:
  assumes wf: "hm_wf m" and u: "apply_update u (d, m) = (d', m')"
    and L: "\<And>t e. hm_get m t = Some e \<Longrightarrow> entry_load e \<in> A \<union> set (modules_to_load d)"
  shows "hm_wf m' \<and> (\<forall>t e. hm_get m' t = Some e \<longrightarrow> entry_load e \<in> A \<union> set (modules_to_load d'))"
proof -
  have m': "hm_wf m'" "hm_get m' = spec_update u (hm_get m)" using apply_update_refines [OF wf, of u d] u by simp_all
  show ?thesis
  proof (cases "au_app_config u")
    case None
    then show ?thesis using u wf L by (auto simp: apply_update_def)
  next
    case (Some app)
    have d': "set (modules_to_load d) \<subseteq> set (modules_to_load d')"
      "\<not> au_delete u \<Longrightarrow> set (functions_to_load app) \<subseteq> set (modules_to_load d')"
      using u Some by (auto simp: apply_update_def split: prod.splits if_splits)
    have "entry_load e \<in> A \<union> set (modules_to_load d')" if e: "hm_get m' t = Some e" for t e
    proof (cases "hm_get m t = Some e")
      case True
      then show ?thesis using L d'(1) by blast
    next
      case False
      then have "\<not> au_delete u" "map_of (rev (app_functions app)) t = Some e"
        using e m'(2) Some by (auto simp: without_app_Some map_add_Some_iff split: if_splits)
      then show ?thesis using app_function_load [of t e app] d'(2) by (auto dest!: map_of_SomeD)
    qed
    then show ?thesis using m'(1) by blast
  qed
qed

lemma updates_loads:
  "hm_wf m \<Longrightarrow> (\<And>t e. hm_get m t = Some e \<Longrightarrow> entry_load e \<in> A \<union> set (modules_to_load d)) \<Longrightarrow>
     fold apply_update us (d, m) = (d', m') \<Longrightarrow>
     \<forall>t e. hm_get m' t = Some e \<longrightarrow> entry_load e \<in> A \<union> set (modules_to_load d')"
proof (induction us arbitrary: d m)
  case (Cons u us)
  obtain d1 m1 where 1: "apply_update u (d, m) = (d1, m1)" by fastforce
  note n = update_loads [OF Cons.prems(1) 1 Cons.prems(2)]
  show ?case using Cons.IH [of m1 d1] n Cons.prems(3) 1 by simp
qed simp

lemma full_loads:
  assumes "\<not> reg_poisoned reg" "apply_full_config apps reg = (Inr diff, reg')" "hm_get (reg_entries reg') t = Some e"
  shows "entry_load e \<in> set (modules_to_load diff)"
proof -
  let ?in = "fold (\<lambda>app m. insert_functions app (ac_functions app) m) apps []"
  have "hm_get ?in = spec_full apps" by (simp add: fold_insert_apps get_fold_insert spec_full_def)
  moreover have "hm_get (reg_entries reg') = spec_full apps" using full_config_entries(1) [OF assms(1), of apps] assms(2) by simp
  ultimately have "(t, e) \<in> set ?in" using assms(3) by (simp add: map_of_SomeD)
  then show ?thesis using assms(1,2) by (force simp: apply_full_config_def Let_def)
qed


subsection \<open>Sessions\<close>

definition topics_ok :: "config_state \<Rightarrow> bool" where
  "topics_ok s \<longleftrightarrow> distinct (cs_topics s) \<and> set (cs_topics s) = dom (routes_of s)"

lemma config_same:
  assumes "same_config s s'"
  shows "config_ok s' = config_ok s" "routes_of s' = routes_of s" "topics_ok s' = topics_ok s" "cs_acks s' = cs_acks s"
    "cs_redis s' = cs_redis s"
  using assms by (simp_all add: same_config_def config_ok_def topics_ok_def)

lemma publish_spec:
  assumes "config_ok s"
  obtains defs ts where "publish_registry s = (Inr (), s\<lparr>cs_metric_defs := defs, cs_topics := ts\<rparr>)"
    "topics_ok (s\<lparr>cs_metric_defs := defs, cs_topics := ts\<rparr>)"
proof -
  obtain defs where d: "all_app_metric_defs (cs_registry s) = Inr defs"
    using assms by (simp add: config_ok_def all_app_metric_defs_def Let_def)
  have "topics (cs_registry s) = Inr (hm_keys (reg_entries (cs_registry s)))" using assms by (simp add: topics_def config_ok_def)
  then show ?thesis using that [of _ defs] d assms
    by (simp add: publish_registry_def topics_ok_def config_ok_def dom_map_of_conv_image_fst)
qed

lemma fetch_config_failed: "config_snapshot x = None \<Longrightarrow> \<exists>e. fetch_full_config x s = (Inl e, s)"
  by (auto simp: config_snapshot_def fetch_full_config_def split: timed.splits sum.splits option.splits)

lemma fetch_config_spec:
  assumes ok: "config_ok s" and x: "config_snapshot x = Some full" and f: "fetch_full_config x s = (r, s')"
  shows "config_ok s' \<and> routes_of s' = spec_full (cf_applications full) \<and> cs_redis s' = cf_redis full
    \<and> cs_acks s' = cs_acks s \<and> (r = Inr () \<longrightarrow> all_submitted s')"
proof -
  let ?s = "s\<lparr>cs_redis := cf_redis full\<rparr>"
  have p: "\<not> reg_poisoned (cs_registry s)" using ok by (simp add: config_ok_def)
  obtain diff reg where a: "apply_full_config (cf_applications full) (cs_registry s) = (Inr diff, reg)"
    using p by (simp add: apply_full_config_def Let_def)
  have reg: "hm_get (reg_entries reg) = spec_full (cf_applications full)" "hm_wf (reg_entries reg)" "\<not> reg_poisoned reg"
    using full_config_entries [OF p, of "cf_applications full"] a p by (auto simp: apply_full_config_def Let_def)
  have c: "apply_changes (cx_changes x) diff (?s\<lparr>cs_registry := reg\<rparr>) = (r, s')"
    using f x a by (auto simp: config_snapshot_def fetch_full_config_def apply_redis_config_def Let_def split: timed.splits sum.splits option.splits)
  note n = apply_changes_frame [OF c] and e = config_same [OF conjunct1 [OF apply_changes_frame [OF c]]]
  have "all_submitted s'" if "r = Inr ()"
    using n that full_loads [OF p a] unfolding all_submitted_def e by simp
  then show ?thesis using e reg by (simp add: config_ok_def)
qed

lemma config_update_spec:
  assumes ok: "config_ok s" and f: "apply_config_update ans c s = (r, s')"
  shows "config_ok s' \<and> routes_of s' = fold spec_update (cu_updates c) (routes_of s) \<and> cs_redis s' = cu_redis c
    \<and> cs_acks s' = cs_acks s \<and> topics_ok s' \<and> (r = Inr () \<and> all_submitted s \<longrightarrow> all_submitted s')"
proof -
  have p: "\<not> reg_poisoned (cs_registry s)" "hm_wf (reg_entries (cs_registry s))" using ok by (simp_all add: config_ok_def)
  obtain diff m where a: "fold apply_update (cu_updates c) (empty_diff, reg_entries (cs_registry s)) = (diff, m)" by fastforce
  let ?reg = "cs_registry s\<lparr>reg_entries := m\<rparr>"
  let ?s = "s\<lparr>cs_redis := cu_redis c, cs_registry := ?reg\<rparr>"
  have m: "hm_wf m" "hm_get m = fold spec_update (cu_updates c) (routes_of s)"
    using apply_updates_refine [OF p(2), of "cu_updates c" empty_diff] a by simp_all
  then have ok1: "config_ok ?s" using p by (simp add: config_ok_def)
  obtain defs ts where pub: "publish_registry ?s = (Inr (), ?s\<lparr>cs_metric_defs := defs, cs_topics := ts\<rparr>)"
    "topics_ok (?s\<lparr>cs_metric_defs := defs, cs_topics := ts\<rparr>)" using publish_spec [OF ok1] .
  let ?s1 = "?s\<lparr>cs_metric_defs := defs, cs_topics := ts\<rparr>"
  have ch: "apply_changes ans diff ?s1 = (r, s')"
    using f p a pub(1) by (simp add: apply_config_update_def apply_redis_config_def apply_incremental_def)
  note n = apply_changes_frame [OF ch] and e = config_same [OF conjunct1 [OF apply_changes_frame [OF ch]]]
  have "all_submitted s'" if r: "r = Inr ()" and s: "all_submitted s"
  proof -
    have "\<forall>t e. hm_get m t = Some e \<longrightarrow> entry_load e \<in> set (cs_submitted s) \<union> set (modules_to_load diff)"
      using s by (intro updates_loads [OF p(2) _ a]) (auto simp: all_submitted_def)
    then show ?thesis using n r unfolding all_submitted_def e by simp
  qed
  then show ?thesis using e pub(2) ok1 m by (simp add: config_ok_def)
qed


text \<open>
  A stream applies a beginning of its messages; all of these are acknowledged but possibly the last,
  whose module or pool changes may have failed.
\<close>

definition streamed :: "config_event list \<Rightarrow> config_state \<Rightarrow> config_state \<Rightarrow> config_update list \<Rightarrow> config_update list \<Rightarrow> bool" where
  "streamed es s s' ms acked \<longleftrightarrow> (\<exists>rest. config_messages es = ms @ rest) \<and> (acked = ms \<or> acked = butlast ms)
     \<and> config_ok s' \<and> routes_of s' = fold spec_update (concat (map cu_updates ms)) (routes_of s) \<and> topics_ok s'
     \<and> cs_acks s' = cs_acks s @ map cu_version acked
     \<and> (acked = ms \<longrightarrow> all_submitted s')"

lemma streamed_none: "config_ok s \<Longrightarrow> topics_ok s \<Longrightarrow> all_submitted s \<Longrightarrow> streamed es s s [] []"
  by (simp add: streamed_def)

lemma streamed_skip: "streamed es s s' ms acked \<Longrightarrow> streamed (Message (None, ans, ack) # es) s s' ms acked"
  by (simp add: streamed_def)

lemma streamed_one:
  assumes "config_ok s" "all_submitted s" "apply_config_update ans c s = (r, s')"
  shows "streamed (Message (Some c, ans, ack) # es) s s' [c] []"
  using config_update_spec [OF assms(1,3)] by (simp add: streamed_def del: spec_update.simps)

lemma streamed_step:
  assumes "config_ok s" "all_submitted s" "apply_config_update ans c s = (Inr u, s1)"
    and "streamed es (s1\<lparr>cs_acks := cs_acks s1 @ [cu_version c]\<rparr>) s' ms acked"
  shows "streamed (Message (Some c, ans, ack) # es) s s' (c # ms) (c # acked)"
  using config_update_spec [OF assms(1,3)] assms(4)
  by (auto simp: streamed_def simp del: spec_update.simps)

lemma config_stream_spec:
  "config_ok s \<Longrightarrow> topics_ok s \<Longrightarrow> all_submitted s \<Longrightarrow> config_stream es s = (r, s') \<Longrightarrow>
     \<exists>ms acked. streamed es s s' ms acked"
proof (induction es s arbitrary: rule: config_stream.induct)
  case (5 c ans ack es s)
  obtain q s1 where q: "apply_config_update ans c s = (q, s1)" by fastforce
  show ?case
  proof (cases "(\<exists>u. q = Inr u) \<and> ack = Done True")
    case True
    then obtain u where u: "q = Inr u" by blast
    note n = config_update_spec [OF 5(2) q]
    let ?s = "s1\<lparr>cs_acks := cs_acks s1 @ [cu_version c]\<rparr>"
    have "config_ok ?s" "topics_ok ?s" "all_submitted ?s" "config_stream es ?s = (r, s')"
      using n u 5(4,5) q True by (simp_all add: config_ok_def topics_ok_def all_submitted_def)
    then obtain ms acked where "streamed es ?s s' ms acked" using 5(1) q u True by fastforce
    then show ?thesis using streamed_step [OF 5(2,4)] q u by blast
  next
    case False
    then have "s' = s1" using 5(5) q by (auto split: sum.splits timed.splits bool.splits)
    then show ?thesis using streamed_one [OF 5(2,4) q] by blast
  qed
next
  case (4 ans ack es s)
  then show ?case using streamed_skip by fastforce
qed (auto intro: streamed_none)

definition config_registered :: "config_session \<Rightarrow> bool" where
  "config_registered x \<longleftrightarrow> (\<exists>c. cse_channel x = Done (Inr c)) \<and> (\<exists>b. cse_token x = Done (Inr b))
     \<and> (\<exists>u. cse_open x = Done (Inr u)) \<and> cse_initial_ack x = Done True"

lemma run_config_sync_failed:
  "config_snapshot (cse_snapshot x) = None \<Longrightarrow> \<exists>e. run_config_sync x s = (Inl e, False, s)"
  using fetch_config_failed [of "cse_snapshot x" s] by (auto simp: run_config_sync_def)

text \<open>Either the session ends with the snapshot, or its stream follows on the published snapshot.\<close>

lemma run_config_sync_cases:
  assumes ok: "config_ok s" and x: "config_snapshot (cse_snapshot x) = Some full" and run: "run_config_sync x s = (r, synced, s')"
  shows "(\<not> synced \<and> config_ok s' \<and> routes_of s' = spec_full (cf_applications full) \<and> cs_acks s' = cs_acks s)
    \<or> (synced \<and> config_registered x \<and> (\<exists>s1. config_ok s1 \<and> topics_ok s1 \<and> all_submitted s1
         \<and> routes_of s1 = spec_full (cf_applications full) \<and> cs_acks s1 = cs_acks s @ [[]]
         \<and> config_stream (cse_events x) s1 = (r, s')))"
proof -
  obtain q s1 where f: "fetch_full_config (cse_snapshot x) s = (q, s1)" by fastforce
  note n = fetch_config_spec [OF ok x f]
  show ?thesis
  proof (cases q)
    case (Inl e)
    then show ?thesis using run f n by (auto simp: run_config_sync_def)
  next
    case (Inr u)
    obtain defs ts where p: "publish_registry s1 = (Inr (), s1\<lparr>cs_metric_defs := defs, cs_topics := ts\<rparr>)"
      "topics_ok (s1\<lparr>cs_metric_defs := defs, cs_topics := ts\<rparr>)" using n publish_spec by blast
    let ?s = "s1\<lparr>cs_metric_defs := defs, cs_topics := ts\<rparr>"
    let ?t = "?s\<lparr>cs_acks := cs_acks ?s @ [[]]\<rparr>"
    have k: "config_ok ?s" "routes_of ?s = spec_full (cf_applications full)" "cs_acks ?s = cs_acks s"
      using n by (simp_all add: config_ok_def)
    have t: "config_ok ?t" "topics_ok ?t" "all_submitted ?t" "routes_of ?t = spec_full (cf_applications full)" "cs_acks ?t = cs_acks s @ [[]]"
      using n p(2) Inr by (simp_all add: config_ok_def topics_ok_def all_submitted_def)
    show ?thesis
    proof (cases "config_registered x")
      case True
      then have "synced \<and> config_stream (cse_events x) ?t = (r, s')"
        using run f Inr p(1) by (auto simp: run_config_sync_def config_registered_def split: prod.splits)
      then show ?thesis using True t by blast
    next
      case False
      then have "\<not> synced \<and> s' = ?s"
        using run f Inr p(1) by (auto simp: run_config_sync_def config_registered_def split: timed.splits sum.splits bool.splits)
      then show ?thesis using k by blast
    qed
  qed
qed

lemma run_config_sync_ok: "config_ok s \<Longrightarrow> run_config_sync x s = (r, synced, s') \<Longrightarrow> config_ok s'"
  using run_config_sync_failed [of x s] run_config_sync_cases [of s x _ r synced s'] config_stream_spec
  by (cases "config_snapshot (cse_snapshot x)") (auto simp: streamed_def)

interpretation config_sessions: sync_sessions config_sync_session config_ok
proof
  fix s i
  assume "config_ok s"
  moreover obtain r b s1 where "run_config_sync i s = (r, b, s1)" by (metis surj_pair)
  ultimately show "config_ok (snd (snd (config_sync_session i s)))"
    using run_config_sync_ok [of s i r b s1] by (simp add: config_sync_session_def config_ok_def)
qed


lemma evict_pools_others:
  "evict_pools closed n apps s = (b, s') \<Longrightarrow> (ns, a) \<notin> set apps \<Longrightarrow> pool_get ns a u (cs_pools s') = pool_get ns a u (cs_pools s)"
proof (induction closed n apps s rule: evict_pools.induct)
  case (2 closed n ns' app rest s)
  then show ?case by (cases "closed n") (auto simp: Let_def evict_app_get)
qed simp

lemma apply_changes_pools:
  assumes "apply_changes ans diff s = (r, s')" "(ns, a) \<notin> set (pools_to_evict_apps diff)"
  shows "pool_get ns a u (cs_pools s') = pool_get ns a u (cs_pools s)"
proof -
  obtain q s1 where m: "apply_module_changes (ca_submit ans) diff s = (q, s1)" by fastforce
  then have p: "cs_pools s1 = cs_pools s"
    using submit_loads_frame unfolding apply_module_changes_def by fastforce
  obtain b s2 where e: "evict_pools (ca_closed ans) 0 (pools_to_evict_apps diff) s1 = (b, s2)" by fastforce
  have "cs_pools s' = cs_pools s1 \<or> cs_pools s' = cs_pools s2"
    using assms(1) m e by (cases q) (auto simp: apply_changes_def apply_pool_changes_def split: bool.splits)
  then show ?thesis using evict_pools_others [OF e assms(2), of u] p by auto
qed

section \<open>Properties\<close>

text \<open>
  C4 (refinement). However many sessions went before, a session leaves the host at what the operator
  asked for. Without a snapshot nothing changes and the session is an error. With one, every lookup
  by topic answers as the snapshot followed by a beginning of the stream's updates; work is admitted
  only after the registration, and then the topics subscribed are those of the registry; the
  registration is acknowledged first, and every update applied is acknowledged but possibly the
  last; and when all are, every function that can be looked up has been submitted for loading with
  the module it refers to.
\<close>

theorem config_sync_exact:
  assumes "run_sessions config_sync_session past (config_state_new connections) = (log, s)"
    and "run_config_sync x s = (r, synced, s')"
  shows "(config_snapshot (cse_snapshot x) = None \<longrightarrow> s' = s \<and> \<not> synced \<and> (\<exists>e. r = Inl e))
    \<and> (synced \<longrightarrow> config_registered x)
    \<and> (\<forall>full. config_snapshot (cse_snapshot x) = Some full \<longrightarrow>
        (\<exists>ms rest acked. config_messages (cse_events x) = ms @ rest \<and> (acked = ms \<or> acked = butlast ms) \<and> (\<not> synced \<longrightarrow> ms = [])
         \<and> (\<forall>t. get_by_topic t (cs_registry s') = Inr (fold spec_update (concat (map cu_updates ms)) (spec_full (cf_applications full)) t))
         \<and> cs_acks s' = cs_acks s @ (if synced then [] # map cu_version acked else [])
         \<and> (synced \<longrightarrow> distinct (cs_topics s') \<and> set (cs_topics s') = {t. \<exists>e. get_by_topic t (cs_registry s') = Inr (Some e)})
         \<and> (synced \<and> acked = ms \<longrightarrow> (\<forall>t e. get_by_topic t (cs_registry s') = Inr (Some e) \<longrightarrow> entry_load e \<in> set (cs_submitted s')))))"
proof -
  have ok: "config_ok s"
    using config_sessions.run_sessions_inv [of "config_state_new connections" past] assms(1)
    by (simp add: config_state_new_def config_ok_def app_registry_new_def)
  show ?thesis
  proof (cases "config_snapshot (cse_snapshot x)")
    case None
    then show ?thesis using run_config_sync_failed [OF None, of s] assms(2) by auto
  next
    case (Some full)
    from run_config_sync_cases [OF ok Some assms(2)] show ?thesis
    proof (elim disjE)
      assume a: "\<not> synced \<and> config_ok s' \<and> routes_of s' = spec_full (cf_applications full) \<and> cs_acks s' = cs_acks s"
      then show ?thesis using Some by (auto simp: get_by_topic_def config_ok_def)
    next
      assume "synced \<and> config_registered x \<and> (\<exists>s1. config_ok s1 \<and> topics_ok s1 \<and> all_submitted s1
         \<and> routes_of s1 = spec_full (cf_applications full) \<and> cs_acks s1 = cs_acks s @ [[]]
         \<and> config_stream (cse_events x) s1 = (r, s'))"
      then obtain s1 ms acked where a: "synced" "config_registered x" "cs_acks s1 = cs_acks s @ [[]]"
        "routes_of s1 = spec_full (cf_applications full)" "streamed (cse_events x) s1 s' ms acked"
        using config_stream_spec by metis
      then have g: "get_by_topic t (cs_registry s') = Inr (routes_of s' t)" for t by (simp add: streamed_def config_ok_def get_by_topic_def)
      obtain rest where "config_messages (cse_events x) = ms @ rest" using a(5) by (auto simp: streamed_def)
      with a Some show ?thesis
        by (intro conjI allI impI exI [of _ ms] exI [of _ rest] exI [of _ acked])
          (auto simp: g streamed_def topics_ok_def all_submitted_def dom_def simp del: spec_update.simps)
    qed
  qed
qed

definition sample_answers :: change_answers where
  "sample_answers = \<lparr>ca_submit = (\<lambda>_. Done (Inr ())), ca_closed = (\<lambda>_. True)\<rparr>"

definition sample_config_session :: "application_config list \<Rightarrow> config_event list \<Rightarrow> config_session" where
  "sample_config_session apps events =
     \<lparr>cse_snapshot = \<lparr>cx_channel = Done (Inr ()), cx_token = Done (Inr []),
        cx_answer = Done (Inr (Some \<lparr>cf_redis = None, cf_applications = apps\<rparr>)), cx_changes = sample_answers\<rparr>,
      cse_channel = Done (Inr ()), cse_token = Done (Inr []), cse_open = Done (Inr ()), cse_initial_ack = Done True,
      cse_events = events\<rparr>"

lemmas config_eval = run_config_sync_def fetch_full_config_def sample_config_session_def sample_answers_def sample_app_def
  apply_redis_config_def config_state_new_def app_registry_new_def apply_full_config_def apply_changes_def
  apply_module_changes_def apply_pool_changes_def publish_registry_def all_app_metric_defs_def topics_def
  entry_load_def function_entry_from_def Let_def

theorem config_sync_exact_witness:
  "\<exists>r s'. run_config_sync (sample_config_session [sample_app ''a'' ''t''] []) (config_state_new 5) = (r, True, s')
     \<and> cs_topics s' = [''t''] \<and> cs_acks s' = [[]] \<and> cs_submitted s' = [(''ns'', ''a'', ''f'', ''ref'')]
     \<and> (\<exists>e. get_by_topic ''t'' (cs_registry s') = Inr (Some e) \<and> entry_load e \<in> set (cs_submitted s'))"
proof -
  let ?x = "sample_config_session [sample_app ''a'' ''t''] []"
  have c: "fst (snd (run_config_sync ?x (config_state_new 5))) = True"
    "cs_topics (snd (snd (run_config_sync ?x (config_state_new 5)))) = [''t'']"
    "cs_acks (snd (snd (run_config_sync ?x (config_state_new 5)))) = [[]]"
    "cs_submitted (snd (snd (run_config_sync ?x (config_state_new 5)))) = [(''ns'', ''a'', ''f'', ''ref'')]"
    by (simp_all add: config_eval)
  obtain r s' where run: "run_config_sync ?x (config_state_new 5) = (r, True, s')"
    and s': "cs_topics s' = [''t'']" "cs_acks s' = [[]]" "cs_submitted s' = [(''ns'', ''a'', ''f'', ''ref'')]"
    using c by (cases "run_config_sync ?x (config_state_new 5)") auto
  have h: "run_sessions config_sync_session [] (config_state_new 5) = ([], config_state_new 5)" by simp
  have x: "config_snapshot (cse_snapshot ?x) = Some \<lparr>cf_redis = None, cf_applications = [sample_app ''a'' ''t'']\<rparr>"
    "config_messages (cse_events ?x) = []"
    by (simp_all add: sample_config_session_def config_snapshot_def)
  have "\<exists>e. spec_full [sample_app ''a'' ''t''] ''t'' = Some e" by (simp add: spec_full_def app_functions_def sample_app_def)
  then have "\<exists>e. get_by_topic ''t'' (cs_registry s') = Inr (Some e) \<and> entry_load e \<in> set (cs_submitted s')"
    using conjunct2 [OF conjunct2 [OF config_sync_exact [OF h run]], rule_format, OF x(1)] x(2) by fastforce
  then show ?thesis using run s' by blast
qed


lemma full_plan_pools:
  assumes "config_ok s" "apply_full_config apps (cs_registry s) = (Inr diff, reg)" "(ns, a) \<in> set (pools_to_evict_apps diff)"
  obtains t e where "routes_of s t = Some e" "fe_app_namespace e = ns" "fe_app_name e = a" "spec_full apps t = None"
proof -
  let ?in = "fold (\<lambda>app m. insert_functions app (ac_functions app) m) apps []"
  have inc: "hm_get ?in = spec_full apps" by (simp add: fold_insert_apps get_fold_insert spec_full_def)
  have "pools_to_evict_apps diff = remdups_adj (sort (map (\<lambda>(ns, app, _). (ns, app))
      (map (entry_key \<circ> snd) (filter (\<lambda>(t, _). hm_get ?in t = None) (reg_entries (cs_registry s))))))"
    using assms(1,2) by (auto simp: apply_full_config_def config_ok_def Let_def)
  then have "(ns, a) \<in> set (map (\<lambda>(ns, app, _). (ns, app)) (map (entry_key \<circ> snd)
      (filter (\<lambda>(t, _). spec_full apps t = None) (reg_entries (cs_registry s)))))"
    using assms(3) unfolding inc by (simp only: remdups_adj_set set_sort)
  then obtain t e where "(t, e) \<in> set (reg_entries (cs_registry s))" "spec_full apps t = None" "(ns, a) = (fe_app_namespace e, fe_app_name e)"
    by (auto simp: entry_key_def)
  then show ?thesis using that [of t e] assms(1) by (auto simp: config_ok_def)
qed

text \<open>
  A snapshot never closes the pools of an application whose topics it still lists, nor
  those of an application that has left the registry; and a pool that exists is never connected
  anew. So an address that changed between two snapshots is not taken up, and when an update deleted
  an application and then failed to submit a module, the pools of the deleted application outlive
  the full synchronisation that follows.
\<close>

theorem snapshot_keeps_pools:
  assumes "config_ok s" "config_snapshot x = Some full" "fetch_full_config x s = (r, s')"
    and "\<forall>t e. hm_get (reg_entries (cs_registry s)) t = Some e \<and> fe_app_namespace e = ns \<and> fe_app_name e = a \<longrightarrow>
      spec_full (cf_applications full) t \<noteq> None"
  shows "pool_get ns a u (cs_pools s') = pool_get ns a u (cs_pools s)
    \<and> (pool_get ns a u (cs_pools s) = Some old \<longrightarrow> \<not> ensure_begin (ns, a, u, url) (cs_pools s'))"
proof -
  let ?s = "s\<lparr>cs_redis := cf_redis full\<rparr>"
  obtain diff reg where a: "apply_full_config (cf_applications full) (cs_registry s) = (Inr diff, reg)"
    using assms(1) by (simp add: config_ok_def apply_full_config_def Let_def)
  have c: "apply_changes (cx_changes x) diff (?s\<lparr>cs_registry := reg\<rparr>) = (r, s')"
    using assms(2,3) a by (auto simp: config_snapshot_def fetch_full_config_def apply_redis_config_def Let_def split: timed.splits sum.splits option.splits)
  have "(ns, a) \<notin> set (pools_to_evict_apps diff)" using full_plan_pools [OF assms(1) a] assms(4) by metis
  from apply_changes_pools [OF c this, of u] show ?thesis by (auto simp: ensure_begin_def pool_get_def)
qed

text \<open>The host before the failing update: one application with its pool.\<close>

definition sample_host :: config_state where
  "sample_host = (config_state_new 5)\<lparr>cs_registry := snd (apply_full_config [sample_app ''a'' ''t''] app_registry_new),
     cs_pools := ensure_connected (''ns'', ''a'', ''u'', ''url1'') (Inr ()) (sql_pools_new 5)\<rparr>"

definition sample_update :: config_update where
  "sample_update = \<lparr>cu_version = ''v2'', cu_redis = None,
     cu_updates = [\<lparr>au_app_config = Some (sample_app ''a'' ''t''), au_delete = True\<rparr>,
                   \<lparr>au_app_config = Some (sample_app ''b'' ''s''), au_delete = False\<rparr>]\<rparr>"

theorem snapshot_keeps_pools_witness:
  "\<exists>s2 r s3. apply_config_update (sample_answers\<lparr>ca_submit := \<lambda>_. Done (Inl ''module submission capacity deadline expired'')\<rparr>)
       sample_update sample_host = (Inl ''module submission capacity deadline expired'', s2)
     \<and> hm_keys (reg_entries (cs_registry s2)) = [''s'']
     \<and> fetch_full_config (cse_snapshot (sample_config_session [sample_app ''b'' ''s''] [])) s2 = (r, s3)
     \<and> pool_get ''ns'' ''a'' ''u'' (cs_pools s3) = Some ''url1''"
proof -
  let ?run = "apply_config_update (sample_answers\<lparr>ca_submit := \<lambda>_. Done (Inl ''module submission capacity deadline expired'')\<rparr>)
       sample_update sample_host"
  let ?x = "cse_snapshot (sample_config_session [sample_app ''b'' ''s''] [])"
  have c: "fst ?run = Inl ''module submission capacity deadline expired''"
    "reg_entries (cs_registry (snd ?run)) = [(''s'', function_entry_from (sample_app ''b'' ''s'') (hd (ac_functions (sample_app ''b'' ''s''))))]"
    "reg_poisoned (cs_registry (snd ?run)) = False" "pool_get ''ns'' ''a'' ''u'' (cs_pools (snd ?run)) = Some ''url1''"
    by (simp_all add: apply_config_update_def sample_update_def sample_host_def apply_incremental_def apply_update_def empty_diff_def
        app_topics_def taken_over_def functions_to_load_def app_pools_def of_app_def ensure_connected_def sql_pools_new_def pool_get_def
        entry_key_def config_eval)
  obtain r s3 where f: "fetch_full_config ?x (snd ?run) = (r, s3)" by fastforce
  have x: "config_snapshot ?x = Some \<lparr>cf_redis = None, cf_applications = [sample_app ''b'' ''s'']\<rparr>"
    by (simp add: sample_config_session_def config_snapshot_def)
  have "pool_get ''ns'' ''a'' ''u'' (cs_pools s3) = pool_get ''ns'' ''a'' ''u'' (cs_pools (snd ?run))"
    by (rule conjunct1 [OF snapshot_keeps_pools [OF _ x f]])
      (auto simp: config_ok_def c sample_app_def function_entry_from_def)
  then show ?thesis using c f by (intro exI [of _ "snd ?run"] exI [of _ r] exI [of _ s3]) (auto simp: prod_eq_iff)
qed

end
