(* ===== verification/HostCall.thy ===== *)
theory HostCall
  imports Invocation
begin

text \<open>
  Host functions that a guest calls during its invocation, as computations over the invocation's
  budget. A computation answers with a value or an error message, or is still waiting (\<open>None\<close>), and
  lists the commands that it sent to a backend with the times. A command under \<open>run\<close> is sent by the first
  poll of its future, which comes after the polls of the deadline and of the cancellation.
\<close>

section \<open>Definitions\<close>

type_synonym budget = "invocation \<times> dispatch_metrics"

type_synonym ('c, 'a) hostcall = "budget \<Rightarrow> (string + 'a) option \<times> (nat \<times> 'c) list \<times> budget"

type_synonym 'a polls = "(nat \<times> bool \<times> 'a option) list"

definition hc_return :: "'a \<Rightarrow> ('c, 'a) hostcall" where
  "hc_return a s = (Some (Inr a), [], s)"

definition hc_fail :: "string \<Rightarrow> ('c, 'a) hostcall" where
  "hc_fail e s = (Some (Inl e), [], s)"

definition hc_check :: "nat \<Rightarrow> ('c, unit) hostcall" where
  "hc_check now s = (case inv_check now s of (r, s) \<Rightarrow> (Some r, [], s))"

definition first_poll :: "nat \<Rightarrow> 'a polls \<Rightarrow> budget \<Rightarrow> nat option" where
  "first_poll now polls s =
     (if inv_over now (fst s) then None
      else (case polls of
              [] \<Rightarrow> None
            | (t, external, _) # _ \<Rightarrow> if external \<or> inv_over t (fst s) then None else Some t))"

definition hc_run :: "'c \<Rightarrow> nat \<Rightarrow> 'a polls \<Rightarrow> ('c, 'a) hostcall" where
  "hc_run c now polls s =
     (case inv_run now polls s of
        (r, s') \<Rightarrow> (r, (case first_poll now polls s of Some t \<Rightarrow> [(t, c)] | None \<Rightarrow> []), s'))"

text \<open>The operator \<open>?\<close> and the sequence of awaits.\<close>

definition hc_bind :: "('c, 'a) hostcall \<Rightarrow> ('a \<Rightarrow> ('c, 'b) hostcall) \<Rightarrow> ('c, 'b) hostcall" where
  "hc_bind m f s =
     (case m s of
        (None, cs, s) \<Rightarrow> (None, cs, s)
      | (Some (Inl e), cs, s) \<Rightarrow> (Some (Inl e), cs, s)
      | (Some (Inr a), cs, s) \<Rightarrow> (case f a s of (r, ds, s) \<Rightarrow> (r, cs @ ds, s)))"

text \<open>A step that reads the budget.\<close>

definition hc_state :: "(budget \<Rightarrow> ('c, 'a) hostcall) \<Rightarrow> ('c, 'a) hostcall" where
  "hc_state f s = f s s"

text \<open>\<open>map_err\<close> on what a backend answered.\<close>

definition hc_lift :: "('e \<Rightarrow> string) \<Rightarrow> 'e + 'a \<Rightarrow> ('c, 'a) hostcall" where
  "hc_lift msg r = (case r of Inl e \<Rightarrow> hc_fail (msg e) | Inr a \<Rightarrow> hc_return a)"

section \<open>The budget covers every command\<close>

text \<open>
  A computation is gated when it keeps the deadline, never undoes a cancellation, sends commands only
  before the deadline, and sends none once the invocation is cancelled.
\<close>

definition gated :: "('c, 'a) hostcall \<Rightarrow> bool" where
  "gated m \<longleftrightarrow> (\<forall>s. inv_deadline (fst (snd (snd (m s)))) = inv_deadline (fst s)
     \<and> (inv_cancelled (fst s) \<longrightarrow> inv_cancelled (fst (snd (snd (m s)))))
     \<and> (\<forall>(t, c) \<in> set (fst (snd (m s))). t < inv_deadline (fst s) \<and> \<not> inv_cancelled (fst s)))"

text \<open>It refuses when it answers a cancelled or expired invocation with the error of \<open>check\<close>.\<close>

definition refuses :: "nat \<Rightarrow> ('c, 'a) hostcall \<Rightarrow> bool" where
  "refuses now m \<longleftrightarrow> (\<forall>s. inv_over now (fst s) \<longrightarrow> fst (m s) = Some (Inl stopped_message) \<and> fst (snd (m s)) = [])"

lemma gatedD:
  assumes "gated m" "m s = (r, cs, s')"
  shows "inv_deadline (fst s') = inv_deadline (fst s)" "inv_cancelled (fst s) \<Longrightarrow> inv_cancelled (fst s')"
    "(t, c) \<in> set cs \<Longrightarrow> t < inv_deadline (fst s)" "(t, c) \<in> set cs \<Longrightarrow> \<not> inv_cancelled (fst s)"
proof -
  note g = spec [OF assms(1) [unfolded gated_def], of s, unfolded assms(2), simplified]
  show "inv_deadline (fst s') = inv_deadline (fst s)" "inv_cancelled (fst s) \<Longrightarrow> inv_cancelled (fst s')"
    "(t, c) \<in> set cs \<Longrightarrow> t < inv_deadline (fst s)" "(t, c) \<in> set cs \<Longrightarrow> \<not> inv_cancelled (fst s)"
    using g by auto
qed

lemma inv_run_keeps:
  "inv_deadline (fst (snd (inv_run now polls s))) = inv_deadline (fst s)"
  "inv_cancelled (fst s) \<Longrightarrow> inv_cancelled (fst (snd (inv_run now polls s)))"
  by (auto simp: inv_run_eq run_polls_state inv_over_def)

lemma first_poll_Some:
  "first_poll now polls s = Some t \<Longrightarrow> t < inv_deadline (fst s) \<and> \<not> inv_cancelled (fst s) \<and> now < inv_deadline (fst s)"
  by (auto simp: first_poll_def inv_over_def split: list.splits if_splits)

lemma gated_return [simp]: "gated (hc_return a)"
  by (simp add: gated_def hc_return_def)

lemma gated_fail [simp]: "gated (hc_fail e)"
  by (simp add: gated_def hc_fail_def)

lemma gated_lift [simp]: "gated (hc_lift msg r)"
  by (simp add: hc_lift_def split: sum.split)

lemma gated_state: "(\<And>s. gated (f s)) \<Longrightarrow> gated (hc_state f)"
  by (simp add: gated_def hc_state_def)

lemma gated_check [simp]: "gated (hc_check now)"
  by (auto simp: gated_def hc_check_def inv_check_def inv_over_def split: prod.splits if_splits)

lemma gated_run [simp]: "gated (hc_run c now polls)"
  unfolding gated_def
proof (rule allI)
  fix s :: budget
  show "inv_deadline (fst (snd (snd (hc_run c now polls s)))) = inv_deadline (fst s)
     \<and> (inv_cancelled (fst s) \<longrightarrow> inv_cancelled (fst (snd (snd (hc_run c now polls s)))))
     \<and> (\<forall>(t, c) \<in> set (fst (snd (hc_run c now polls s))). t < inv_deadline (fst s) \<and> \<not> inv_cancelled (fst s))"
    using first_poll_Some [of now polls s] inv_run_keeps [where now = now and polls = polls and s = s]
    by (cases "first_poll now polls s") (auto simp: hc_run_def split: prod.splits)
qed

lemma gated_bind:
  assumes m: "gated m" and f: "\<And>a. gated (f a)"
  shows "gated (hc_bind m f)"
  unfolding gated_def
proof (rule allI)
  fix s
  obtain r cs s1 where ms: "m s = (r, cs, s1)" by (cases "m s")
  note gm = gatedD [OF m ms]
  show "inv_deadline (fst (snd (snd (hc_bind m f s)))) = inv_deadline (fst s)
     \<and> (inv_cancelled (fst s) \<longrightarrow> inv_cancelled (fst (snd (snd (hc_bind m f s)))))
     \<and> (\<forall>(t, c) \<in> set (fst (snd (hc_bind m f s))). t < inv_deadline (fst s) \<and> \<not> inv_cancelled (fst s))"
  proof (cases "\<exists>a. r = Some (Inr a)")
    case True
    then obtain a where r: "r = Some (Inr a)" by blast
    obtain r2 ds s2 where fs: "f a s1 = (r2, ds, s2)" by (cases "f a s1")
    note gf = gatedD [OF f fs]
    have "hc_bind m f s = (r2, cs @ ds, s2)" by (simp add: hc_bind_def ms r fs)
    then show ?thesis using gm gf by auto
  next
    case False
    then have "\<exists>r'. hc_bind m f s = (r', cs, s1)"
      by (auto simp: hc_bind_def ms split: option.splits sum.splits)
    then show ?thesis using gm by auto
  qed
qed

lemma refuses_check: "refuses now (hc_bind (hc_check now) f)"
  by (auto simp: refuses_def hc_bind_def hc_check_def inv_check_def split: prod.splits)

text \<open>The command of a computation that goes on is the first one sent.\<close>

lemma hc_bind_Inr:
  "fst (hc_bind m f s) = Some (Inr b) \<Longrightarrow>
     \<exists>a cs s1 ds s2. m s = (Some (Inr a), cs, s1) \<and> f a s1 = (Some (Inr b), ds, s2) \<and> hc_bind m f s = (Some (Inr b), cs @ ds, s2)"
  by (auto simp: hc_bind_def split: prod.splits option.splits sum.splits)

lemma hc_bind_sent:
  "x \<in> set (fst (snd (hc_bind m f s))) \<Longrightarrow>
     x \<in> set (fst (snd (m s))) \<or> (\<exists>a cs s1. m s = (Some (Inr a), cs, s1) \<and> x \<in> set (fst (snd (f a s1))))"
  by (auto simp: hc_bind_def split: prod.splits option.splits sum.splits)

lemma hc_run_sent: "x \<in> set (fst (snd (hc_run c now polls s))) \<Longrightarrow> snd x = c \<and> first_poll now polls s = Some (fst x)"
  by (auto simp: hc_run_def split: prod.splits option.splits)

lemma hc_silent [simp]: "fst (snd (hc_return a s)) = []" "fst (snd (hc_fail e s)) = []" "fst (snd (hc_lift msg r s)) = []"
    "fst (snd (hc_check now s)) = []"
  by (simp_all add: hc_return_def hc_fail_def hc_lift_def hc_check_def split: sum.split prod.split)

lemma hc_run_Inr:
  assumes "hc_run c now polls s = (Some (Inr a), cs, s')"
  shows "s' = s" "\<exists>t. (t, False, Some a) \<in> set polls \<and> t < inv_deadline (fst s)" "\<exists>t. cs = [(t, c)]"
proof -
  have r: "inv_run now polls s = (Some (Inr a), s')" and cs: "cs = (case first_poll now polls s of Some t \<Rightarrow> [(t, c)] | None \<Rightarrow> [])"
    using assms by (auto simp: hc_run_def split: prod.splits)
  from r have no: "\<not> inv_over now (fst s)" and p: "run_polls polls s = (Some (Inr a), s')"
    by (auto simp: inv_run_eq split: if_splits)
  show "s' = s" using run_polls_state(2) [of polls s] p by simp
  show "\<exists>t. (t, False, Some a) \<in> set polls \<and> t < inv_deadline (fst s)" using run_polls_ready [of polls s a] p by fastforce
  have "first_poll now polls s \<noteq> None"
    using no p by (cases polls) (auto simp: first_poll_def split: if_splits)
  then show "\<exists>t. cs = [(t, c)]" using cs by auto
qed

lemma hc_check_Inr: "hc_check now s = (Some (Inr u), cs, s') \<Longrightarrow> s' = s \<and> cs = [] \<and> now < inv_deadline (fst s) \<and> \<not> inv_cancelled (fst s)"
  by (auto simp: hc_check_def inv_check_def inv_over_def split: prod.splits if_splits)

lemma hc_lift_Inr: "hc_lift msg r s = (Some (Inr a), cs, s') \<longleftrightarrow> r = Inr a \<and> cs = [] \<and> s' = s"
  by (auto simp: hc_lift_def hc_fail_def hc_return_def split: sum.splits)


lemma hc_bindE [consumes 1, case_names go error waits]:
  assumes "hc_bind m f s = (r, cs, s')"
  obtains a cs1 s1 ds where "m s = (Some (Inr a), cs1, s1)" "f a s1 = (r, ds, s')" "cs = cs1 @ ds"
  | e where "m s = (Some (Inl e), cs, s')" "r = Some (Inl e)"
  | "m s = (None, cs, s')" "r = None"
  using assms by (auto simp: hc_bind_def split: prod.splits option.splits sum.splits)

lemma hc_run_shape: "hc_run c now polls s = (r, cs, s') \<Longrightarrow> map snd cs = [] \<or> map snd cs = [c]"
  by (auto simp: hc_run_def split: prod.splits option.splits)

text \<open>A driver's command: it is sent at most once, and an answer without error leaves the budget alone.\<close>

lemma hc_command:
  assumes "hc_bind (hc_run c now polls) (hc_lift msg) s = (r, cs, s')"
  shows "map snd cs = [] \<or> map snd cs = [c]"
    and "r = Some (Inr a) \<Longrightarrow> s' = s \<and> map snd cs = [c] \<and> (\<exists>t. (t, False, Some (Inr a)) \<in> set polls \<and> t < inv_deadline (fst s))"
  using assms
proof (atomize (full), cases rule: hc_bindE)
  case (go b cs1 s1 ds)
  have ds: "ds = []" using go(2) by (metis fst_conv hc_silent(3) snd_conv)
  show "(map snd cs = [] \<or> map snd cs = [c]) \<and> (r = Some (Inr a) \<longrightarrow> s' = s \<and> map snd cs = [c] \<and> (\<exists>t. (t, False, Some (Inr a)) \<in> set polls \<and> t < inv_deadline (fst s)))"
    using go ds hc_run_Inr [OF go(1)] by (auto simp: hc_lift_Inr)
qed (auto dest: hc_run_shape)


lemma hc_okE [consumes 1, elim!]:
  assumes "hc_bind m f s = (Some (Inr b), cs, s')"
  obtains a cs1 s1 ds where "m s = (Some (Inr a), cs1, s1)" "f a s1 = (Some (Inr b), ds, s')" "cs = cs1 @ ds"
  using assms by (cases rule: hc_bindE) auto

lemma hc_return_eq [simp]: "hc_return a s = (r, cs, s') \<longleftrightarrow> r = Some (Inr a) \<and> cs = [] \<and> s' = s"
  by (auto simp: hc_return_def)

text \<open>The commands that a computation may send.\<close>

definition emits :: "('c, 'a) hostcall \<Rightarrow> 'c set \<Rightarrow> bool" where
  "emits m K \<longleftrightarrow> (\<forall>s. snd ` set (fst (snd (m s))) \<subseteq> K)"

lemma emits_silent: "emits (hc_return a) K" "emits (hc_fail e) K" "emits (hc_lift msg r) K" "emits (hc_check now) K"
  by (simp_all add: emits_def)

lemma emits_run: "c \<in> K \<Longrightarrow> emits (hc_run c now polls) K"
  by (auto simp: emits_def dest: hc_run_sent)

lemma emits_state: "(\<And>s. emits (f s) K) \<Longrightarrow> emits (hc_state f) K"
  by (simp add: emits_def hc_state_def)

lemma emits_bind: "emits m K \<Longrightarrow> (\<And>a. emits (f a) K) \<Longrightarrow> emits (hc_bind m f) K"
  unfolding emits_def by (blast dest: hc_bind_sent)

lemmas emits_intros = emits_bind emits_state emits_silent emits_run

end
