(* ===== verification/GuestHost.thy ===== *)
theory GuestHost
  imports HostCall UserMetrics SqlPool HttpTypes Decimal
begin

text \<open>
  What a guest is given and may call. \<open>src/components/execution-host/src/runtime.rs\<close>: the state of one
  invocation and the two entry points. \<open>host_kv.rs\<close> with \<open>redis_client.rs\<close>, \<open>host_messaging.rs\<close>,
  \<open>host_metrics.rs\<close> and \<open>host_log.rs\<close>: the host functions. Instants are nanoseconds. A Redis client is
  its URL, a NATS client a number. What a backend answers stands in the polls of the futures; the Redis
  commands that the script of \<open>redis_client.rs\<close> calls are the argument \<open>api\<close>.
\<close>

section \<open>Definitions\<close>

subsection \<open>The state of an invocation\<close>

record host_state =
  hs_redis_client :: "string option"
  hs_nats_client :: "nat option"
  hs_sql_pool :: "string option"
  hs_app_name :: string
  hs_app_namespace :: string
  hs_function_name :: string
  hs_memory_limit :: nat

record runtime_state =
  rs_redis_client :: "string option"
  rs_redis_poisoned :: bool
  rs_sql_pools :: sql_pools
  rs_fuel_limit :: "nat option"
  rs_memory_limit_bytes :: nat

text \<open>\<open>RuntimeState::new\<close>: what the linker and the thread of the ticker answer are arguments.\<close>

definition runtime_state_new ::
  "unit anyhow \<Rightarrow> unit anyhow \<Rightarrow> sql_pools \<Rightarrow> nat option \<Rightarrow> nat \<Rightarrow> runtime_state anyhow" where
  "runtime_state_new linker ticker pools fuel_limit memory_limit_bytes =
     (case linker of
        Inl e \<Rightarrow> Inl e
      | Inr _ \<Rightarrow>
          (case ticker of
             Inl e \<Rightarrow> Inl e
           | Inr _ \<Rightarrow>
               Inr \<lparr>rs_redis_client = None, rs_redis_poisoned = False, rs_sql_pools = pools,
                 rs_fuel_limit = fuel_limit, rs_memory_limit_bytes = memory_limit_bytes\<rparr>))"

text \<open>
  The loop of \<open>EpochTicker\<close>, from what its channel answers every ten milliseconds: the number of
  increments of the epoch, and whether the thread has ended.
\<close>

datatype recv_timeout = RecvStop | RecvTimedOut | RecvDisconnected

fun epoch_ticker :: "recv_timeout list \<Rightarrow> nat \<times> bool" where
  "epoch_ticker [] = (0, False)"
| "epoch_ticker (RecvTimedOut # rs) = apfst Suc (epoch_ticker rs)"
| "epoch_ticker (_ # rs) = (0, True)"

record wasm_store =
  ws_host :: host_state
  ws_epoch_deadline :: nat
  ws_fuel :: "nat option"

text \<open>What the engine answers to \<open>set_fuel\<close> is the argument \<open>set_fuel\<close>.\<close>

definition invocation_store ::
  "(nat \<Rightarrow> unit anyhow) \<Rightarrow> nat \<Rightarrow> runtime_state \<Rightarrow> function_entry \<Rightarrow> nat option \<Rightarrow> budget \<Rightarrow> wasm_store anyhow \<times> budget" where
  "invocation_store set_fuel now rs function nats_client s =
     (case inv_check now s of
        (Inl e, s) \<Rightarrow> (Inl e, s)
      | (Inr _, s) \<Rightarrow>
          (let sql_pool = Option.bind (fe_sql_username function)
                 (\<lambda>username. pool_get (fe_app_namespace function) (fe_app_name function) username (rs_sql_pools rs));
               redis_client = (if fe_kv_enabled function
                 then (if rs_redis_poisoned rs then None else rs_redis_client rs) else None);
               host = \<lparr>hs_redis_client = redis_client, hs_nats_client = nats_client, hs_sql_pool = sql_pool,
                 hs_app_name = fe_app_name function, hs_app_namespace = fe_app_namespace function,
                 hs_function_name = fe_function_name function, hs_memory_limit = rs_memory_limit_bytes rs\<rparr>;
               store = \<lparr>ws_host = host, ws_epoch_deadline = 1, ws_fuel = None\<rparr>
           in case rs_fuel_limit rs of
                None \<Rightarrow> (Inr store, s)
              | Some fuel \<Rightarrow>
                  (case set_fuel fuel of
                     Inl e \<Rightarrow> (Inl e, s)
                   | Inr _ \<Rightarrow> (Inr (store\<lparr>ws_fuel := Some fuel\<rparr>), s))))"

text \<open>
  The entry points. A component is an argument: from its store and what it is called with it gives the
  polls of instantiation and call, which answer an error of the engine or what the component returned.
  The commands of the host calls are those of the guest.
\<close>

definition invoke_on_message ::
  "(nat \<Rightarrow> unit anyhow) \<Rightarrow> nat \<Rightarrow> runtime_state \<Rightarrow> function_entry \<Rightarrow> nat option
     \<Rightarrow> nat \<Rightarrow> (wasm_store \<Rightarrow> bytes \<Rightarrow> (string + (string + bytes option)) polls) \<Rightarrow> bytes \<Rightarrow> budget
     \<Rightarrow> bytes option anyhow option \<times> budget" where
  "invoke_on_message set_fuel now rs function nats_client run_at component payload s =
     (case invocation_store set_fuel now rs function nats_client s of
        (Inl e, s) \<Rightarrow> (Some (Inl e), s)
      | (Inr store, s) \<Rightarrow>
          apfst (map_option (\<lambda>r. case r of
              Inl e \<Rightarrow> Inl e
            | Inr (Inl e) \<Rightarrow> Inl e
            | Inr (Inr (Inl msg)) \<Rightarrow> Inl (''component returned error: '' @ msg)
            | Inr (Inr (Inr body)) \<Rightarrow> Inr body)) (inv_run run_at (component store payload) s))"

text \<open>\<open>invoke_on_request\<close> counts the answered requests; the registry is \<open>None\<close> after a panic.\<close>

definition invoke_on_request ::
  "('v, 'r) prometheus \<Rightarrow> (nat \<Rightarrow> unit anyhow) \<Rightarrow> nat \<Rightarrow> runtime_state \<Rightarrow> function_entry \<Rightarrow> nat option
     \<Rightarrow> nat \<Rightarrow> (wasm_store \<Rightarrow> http_request_payload \<Rightarrow> (string + (string + http_response_payload)) polls)
     \<Rightarrow> http_request_payload \<Rightarrow> budget \<Rightarrow> ('v, 'r) metrics_registry
     \<Rightarrow> http_response_payload anyhow option \<times> budget \<times> ('v, 'r) metrics_registry option" where
  "invoke_on_request prom set_fuel now rs function nats_client run_at component request s r =
     (case invocation_store set_fuel now rs function nats_client s of
        (Inl e, s) \<Rightarrow> (Some (Inl e), s, Some r)
      | (Inr store, s) \<Rightarrow>
          (case inv_run run_at (component store request) s of
             (None, s) \<Rightarrow> (None, s, Some r)
           | (Some (Inl e), s) \<Rightarrow> (Some (Inl e), s, Some r)
           | (Some (Inr (Inl e)), s) \<Rightarrow> (Some (Inl e), s, Some r)
           | (Some (Inr (Inr (Inl msg))), s) \<Rightarrow> (Some (Inl (''component returned error: '' @ msg)), s, Some r)
           | (Some (Inr (Inr (Inr response))), s) \<Rightarrow>
               (Some (Inr response), s,
                record_http_request prom (fe_app_name function) (fe_app_namespace function) (pr_status response) r)))"

subsection \<open>Redis\<close>

datatype mutation = MutSet bytes | MutDelete | MutIncrement int

record eval_command =
  ev_key :: string
  ev_deadline :: nat
  ev_operation :: string
  ev_value :: bytes

datatype redis_command = RedisConnect | RedisGet string | RedisTime | RedisEval eval_command

definition redis_error :: "string \<Rightarrow> string \<Rightarrow> string" where
  "redis_error operation kind = ''Redis '' @ operation @ '' failed ('' @ kind @ '')''"

definition configured_client :: "(string \<Rightarrow> bool) \<Rightarrow> string \<Rightarrow> string option" where
  "configured_client opens url = (if opens url then Some url else None)"

text \<open>One pass of the watcher in \<open>main\<close>, for the address that the configuration published.\<close>

definition redis_watch :: "(string \<Rightarrow> bool) \<Rightarrow> string option \<Rightarrow> runtime_state \<Rightarrow> runtime_state" where
  "redis_watch opens url_opt rs =
     (let new_client = Option.bind url_opt (configured_client opens)
      in if rs_redis_poisoned rs then rs else rs\<lparr>rs_redis_client := new_client\<rparr>)"

text \<open>A command of the driver under the budget, with its error kind.\<close>

definition redis_call :: "string \<Rightarrow> redis_command \<Rightarrow> nat \<Rightarrow> (string + 'a) polls \<Rightarrow> (redis_command, 'a) hostcall" where
  "redis_call operation c now polls = hc_bind (hc_run c now polls) (hc_lift (redis_error operation))"

definition redis_connection :: "nat \<Rightarrow> (string + unit) polls \<Rightarrow> (redis_command, unit) hostcall" where
  "redis_connection = redis_call ''connect'' RedisConnect"

record 'a read_io =
  ri_connect_at :: nat
  ri_connect :: "(string + unit) polls"
  ri_get_at :: nat
  ri_get :: "(string + 'a option) polls"

definition redis_read :: "'a read_io \<Rightarrow> string \<Rightarrow> (redis_command, 'a option) hostcall" where
  "redis_read io key =
     hc_bind (redis_connection (ri_connect_at io) (ri_connect io))
       (\<lambda>_. redis_call ''get'' (RedisGet key) (ri_get_at io) (ri_get io))"

definition MAX_LUA_INTEGER :: nat where "MAX_LUA_INTEGER = 2 ^ 53 - 1"

definition backend_deadline :: "nat \<times> nat \<Rightarrow> nat \<Rightarrow> string + nat" where
  "backend_deadline server_time remaining =
     (let (seconds, microseconds) = server_time;
          micros = remaining div 1000;
          deadline = (if micros < 2 ^ 64
            then Option.bind (Option.bind (checked_mul seconds 1000000) (\<lambda>t. checked_add t microseconds))
              (\<lambda>t. checked_add t micros)
            else None)
      in case deadline of
           Some d \<Rightarrow> if microseconds < 1000000 \<and> d \<le> MAX_LUA_INTEGER then Inr d
             else Inl ''Redis server time outside supported range''
         | None \<Rightarrow> Inl ''Redis server time outside supported range'')"

fun mutation_args :: "mutation \<Rightarrow> string \<times> bytes" where
  "mutation_args (MutSet v) = (''set'', v)"
| "mutation_args MutDelete = (''delete'', [])"
| "mutation_args (MutIncrement delta) = (''increment'', ascii_bytes (show_int delta))"

record mutate_io =
  mi_connect_at :: nat
  mi_connect :: "(string + unit) polls"
  mi_time_at :: nat
  mi_time :: "(string + nat \<times> nat) polls"
  mi_check_at :: nat
  mi_now :: nat
  mi_eval_at :: nat
  mi_eval :: "(string + bool \<times> int) polls"

definition mutate_submit :: "mutate_io \<Rightarrow> string \<Rightarrow> mutation \<Rightarrow> nat \<Rightarrow> (redis_command, int) hostcall" where
  "mutate_submit io key m deadline =
     (let (operation, v) = mutation_args m
      in hc_bind (redis_call ''mutate'' (RedisEval \<lparr>ev_key = key, ev_deadline = deadline,
             ev_operation = operation, ev_value = v\<rparr>) (mi_eval_at io) (mi_eval io)) (\<lambda>(accepted, result).
           if \<not> accepted then hc_fail ''invocation deadline exceeded'' else hc_return result))"

definition mutate_timed :: "mutate_io \<Rightarrow> string \<Rightarrow> mutation \<Rightarrow> nat \<times> nat \<Rightarrow> (redis_command, int) hostcall" where
  "mutate_timed io key m server_time =
     hc_bind (hc_check (mi_check_at io)) (\<lambda>_.
     hc_state (\<lambda>s.
       (let remaining = inv_deadline (fst s) - mi_now io
        in hc_bind (hc_lift id (backend_deadline server_time remaining)) (mutate_submit io key m))))"

definition redis_mutate :: "mutate_io \<Rightarrow> string \<Rightarrow> mutation \<Rightarrow> (redis_command, int) hostcall" where
  "redis_mutate io key m =
     hc_bind (redis_connection (mi_connect_at io) (mi_connect io)) (\<lambda>_.
     hc_bind (redis_call ''time'' RedisTime (mi_time_at io) (mi_time io)) (mutate_timed io key m))"

text \<open>
  The script \<open>MUTATE_BEFORE_DEADLINE\<close> as the server runs it. The numbers are doubles in Lua; the
  deadline is exact as it is at most \<^term>\<open>MAX_LUA_INTEGER\<close>, and rounding of a later time does not take
  it below. A failing command ends the script.
\<close>

record 'd redis_api =
  rd_set :: "string \<Rightarrow> bytes \<Rightarrow> 'd \<Rightarrow> string + 'd"
  rd_del :: "string \<Rightarrow> 'd \<Rightarrow> string + int \<times> 'd"
  rd_incrby :: "string \<Rightarrow> bytes \<Rightarrow> 'd \<Rightarrow> string + 'd"
  rd_get :: "string \<Rightarrow> 'd \<Rightarrow> string + bytes option"

datatype script_value = ScriptInt int | ScriptBulk "bytes option"

definition mutate_before_deadline ::
  "'d redis_api \<Rightarrow> nat \<times> nat \<Rightarrow> eval_command \<Rightarrow> 'd \<Rightarrow> (string + int \<times> script_value) \<times> 'd" where
  "mutate_before_deadline api time c d =
     (let now = fst time * 1000000 + snd time
      in if now \<ge> ev_deadline c then (Inr (0, ScriptInt 0), d)
         else if ev_operation c = ''set'' then
           (case rd_set api (ev_key c) (ev_value c) d of
              Inl e \<Rightarrow> (Inl e, d)
            | Inr d \<Rightarrow> (Inr (1, ScriptInt 0), d))
         else if ev_operation c = ''delete'' then
           (case rd_del api (ev_key c) d of
              Inl e \<Rightarrow> (Inl e, d)
            | Inr (n, d) \<Rightarrow> (Inr (1, ScriptInt n), d))
         else
           (case rd_incrby api (ev_key c) (ev_value c) d of
              Inl e \<Rightarrow> (Inl e, d)
            | Inr d \<Rightarrow>
                (case rd_get api (ev_key c) d of
                   Inl e \<Rightarrow> (Inl e, d)
                 | Inr v \<Rightarrow> (Inr (1, ScriptBulk v), d))))"

subsection \<open>Host functions\<close>

text \<open>
  A host function returns what the guest gets, the commands sent, the budget, and the registry of
  metrics, which is \<open>None\<close> after a panic in the metrics package.
\<close>

type_synonym ('c, 'a, 'v, 'r) guest_result =
  "((string + 'a) option \<times> (nat \<times> 'c) list \<times> budget) \<times> ('v, 'r) metrics_registry option"

definition full_key :: "host_state \<Rightarrow> string \<Rightarrow> string" where
  "full_key h key = hs_app_namespace h @ ''/'' @ hs_app_name h @ ''/'' @ key"

definition kv_unavailable :: string where
  "kv_unavailable = ''KV host function unavailable: Redis not configured''"

definition read_kv ::
  "('v, 'r) prometheus \<Rightarrow> host_state \<Rightarrow> nat \<Rightarrow> 'a read_io \<Rightarrow> string \<Rightarrow> budget \<Rightarrow> ('v, 'r) metrics_registry
     \<Rightarrow> (redis_command, 'a option, 'v, 'r) guest_result" where
  "read_kv prom h now io key s r =
     (case inv_check now s of
        (Inl e, s) \<Rightarrow> ((Some (Inl e), [], s), Some r)
      | (Inr _, s) \<Rightarrow>
          (case hs_redis_client h of
             None \<Rightarrow> ((Some (Inl kv_unavailable), [], s), Some r)
           | Some _ \<Rightarrow>
               (let result = redis_read io (full_key h key) s
                in (result, if fst result = None then Some r
                      else record_kv_read prom (hs_app_name h) (hs_app_namespace h) r))))"

definition mutate_kv ::
  "('v, 'r) prometheus \<Rightarrow> host_state \<Rightarrow> nat \<Rightarrow> mutate_io \<Rightarrow> string \<Rightarrow> mutation \<Rightarrow> budget \<Rightarrow> ('v, 'r) metrics_registry
     \<Rightarrow> (redis_command, int, 'v, 'r) guest_result" where
  "mutate_kv prom h now io key m s r =
     (case inv_check now s of
        (Inl e, s) \<Rightarrow> ((Some (Inl e), [], s), Some r)
      | (Inr _, s) \<Rightarrow>
          (case hs_redis_client h of
             None \<Rightarrow> ((Some (Inl kv_unavailable), [], s), Some r)
           | Some _ \<Rightarrow>
               (let is_increment = (\<exists>d. m = MutIncrement d);
                    result = redis_mutate io (full_key h key) m s
                in (result, if fst result = None then Some r
                      else Option.bind
                        (if is_increment then record_kv_read prom (hs_app_name h) (hs_app_namespace h) r else Some r)
                        (record_kv_write prom (hs_app_name h) (hs_app_namespace h))))))"

text \<open>\<open>Result::map\<close> on what the guest gets.\<close>

definition guest_map :: "('a \<Rightarrow> 'b) \<Rightarrow> ('c, 'a, 'v, 'r) guest_result \<Rightarrow> ('c, 'b, 'v, 'r) guest_result" where
  "guest_map f = apfst (apfst (map_option (map_sum id f)))"

definition kv_get where
  "kv_get prom h now io key = read_kv prom h now (io :: bytes read_io) key"

definition kv_set where
  "kv_set prom h now io key v s r = guest_map (\<lambda>_. ()) (mutate_kv prom h now io key (MutSet v) s r)"

definition kv_delete where
  "kv_delete prom h now io key s r = guest_map (\<lambda>count. 0 < count) (mutate_kv prom h now io key MutDelete s r)"

definition kv_get_int where
  "kv_get_int prom h now io key = read_kv prom h now (io :: int read_io) key"

definition kv_set_int where
  "kv_set_int prom h now io key n s r =
     guest_map (\<lambda>_. ()) (mutate_kv prom h now io key (MutSet (ascii_bytes (show_int n))) s r)"

definition kv_incr where
  "kv_incr prom h now io key = mutate_kv prom h now io key (MutIncrement 1)"

definition kv_decr where
  "kv_decr prom h now io key = mutate_kv prom h now io key (MutIncrement (-1))"

text \<open>A message that is published, with the client it goes to.\<close>

record publication =
  pub_client :: nat
  pub_subject :: string
  pub_payload :: bytes

definition messaging_send ::
  "('v, 'r) prometheus \<Rightarrow> host_state \<Rightarrow> nat \<Rightarrow> nat \<Rightarrow> (string + unit) polls \<Rightarrow> string \<Rightarrow> bytes \<Rightarrow> budget
     \<Rightarrow> ('v, 'r) metrics_registry \<Rightarrow> (publication, unit, 'v, 'r) guest_result" where
  "messaging_send prom h now run_at polls topic payload s r =
     (case inv_check now s of
        (Inl e, s) \<Rightarrow> ((Some (Inl e), [], s), Some r)
      | (Inr _, s) \<Rightarrow>
          (case hs_nats_client h of
             None \<Rightarrow> ((Some (Inl ''messaging host function unavailable: NATS not connected''), [], s), Some r)
           | Some client \<Rightarrow>
               (let subject = ''fn.'' @ topic;
                    result = hc_bind (hc_run \<lparr>pub_client = client, pub_subject = subject, pub_payload = payload\<rparr> run_at polls)
                      (hc_lift (\<lambda>_. ''NATS publish failed'')) s
                in (result, if fst result = Some (Inr ())
                      then record_message_sent prom (hs_app_name h) (hs_app_namespace h) r else Some r))))"

text \<open>A dropped metric call is counted and looks successful to the guest.\<close>

definition metric_dropped ::
  "('v, 'r) prometheus \<Rightarrow> host_state \<Rightarrow> ((drop_reason + unit) \<times> ('v, 'r) metrics_registry) option \<Rightarrow> ('v, 'r) metrics_registry option" where
  "metric_dropped prom h outcome =
     Option.bind outcome (\<lambda>(res, r). case res of
        Inr _ \<Rightarrow> Some r
      | Inl reason \<Rightarrow> record_dropped_metric prom (hs_app_name h) (hs_app_namespace h) reason r)"

definition guest_counter_increment ::
  "('v, 'r) prometheus \<Rightarrow> host_state \<Rightarrow> nat \<Rightarrow> string \<Rightarrow> (string \<times> string) list \<Rightarrow> budget \<Rightarrow> ('v, 'r) metrics_registry
     \<Rightarrow> (string + unit) \<times> budget \<times> ('v, 'r) metrics_registry option" where
  "guest_counter_increment prom h now name labels s r =
     (case inv_check now s of
        (Inl e, s) \<Rightarrow> (Inl e, s, Some r)
      | (Inr _, s) \<Rightarrow>
          (Inr (), s, metric_dropped prom h (counter_increment prom name (hs_app_name h) (hs_app_namespace h) labels r)))"

definition guest_gauge_set ::
  "('v, 'r) prometheus \<Rightarrow> host_state \<Rightarrow> nat \<Rightarrow> string \<Rightarrow> f64 \<Rightarrow> (string \<times> string) list \<Rightarrow> budget \<Rightarrow> ('v, 'r) metrics_registry
     \<Rightarrow> (string + unit) \<times> budget \<times> ('v, 'r) metrics_registry option" where
  "guest_gauge_set prom h now name level labels s r =
     (case inv_check now s of
        (Inl e, s) \<Rightarrow> (Inl e, s, Some r)
      | (Inr _, s) \<Rightarrow>
          (Inr (), s, metric_dropped prom h (gauge_set prom name level (hs_app_name h) (hs_app_namespace h) labels r)))"

datatype log_level = Debug | Info | Warn | Error

record log_line =
  ll_level :: log_level
  ll_app_name :: string
  ll_app_namespace :: string
  ll_function_name :: string
  ll_message :: string

definition log_emit :: "host_state \<Rightarrow> nat \<Rightarrow> log_level \<Rightarrow> string \<Rightarrow> budget \<Rightarrow> log_line list \<times> budget" where
  "log_emit h now level message s =
     (case inv_check now s of
        (Inl _, s) \<Rightarrow> ([], s)
      | (Inr _, s) \<Rightarrow>
          ([\<lparr>ll_level = level, ll_app_name = hs_app_name h, ll_app_namespace = hs_app_namespace h,
             ll_function_name = hs_function_name h, ll_message = message\<rparr>], s))"

section \<open>Keys of applications\<close>

lemma split_at_slash:
  "CHR ''/'' \<notin> set a \<Longrightarrow> CHR ''/'' \<notin> set b \<Longrightarrow> a @ CHR ''/'' # x = b @ CHR ''/'' # y \<longleftrightarrow> a = b \<and> x = y"
  using split_once_Some_iff [of "CHR ''/''" "a @ CHR ''/'' # x" a x] split_once_Some_iff [of "CHR ''/''" "a @ CHR ''/'' # x" b y]
  by auto

lemma full_key_inject:
  assumes "CHR ''/'' \<notin> set (hs_app_namespace h @ hs_app_name h)" "CHR ''/'' \<notin> set (hs_app_namespace h' @ hs_app_name h')"
  shows "full_key h k = full_key h' k' \<longleftrightarrow>
    hs_app_namespace h = hs_app_namespace h' \<and> hs_app_name h = hs_app_name h' \<and> k = k'"
  using assms unfolding full_key_def by (auto simp: split_at_slash)

section \<open>The deadline handed to Redis\<close>

lemma backend_deadline_Inr:
  "backend_deadline (sec, us) remaining = Inr d \<longleftrightarrow>
     d = sec * 1000000 + us + remaining div 1000 \<and> us < 1000000 \<and> d \<le> MAX_LUA_INTEGER"
proof -
  have "MAX_LUA_INTEGER < 2 ^ 64" by (simp add: MAX_LUA_INTEGER_def)
  then show ?thesis
    by (auto simp: backend_deadline_def Let_def checked_mul_def checked_add_def split: option.splits if_splits bind_splits)
qed

text \<open>A clock of the server that advances with the time of the host, at some unknown offset.\<close>

definition steady_clock :: "(nat \<Rightarrow> nat \<times> nat) \<Rightarrow> bool" where
  "steady_clock srv \<longleftrightarrow> (\<exists>offset. \<forall>t. fst (srv t) * 1000000 + snd (srv t) = (t + offset) div 1000 \<and> snd (srv t) < 1000000)"

lemma backend_deadline_early:
  assumes "steady_clock srv" "backend_deadline (srv t0) (D - now) = Inr d" "t0 \<le> now" "t0 \<le> t" "fst (srv t) * 1000000 + snd (srv t) < d"
  shows "t < D"
proof -
  obtain off where srv: "\<And>t. fst (srv t) * 1000000 + snd (srv t) = (t + off) div 1000"
    using assms(1) by (auto simp: steady_clock_def)
  have "d = fst (srv t0) * 1000000 + snd (srv t0) + (D - now) div 1000"
    using assms(2) by (cases "srv t0") (simp add: backend_deadline_Inr)
  then have "(t + off) div 1000 < (t0 + off) div 1000 + (D - now) div 1000" using assms(5) srv by simp
  also have "\<dots> \<le> (t0 + off + (D - now)) div 1000" by (simp add: div_add1_eq [of "t0 + off"])
  finally have "t + off < t0 + off + (D - now)" by (metis div_le_mono not_less)
  then show ?thesis using assms(3,4) by linarith
qed

section \<open>What reaches Redis\<close>

lemma redis_call_sent: "x \<in> set (fst (snd (redis_call operation c now polls s))) \<Longrightarrow> snd x = c"
  by (auto simp: redis_call_def hc_lift_def hc_fail_def hc_return_def dest!: hc_bind_sent hc_run_sent split: sum.splits)

lemma redis_call_Inr:
  assumes "redis_call operation c now polls s = (Some (Inr a), cs, s')"
  shows "s' = s" "\<exists>t. (t, False, Some (Inr a)) \<in> set polls"
proof -
  obtain b cs1 s1 where "hc_run c now polls s = (Some (Inr b), cs1, s1)" "b = Inr a" "s' = s1"
    using hc_bind_Inr [of "hc_run c now polls" "hc_lift (redis_error operation)" s a] assms
    by (fastforce simp: redis_call_def hc_lift_Inr)
  then show "s' = s" "\<exists>t. (t, False, Some (Inr a)) \<in> set polls" using hc_run_Inr(1,2) by fast+
qed

lemma gated_redis [simp]: "gated (redis_call operation c now polls)" "gated (redis_connection now' polls')"
  by (simp_all add: redis_call_def redis_connection_def gated_bind)

lemma gated_read: "gated (redis_read io key)"
  unfolding redis_read_def by (intro gated_bind gated_redis)

lemma gated_submit: "gated (mutate_submit io key m deadline)"
  unfolding mutate_submit_def Let_def case_prod_beta by (intro gated_bind gated_redis) simp

lemma gated_mutate: "gated (redis_mutate io key m)"
  unfolding redis_mutate_def mutate_timed_def Let_def
  by (intro gated_bind gated_redis gated_check gated_state gated_lift gated_submit)

text \<open>The script is submitted with the own key and a deadline computed from an answer of \<open>TIME\<close>.\<close>

lemma mutate_submit_sent:
  "x \<in> set (fst (snd (mutate_submit io key m d s))) \<Longrightarrow> snd x =
     RedisEval \<lparr>ev_key = key, ev_deadline = d, ev_operation = fst (mutation_args m), ev_value = snd (mutation_args m)\<rparr>"
  unfolding mutate_submit_def Let_def case_prod_beta
  by (drule hc_bind_sent) (auto dest: redis_call_sent split: if_splits)

lemma mutate_timed_sent:
  assumes "x \<in> set (fst (snd (mutate_timed io key m st s)))"
  shows "\<exists>d. backend_deadline st (inv_deadline (fst s) - mi_now io) = Inr d \<and> snd x =
     RedisEval \<lparr>ev_key = key, ev_deadline = d, ev_operation = fst (mutation_args m), ev_value = snd (mutation_args m)\<rparr>"
proof -
  obtain u s1 and cs :: "(nat \<times> redis_command) list" where c: "hc_check (mi_check_at io) s = (Some (Inr u), cs, s1)"
    "x \<in> set (fst (snd (hc_bind (hc_lift id (backend_deadline st (inv_deadline (fst s1) - mi_now io))) (mutate_submit io key m) s1)))"
    using hc_bind_sent [OF assms [unfolded mutate_timed_def]] by (simp add: hc_state_def Let_def del: split_paired_Ex) blast
  have s1: "s1 = s" using hc_check_Inr [OF c(1)] by simp
  show ?thesis using hc_bind_sent [OF c(2)] by (auto simp: s1 hc_lift_Inr dest: mutate_submit_sent)
qed

lemma redis_mutate_sent:
  assumes "(t, RedisEval c) \<in> set (fst (snd (redis_mutate io key m s)))"
  obtains st t' d where "(t', False, Some (Inr st)) \<in> set (mi_time io)"
    "backend_deadline st (inv_deadline (fst s) - mi_now io) = Inr d"
    "c = \<lparr>ev_key = key, ev_deadline = d, ev_operation = fst (mutation_args m), ev_value = snd (mutation_args m)\<rparr>"
proof -
  obtain cs s1 where c: "redis_connection (mi_connect_at io) (mi_connect io) s = (Some (Inr ()), cs, s1)"
    "(t, RedisEval c) \<in> set (fst (snd (hc_bind (redis_call ''time'' RedisTime (mi_time_at io) (mi_time io)) (mutate_timed io key m) s1)))"
    using hc_bind_sent [OF assms [unfolded redis_mutate_def]]
    by (auto simp: redis_connection_def dest: redis_call_sent)
  then have s1: "s1 = s" unfolding redis_connection_def by (blast dest: redis_call_Inr)
  obtain st cs2 s2 where t: "redis_call ''time'' RedisTime (mi_time_at io) (mi_time io) s = (Some (Inr st), cs2, s2)"
    "(t, RedisEval c) \<in> set (fst (snd (mutate_timed io key m st s2)))"
    using hc_bind_sent [OF c(2)] by (auto simp: s1 dest: redis_call_sent)
  obtain t' where p: "(t', False, Some (Inr st)) \<in> set (mi_time io)" using redis_call_Inr(2) [OF t(1)] by blast
  obtain d where d: "backend_deadline st (inv_deadline (fst s) - mi_now io) = Inr d"
    "c = \<lparr>ev_key = key, ev_deadline = d, ev_operation = fst (mutation_args m), ev_value = snd (mutation_args m)\<rparr>"
    using mutate_timed_sent [OF t(2)] redis_call_Inr(1) [OF t(1)] by auto
  show thesis using p d by (rule that)
qed

section \<open>What Redis promises\<close>

text \<open>The four commands of the script, over what the server holds under each key.\<close>

locale redis_spec =
  fixes api :: "'d redis_api" and held :: "'d \<Rightarrow> string \<Rightarrow> bytes option"
  assumes set_held: "rd_set api k v d = Inr d' \<Longrightarrow> held d' = (held d)(k \<mapsto> v)"
    and del_held: "rd_del api k d = Inr (n, d') \<Longrightarrow> held d' = (held d)(k := None) \<and> n = (if held d k = None then 0 else 1)"
    and incrby_held: "rd_incrby api k (ascii_bytes (show_int delta)) d = Inr d' \<Longrightarrow>
      \<exists>n. (case held d k of None \<Rightarrow> n = 0 | Some b \<Rightarrow> parse_signed 64 (byte_chars b) = Some n)
        \<and> held d' = (held d)(k \<mapsto> ascii_bytes (show_int (n + delta)))"
    and get_held: "rd_get api k d = Inr w \<Longrightarrow> w = held d k"

text \<open>What an accepted mutation does to the server, and what the caller is told.\<close>

definition mutation_done ::
  "(string \<Rightarrow> bytes option) \<Rightarrow> (string \<Rightarrow> bytes option) \<Rightarrow> string \<Rightarrow> mutation \<Rightarrow> script_value \<Rightarrow> bool" where
  "mutation_done old new k m v =
     (case m of
        MutSet b \<Rightarrow> new = old(k \<mapsto> b) \<and> v = ScriptInt 0
      | MutDelete \<Rightarrow> new = old(k := None) \<and> v = ScriptInt (if old k = None then 0 else 1)
      | MutIncrement delta \<Rightarrow>
          (\<exists>n. (case old k of None \<Rightarrow> n = 0 | Some b \<Rightarrow> parse_signed 64 (byte_chars b) = Some n)
             \<and> new = old(k \<mapsto> ascii_bytes (show_int (n + delta)))
             \<and> v = ScriptBulk (Some (ascii_bytes (show_int (n + delta))))))"

context redis_spec
begin

lemma script_late:
  "ev_deadline c \<le> fst time * 1000000 + snd time \<Longrightarrow> mutate_before_deadline api time c d = (Inr (0, ScriptInt 0), d)"
  by (simp add: mutate_before_deadline_def)

lemma script_effect:
  assumes "mutate_before_deadline api time \<lparr>ev_key = k, ev_deadline = dl, ev_operation = fst (mutation_args m),
      ev_value = snd (mutation_args m)\<rparr> d = (res, d')"
  shows "j \<noteq> k \<Longrightarrow> held d' j = held d j"
    and "res = Inr (1, v) \<Longrightarrow> mutation_done (held d) (held d') k m v"
    and "res = Inr (1, v) \<or> d' \<noteq> d \<Longrightarrow> fst time * 1000000 + snd time < dl"
proof -
  have "d' = d \<or> (\<exists>b. rd_set api k b d = Inr d') \<or> (\<exists>n. rd_del api k d = Inr (n, d'))
      \<or> (\<exists>delta. rd_incrby api k (ascii_bytes (show_int delta)) d = Inr d')"
    using assms by (cases m) (auto simp: mutate_before_deadline_def Let_def split: if_splits sum.splits prod.splits)
  then show "j \<noteq> k \<Longrightarrow> held d' j = held d j" by (auto dest!: set_held del_held incrby_held)
  show "res = Inr (1, v) \<Longrightarrow> mutation_done (held d) (held d') k m v"
  proof (cases m)
    case (MutSet b)
    moreover assume "res = Inr (1, v)"
    ultimately show ?thesis using assms set_held [of k b d d']
      by (auto simp: mutation_done_def mutate_before_deadline_def Let_def split: if_splits sum.splits)
  next
    case MutDelete
    moreover assume "res = Inr (1, v)"
    ultimately show ?thesis using assms del_held [of k d]
      by (auto simp: mutation_done_def mutate_before_deadline_def Let_def split: if_splits sum.splits prod.splits)
  next
    case (MutIncrement delta)
    moreover assume "res = Inr (1, v)"
    ultimately have i: "rd_incrby api k (ascii_bytes (show_int delta)) d = Inr d'" and g: "\<exists>w. rd_get api k d' = Inr w \<and> v = ScriptBulk w"
      using assms by (auto simp: mutate_before_deadline_def Let_def split: if_splits sum.splits prod.splits)
    then have "v = ScriptBulk (held d' k)" using get_held by blast
    then show ?thesis using incrby_held [OF i] MutIncrement by (auto simp: mutation_done_def)
  qed
  show "res = Inr (1, v) \<or> d' \<noteq> d \<Longrightarrow> fst time * 1000000 + snd time < dl"
    using assms by (auto simp: mutate_before_deadline_def Let_def split: if_splits)
qed

end

text \<open>A server that keeps its keys in a map.\<close>

definition plain_redis :: "(string, bytes) hash_map redis_api" where
  "plain_redis =
     \<lparr>rd_set = (\<lambda>k v d. Inr (hm_insert k v d)),
      rd_del = (\<lambda>k d. Inr (if hm_get d k = None then 0 else 1, hm_remove k d)),
      rd_incrby = (\<lambda>k v d.
        (case (case hm_get d k of None \<Rightarrow> Some 0 | Some b \<Rightarrow> parse_signed 64 (byte_chars b), parse_signed 64 (byte_chars v)) of
           (Some n, Some x) \<Rightarrow>
             if - (2 ^ 63) \<le> n + x \<and> n + x < 2 ^ 63 then Inr (hm_insert k (ascii_bytes (show_int (n + x))) d)
             else Inl ''ERR increment or decrement would overflow''
         | _ \<Rightarrow> Inl ''ERR value is not an integer or out of range'')),
      rd_get = (\<lambda>k d. Inr (hm_get d k))\<rparr>"

lemma parse_signed_show_Some: "parse_signed 64 (show_int n) = Some x \<Longrightarrow> x = n"
proof -
  assume p: "parse_signed 64 (show_int n) = Some x"
  show "x = n"
  proof (cases "n < 0")
    case True
    with p show ?thesis by (auto simp: parse_signed_def show_int_def show_nat_digits split: if_splits)
  next
    case False
    with p show ?thesis
      by (auto simp: parse_signed_def show_int_def show_nat_no_minus show_nat_no_plus parse_unsigned_def Let_def show_nat_digits
          split: if_splits)
  qed
qed

interpretation plain_server: redis_spec plain_redis map_of
  by unfold_locales
    (auto simp: plain_redis_def update_conv' delete_conv' byte_chars_ascii dest!: parse_signed_show_Some
       split: option.splits if_splits)

section \<open>Host functions under the budget\<close>

lemma mutate_kv_sent:
  assumes "mutate_kv prom h now io key m s r = ((res, cmds, s'), r')" "x \<in> set cmds"
  shows "hs_redis_client h \<noteq> None" "\<not> inv_over now (fst s)" "x \<in> set (fst (snd (redis_mutate io (full_key h key) m s)))"
  using assms
  by (auto simp: mutate_kv_def inv_check_def Let_def split: prod.splits sum.splits option.splits if_splits)

lemma read_kv_sent:
  assumes "read_kv prom h now io key s r = ((res, cmds, s'), r')" "x \<in> set cmds"
  shows "hs_redis_client h \<noteq> None" "\<not> inv_over now (fst s)" "x \<in> set (fst (snd (redis_read io (full_key h key) s)))"
  using assms
  by (auto simp: read_kv_def inv_check_def Let_def split: prod.splits sum.splits option.splits if_splits)

lemma redis_read_sent: "x \<in> set (fst (snd (redis_read io key s))) \<Longrightarrow> snd x = RedisConnect \<or> snd x = RedisGet key"
  by (auto simp: redis_read_def redis_connection_def dest!: hc_bind_sent redis_call_sent)

lemma sent_in_time: "gated m \<Longrightarrow> (t, c) \<in> set (fst (snd (m s))) \<Longrightarrow> t < inv_deadline (fst s) \<and> \<not> inv_cancelled (fst s)"
  using gatedD(3,4) [of m s] by (cases "m s") auto

lemma messaging_sent:
  assumes "(t, c) \<in> set (fst (snd (fst (messaging_send prom h now run_at polls topic payload s r))))"
  shows "t < inv_deadline (fst s) \<and> \<not> inv_cancelled (fst s)
    \<and> hs_nats_client h = Some (pub_client c) \<and> pub_subject c = ''fn.'' @ topic \<and> pub_payload c = payload"
proof -
  obtain client where client: "hs_nats_client h = Some client"
    and sent: "(t, c) \<in> set (fst (snd (hc_bind (hc_run \<lparr>pub_client = client, pub_subject = ''fn.'' @ topic, pub_payload = payload\<rparr>
        run_at polls) (hc_lift (\<lambda>_. ''NATS publish failed'')) s)))" (is "_ \<in> set (fst (snd (?send s)))")
    using assms by (auto simp: messaging_send_def inv_check_def Let_def split: prod.splits sum.splits option.splits if_splits)
  have "gated ?send" by (intro gated_bind gated_run gated_lift)
  from sent_in_time [OF this sent] show ?thesis
    using client hc_bind_sent [OF sent] by (auto dest!: hc_run_sent)
qed

text \<open>Over a well-formed registry the metrics never panic.\<close>

context prometheus_spec
begin

lemma metric_dropped_ok:
  assumes "metrics_wf vec_labels r" "outcome = Some (res, r)"
  shows "\<exists>r'. metric_dropped prom h outcome = Some r' \<and> metrics_wf vec_labels r'"
  using assms records_ok(6) by (cases res) (simp_all add: metric_dropped_def)

lemma guest_metrics_ok:
  assumes "metrics_wf vec_labels r"
  shows "\<exists>r'. snd (snd (guest_counter_increment prom h now name labels s r)) = Some r' \<and> metrics_wf vec_labels r'"
    "\<exists>r'. snd (snd (guest_gauge_set prom h now name level labels s r)) = Some r' \<and> metrics_wf vec_labels r'"
proof -
  show "\<exists>r'. snd (snd (guest_counter_increment prom h now name labels s r)) = Some r' \<and> metrics_wf vec_labels r'"
    using guest_calls_total(1) [OF assms, of name "hs_app_name h" "hs_app_namespace h" labels] assms
    by (auto simp: guest_counter_increment_def intro: metric_dropped_ok split: prod.split sum.split)
  show "\<exists>r'. snd (snd (guest_gauge_set prom h now name level labels s r)) = Some r' \<and> metrics_wf vec_labels r'"
    using guest_calls_total(2) [OF assms, of name level "hs_app_name h" "hs_app_namespace h" labels] assms
    by (auto simp: guest_gauge_set_def intro: metric_dropped_ok split: prod.split sum.split)
qed

lemma backend_metrics_ok:
  assumes "metrics_wf vec_labels r"
  shows "\<exists>r'. snd (mutate_kv prom h now io key m s r) = Some r' \<and> metrics_wf vec_labels r'"
    "\<exists>r'. snd (read_kv prom h now rio key s r) = Some r' \<and> metrics_wf vec_labels r'"
    "\<exists>r'. snd (messaging_send prom h now run_at polls topic payload s r) = Some r' \<and> metrics_wf vec_labels r'"
proof -
  note rd = records_ok(3) [OF assms, of "hs_app_name h" "hs_app_namespace h"]
  obtain r1 where r1: "record_kv_read prom (hs_app_name h) (hs_app_namespace h) r = Some r1" "metrics_wf vec_labels r1"
    using rd by blast
  have wr: "\<exists>r'. Option.bind (record_kv_read prom (hs_app_name h) (hs_app_namespace h) r)
      (record_kv_write prom (hs_app_name h) (hs_app_namespace h)) = Some r' \<and> metrics_wf vec_labels r'"
    using r1 records_ok(4) [OF r1(2)] by simp
  show "\<exists>r'. snd (mutate_kv prom h now io key m s r) = Some r' \<and> metrics_wf vec_labels r'"
    using assms wr records_ok(4) [OF assms, of "hs_app_name h" "hs_app_namespace h"]
    by (simp add: mutate_kv_def Let_def split: prod.split sum.split option.split)
  show "\<exists>r'. snd (read_kv prom h now rio key s r) = Some r' \<and> metrics_wf vec_labels r'"
    using rd assms by (simp add: read_kv_def Let_def split: prod.split sum.split option.split)
  show "\<exists>r'. snd (messaging_send prom h now run_at polls topic payload s r) = Some r' \<and> metrics_wf vec_labels r'"
    using records_ok(2) [OF assms] assms by (simp add: messaging_send_def Let_def split: prod.split sum.split option.split)
qed

end

section \<open>The ticker\<close>

text \<open>
  The epoch advances with every timeout, so a guest that loops is interrupted again and again; the thread
  ends at the first other answer, which the drop of the ticker sends before it joins the thread.
\<close>

lemma epoch_ticker_runs: "epoch_ticker (replicate n RecvTimedOut @ rest) = apfst ((+) n) (epoch_ticker rest)"
  by (induction n) (simp_all add: prod_eq_iff)

lemma epoch_ticker_stops: "epoch_ticker (replicate n RecvTimedOut @ RecvStop # rest) = (n, True)"
  by (simp add: epoch_ticker_runs)

end
