(* ===== verification/HostSql.thy ===== *)
theory HostSql
  imports GuestHost
begin

text \<open>
  \<open>src/components/execution-host/src/host_sql.rs\<close>: statements of guests. Each statement runs in a
  transaction of its own, in a task that the invocation waits for. The parser of SQL is the argument
  \<open>parse\<close>; what the database and its driver answer stands in the polls. A job has the times and the
  answers of all its waits in a record \<open>sql_io\<close>.
\<close>

section \<open>Definitions\<close>

subsection \<open>Statements, parameters and rows\<close>

datatype sql_statement =
  StQuery | StInsert | StUpdate | StDelete | StCreateTable | StCreateIndex | StAlterTable | StDrop | StTruncate | StOther

definition validate_statement :: "(string \<Rightarrow> unit + sql_statement list) \<Rightarrow> string \<Rightarrow> string + unit" where
  "validate_statement parse sql =
     (case parse sql of
        Inl _ \<Rightarrow> Inl ''SQL statement could not be parsed''
      | Inr statements \<Rightarrow>
          (case statements of
             [st] \<Rightarrow> if st \<in> {StQuery, StInsert, StUpdate, StDelete, StCreateTable, StCreateIndex, StAlterTable, StDrop, StTruncate}
               then Inr () else Inl ''SQL statement is not supported by invocation-owned transactions''
           | _ \<Rightarrow> Inl ''SQL statement is not supported by invocation-owned transactions''))"

datatype sql_param = PNull | PBoolean bool | PInteger "64 word" | PReal f64 | PText string | PBlob bytes

text \<open>What is bound to a place of the statement; \<open>NULL\<close> is bound as a missing text.\<close>

datatype bound_value = BindText "string option" | BindBool bool | BindInt8 "64 word" | BindFloat8 f64 | BindBytes bytes

fun bind_param :: "sql_param \<Rightarrow> bound_value" where
  "bind_param PNull = BindText None"
| "bind_param (PBoolean b) = BindBool b"
| "bind_param (PInteger i) = BindInt8 i"
| "bind_param (PReal f) = BindFloat8 f"
| "bind_param (PText s) = BindText (Some s)"
| "bind_param (PBlob b) = BindBytes b"

text \<open>A column of a row: its name, its type, and what \<open>try_get\<close> answers at each type of Rust.\<close>

record pg_column =
  pc_name :: string
  pc_type :: string
  pc_bool :: "string + bool option"
  pc_i16 :: "string + 16 word option"
  pc_i32 :: "string + 32 word option"
  pc_i64 :: "string + 64 word option"
  pc_f32 :: "string + 32 word option"
  pc_f64 :: "string + f64 option"
  pc_string :: "string + string option"
  pc_bytes :: "string + bytes option"

type_synonym pg_row = "pg_column list"

record sql_row =
  sr_columns :: "string list"
  sr_values :: "sql_param list"

definition decoded :: "('a \<Rightarrow> sql_param) \<Rightarrow> string + 'a option \<Rightarrow> string + sql_param" where
  "decoded f r = (case r of Inl e \<Rightarrow> Inl e | Inr (Some v) \<Rightarrow> Inr (f v) | Inr None \<Rightarrow> Inr PNull)"

text \<open>The conversion of \<open>f32\<close> to \<open>f64\<close> is the argument \<open>widen\<close>.\<close>

definition decode_column :: "(32 word \<Rightarrow> f64) \<Rightarrow> pg_column \<Rightarrow> string + sql_param" where
  "decode_column widen c =
     (let t = pc_type c
      in if t = ''BOOL'' then decoded PBoolean (pc_bool c)
         else if t = ''INT2'' then decoded (\<lambda>n. PInteger (signed n)) (pc_i16 c)
         else if t = ''INT4'' then decoded (\<lambda>n. PInteger (signed n)) (pc_i32 c)
         else if t = ''INT8'' then decoded PInteger (pc_i64 c)
         else if t = ''FLOAT4'' then decoded (\<lambda>f. PReal (widen f)) (pc_f32 c)
         else if t = ''FLOAT8'' then decoded PReal (pc_f64 c)
         else if t \<in> {''TEXT'', ''VARCHAR'', ''BPCHAR'', ''NAME''} then decoded PText (pc_string c)
         else if t = ''BYTEA'' then decoded PBlob (pc_bytes c)
         else Inl (''unsupported column type: '' @ t))"

fun decode_columns :: "(32 word \<Rightarrow> f64) \<Rightarrow> pg_row \<Rightarrow> string + sql_row" where
  "decode_columns widen [] = Inr \<lparr>sr_columns = [], sr_values = []\<rparr>"
| "decode_columns widen (c # cs) =
     (case decode_column widen c of
        Inl e \<Rightarrow> Inl e
      | Inr v \<Rightarrow>
          (case decode_columns widen cs of
             Inl e \<Rightarrow> Inl e
           | Inr row \<Rightarrow> Inr \<lparr>sr_columns = pc_name c # sr_columns row, sr_values = v # sr_values row\<rparr>))"

text \<open>The rows of a query, with a check of the budget before each; the times of the checks are given.\<close>

fun decode_rows :: "(32 word \<Rightarrow> f64) \<Rightarrow> (nat \<times> pg_row) list \<Rightarrow> budget \<Rightarrow> (string + sql_row list) \<times> budget" where
  "decode_rows widen [] s = (Inr [], s)"
| "decode_rows widen ((now, row) # rows) s =
     (case inv_check now s of
        (Inl e, s) \<Rightarrow> (Inl e, s)
      | (Inr _, s) \<Rightarrow>
          (case decode_columns widen row of
             Inl e \<Rightarrow> (Inl e, s)
           | Inr r \<Rightarrow> apfst (map_sum id ((#) r)) (decode_rows widen rows s)))"

subsection \<open>The job\<close>

datatype sql_operation = OpQuery | OpExecute

datatype sql_output = SqlRows "pg_row list" | SqlAffected nat

datatype sql_command =
  SqlAcquire | SqlBegin | SqlSetup nat | SqlStatement sql_operation string "bound_value list" | SqlCommit | SqlRollback

record sql_io =
  io_acquire_at :: nat
  io_acquire :: "(string + unit) polls"
  io_check_begin :: nat
  io_begin_at :: nat
  io_begin :: "(string + unit) polls"
  io_now :: nat
  io_setup_at :: nat
  io_setup :: "(string + (string + int)) polls"
  io_check_statement :: nat
  io_statement_at :: nat
  io_statement :: "(string + sql_output) polls"
  io_check_commit :: nat
  io_commit_at :: nat
  io_commit :: "(string + unit) polls"
  io_check_end :: nat
  io_terminate :: "(string + bool) timed"
  io_rollback_at :: nat
  io_rollback :: "(string + unit) polls"

text \<open>A command of the driver under the budget.\<close>

definition sql_call :: "sql_command \<Rightarrow> nat \<Rightarrow> (string + 'a) polls \<Rightarrow> (sql_command, 'a) hostcall" where
  "sql_call c now polls = hc_bind (hc_run c now polls) (hc_lift id)"

definition statement_timeout_ms :: "nat \<Rightarrow> nat" where
  "statement_timeout_ms remaining = max 1 (min (remaining div 1000000) (2 ^ 31 - 1))"

text \<open>\<open>BEGIN\<close> and the settings of the transaction, up to the process id of the backend.\<close>

definition sql_begin :: "sql_io \<Rightarrow> (sql_command, int) hostcall" where
  "sql_begin io =
     hc_bind (hc_check (io_check_begin io)) (\<lambda>_.
     hc_bind (sql_call SqlBegin (io_begin_at io) (io_begin io)) (\<lambda>_.
     hc_state (\<lambda>s.
       hc_bind (sql_call (SqlSetup (statement_timeout_ms (inv_deadline (fst s) - io_now io))) (io_setup_at io) (io_setup io))
         (hc_lift id))))"

definition sql_statement_commit ::
  "sql_io \<Rightarrow> sql_operation \<Rightarrow> string \<Rightarrow> sql_param list \<Rightarrow> (sql_command, sql_output) hostcall" where
  "sql_statement_commit io operation sql params =
     hc_bind (hc_check (io_check_statement io)) (\<lambda>_.
     hc_bind (sql_call (SqlStatement operation sql (map bind_param params)) (io_statement_at io) (io_statement io)) (\<lambda>output.
     hc_bind (hc_check (io_check_commit io)) (\<lambda>_.
     hc_bind (sql_call SqlCommit (io_commit_at io) (io_commit io)) (\<lambda>_.
     hc_return output))))"

text \<open>The inner block: its result, the process id when it is known, and the commands.\<close>

definition sql_transaction ::
  "sql_io \<Rightarrow> sql_operation \<Rightarrow> string \<Rightarrow> sql_param list \<Rightarrow> budget
     \<Rightarrow> (string + sql_output) option \<times> int option \<times> (nat \<times> sql_command) list \<times> budget" where
  "sql_transaction io operation sql params s =
     (case sql_begin io s of
        (None, cs, s) \<Rightarrow> (None, None, cs, s)
      | (Some (Inl e), cs, s) \<Rightarrow> (Some (Inl e), None, cs, s)
      | (Some (Inr pid), cs, s) \<Rightarrow>
          (case sql_statement_commit io operation sql params s of
             (r, ds, s) \<Rightarrow> (r, Some pid, cs @ ds, s)))"

definition terminate_backend :: "(string + bool) timed \<Rightarrow> bool" where
  "terminate_backend outcome \<longleftrightarrow> outcome = Done (Inr True)"

definition unconfirmed_message :: string where
  "unconfirmed_message = ''invocation cancelled: SQL backend termination could not be confirmed''"

text \<open>
  How a job ends: its result (\<open>None\<close> while it waits), the commands it sent, the backend whose
  termination it asked for, whether it tried to roll back, and whether it closed its connection. The
  close is bounded by a timeout of its own, and the connection is closed on drop in any case.
\<close>

record sql_end =
  se_result :: "(string + sql_output) option"
  se_sent :: "(nat \<times> sql_command) list"
  se_terminated :: "int option"
  se_rolled_back :: bool
  se_closed :: bool

definition sql_finish ::
  "sql_io \<Rightarrow> (string + sql_output) \<Rightarrow> int option \<Rightarrow> (nat \<times> sql_command) list \<Rightarrow> budget \<Rightarrow> sql_end \<times> budget" where
  "sql_finish io result backend_pid sent s =
     (case (case backend_pid of Some _ \<Rightarrow> inv_check (io_check_end io) s | None \<Rightarrow> (Inr (), s)) of
        (Inl _, s) \<Rightarrow>
          (\<lparr>se_result = Some (if terminate_backend (io_terminate io) then result else Inl unconfirmed_message),
            se_sent = sent, se_terminated = backend_pid, se_rolled_back = False, se_closed = True\<rparr>, s)
      | (Inr _, s) \<Rightarrow>
          (case result of
             Inr _ \<Rightarrow> (\<lparr>se_result = Some result, se_sent = sent, se_terminated = None, se_rolled_back = False, se_closed = True\<rparr>, s)
           | Inl _ \<Rightarrow>
               (case hc_run SqlRollback (io_rollback_at io) (io_rollback io) s of
                  (r, cs, s) \<Rightarrow>
                    (\<lparr>se_result = (case r of None \<Rightarrow> None | Some _ \<Rightarrow> Some result), se_sent = sent @ cs,
                      se_terminated = None, se_rolled_back = True, se_closed = (r \<noteq> None)\<rparr>, s))))"

definition sql_job ::
  "sql_io \<Rightarrow> sql_operation \<Rightarrow> string \<Rightarrow> sql_param list \<Rightarrow> budget \<Rightarrow> sql_end \<times> budget" where
  "sql_job io operation sql params s =
     (case sql_call SqlAcquire (io_acquire_at io) (io_acquire io) s of
        (None, cs, s) \<Rightarrow> (\<lparr>se_result = None, se_sent = cs, se_terminated = None, se_rolled_back = False, se_closed = False\<rparr>, s)
      | (Some (Inl e), cs, s) \<Rightarrow>
          (\<lparr>se_result = Some (Inl e), se_sent = cs, se_terminated = None, se_rolled_back = False, se_closed = False\<rparr>, s)
      | (Some (Inr _), cs, s) \<Rightarrow>
          (case sql_transaction io operation sql params s of
             (None, pid, ds, s) \<Rightarrow>
               (\<lparr>se_result = None, se_sent = cs @ ds, se_terminated = None, se_rolled_back = False, se_closed = False\<rparr>, s)
           | (Some result, pid, ds, s) \<Rightarrow> sql_finish io result pid (cs @ ds) s))"

subsection \<open>Host functions\<close>

text \<open>
  \<open>run_sql\<close>: the job is spawned as a cleanup task of the invocation; the polls show the answer of the
  channel, which is an error when the task ended without one. The flag says whether a job was spawned.
\<close>

definition run_sql ::
  "(string \<Rightarrow> unit + sql_statement list) \<Rightarrow> nat \<Rightarrow> nat \<Rightarrow> (unit + (string + sql_output)) polls \<Rightarrow> string \<Rightarrow> budget
     \<Rightarrow> (string + sql_output) option \<times> bool \<times> budget" where
  "run_sql parse now run_at polls sql s =
     (case inv_check now s of
        (Inl e, s) \<Rightarrow> (Some (Inl e), False, s)
      | (Inr _, s) \<Rightarrow>
          (case validate_statement parse sql of
             Inl e \<Rightarrow> (Some (Inl e), False, s)
           | Inr _ \<Rightarrow>
               (case inv_run run_at polls (apfst spawn_cleanup s) of
                  (None, s) \<Rightarrow> (None, True, s)
                | (Some (Inl e), s) \<Rightarrow> (Some (Inl e), True, s)
                | (Some (Inr (Inl _)), s) \<Rightarrow> (Some (Inl ''SQL operation task failed''), True, s)
                | (Some (Inr (Inr r)), s) \<Rightarrow> (Some r, True, s))))"

definition sql_unavailable :: string where
  "sql_unavailable = ''SQL host function unavailable: function has no sql user''"

record run_io =
  ru_check :: nat
  ru_start :: nat
  ru_run_at :: nat
  ru_polls :: "(unit + (string + sql_output)) polls"

definition sql_query ::
  "(string \<Rightarrow> unit + sql_statement list) \<Rightarrow> (32 word \<Rightarrow> f64) \<Rightarrow> host_state \<Rightarrow> run_io \<Rightarrow> (nat \<Rightarrow> nat) \<Rightarrow> string \<Rightarrow> budget
     \<Rightarrow> (string + sql_row list) option \<times> bool \<times> budget" where
  "sql_query parse widen h io row_at sql s =
     (case inv_check (ru_check io) s of
        (Inl e, s) \<Rightarrow> (Some (Inl e), False, s)
      | (Inr _, s) \<Rightarrow>
          (case hs_sql_pool h of
             None \<Rightarrow> (Some (Inl sql_unavailable), False, s)
           | Some _ \<Rightarrow>
               (case run_sql parse (ru_start io) (ru_run_at io) (ru_polls io) sql s of
                  (None, spawned, s) \<Rightarrow> (None, spawned, s)
                | (Some (Inl e), spawned, s) \<Rightarrow> (Some (Inl e), spawned, s)
                | (Some (Inr (SqlRows rows)), spawned, s) \<Rightarrow>
                    (case decode_rows widen (zip (map row_at [0..<length rows]) rows) s of
                       (r, s) \<Rightarrow> (Some r, spawned, s))
                | (Some (Inr (SqlAffected _)), spawned, s) \<Rightarrow> (Some (Inl ''SQL query returned an invalid result''), spawned, s))))"

definition sql_execute ::
  "(string \<Rightarrow> unit + sql_statement list) \<Rightarrow> host_state \<Rightarrow> run_io \<Rightarrow> string \<Rightarrow> budget \<Rightarrow> (string + nat) option \<times> bool \<times> budget" where
  "sql_execute parse h io sql s =
     (case inv_check (ru_check io) s of
        (Inl e, s) \<Rightarrow> (Some (Inl e), False, s)
      | (Inr _, s) \<Rightarrow>
          (case hs_sql_pool h of
             None \<Rightarrow> (Some (Inl sql_unavailable), False, s)
           | Some _ \<Rightarrow>
               (case run_sql parse (ru_start io) (ru_run_at io) (ru_polls io) sql s of
                  (None, spawned, s) \<Rightarrow> (None, spawned, s)
                | (Some (Inl e), spawned, s) \<Rightarrow> (Some (Inl e), spawned, s)
                | (Some (Inr (SqlAffected affected)), spawned, s) \<Rightarrow> (Some (Inr affected), spawned, s)
                | (Some (Inr (SqlRows _)), spawned, s) \<Rightarrow> (Some (Inl ''SQL execute returned an invalid result''), spawned, s))))"

section \<open>The commands of a job\<close>

lemma validate_statement_Inr: "validate_statement parse sql = Inr u \<longleftrightarrow> (\<exists>st. parse sql = Inr [st] \<and> st \<noteq> StOther)"
proof -
  have "st \<in> {StQuery, StInsert, StUpdate, StDelete, StCreateTable, StCreateIndex, StAlterTable, StDrop, StTruncate} \<longleftrightarrow> st \<noteq> StOther" for st
    by (cases st) simp_all
  then show ?thesis by (auto simp: validate_statement_def split: sum.splits list.splits)
qed

text \<open>The kinds of command, without the times.\<close>

abbreviation kinds :: "(nat \<times> 'c) list \<Rightarrow> 'c list" where
  "kinds cs \<equiv> map snd cs"

lemma gated_sql_call [simp]: "gated (sql_call c now polls)"
  unfolding sql_call_def by (intro gated_bind gated_run gated_lift)

lemma gated_begin: "gated (sql_begin io)"
  unfolding sql_begin_def by (intro gated_bind gated_check gated_sql_call gated_state gated_lift)

lemma gated_statement: "gated (sql_statement_commit io operation sql params)"
  unfolding sql_statement_commit_def by (intro gated_bind gated_check gated_sql_call gated_return)

lemma sql_call_shape: "sql_call c now polls s = (r, cs, s') \<Longrightarrow> kinds cs = [] \<or> kinds cs = [c]"
  unfolding sql_call_def by (rule hc_command(1))

lemma sql_call_Inr:
  "sql_call c now polls s = (Some (Inr a), cs, s') \<Longrightarrow>
     s' = s \<and> kinds cs = [c] \<and> (\<exists>t. (t, False, Some (Inr a)) \<in> set polls \<and> t < inv_deadline (fst s))"
  unfolding sql_call_def by (rule hc_command(2)) simp_all

lemma emits_sql_call: "c \<in> K \<Longrightarrow> emits (sql_call c now polls) K"
  unfolding sql_call_def by (intro emits_intros)

lemma sql_begin_emits: "emits (sql_begin io) (insert SqlBegin (range SqlSetup))"
  unfolding sql_begin_def by (intro emits_bind emits_state emits_silent emits_sql_call) auto

lemma sql_begin_Inr:
  assumes "sql_begin io s = (Some (Inr pid), cs, s')"
  shows "s' = s" "kinds cs = [SqlBegin, SqlSetup (statement_timeout_ms (inv_deadline (fst s) - io_now io))]"
    "\<exists>t. (t, False, Some (Inr (Inr pid))) \<in> set (io_setup io)"
  using assms
  by (auto simp: sql_begin_def hc_state_def hc_lift_Inr dest!: sql_call_Inr hc_check_Inr) blast

lemma statement_Inr:
  assumes "sql_statement_commit io operation sql params s = (Some (Inr out), cs, s')"
  shows "s' = s" "kinds cs = [SqlStatement operation sql (map bind_param params), SqlCommit]"
    "\<exists>t < inv_deadline (fst s). (t, False, Some (Inr out)) \<in> set (io_statement io)"
    "\<exists>t < inv_deadline (fst s). (t, False, Some (Inr ())) \<in> set (io_commit io)"
  using assms
  by (auto simp: sql_statement_commit_def dest!: sql_call_Inr hc_check_Inr)

text \<open>\<open>COMMIT\<close> follows the answer to the statement and a check of the budget.\<close>

lemma statement_commit:
  assumes "sql_statement_commit io operation sql params s = (r, cs, s')" "SqlCommit \<in> set (kinds cs)"
  shows "(\<exists>out. \<exists>t < inv_deadline (fst s). (t, False, Some (Inr out)) \<in> set (io_statement io))
    \<and> io_check_commit io < inv_deadline (fst s) \<and> hd (kinds cs) = SqlStatement operation sql (map bind_param params)"
  using assms(1) unfolding sql_statement_commit_def
proof (cases rule: hc_bindE)
  case (go u cs1 s1 ds)
  have c1: "s1 = s" "cs = ds" using hc_check_Inr [OF go(1)] go(3) by auto
  from go(2) show ?thesis
  proof (cases rule: hc_bindE)
    case go2: (go out cs2 s2 es)
    have c2: "s2 = s" "kinds cs2 = [SqlStatement operation sql (map bind_param params)]"
      "\<exists>t < inv_deadline (fst s). (t, False, Some (Inr out)) \<in> set (io_statement io)"
      using sql_call_Inr [OF go2(1)] c1 by auto
    from go2(2) have "io_check_commit io < inv_deadline (fst s)"
    proof (cases rule: hc_bindE)
      case go3: (go v cs3 s3 fs)
      then show ?thesis using hc_check_Inr [OF go3(1)] c2(1) by simp
    qed (insert assms(2) c1 c2 go2(3), auto dest: arg_cong [of _ _ "\<lambda>x. fst (snd x)"])
    with c1 c2 go2(3) show ?thesis by auto
  qed (insert assms(2) c1, auto dest!: sql_call_shape)
qed (insert assms(2), auto dest: arg_cong [of _ _ "\<lambda>x. fst (snd x)"])

lemma hc_run_error: "hc_run c now polls s = (Some (Inl e), cs, s') \<Longrightarrow> inv_cancelled (fst s')"
  using run_polls_state(1) [of polls s e]
  by (auto simp: hc_run_def inv_run_eq split: prod.splits if_splits)

lemma sql_call_answered:
  assumes "sql_call c now polls s = (Some r, cs, s')" "\<not> inv_cancelled (fst s')"
  shows "\<exists>a. \<exists>t < inv_deadline (fst s). (t, False, Some a) \<in> set polls"
  using assms(1) unfolding sql_call_def
proof (cases rule: hc_bindE)
  case (go a cs1 s1 ds)
  then show ?thesis using hc_run_Inr(2) [OF go(1)] by blast
next
  case (error e)
  then show ?thesis using hc_run_error [of c now polls s e cs s'] assms(2) by simp
qed simp

text \<open>A statement that was sent has been answered, unless the invocation is cancelled.\<close>

lemma statement_answered:
  assumes "sql_statement_commit io operation sql params s = (Some res, cs, s')" "cs \<noteq> []" "\<not> inv_cancelled (fst s')"
  shows "\<exists>a. \<exists>t < inv_deadline (fst s). (t, False, Some a) \<in> set (io_statement io)"
  using assms(1) unfolding sql_statement_commit_def
proof (cases rule: hc_bindE)
  case (go u cs1 s1 ds)
  have c1: "s1 = s" "cs = ds" using hc_check_Inr [OF go(1)] go(3) by auto
  from go(2) show ?thesis
  proof (cases rule: hc_bindE)
    case go2: (go out cs2 s2 es)
    then show ?thesis using sql_call_Inr [OF go2(1)] c1 by auto
  next
    case (error e)
    then show ?thesis using sql_call_answered [OF error(1) assms(3)] c1 by simp
  qed simp
qed (insert assms(2), auto dest: arg_cong [of _ _ "\<lambda>x. fst (snd x)"])

lemma statement_emits: "emits (sql_statement_commit io operation sql params) {SqlStatement operation sql (map bind_param params), SqlCommit}"
  unfolding sql_statement_commit_def by (intro emits_bind emits_silent emits_sql_call) auto

section \<open>The end of a job\<close>

text \<open>A finished job that opened its transaction, with what each part of it did.\<close>

lemma sql_job_cases:
  assumes "sql_job io operation sql params s = (e, s')"
  obtains (outside) "se_sent e = [] \<or> kinds (se_sent e) = [SqlAcquire]" "\<forall>out. se_result e \<noteq> Some (Inr out)" "se_terminated e = None"
      "\<And>t c. (t, c) \<in> set (se_sent e) \<Longrightarrow> t < inv_deadline (fst s) \<and> \<not> inv_cancelled (fst s)"
  | (inside) t r pid ds s1 where "sql_transaction io operation sql params s = (r, pid, ds, s1)" "\<not> inv_over (io_acquire_at io) (fst s)"
      "t < inv_deadline (fst s)" "r = None \<Longrightarrow> se_result e = None \<and> se_sent e = (t, SqlAcquire) # ds \<and> se_terminated e = None"
      "\<And>res. r = Some res \<Longrightarrow> (e, s') = sql_finish io res pid ((t, SqlAcquire) # ds) s1"
proof (cases "sql_call SqlAcquire (io_acquire_at io) (io_acquire io) s" rule: prod_cases3)
  case (fields a cs s0)
  show thesis
  proof (cases "\<exists>u. a = Some (Inr u)")
    case True
    then obtain u where a: "a = Some (Inr u)" by blast
    note ok = sql_call_Inr [OF fields [unfolded a]]
    then obtain t where cs: "cs = [(t, SqlAcquire)]" by auto
    have t: "t < inv_deadline (fst s)"
      using sent_in_time [OF gated_sql_call, of t SqlAcquire SqlAcquire "io_acquire_at io" "io_acquire io" s] fields cs by simp
    have "\<not> inv_over (io_acquire_at io) (fst s)"
      using fields a by (auto simp: sql_call_def hc_bind_def hc_run_def inv_run_eq split: if_splits prod.splits)
    with assms fields a ok cs t show thesis
      by (cases "sql_transaction io operation sql params s" rule: prod_cases4) (auto simp: sql_job_def intro!: inside split: option.splits)
  next
    case False
    then have e: "se_sent e = cs" "\<forall>out. se_result e \<noteq> Some (Inr out)" "se_terminated e = None"
      using assms fields by (auto simp: sql_job_def split: option.splits sum.splits)
    show thesis
    proof (rule outside)
      show "se_sent e = [] \<or> kinds (se_sent e) = [SqlAcquire]" using sql_call_shape [OF fields] e(1) by auto
      show "t < inv_deadline (fst s) \<and> \<not> inv_cancelled (fst s)" if "(t, c) \<in> set (se_sent e)" for t c
        using gatedD(3,4) [OF gated_sql_call fields] that e(1) by blast
    qed (fact e)+
  qed
qed

lemma sql_transaction_cases:
  assumes "sql_transaction io operation sql params s = (r, pid, ds, s1)"
  obtains (unopened) "set (kinds ds) \<subseteq> insert SqlBegin (range SqlSetup)" "\<forall>out. r \<noteq> Some (Inr out)" "pid = None"
  | (opened) p bs ss where "pid = Some p" "ds = bs @ ss" "sql_statement_commit io operation sql params s = (r, ss, s1)"
      "kinds bs = [SqlBegin, SqlSetup (statement_timeout_ms (inv_deadline (fst s) - io_now io))]"
      "\<exists>t. (t, False, Some (Inr (Inr p))) \<in> set (io_setup io)"
proof (cases "sql_begin io s" rule: prod_cases3)
  case (fields a bs s0)
  show thesis
  proof (cases "\<exists>p. a = Some (Inr p)")
    case True
    then obtain p where a: "a = Some (Inr p)" by blast
    note b = sql_begin_Inr [OF fields [unfolded a]]
    obtain r' ss s2 where st: "sql_statement_commit io operation sql params s = (r', ss, s2)" by (rule prod_cases3)
    with assms fields a b show thesis by (intro opened [of p bs ss]) (auto simp: sql_transaction_def)
  next
    case False
    then have "ds = bs" "\<forall>out. r \<noteq> Some (Inr out)" "pid = None"
      using assms fields by (auto simp: sql_transaction_def split: option.splits sum.splits)
    then show thesis using sql_begin_emits [unfolded emits_def, THEN spec, of io s] fields by (intro unopened) auto
  qed
qed

lemma sql_transaction_sent:
  assumes "sql_transaction io operation sql params s = (r, pid, ds, s1)" "(t, c) \<in> set ds"
  shows "t < inv_deadline (fst s) \<and> \<not> inv_cancelled (fst s)"
proof -
  obtain a bs s0 where b: "sql_begin io s = (a, bs, s0)" by (rule prod_cases3)
  have "(t, c) \<in> set bs \<or> (\<exists>p. a = Some (Inr p) \<and> (t, c) \<in> set (fst (snd (sql_statement_commit io operation sql params s0))))"
    using assms b by (auto simp: sql_transaction_def split: option.splits sum.splits prod.splits)
  then show ?thesis
    using sent_in_time [OF gated_begin, of t c io s] sent_in_time [OF gated_statement, of t c io operation sql params s0]
      sql_begin_Inr(1) [of io s] b by auto
qed

text \<open>How \<open>sql_finish\<close> ends a job whose transaction was open.\<close>

lemma sql_finish_open:
  assumes "sql_finish io res (Some p) sent s1 = (e, s')" "se_result e = Some res'"
  shows "se_closed e"
    and "se_terminated e = None \<Longrightarrow> \<not> inv_over (io_check_end io) (fst s1) \<and> res' = res \<and> ((\<exists>out. res = Inr out) \<or> se_rolled_back e)"
    and "se_terminated e \<noteq> None \<Longrightarrow> se_terminated e = Some p \<and> (terminate_backend (io_terminate io) \<and> res' = res \<or> res' = Inl unconfirmed_message)"
  using assms
  by (auto simp: sql_finish_def inv_check_def split: if_splits sum.splits prod.splits option.splits)

lemma sql_finish_sent:
  assumes "sql_finish io res pid sent s1 = (e, s')"
  shows "se_sent e = sent \<or> (\<exists>t. se_sent e = sent @ [(t, SqlRollback)] \<and> t < inv_deadline (fst s1) \<and> \<not> inv_cancelled (fst s1))"
    "se_result e = Some (Inr out) \<Longrightarrow> res = Inr out \<and> se_sent e = sent"
proof -
  show "se_result e = Some (Inr out) \<Longrightarrow> res = Inr out \<and> se_sent e = sent"
    using assms by (auto simp: sql_finish_def inv_check_def split: if_splits sum.splits prod.splits option.splits)
  show "se_sent e = sent \<or> (\<exists>t. se_sent e = sent @ [(t, SqlRollback)] \<and> t < inv_deadline (fst s1) \<and> \<not> inv_cancelled (fst s1))"
    using assms first_poll_Some [of "io_rollback_at io" "io_rollback io"]
    by (auto simp: sql_finish_def inv_check_def hc_run_def split: if_splits sum.splits prod.splits option.splits)
qed

lemma sql_transaction_state:
  assumes "sql_transaction io operation sql params s = (r, pid, ds, s1)"
  shows "inv_deadline (fst s1) = inv_deadline (fst s)" "inv_cancelled (fst s) \<Longrightarrow> inv_cancelled (fst s1)"
proof -
  obtain a bs s0 where b: "sql_begin io s = (a, bs, s0)" by (rule prod_cases3)
  note g = gatedD [OF gated_begin b]
  have "s1 = s0 \<or> (\<exists>r ss. sql_statement_commit io operation sql params s0 = (r, ss, s1))"
    using assms b by (auto simp: sql_transaction_def split: option.splits sum.splits prod.splits)
  then show "inv_deadline (fst s1) = inv_deadline (fst s)" "inv_cancelled (fst s) \<Longrightarrow> inv_cancelled (fst s1)"
    using g(1,2) gatedD(1,2) [OF gated_statement] by metis+
qed

lemma sql_job_sent:
  assumes "sql_job io operation sql params s = (e, s')" "(t, c) \<in> set (se_sent e)"
  shows "t < inv_deadline (fst s) \<and> \<not> inv_cancelled (fst s)"
  using assms(1)
proof (cases rule: sql_job_cases)
  case outside
  then show ?thesis using assms(2) by blast
next
  case (inside t0 r pid ds s1)
  have acq: "t0 < inv_deadline (fst s) \<and> \<not> inv_cancelled (fst s)" using inside(2,3) by (simp add: inv_over_def)
  have "(t, c) \<in> set ((t0, SqlAcquire) # ds) \<or> (t < inv_deadline (fst s1) \<and> \<not> inv_cancelled (fst s1))"
  proof (cases r)
    case None
    then show ?thesis using inside(4) assms(2) by auto
  next
    case (Some res)
    from sql_finish_sent(1) [OF inside(5) [OF this, symmetric]] show ?thesis using assms(2) by auto
  qed
  then show ?thesis using acq sql_transaction_sent [OF inside(1)] sql_transaction_state [OF inside(1)] by auto
qed

text \<open>The commands of a job inside its transaction, and those of the statement among them.\<close>

lemma sql_job_kinds:
  assumes "sql_job io operation sql params s = (e, s')" "c \<in> set (kinds (se_sent e))" "c = SqlCommit \<or> c = SqlStatement operation' sql' vs"
  obtains pid r bs ss s1 t where "sql_statement_commit io operation sql params s = (r, ss, s1)" "c \<in> set (kinds ss)"
    "\<exists>t. (t, False, Some (Inr (Inr pid))) \<in> set (io_setup io)" "r = None \<Longrightarrow> se_result e = None"
    "\<And>res. r = Some res \<Longrightarrow> (e, s') = sql_finish io res (Some pid) ((t, SqlAcquire) # bs @ ss) s1"
  using assms(1)
proof (cases rule: sql_job_cases)
  case outside
  with assms(2,3) show thesis by auto
next
  case (inside t r pid ds s1)
  have "c \<in> set (kinds ds)"
  proof (cases r)
    case None
    then show ?thesis using inside(4) assms(2,3) by auto
  next
    case (Some res)
    from sql_finish_sent(1) [OF inside(5) [OF this, symmetric]] show ?thesis using assms(2,3) by auto
  qed
  from inside(1) show thesis
  proof (cases rule: sql_transaction_cases)
    case unopened
    with \<open>c \<in> set (kinds ds)\<close> assms(3) show thesis by auto
  next
    case (opened p bs ss)
    have "c \<in> set (kinds ss)"
      using \<open>c \<in> set (kinds ds)\<close> assms(3) opened(2) arg_cong [OF opened(4), of set] by auto
    with opened inside show thesis by (intro that [of r ss s1 p t bs]) auto
  qed
qed


lemma sql_job_statement:
  assumes "sql_job io operation sql params s = (e, s')" "SqlStatement operation sql vs \<in> set (kinds (se_sent e))" "se_result e = Some res'"
  shows "se_closed e"
    and "se_terminated e = None \<Longrightarrow> (\<exists>a. \<exists>t < inv_deadline (fst s). (t, False, Some a) \<in> set (io_statement io))
      \<and> io_check_end io < inv_deadline (fst s) \<and> ((\<exists>out. res' = Inr out) \<or> se_rolled_back e)"
    and "se_terminated e \<noteq> None \<Longrightarrow> terminate_backend (io_terminate io) \<or> res' = Inl unconfirmed_message"
proof -
  obtain pid r bs ss s1 t where st: "sql_statement_commit io operation sql params s = (r, ss, s1)"
    "SqlStatement operation sql vs \<in> set (kinds ss)" "r = None \<Longrightarrow> se_result e = None"
    "\<And>res. r = Some res \<Longrightarrow> (e, s') = sql_finish io res (Some pid) ((t, SqlAcquire) # bs @ ss) s1"
    by (rule sql_job_kinds [OF assms(1,2) disjI2 [OF refl]]) blast
  obtain res where r: "r = Some res" using st(3) assms(3) by (cases r) auto
  note fin = sql_finish_open [OF st(4) [OF r, symmetric] assms(3)]
  show "se_closed e" by (rule fin(1))
  show "se_terminated e \<noteq> None \<Longrightarrow> terminate_backend (io_terminate io) \<or> res' = Inl unconfirmed_message" using fin(3) by blast
  assume "se_terminated e = None"
  note f = fin(2) [OF this]
  have "ss \<noteq> []" "\<not> inv_cancelled (fst s1)" "inv_deadline (fst s1) = inv_deadline (fst s)"
    using st(2) f gatedD(1) [OF gated_statement st(1)] by (auto simp: inv_over_def)
  then show "(\<exists>a. \<exists>t < inv_deadline (fst s). (t, False, Some a) \<in> set (io_statement io))
      \<and> io_check_end io < inv_deadline (fst s) \<and> ((\<exists>out. res' = Inr out) \<or> se_rolled_back e)"
    using statement_answered [OF st(1) [unfolded r]] f by (auto simp: inv_over_def)
qed

lemma sql_job_terminated:
  assumes "sql_job io operation sql params s = (e, s')" "se_terminated e = Some pid"
  shows "\<exists>t. (t, False, Some (Inr (Inr pid))) \<in> set (io_setup io)"
  using assms(1)
proof (cases rule: sql_job_cases)
  case (inside t r p ds s1)
  obtain res where r: "r = Some res" using inside(4) assms(2) by (cases r) auto
  have p: "p = Some pid"
    using inside(5) [OF r] assms(2)
    by (auto simp: sql_finish_def split: option.splits sum.splits prod.splits)
  from inside(1) show ?thesis by (cases rule: sql_transaction_cases) (auto simp: p)
qed (simp add: assms(2))

lemma statement_timeout_bounds: "1 \<le> statement_timeout_ms n" "statement_timeout_ms n < 2 ^ 31"
  by (auto simp: statement_timeout_ms_def)

lemma sql_job_success:
  assumes "sql_job io operation sql params s = (e, s')" "se_result e = Some (Inr out)"
  shows "(\<exists>ms. kinds (se_sent e) = [SqlAcquire, SqlBegin, SqlSetup ms, SqlStatement operation sql (map bind_param params), SqlCommit]
      \<and> 1 \<le> ms \<and> ms < 2 ^ 31) \<and> (\<exists>t < inv_deadline (fst s). (t, False, Some (Inr ())) \<in> set (io_commit io))"
  using assms(1)
proof (cases rule: sql_job_cases)
  case (inside t r p ds s1)
  obtain res where r: "r = Some res" using inside(4) assms(2) by (cases r) auto
  note f = sql_finish_sent(2) [OF inside(5) [OF r, symmetric] assms(2)]
  from inside(1) show ?thesis
  proof (cases rule: sql_transaction_cases)
    case (opened q bs ss)
    note st = statement_Inr [OF opened(3) [unfolded r conjunct1 [OF f]]]
    show ?thesis using f opened(2,4) st(2,4) statement_timeout_bounds by auto
  qed (simp add: r f)
qed (simp add: assms(2))

end
