(* ===== verification/GuestProperties.thy ===== *)
theory GuestProperties
  imports HostSql
begin

text \<open>
  What the host functions guarantee: a mutation of the key-value store stays in the keys of its
  application and happens before the deadline of the invocation, no call does anything once the
  invocation is over, and a statement never outlives its invocation unnoticed.
\<close>

section \<open>Calls on an invocation that is over\<close>

lemma over_check: "inv_over now (fst s) \<Longrightarrow> inv_check now s = (Inl stopped_message, inv_cancel now s)"
  by (cases s) (simp add: inv_check_def)

lemma in_time_check: "\<not> inv_over now (fst s) \<Longrightarrow> inv_check now s = (Inr (), s)"
  by (cases s) (simp add: inv_check_def)

text \<open>Every host function, on an invocation that is over at the time of its first check.\<close>

definition all_refused ::
  "('v, 'r) prometheus \<Rightarrow> host_state \<Rightarrow> nat \<Rightarrow> budget \<Rightarrow> ('v, 'r) metrics_registry \<Rightarrow> bool" where
  "all_refused prom h now s r \<longleftrightarrow>
     (let gone = inv_cancel now s in
     (\<forall>io key. read_kv prom h now (io :: bytes read_io) key s r = ((Some (Inl stopped_message), [], gone), Some r))
     \<and> (\<forall>io key m. mutate_kv prom h now io key m s r = ((Some (Inl stopped_message), [], gone), Some r))
     \<and> (\<forall>run_at polls topic payload. messaging_send prom h now run_at polls topic payload s r = ((Some (Inl stopped_message), [], gone), Some r))
     \<and> (\<forall>name labels. guest_counter_increment prom h now name labels s r = (Inl stopped_message, gone, Some r))
     \<and> (\<forall>name level labels. guest_gauge_set prom h now name level labels s r = (Inl stopped_message, gone, Some r))
     \<and> (\<forall>level message. log_emit h now level message s = ([], gone))
     \<and> (\<forall>parse io sql. ru_check io = now \<longrightarrow> sql_execute parse h io sql s = (Some (Inl stopped_message), False, gone))
     \<and> (\<forall>parse widen io row_at sql. ru_check io = now \<longrightarrow> sql_query parse widen h io row_at sql s = (Some (Inl stopped_message), False, gone))
     \<and> (\<forall>set_fuel rs f nats. invocation_store set_fuel now rs f nats s = (Inl stopped_message, gone)))"

lemma over_refused: "inv_over now (fst s) \<Longrightarrow> all_refused prom h now s r"
  by (simp add: all_refused_def Let_def read_kv_def mutate_kv_def messaging_send_def guest_counter_increment_def
      guest_gauge_set_def log_emit_def sql_execute_def sql_query_def invocation_store_def over_check)

section \<open>Jobs of the invocation\<close>

lemma inv_run_cleanup: "inv_cleanup (fst (snd (inv_run now polls s))) = inv_cleanup (fst s)"
proof -
  have "inv_cleanup (fst (snd (run_polls polls s))) = inv_cleanup (fst s)"
    by (induction polls) (auto split: option.splits)
  then show ?thesis by (simp add: inv_run_eq)
qed

lemma run_sql_spawned:
  assumes "run_sql parse now run_at polls sql s = (res, True, s')"
  shows "(\<exists>st. parse sql = Inr [st] \<and> st \<noteq> StOther) \<and> fst (inv_finish (fst s')) = None"
proof -
  have no: "\<not> inv_over now (fst s)" using assms by (auto simp: run_sql_def over_check)
  have v: "validate_statement parse sql = Inr ()"
    using assms no by (auto simp: run_sql_def in_time_check split: sum.splits)
  have "s' = snd (inv_run run_at polls (apfst spawn_cleanup s))"
    using assms no v by (auto simp: run_sql_def in_time_check split: prod.splits option.splits sum.splits)
  then have "0 < cl_running (inv_cleanup (fst s'))" by (simp add: inv_run_cleanup spawn_cleanup_def Let_def)
  then have "fst (inv_finish (fst s')) = None" by (simp add: inv_finish_iff)
  with v show ?thesis by (simp add: validate_statement_Inr)
qed

text \<open>A query that spawned a job: its rows only touch the budget by checks.\<close>

lemma decode_rows_cleanup: "inv_cleanup (fst (snd (decode_rows widen rows s))) = inv_cleanup (fst s)"
proof (induction rows arbitrary: s)
  case (Cons x rows)
  obtain now row where x: "x = (now, row)" by (cases x)
  show ?case
    by (cases "inv_over now (fst s)") (auto simp: x over_check in_time_check Cons.IH split: sum.splits)
qed simp

lemma sql_execute_spawned:
  assumes "sql_execute parse h io sql s = (res, True, s')"
  shows "hs_sql_pool h \<noteq> None \<and> (\<exists>st. parse sql = Inr [st] \<and> st \<noteq> StOther) \<and> fst (inv_finish (fst s')) = None"
proof -
  have no: "\<not> inv_over (ru_check io) (fst s)" using assms by (auto simp: sql_execute_def over_check)
  then obtain res' where "hs_sql_pool h \<noteq> None" "run_sql parse (ru_start io) (ru_run_at io) (ru_polls io) sql s = (res', True, s')"
    using assms by (auto simp: sql_execute_def in_time_check split: option.splits sum.splits prod.splits sql_output.splits)
  then show ?thesis using run_sql_spawned by blast
qed

lemma sql_query_spawned:
  assumes "sql_query parse widen h io row_at sql s = (res, True, s')"
  shows "hs_sql_pool h \<noteq> None \<and> (\<exists>st. parse sql = Inr [st] \<and> st \<noteq> StOther) \<and> fst (inv_finish (fst s')) = None"
proof -
  have no: "\<not> inv_over (ru_check io) (fst s)" using assms by (auto simp: sql_query_def over_check)
  then obtain res' s1 where r: "hs_sql_pool h \<noteq> None" "run_sql parse (ru_start io) (ru_run_at io) (ru_polls io) sql s = (res', True, s1)"
    "inv_cleanup (fst s') = inv_cleanup (fst s1)"
    using assms decode_rows_cleanup
    by (auto simp: sql_query_def in_time_check split: option.splits sum.splits prod.splits sql_output.splits) (metis fst_conv snd_conv)
  then show ?thesis using run_sql_spawned [OF r(2)] by (simp add: inv_finish_iff split: if_splits)
qed

section \<open>Samples\<close>

definition sample_host :: host_state where
  "sample_host = \<lparr>hs_redis_client = Some ''redis://cache'', hs_nats_client = Some 3, hs_sql_pool = Some ''postgres://db'',
     hs_app_name = ''shop'', hs_app_namespace = ''prod'', hs_function_name = ''checkout'', hs_memory_limit = 67108864\<rparr>"

definition sample_budget :: budget where
  "sample_budget = (inv_build 0 1000000000 False, dispatch_new)"

definition sample_clock :: "nat \<Rightarrow> nat \<times> nat" where
  "sample_clock t = (t div 1000000000, t div 1000 mod 1000000)"

lemma sample_clock_steady: "steady_clock sample_clock"
proof -
  have "t div 1000000000 = t div 1000 div 1000000" for t :: nat by (simp add: div_mult2_eq [symmetric])
  then show ?thesis unfolding steady_clock_def sample_clock_def by (intro exI [of _ 0]) simp
qed

text \<open>A mutation whose commands are answered one millisecond after another.\<close>

definition sample_mutate :: mutate_io where
  "sample_mutate = \<lparr>mi_connect_at = 1000000, mi_connect = [(2000000, False, Some (Inr ()))],
     mi_time_at = 3000000, mi_time = [(4000000, False, None), (5000000, False, Some (Inr (sample_clock 4500000)))],
     mi_check_at = 5000000, mi_now = 5000000, mi_eval_at = 6000000, mi_eval = [(7000000, False, None), (8000000, False, Some (Inr (True, 0)))]\<rparr>"

lemmas sample_defs = sample_host_def sample_budget_def inv_build_def

lemmas hostcall_defs = hc_bind_def hc_run_def hc_lift_def hc_return_def hc_fail_def hc_check_def hc_state_def
  first_poll_def inv_run_eq inv_over_def inv_check_def

definition sample_eval :: eval_command where
  "sample_eval = \<lparr>ev_key = ''prod/shop/cart'', ev_deadline = 999500, ev_operation = ''set'', ev_value = [1, 2]\<rparr>"

lemma sample_mutate_run:
  "mutate_kv plain_prom sample_host 0 sample_mutate ''cart'' (MutSet [1, 2]) sample_budget sample_base
     = ((Some (Inr 0), [(2000000, RedisConnect), (4000000, RedisTime), (7000000, RedisEval sample_eval)], sample_budget),
        record_kv_write plain_prom ''shop'' ''prod'' sample_base)"
  by (simp add: mutate_kv_def sample_defs sample_mutate_def redis_mutate_def redis_connection_def redis_call_def mutate_timed_def
      mutate_submit_def hostcall_defs full_key_def sample_eval_def sample_clock_def backend_deadline_def checked_mul_def
      checked_add_def MAX_LUA_INTEGER_def)

section \<open>Properties\<close>

text \<open>
  C5 (safety). Whenever the server runs the script that a guest's mutation submitted, even long after the
  call was given up: it changes nothing at or after the deadline of the invocation, as the server's own
  clock tells it, whatever the offset of that clock; it changes no key but the caller's own, hence no key
  of another application; and when it accepts, it has done exactly the mutation asked for. The script was
  sent for an application that has a key-value store, before the deadline, by an invocation that was not
  cancelled.
\<close>

theorem kv_mutation_confined:
  assumes "redis_spec api held" and "steady_clock srv"
    and time: "\<forall>p \<in> set (mi_time io). \<forall>st. snd (snd p) = Some (Inr st) \<longrightarrow> (\<exists>t0 \<le> mi_now io. st = srv t0)"
    and call: "mutate_kv prom h now io key m s r = ((res, cmds, s'), r')"
    and sent: "(t1, RedisEval c) \<in> set cmds"
    and run: "mi_now io \<le> t" "mutate_before_deadline api (srv t) c d = (out, d')"
  shows "(d' \<noteq> d \<or> out = Inr (1, v) \<longrightarrow> t < inv_deadline (fst s))
    \<and> (\<forall>k. held d' k \<noteq> held d k \<longrightarrow> k = full_key h key)
    \<and> (\<forall>h' k'. CHR ''/'' \<notin> set (hs_app_namespace h @ hs_app_name h @ hs_app_namespace h' @ hs_app_name h')
         \<and> (hs_app_namespace h', hs_app_name h') \<noteq> (hs_app_namespace h, hs_app_name h)
         \<longrightarrow> held d' (full_key h' k') = held d (full_key h' k'))
    \<and> (out = Inr (1, v) \<longrightarrow> mutation_done (held d) (held d') (full_key h key) m v)
    \<and> hs_redis_client h \<noteq> None \<and> \<not> inv_cancelled (fst s) \<and> t1 < inv_deadline (fst s)"
proof -
  note k = mutate_kv_sent [OF call sent]
  obtain st t' dl where st: "(t', False, Some (Inr st)) \<in> set (mi_time io)"
    "backend_deadline st (inv_deadline (fst s) - mi_now io) = Inr dl"
    "c = \<lparr>ev_key = full_key h key, ev_deadline = dl, ev_operation = fst (mutation_args m), ev_value = snd (mutation_args m)\<rparr>"
    by (rule redis_mutate_sent [OF k(3)])
  obtain t0 where t0: "t0 \<le> mi_now io" "st = srv t0" using time st(1) by fastforce
  note eff = redis_spec.script_effect [OF assms(1) run(2) [unfolded st(3)]]
  have early: "t < inv_deadline (fst s)" if "d' \<noteq> d \<or> out = Inr (1, v)"
    using backend_deadline_early [OF assms(2), of t0 "inv_deadline (fst s)" "mi_now io" dl t] st(2) t0 run(1) eff(3) that by auto
  have key: "held d' k = held d k" if "k \<noteq> full_key h key" for k using eff(1) that by blast
  have other: "full_key h' k' \<noteq> full_key h key"
    if "CHR ''/'' \<notin> set (hs_app_namespace h @ hs_app_name h @ hs_app_namespace h' @ hs_app_name h')"
      "(hs_app_namespace h', hs_app_name h') \<noteq> (hs_app_namespace h, hs_app_name h)" for h' k'
    using that by (subst full_key_inject) auto
  show ?thesis
    using early key other eff(2) k(1) sent_in_time [OF gated_mutate k(3)] by blast
qed

theorem kv_mutation_confined_witness:
  "mutate_before_deadline plain_redis (sample_clock 8000000) sample_eval [] = (Inr (1, ScriptInt 0), [(''prod/shop/cart'', [1, 2])])
   \<and> (8000000 :: nat) < inv_deadline (fst sample_budget)"
proof -
  have run: "mutate_before_deadline plain_redis (sample_clock 8000000) sample_eval [] = (Inr (1, ScriptInt 0), [(''prod/shop/cart'', [1, 2])])"
    by (simp add: mutate_before_deadline_def sample_eval_def sample_clock_def plain_redis_def)
  have time: "\<forall>p \<in> set (mi_time sample_mutate). \<forall>st. snd (snd p) = Some (Inr st)
      \<longrightarrow> (\<exists>t0 \<le> mi_now sample_mutate. st = sample_clock t0)"
    by (auto simp: sample_mutate_def intro!: exI [of _ 4500000])
  have sent: "(7000000, RedisEval sample_eval) \<in> set [(2000000, RedisConnect), (4000000, RedisTime), (7000000, RedisEval sample_eval)]"
    by simp
  have "mi_now sample_mutate \<le> 8000000" by (simp add: sample_mutate_def)
  then show ?thesis
    using kv_mutation_confined [where v = "ScriptInt 0", OF plain_server.redis_spec_axioms sample_clock_steady time
      sample_mutate_run sent _ run] run by blast
qed





text \<open>A statement that is not answered before the deadline.\<close>

definition sample_sql :: sql_io where
  "sample_sql = \<lparr>io_acquire_at = 1000000, io_acquire = [(2000000, False, Some (Inr ()))], io_check_begin = 2000000,
     io_begin_at = 2000000, io_begin = [(3000000, False, Some (Inr ()))], io_now = 3000000,
     io_setup_at = 3000000, io_setup = [(4000000, False, Some (Inr (Inr 77)))], io_check_statement = 4000000,
     io_statement_at = 4000000, io_statement = [(5000000, False, None), (1000000000, False, None)],
     io_check_commit = 0, io_commit_at = 0, io_commit = [], io_check_end = 1000000000, io_terminate = Elapsed,
     io_rollback_at = 0, io_rollback = []\<rparr>"

lemma sample_sql_run:
  "\<exists>s'. sql_job sample_sql OpExecute ''DELETE FROM carts'' [] sample_budget =
     (\<lparr>se_result = Some (Inl unconfirmed_message),
       se_sent = [(2000000, SqlAcquire), (3000000, SqlBegin), (4000000, SqlSetup 997), (5000000, SqlStatement OpExecute ''DELETE FROM carts'' [])],
       se_terminated = Some 77, se_rolled_back = False, se_closed = True\<rparr>, s')"
  by (simp add: sql_job_def sample_sql_def sample_defs sql_call_def sql_transaction_def sql_begin_def sql_statement_commit_def
      sql_finish_def hostcall_defs statement_timeout_ms_def terminate_backend_def inv_cancel_def)


end
