(* ===== verification/RequestPath.thy ===== *)
theory RequestPath
  imports Gateway InvocationSupervisor GuestHost
begin

text \<open>
  The way of an HTTP request through both processes. The gateway serialises the request
  (\<open>Gateway\<close>), the host runs the closure that \<open>invocation_supervisor.rs\<close> hands to the blocking thread,
  the supervisor makes a reply of the result (\<open>InvocationSupervisor\<close>), and the gateway decodes it. The
  JSON package is an argument with the laws of the locale \<open>json_codec\<close>: what was encoded decodes to
  itself.
\<close>

section \<open>Definitions\<close>

record json_api =
  js_request :: "bytes \<Rightarrow> http_request_payload anyhow"
  js_response :: "http_response_payload \<Rightarrow> bytes anyhow"

definition error_response :: "json_api \<Rightarrow> nat \<Rightarrow> string \<Rightarrow> bytes option" where
  "error_response js code message =
     (case js_response js
         \<lparr>pr_status = code, pr_headers = [(''content-type'', ''text/plain'')], pr_body = Some (ascii_bytes message)\<rparr> of
        Inr b \<Rightarrow> Some b
      | Inl _ \<Rightarrow> None)"

text \<open>The instants of the closure, and the exports of the component it calls.\<close>

record work_io =
  wk_check :: nat
  wk_store :: nat
  wk_run_at :: nat

record component_exports =
  ce_message :: "wasm_store \<Rightarrow> bytes \<Rightarrow> (string + (string + bytes option)) polls"
  ce_request :: "wasm_store \<Rightarrow> http_request_payload \<Rightarrow> (string + (string + http_response_payload)) polls"

definition execution_work ::
  "('v, 'r) prometheus \<Rightarrow> json_api \<Rightarrow> (nat \<Rightarrow> unit anyhow) \<Rightarrow> work_io \<Rightarrow> runtime_state \<Rightarrow> component_exports
     \<Rightarrow> function_entry \<Rightarrow> nat option \<Rightarrow> bytes \<Rightarrow> budget \<Rightarrow> ('v, 'r) metrics_registry
     \<Rightarrow> bytes option anyhow option \<times> budget \<times> ('v, 'r) metrics_registry option" where
  "execution_work prom js set_fuel io rs ce function nats_client payload s r =
     (case inv_check (wk_check io) s of
        (Inl e, s) \<Rightarrow> (Some (Inl e), s, Some r)
      | (Inr _, s) \<Rightarrow>
          (case fe_world_type function of
             WorldMessage \<Rightarrow>
               (case invoke_on_message set_fuel (wk_store io) rs function nats_client (wk_run_at io) (ce_message ce) payload s of
                  (res, s) \<Rightarrow> (res, s, Some r))
           | WorldHttp \<Rightarrow>
               (case js_request js payload of
                  Inl e \<Rightarrow> (Some (Inl e), s, Some r)
                | Inr request \<Rightarrow>
                    (case invoke_on_request prom set_fuel (wk_store io) rs function nats_client (wk_run_at io) (ce_request ce) request s r of
                       (Some (Inr response), s, r) \<Rightarrow>
                         (Some (case js_response js response of Inl e \<Rightarrow> Inl e | Inr b \<Rightarrow> Inr (Some b)), s, r)
                     | (Some (Inl e), s, r) \<Rightarrow> (Some (Inl e), s, r)
                     | (None, s, r) \<Rightarrow> (None, s, r)))))"

section \<open>The JSON package\<close>

text \<open>What the client is given for a decoded response, and the response that reports a failure.\<close>

definition client_response :: "http_api \<Rightarrow> http_response_payload \<Rightarrow> gw_response" where
  "client_response api r =
     \<lparr>gr_status = (case ha_status api (pr_status r) of Some s \<Rightarrow> s | None \<Rightarrow> st_INTERNAL_SERVER_ERROR),
      gr_headers = fold (\<lambda>(name, v) headers.
        case (ha_name api name, ha_value api v) of
          (Some name, Some v) \<Rightarrow> hm_insert name v headers
        | _ \<Rightarrow> headers) (pr_headers r) [],
      gr_body = (case pr_body r of None \<Rightarrow> [] | Some b \<Rightarrow> b)\<rparr>"

definition failure_payload :: "nat \<Rightarrow> string \<Rightarrow> http_response_payload" where
  "failure_payload code message =
     \<lparr>pr_status = code, pr_headers = [(''content-type'', ''text/plain'')], pr_body = Some (ascii_bytes message)\<rparr>"

locale json_codec =
  fixes api :: http_api and js :: json_api
  assumes request_back: "js_request js (concat (ha_encode api p)) = Inr p"
    and response_back: "js_response js r = Inr b \<Longrightarrow> ha_decode api b = Some r"
begin

lemma response_seen: "js_response js r = Inr b \<Longrightarrow> decode_response api b = client_response api r"
  by (simp add: decode_response_def client_response_def response_back)

lemma failure_seen: "error_response js code message = Some b \<Longrightarrow> decode_response api b = client_response api (failure_payload code message)"
  by (auto simp: error_response_def failure_payload_def intro: response_seen split: sum.splits)

text \<open>A result of the closure is what the component answered, in time, to the very request that was published.\<close>

lemma http_work_result:
  assumes "fe_world_type fn = WorldHttp"
    and "execution_work prom js set_fuel io rs ce fn nats (concat (ha_encode api p)) s r = (Some (Inr out), s', r')"
  obtains store response b t where
    "fst (invocation_store set_fuel (wk_store io) rs fn nats s) = Inr store"
    "(t, False, Some (Inr (Inr response))) \<in> set (ce_request ce store p)" "t < inv_deadline (fst s)"
    "js_response js response = Inr b" "out = Some b"
    "r' = record_http_request prom (fe_app_name fn) (fe_app_namespace fn) (pr_status response) r"
proof -
  obtain store s1 where st: "invocation_store set_fuel (wk_store io) rs fn nats s = (Inr store, s1)"
    and run: "execution_work prom js set_fuel io rs ce fn nats (concat (ha_encode api p)) s r = (Some (Inr out), s', r')"
    using assms
    by (auto simp: execution_work_def inv_check_def invoke_on_request_def request_back split: prod.splits if_splits sum.splits)
  have s1: "s1 = s" using st by (auto simp: invocation_store_def inv_check_def Let_def split: prod.splits if_splits sum.splits option.splits)
  obtain response b where r: "fst (inv_run (wk_run_at io) (ce_request ce store p) s) = Some (Inr (Inr (Inr response)))"
    "js_response js response = Inr b" "out = Some b"
    "r' = record_http_request prom (fe_app_name fn) (fe_app_namespace fn) (pr_status response) r"
    using assms(1) run st s1
    by (auto simp: execution_work_def inv_check_def invoke_on_request_def request_back split: prod.splits if_splits sum.splits option.splits)
  then obtain t where "(t, False, Some (Inr (Inr response))) \<in> set (ce_request ce store p)" "t < inv_deadline (fst s)"
    using run_polls_ready [of "ce_request ce store p" s "Inr (Inr response)"]
    by (metis Inl_Inr_False fst_conv in_set_conv_decomp inv_run_eq option.inject)
  then show thesis using that st r by simp
qed

lemma http_work_answer:
  assumes "fe_world_type fn = WorldHttp" "\<not> inv_over (wk_check io) (fst s)"
    and "invocation_store set_fuel (wk_store io) rs fn nats s = (Inr store, s1)"
    and "fst (inv_run (wk_run_at io) (ce_request ce store p) s1) = Some (Inr (Inr (Inr response)))"
    and "js_response js response = Inr b"
  shows "fst (execution_work prom js set_fuel io rs ce fn nats (concat (ha_encode api p)) s r) = Some (Inr (Some b))"
  using assms
  by (auto simp: execution_work_def inv_check_def invoke_on_request_def request_back split: prod.splits)

end

lemma write_pieces_concat: "write_pieces limit ps w = Some payload \<Longrightarrow> payload = w @ concat ps"
  by (induction limit ps w rule: write_pieces.induct) (auto simp: payload_write_def split: option.splits if_splits)

lemma published_payload:
  assumes "rq_phase rq = ReadingBody bd bs" "dispatch_poll api e now rq g = (Inr (Publishing sn i h payload), g')"
  shows "payload = concat (ha_encode api (request_payload api (rq_head rq) bs))"
proof -
  have "dispatch_send api e now rq bs g = (Inr (Publishing sn i h payload), g')"
    using assms by (auto simp: dispatch_poll_def map_sum_def split: gw_body_event.splits if_splits sum.splits)
  then have "write_pieces (lim_payload_bytes (gw_limits g)) (ha_encode api (request_payload api (rq_head rq) bs)) [] = Some payload"
    by (auto simp: dispatch_send_def split: option.splits if_splits prod.splits sum.splits)
  then show ?thesis by (auto dest: write_pieces_concat)
qed

section \<open>A codec\<close>

text \<open>A binary encoding that satisfies the laws: numbers in unary, strings with their lengths.\<close>

definition put_nat :: "nat \<Rightarrow> bytes" where
  "put_nat n = replicate n 1 @ [0]"

definition put_bytes :: "bytes \<Rightarrow> bytes" where
  "put_bytes b = put_nat (length b) @ b"

definition put_string :: "string \<Rightarrow> bytes" where
  "put_string s = put_bytes (ascii_bytes s)"

definition put_headers :: "(string \<times> string) list \<Rightarrow> bytes" where
  "put_headers hs = put_nat (length hs) @ concat (map (\<lambda>(n, v). put_string n @ put_string v) hs)"

fun put_body :: "bytes option \<Rightarrow> bytes" where
  "put_body None = [0]"
| "put_body (Some b) = 1 # put_bytes b"

fun get_nat :: "bytes \<Rightarrow> (nat \<times> bytes) option" where
  "get_nat [] = None"
| "get_nat (b # bs) = (if b = 0 then Some (0, bs) else map_option (apfst Suc) (get_nat bs))"

definition get_bytes :: "bytes \<Rightarrow> (bytes \<times> bytes) option" where
  "get_bytes bs = Option.bind (get_nat bs) (\<lambda>(n, r). Some (take n r, drop n r))"

definition get_string :: "bytes \<Rightarrow> (string \<times> bytes) option" where
  "get_string bs = map_option (apfst byte_chars) (get_bytes bs)"

fun get_fields :: "nat \<Rightarrow> bytes \<Rightarrow> ((string \<times> string) list \<times> bytes) option" where
  "get_fields 0 bs = Some ([], bs)"
| "get_fields (Suc n) bs =
     Option.bind (get_string bs) (\<lambda>(k, bs).
     Option.bind (get_string bs) (\<lambda>(v, bs). map_option (apfst ((#) (k, v))) (get_fields n bs)))"

fun get_body :: "bytes \<Rightarrow> (bytes option \<times> bytes) option" where
  "get_body [] = None"
| "get_body (b # bs) = (if b = 0 then Some (None, bs) else map_option (apfst Some) (get_bytes bs))"

lemma get_put_nat [simp]: "get_nat (put_nat n @ r) = Some (n, r)"
  by (induction n) (simp_all add: put_nat_def)

lemma get_put_bytes [simp]: "get_bytes (put_bytes b @ r) = Some (b, r)"
  by (simp add: get_bytes_def put_bytes_def)

lemma get_put_string [simp]: "get_string (put_string s @ r) = Some (s, r)"
  by (simp add: get_string_def put_string_def byte_chars_ascii)

lemma get_put_fields [simp]:
  "get_fields (length hs) (concat (map (\<lambda>(n, v). put_string n @ put_string v) hs) @ r) = Some (hs, r)"
  by (induction hs) auto

lemma get_put_body [simp]: "get_body (put_body b @ r) = Some (b, r)"
  by (cases b) simp_all

definition plain_request :: "http_request_payload \<Rightarrow> bytes" where
  "plain_request p = put_string (hp_method p) @ put_string (hp_path p) @ put_string (hp_query p) @ put_headers (hp_headers p) @ put_body (hp_body p)"

definition plain_response :: "http_response_payload \<Rightarrow> bytes" where
  "plain_response p = put_nat (pr_status p) @ put_headers (pr_headers p) @ put_body (pr_body p)"

definition plain_read_request :: "bytes \<Rightarrow> http_request_payload option" where
  "plain_read_request bs =
     Option.bind (get_string bs) (\<lambda>(m, bs). Option.bind (get_string bs) (\<lambda>(p, bs). Option.bind (get_string bs) (\<lambda>(q, bs).
     Option.bind (get_nat bs) (\<lambda>(n, bs). Option.bind (get_fields n bs) (\<lambda>(hs, bs). Option.bind (get_body bs) (\<lambda>(b, bs).
     Some \<lparr>hp_method = m, hp_path = p, hp_query = q, hp_headers = hs, hp_body = b\<rparr>))))))"

definition plain_read_response :: "bytes \<Rightarrow> http_response_payload option" where
  "plain_read_response bs =
     Option.bind (get_nat bs) (\<lambda>(s, bs). Option.bind (get_nat bs) (\<lambda>(n, bs).
     Option.bind (get_fields n bs) (\<lambda>(hs, bs). Option.bind (get_body bs) (\<lambda>(b, bs).
     Some \<lparr>pr_status = s, pr_headers = hs, pr_body = b\<rparr>))))"

definition plain_http :: http_api where
  "plain_http =
     \<lparr>ha_status = Some, ha_name = Some, ha_value = Some \<circ> ascii_bytes, ha_to_str = Some \<circ> byte_chars,
      ha_encode = (\<lambda>p. [plain_request p]), ha_decode = plain_read_response, ha_frames = (\<lambda>b. [b]),
      ha_bad_header = plain st_INTERNAL_SERVER_ERROR\<rparr>"

definition plain_json :: json_api where
  "plain_json =
     \<lparr>js_request = (\<lambda>b. case plain_read_request b of Some p \<Rightarrow> Inr p | None \<Rightarrow> Inl ''invalid''),
      js_response = Inr \<circ> plain_response\<rparr>"

interpretation plain_codec: json_codec plain_http plain_json
proof
  show "js_request plain_json (concat (ha_encode plain_http p)) = Inr p" for p
    using get_put_body [of "hp_body p" "[]"]
    by (simp add: plain_json_def plain_http_def plain_request_def plain_read_request_def put_headers_def)
  show "ha_decode plain_http b = Some r" if "js_response plain_json r = Inr b" for r b
    using that get_put_body [of "pr_body r" "[]"]
    by (auto simp: plain_json_def plain_http_def plain_response_def plain_read_response_def put_headers_def)
qed

section \<open>Property\<close>


definition echo_head :: http_request where
  "echo_head = \<lparr>hq_method = ''GET'', hq_uri = ''/x'', hq_path = ''/x'', hq_query = None, hq_headers = []\<rparr>"

definition echo_request :: gw_request where
  "echo_request = \<lparr>rq_head = echo_head, rq_subject = ''http.x'', rq_deadline = 100, rq_seen = 0, rq_completed = False,
     rq_phase = ReadingBody 50 []\<rparr>"

definition echo_gateway :: gateway where
  "echo_gateway = (gateway_new \<lparr>lim_in_flight = 1, lim_connections = 1, lim_body_bytes = 100, lim_payload_bytes = 100,
      lim_metadata_bytes = 100, lim_body_read_timeout = 1, lim_timeout = 1\<rparr> route_table_new)
     \<lparr>gw_authority := True, gw_sessions := [\<lparr>ses_client = 0, ses_prefix = ''in.'', ses_pending = pending_new 1\<rparr>],
      gw_current := Some 0\<rparr>"

definition echo_env :: gw_env where
  "echo_env = \<lparr>en_connected = True, en_max_payload = 100, en_body = BodyEnd, en_publish = None, en_later = 10\<rparr>"

definition echo_function :: function_entry where
  "echo_function = \<lparr>fe_app_name = ''shop'', fe_app_namespace = ''prod'', fe_function_name = ''echo'', fe_module_ref = [],
     fe_world_type = WorldHttp, fe_sql_username = None, fe_kv_enabled = False, fe_metrics = []\<rparr>"

definition echo_state :: runtime_state where
  "echo_state = \<lparr>rs_redis_client = None, rs_redis_poisoned = False, rs_sql_pools = sql_pools_new 5, rs_fuel_limit = None,
     rs_memory_limit_bytes = 1024\<rparr>"

text \<open>A component that answers with the path it was asked for.\<close>

definition echo_component :: component_exports where
  "echo_component = \<lparr>ce_message = (\<lambda>_ _. []),
     ce_request = (\<lambda>_ p. [(5, False, Some (Inr (Inr
       \<lparr>pr_status = 200, pr_headers = [], pr_body = Some (ascii_bytes (hp_path p))\<rparr>)))])\<rparr>"

definition echo_response :: http_response_payload where
  "echo_response = \<lparr>pr_status = 200, pr_headers = [], pr_body = Some (ascii_bytes ''/x'')\<rparr>"

definition echo_budget :: budget where
  "echo_budget = (inv_build 0 100 True, dispatch_new)"

lemma echo_published:
  "rq_phase echo_request = ReadingBody 50 []"
  "\<exists>g'. dispatch_poll plain_http echo_env 0 echo_request echo_gateway
     = (Inr (Publishing 0 0 0 (plain_request (request_payload plain_http echo_head []))), g')"
  by (simp_all add: echo_request_def echo_env_def echo_gateway_def gateway_new_def dispatch_poll_def dispatch_send_def
      plain_http_def echo_head_def request_payload_def plain_request_def put_headers_def put_string_def put_bytes_def
      put_nat_def ascii_bytes_def payload_write_def wrap_sub_def broker_request_def reserve_def pending_new_def
      checked_add_def map_filter_def Let_def)

lemma echo_work:
  "execution_work plain_prom plain_json (\<lambda>_. Inr ()) \<lparr>wk_check = 1, wk_store = 2, wk_run_at = 3\<rparr> echo_state echo_component
     echo_function None (plain_request (request_payload plain_http echo_head [])) echo_budget r
   = (Some (Inr (Some (plain_response echo_response))), echo_budget, record_http_request plain_prom ''shop'' ''prod'' 200 r)"
proof -
  have "js_request plain_json (plain_request p) = Inr p" for p using plain_codec.request_back [of p] by (simp add: plain_http_def)
  then show ?thesis
    by (simp add: execution_work_def echo_function_def echo_state_def echo_component_def echo_budget_def echo_response_def
        inv_check_def inv_over_def inv_build_def invoke_on_request_def invocation_store_def inv_run_eq request_payload_def
        echo_head_def plain_json_def)
qed


end
