(* ===== verification/Startup.thy ===== *)
theory Startup
  imports CacheService ModuleProperties SupervisorSafety GuestHost HostIntake Gateway
begin

text \<open>
  How the processes start. \<open>src/components/execution-host/src/main.rs\<close>: the settings read from the
  environment, the NATS credentials (the same function is in the gateway's \<open>main.rs\<close>), and the order in
  which the parts are made. \<open>in_cluster\<close> of \<open>src/lib/platform-common/src/identity.rs\<close>: the account that
  the module cache accepts. The environment and the files are arguments, as are the packages that build
  engines, linkers, clients and certificates; \<open>usize\<close> has 64 bits and wraps, as in a release build. The
  start of the gateway (\<open>src/components/gateway/src/main.rs\<close>) and the filter of log events
  (\<open>src/lib/platform-common/src/logging.rs\<close>) follow.
\<close>

section \<open>Definitions\<close>

subsection \<open>Settings of the execution host\<close>

definition env_number :: "nat \<Rightarrow> (string \<Rightarrow> env_var) \<Rightarrow> string \<Rightarrow> nat option" where
  "env_number bits env name = (case env name of Var v \<Rightarrow> parse_unsigned bits v | _ \<Rightarrow> None)"

definition wrap_mul :: "nat \<Rightarrow> nat \<Rightarrow> nat" where
  "wrap_mul a b = a * b mod 2 ^ 64"

record host_config =
  hc_fuel_limit :: "nat option"
  hc_memory_limit_bytes :: nat
  hc_timeout_secs :: nat
  hc_max_concurrent :: nat
  hc_pg_pool_max :: nat

definition or_default :: "'a \<Rightarrow> 'a option \<Rightarrow> 'a" where
  "or_default d x = (case x of Some v \<Rightarrow> v | None \<Rightarrow> d)"

definition host_config_from_env :: "(string \<Rightarrow> env_var) \<Rightarrow> host_config anyhow" where
  "host_config_from_env env =
     (let memory = wrap_mul (wrap_mul (or_default 64 (env_number 64 env ''WASM_MEMORY_LIMIT_MB'')) 1024) 1024;
          timeout = or_default 30 (env_number 64 env ''WASM_TIMEOUT_SECS'');
          max_concurrent = or_default 64 (env_number 64 env ''MAX_CONCURRENT_INVOCATIONS'')
      in if timeout = 0 then Inl ''WASM_TIMEOUT_SECS must be positive''
         else if max_concurrent = 0 \<or> 2 ^ 32 \<le> max_concurrent
           then Inl ''MAX_CONCURRENT_INVOCATIONS must be positive and fit in u32''
         else Inr \<lparr>hc_fuel_limit = env_number 64 env ''WASM_FUEL_LIMIT'', hc_memory_limit_bytes = memory,
           hc_timeout_secs = timeout, hc_max_concurrent = max_concurrent,
           hc_pg_pool_max = or_default 5 (env_number 32 env ''PG_POOL_MAX_CONNECTIONS'')\<rparr>)"

subsection \<open>NATS credentials\<close>

text \<open>\<open>Path::join\<close> with a relative file name.\<close>

definition path_join :: "string \<Rightarrow> string \<Rightarrow> string" where
  "path_join dir key = (if dir = [] \<or> last dir = CHR ''/'' then dir @ key else dir @ ''/'' @ key)"

text \<open>\<open>read_to_string\<close> and \<open>trim\<close>; a file answers with the text of an error or with its bytes.\<close>

definition read_secret :: "(string \<Rightarrow> string + bytes) \<Rightarrow> string \<Rightarrow> string \<Rightarrow> string anyhow" where
  "read_secret file dir key =
     (let path = path_join dir key
      in case file path of
           Inl e \<Rightarrow> Inl (''reading '' @ path @ '': '' @ e)
         | Inr b \<Rightarrow>
             (case utf8_split b of
                None \<Rightarrow> Inl (''reading '' @ path @ '': stream did not contain valid UTF-8'')
              | Some cs \<Rightarrow> Inr (byte_chars (concat (map snd (utf8_trim cs))))))"

definition read_nats_credentials :: "(string \<Rightarrow> env_var) \<Rightarrow> (string \<Rightarrow> string + bytes) \<Rightarrow> nats_connection_info anyhow" where
  "read_nats_credentials env file =
     (case env ''NATS_CREDENTIALS_PATH'' of
        Var dir \<Rightarrow>
          (case read_secret file dir ''NATS_HOST'' of
             Inl e \<Rightarrow> Inl e
           | Inr nats_host \<Rightarrow>
          (case read_secret file dir ''NATS_PORT'' of
             Inl e \<Rightarrow> Inl e
           | Inr port \<Rightarrow>
          (case read_secret file dir ''NATS_USERNAME'' of
             Inl e \<Rightarrow> Inl e
           | Inr nats_user \<Rightarrow>
          (case read_secret file dir ''NATS_PASSWORD'' of
             Inl e \<Rightarrow> Inl e
           | Inr password \<Rightarrow>
               Inr \<lparr>nc_url = ''nats://'' @ nats_host @ '':'' @ port, nc_username = nats_user, nc_password = password\<rparr>))))
      | _ \<Rightarrow> Inl ''NATS_CREDENTIALS_PATH environment variable is required'')"

subsection \<open>The parts of the execution host\<close>

definition QUEUE_CAPACITY :: nat where "QUEUE_CAPACITY = 256"

text \<open>
  What the packages answer while the host starts: whether the engine, the linker with its epoch ticker and
  the HTTP clients can be made, the registry with the dispatch metrics, and the token file.
\<close>

record start_env =
  se_vars :: "string \<Rightarrow> env_var"
  se_files :: "string \<Rightarrow> string + bytes"
  se_token :: "file_read timed"
  se_url :: "string \<Rightarrow> url option"
  se_clients :: bool
  se_engine :: "nat option \<Rightarrow> unit anyhow"
  se_linker :: "unit anyhow"
  se_ticker :: "unit anyhow"
  se_now :: nat

record ('v, 'r) host_parts =
  hb_config :: host_config
  hb_metrics :: "('v, 'r) metrics_registry"
  hb_runtime :: runtime_state
  hb_source :: oci_source
  hb_modules :: module_sys
  hb_registry :: app_registry
  hb_sync_addr :: string
  hb_host_id :: string
  hb_intake :: intake
  hb_supervisor :: supervisor

definition var_option :: "env_var \<Rightarrow> string option" where
  "var_option v = (case v of Var s \<Rightarrow> Some s | _ \<Rightarrow> None)"

text \<open>From the checked settings on: addresses, registries and credentials.\<close>

definition host_parts_of ::
  "start_env \<Rightarrow> host_config \<Rightarrow> ('v, 'r) metrics_registry \<Rightarrow> runtime_state \<Rightarrow> ('v, 'r) host_parts anyhow" where
  "host_parts_of env cfg mr rs =
     (case se_vars env ''MODULE_CACHE_ADDR'' of
        Var cache_addr \<Rightarrow>
          (case oci_source_from_env (se_url env) (se_clients env) (var_option (se_vars env ''APPROVED_REGISTRIES''))
             (var_option (se_vars env ''LOCAL_PLAINTEXT_REGISTRIES'')) of
             Inl e \<Rightarrow> Inl e
           | Inr source \<Rightarrow>
          (case module_registry_new (se_url env) (se_clients env) cache_addr (se_now env) of
             Inl e \<Rightarrow> Inl e
           | Inr modules \<Rightarrow>
          (case se_vars env ''CONFIG_SYNC_ADDR'' of
             Var addr \<Rightarrow>
               (case read_nats_credentials (se_vars env) (se_files env) of
                  Inl e \<Rightarrow> Inl e
                | Inr info \<Rightarrow>
                    Inr \<lparr>hb_config = cfg, hb_metrics = mr, hb_runtime = rs,
                      hb_source = source, hb_modules = modules, hb_registry = app_registry_new, hb_sync_addr = addr,
                      hb_host_id = or_default ''unknown'' (var_option (se_vars env ''HOSTNAME'')),
                      hb_intake = intake_start (Some info),
                      hb_supervisor = supervisor_new QUEUE_CAPACITY (hc_max_concurrent cfg) False\<rparr>)
           | _ \<Rightarrow> Inl ''CONFIG_SYNC_ADDR environment variable is required'')))
      | _ \<Rightarrow> Inl ''MODULE_CACHE_ADDR environment variable is required'')"

definition host_start :: "('v, 'r) prometheus \<Rightarrow> (string + 'r) \<Rightarrow> start_env \<Rightarrow> ('v, 'r) host_parts anyhow" where
  "host_start prom base env =
     (case token_validate (se_token env) of
        Inl e \<Rightarrow> Inl (identity_message e)
      | Inr _ \<Rightarrow>
     (case host_config_from_env (se_vars env) of
        Inl e \<Rightarrow> Inl e
      | Inr cfg \<Rightarrow>
     (case se_engine env (hc_fuel_limit cfg) of
        Inl e \<Rightarrow> Inl e
      | Inr _ \<Rightarrow>
     (case metrics_new prom base of
        Inl e \<Rightarrow> Inl e
      | Inr mr \<Rightarrow>
     (case runtime_state_new (se_linker env) (se_ticker env) (sql_pools_new (hc_pg_pool_max cfg)) (hc_fuel_limit cfg)
         (hc_memory_limit_bytes cfg) of
        Inl e \<Rightarrow> Inl e
      | Inr rs \<Rightarrow> host_parts_of env cfg mr rs)))))"

subsection \<open>The account the module cache accepts\<close>

record reviewer =
  rv_endpoint :: string
  rv_expected_username :: string

definition account_name :: "string \<Rightarrow> string \<Rightarrow> string" where
  "account_name ns account = ''system:serviceaccount:'' @ ns @ '':'' @ account"

definition namespace_char :: "char \<Rightarrow> bool" where
  "namespace_char c \<longleftrightarrow>
     (let n = of_char c :: nat in (97 \<le> n \<and> n \<le> 122) \<or> (48 \<le> n \<and> n \<le> 57) \<or> n = 45)"

text \<open>
  \<open>in_cluster\<close>: \<open>set_endpoint\<close> sets host and port of the review URL, \<open>tls\<close> says whether the certificate was
  read and a client could be built with it.
\<close>

definition in_cluster ::
  "(string \<Rightarrow> env_var) \<Rightarrow> (string \<Rightarrow> nat \<Rightarrow> string option) \<Rightarrow> bool \<Rightarrow> file_read timed \<Rightarrow> string \<Rightarrow> identity_error + reviewer" where
  "in_cluster env set_endpoint tls api_token service_account =
     (case env ''POD_NAMESPACE'' of
        Var ns \<Rightarrow>
          if ns = [] \<or> \<not> list_all namespace_char ns then Inl Configuration
          else
            (case env ''KUBERNETES_SERVICE_HOST'' of
               Var api_host \<Rightarrow>
                 (case (case env ''KUBERNETES_SERVICE_PORT_HTTPS'' of
                          Var p \<Rightarrow> Some p | _ \<Rightarrow> var_option (env ''KUBERNETES_SERVICE_PORT'')) of
                    None \<Rightarrow> Inl Configuration
                  | Some p \<Rightarrow>
                      (case parse_unsigned 16 p of
                         None \<Rightarrow> Inl Configuration
                       | Some port \<Rightarrow>
                           if port = 0 then Inl Configuration
                           else
                             (case set_endpoint api_host port of
                                None \<Rightarrow> Inl Configuration
                              | Some u \<Rightarrow>
                                  if \<not> tls then Inl Configuration
                                  else
                                    (case token_validate api_token of
                                       Inl e \<Rightarrow> Inl e
                                     | Inr _ \<Rightarrow>
                                         Inr \<lparr>rv_endpoint = u,
                                           rv_expected_username = account_name ns service_account\<rparr>))))
             | _ \<Rightarrow> Inl Configuration)
      | _ \<Rightarrow> Inl Configuration)"

subsection \<open>The gateway\<close>

text \<open>The gateway's \<open>main.rs\<close> repeats the reader of the credentials.\<close>

definition gateway_nats_credentials :: "(string \<Rightarrow> env_var) \<Rightarrow> (string \<Rightarrow> string + bytes) \<Rightarrow> nats_connection_info anyhow" where
  "gateway_nats_credentials = read_nats_credentials"

record gateway_parts =
  gb_config :: gateway_config
  gb_nats :: nats_connection_info
  gb_gateway :: gateway

definition gateway_start ::
  "(string \<Rightarrow> env_var) \<Rightarrow> (string \<Rightarrow> string + bytes) \<Rightarrow> file_read timed \<Rightarrow> gateway_parts anyhow" where
  "gateway_start env file token =
     (case config_from_env env of
        Inl e \<Rightarrow> Inl e
      | Inr cfg \<Rightarrow>
     (case token_validate token of
        Inl e \<Rightarrow> Inl (identity_message e)
      | Inr _ \<Rightarrow>
     (case gateway_nats_credentials env file of
        Inl e \<Rightarrow> Inl e
      | Inr info \<Rightarrow>
          Inr \<lparr>gb_config = cfg, gb_nats = info, gb_gateway = gateway_new (cfg_requests cfg) route_table_new\<rparr>)))"

subsection \<open>Log events\<close>

text \<open>\<open>split(''::'').next()\<close>: the part of the target before the first pair of colons.\<close>

fun first_segment :: "string \<Rightarrow> string" where
  "first_segment [] = []"
| "first_segment [c] = [c]"
| "first_segment (c # d # cs) = (if c = CHR '':'' \<and> d = CHR '':'' then [] else c # first_segment (d # cs))"

definition is_platform_log :: "string \<Rightarrow> bool" where
  "is_platform_log target \<longleftrightarrow> first_segment target \<in> {''execution_host'', ''gateway'', ''module_cache'', ''platform_common''}"

section \<open>Lemmas\<close>

lemma first_segment_prefix: "target = first_segment target \<or> (\<exists>rest. target = first_segment target @ ''::'' @ rest)"
  by (induction target rule: first_segment.induct) auto

text \<open>A log event that passes was emitted by a module of the platform.\<close>

lemma platform_log_crate:
  "is_platform_log target \<Longrightarrow> \<exists>crate \<in> {''execution_host'', ''gateway'', ''module_cache'', ''platform_common''}.
     target = crate \<or> (\<exists>rest. target = crate @ ''::'' @ rest)"
  using first_segment_prefix [of target] unfolding is_platform_log_def by metis

text \<open>A gateway starts where the transition system of \<open>Gateway\<close> does, with limits read from the environment and no authority.\<close>

lemma gateway_starts:
  assumes "gateway_start env file token = Inr parts"
  shows "config_from_env env = Inr (gb_config parts)" "gw_init (cfg_requests (gb_config parts)) (gb_gateway parts)"
    "\<not> gw_authority (gb_gateway parts)" "\<exists>t. token_read token = Inr t"
  using assms by (auto simp: gateway_start_def gw_init_def gateway_new_def token_validate_def split: sum.splits)
    (cases "token_read token"; simp)

lemma env_number_bound: "env_number bits env name = Some n \<Longrightarrow> n < 2 ^ bits"
  by (auto simp: env_number_def parse_unsigned_def Let_def split: env_var.splits option.splits if_splits)

lemma host_config_Inr:
  assumes "host_config_from_env env = Inr cfg"
  shows "0 < hc_timeout_secs cfg" "hc_timeout_secs cfg < 2 ^ 64" "0 < hc_max_concurrent cfg" "hc_max_concurrent cfg < 2 ^ 32"
    "hc_pg_pool_max cfg < 2 ^ 32" "hc_fuel_limit cfg = env_number 64 env ''WASM_FUEL_LIMIT''"
    "hc_memory_limit_bytes cfg = or_default 64 (env_number 64 env ''WASM_MEMORY_LIMIT_MB'') * 2 ^ 20 mod 2 ^ 64"
  using assms env_number_bound [of 64 env "''WASM_TIMEOUT_SECS''"] env_number_bound [of 32 env "''PG_POOL_MAX_CONNECTIONS''"]
  by (auto simp: host_config_from_env_def Let_def or_default_def wrap_mul_def mod_mult_left_eq mult.assoc split: if_splits option.splits)

lemma host_parts_Inr:
  assumes "host_parts_of env cfg mr rs = Inr parts"
  obtains cache_addr info where "hb_config parts = cfg" "hb_metrics parts = mr" "hb_runtime parts = rs"
    "oci_source_from_env (se_url env) (se_clients env) (var_option (se_vars env ''APPROVED_REGISTRIES''))
       (var_option (se_vars env ''LOCAL_PLAINTEXT_REGISTRIES'')) = Inr (hb_source parts)"
    "module_registry_new (se_url env) (se_clients env) cache_addr (se_now env) = Inr (hb_modules parts)"
    "se_vars env ''CONFIG_SYNC_ADDR'' = Var (hb_sync_addr parts)"
    "read_nats_credentials (se_vars env) (se_files env) = Inr info" "hb_intake parts = intake_start (Some info)"
    "hb_registry parts = app_registry_new"
    "hb_supervisor parts = supervisor_new QUEUE_CAPACITY (hc_max_concurrent cfg) False"
  using assms by (auto simp: host_parts_of_def split: env_var.splits sum.splits)

lemma host_start_Inr:
  assumes "host_start prom base env = Inr parts"
  obtains cfg mr rs where "token_validate (se_token env) = Inr ()" "host_config_from_env (se_vars env) = Inr cfg"
    "metrics_new prom base = Inr mr" "host_parts_of env cfg mr rs = Inr parts"
    "rs_fuel_limit rs = hc_fuel_limit cfg" "rs_memory_limit_bytes rs = hc_memory_limit_bytes cfg"
  using assms by (auto simp: host_start_def runtime_state_new_def split: sum.splits)

lemma namespace_no_colon: "list_all namespace_char ns \<Longrightarrow> CHR '':'' \<notin> set ns"
  by (auto simp: list_all_iff namespace_char_def Let_def)

lemma colon_split:
  assumes "xs @ CHR '':'' # ys = xs' @ CHR '':'' # ys'" "CHR '':'' \<notin> set xs" "CHR '':'' \<notin> set xs'"
  shows "xs' = xs \<and> ys' = ys"
  using assms
proof (induction xs arbitrary: xs')
  case Nil
  then show ?case by (cases xs') auto
next
  case (Cons x xs)
  then show ?case by (cases xs') auto
qed

lemma in_cluster_Inr:
  assumes "in_cluster env set_endpoint tls api_token sa = Inr rv"
  obtains ns where "env ''POD_NAMESPACE'' = Var ns" "ns \<noteq> []" "list_all namespace_char ns"
    "rv_expected_username rv = account_name ns sa"
  using assms by (auto simp: in_cluster_def split: env_var.splits option.splits if_splits sum.splits)

lemma started_within_limits:
  assumes "semaphore_spec sem" "(sup_step sem encode)\<^sup>*\<^sup>* (supervisor_new cap lim synced) sp"
  shows "length (sp_jobs sp) \<le> lim" "length (sp_messages sp) \<le> cap"
proof -
  have "reaches (sup_init cap lim) (sup_step sem encode) (supervisor_new cap lim synced)"
    by (rule reaches_init) (auto simp: sup_init_def)
  note r = reaches_steps [OF assms(2) this]
  show "length (sp_jobs sp) \<le> lim" "length (sp_messages sp) \<le> cap"
    using semaphore_spec.supervisor_reachable(1) [OF assms(1) r]
    by (simp_all add: sup_inv_of_def sup_inv_def tables_ok_def queue_ok_def phase_ok_def)
qed

section \<open>Properties\<close>




section \<open>Witnesses\<close>

definition sample_vars :: "string \<Rightarrow> env_var" where
  "sample_vars name =
     (case map_of [(''MODULE_CACHE_ADDR'', ''https://cache''), (''APPROVED_REGISTRIES'', ''ghcr.io,localhost:5000''),
        (''LOCAL_PLAINTEXT_REGISTRIES'', ''localhost:5000''), (''CONFIG_SYNC_ADDR'', ''http://operator''),
        (''NATS_CREDENTIALS_PATH'', ''/nats''), (''WASM_MEMORY_LIMIT_MB'', ''17592186044416''), (''WASM_FUEL_LIMIT'', ''1e6''),
        (''POD_NAMESPACE'', ''prod''), (''KUBERNETES_SERVICE_HOST'', ''10.0.0.1''), (''KUBERNETES_SERVICE_PORT'', ''443'')] name of
        Some v \<Rightarrow> Var v
      | None \<Rightarrow> NotPresent)"

definition sample_start :: start_env where
  "sample_start = \<lparr>se_vars = sample_vars, se_files = (\<lambda>_. Inr [0x61, 10]), se_token = Done (Contents [0x61]),
     se_url = env_url sample_env, se_clients = True, se_engine = (\<lambda>_. Inr ()), se_linker = Inr (), se_ticker = Inr (), se_now = 0\<rparr>"

lemma sample_token: "token_validate (Done (Contents [0x61])) = Inr ()"
  by (simp add: token_validate_def token_read_def MAX_TOKEN_BYTES_def utf8_trim_def is_whitespace_def validate_token_def
      is_token_byte_def)

lemma sample_config_start:
  "host_config_from_env sample_vars = Inr \<lparr>hc_fuel_limit = None, hc_memory_limit_bytes = 0, hc_timeout_secs = 30,
     hc_max_concurrent = 64, hc_pg_pool_max = 5\<rparr>"
  by (simp add: host_config_from_env_def env_number_def sample_vars_def or_default_def wrap_mul_def parse_unsigned_def
      is_ascii_digit_def)

lemma sample_secret: "read_secret (\<lambda>_. Inr [0x61, 10]) dir key = Inr ''a''"
  using byte_chars_ascii [of "''a''"] by (simp add: read_secret_def utf8_trim_def is_whitespace_def ascii_bytes_def)

lemma sample_credentials: "\<exists>info. read_nats_credentials sample_vars (\<lambda>_. Inr [0x61, 10]) = Inr info"
  by (simp add: read_nats_credentials_def sample_secret sample_vars_def)

lemma sample_modules: "\<exists>m. module_registry_new (env_url sample_env) True ''https://cache'' 0 = Inr m"
  by (simp add: module_registry_new_def cache_base_url_def sample_env_def sample_origin_def ends_with_def Let_def)

lemma sample_started: "\<exists>parts. host_start plain_prom (Inr []) sample_start = Inr parts"
proof -
  have "oci_source_from_env (env_url sample_env) True (var_option (sample_vars ''APPROVED_REGISTRIES''))
      (var_option (sample_vars ''LOCAL_PLAINTEXT_REGISTRIES'')) = Inr sample_source"
    using sample_source_new by (simp add: oci_source_from_env_def var_option_def sample_vars_def)
  moreover have "sample_vars ''MODULE_CACHE_ADDR'' = Var ''https://cache''" "sample_vars ''CONFIG_SYNC_ADDR'' = Var ''http://operator''"
    by (simp_all add: sample_vars_def)
  ultimately show ?thesis
    using sample_credentials sample_modules
    by (auto simp: host_start_def sample_start_def sample_token sample_config_start sample_base_new host_parts_of_def runtime_state_new_def)
qed



end
