(* ===== verification/Spec2Isabelle.thy ===== *)
theory Spec2Isabelle
  imports Collectors Redaction HostRun Servers CacheService SupervisorProperties ModuleProperties GatewayProperties ConfigSync GuestProperties HostIntake RequestPath Startup
begin

text \<open>
  \<^bold>\<open>A platform for functions compiled to WebAssembly.\<close> Clients speak HTTP to the gateway
  (\<open>src/components/gateway\<close>). It looks the path up in a table of routes, publishes the request as a
  NATS message with a reply subject of its own and waits for the answer. The execution host
  (\<open>src/components/execution-host\<close>) subscribes to the topics of its registry of applications, runs
  the function of a message under one deadline, and publishes the reply. It compiles modules in
  advance; their bytes come from the module cache (\<open>src/components/module-cache\<close>) or from an OCI
  registry. An operator sends the routes to the gateways and the applications to the hosts, first as
  a snapshot, then as a stream of updates. The processes share \<open>src/lib/platform-common\<close> (digests,
  workload identity, the HTTP messages).

  \<^bold>\<open>How the code is modelled.\<close> A struct is a record, an enum a datatype, an operation a function on
  explicit state. A \<open>Result\<close> is a sum with the error on the left. A \<open>HashMap\<close> is an association list
  with distinct keys (\<open>hm_get\<close>, \<open>hm_insert\<close>, \<open>hm_remove\<close>). Counters of 64 bits wrap around
  (\<open>wrap_add\<close>, \<open>wrap_sub\<close>); that they do not in fact wrap is proved from the limits. A poisoned lock is a
  boolean. The \<open>Drop\<close> of a guard is an operation. An asynchronous handler is cut at its awaits: each
  segment is a function, and an inductive step relation interleaves the segments of all tasks with the
  clock and the environment, so the invariants below hold for every schedule. A wait under a timeout
  answers \<open>Done\<close> or \<open>Elapsed\<close>. Times are natural numbers, in milliseconds in \<open>ModuleRegistry\<close>, in
  nanoseconds in \<open>GuestHost\<close> and \<open>HostSql\<close>, and in ticks of the clock elsewhere. Every loop is structural recursion over the data that it consumes (the
  chunks of a body, the updates of a stream, the polls of a future), so no fuel is needed. Third-party
  code is an argument: SHA-256, the parsers for JSON, URLs and references, the Wasm compiler, HTTP, NATS
  and gRPC transports, tokio's semaphores (\<open>semaphore_api\<close> with the laws of the locale
  \<open>semaphore_spec\<close>, which an explicit counter satisfies), the Prometheus vectors (\<open>prometheus_spec\<close>), the
  commands of a Redis server (\<open>redis_spec\<close>) and the SQL parser and driver.

  \<^bold>\<open>Shared.\<close> \<open>Prelude\<close>: byte strings, results, maps, 64-bit counters, semaphores, reachability.
  \<open>Decimal\<close>: decimal numbers as the standard library parses and prints them. \<open>HttpTypes\<close>
  (\<open>http_types.rs\<close>): the messages between gateway and host. \<open>Artifacts\<close> (\<open>artifacts.rs\<close>): digests parse and print as a round trip. \<open>Identity\<close> (\<open>identity.rs\<close>): the
  token file with the UTF-8 decoder of the standard library, token review and authorization, which
  fails closed.

  \<^bold>\<open>Module cache.\<close> \<open>CacheStore\<close> and \<open>CacheService\<close> (\<open>cache.rs\<close>): the least-recently-used store, its
  refinement of an ordered list of entries, and the HTTP service over it with concurrent requests. The
  service stays within its budgets and serves verified bytes only.

  \<^bold>\<open>Accounting.\<close> \<open>DispatchMetrics\<close> and \<open>PreparationMetrics\<close> (\<open>dispatch_metrics.rs\<close>,
  \<open>preparation_metrics.rs\<close>): the gauges are the numbers of live guards for every order of creation and
  drop. Both are used as ledgers that larger systems are simulated by. \<open>Collectors\<close> (the constructors of
  both, of \<open>metrics.rs\<close> and of the gateway's \<open>metrics.rs\<close>): names, labels and registration of every
  collector, with the laws of the registry in the locale \<open>registry_spec\<close>; the series are fixed at the start
  and no application takes a name of the host.

  \<^bold>\<open>Configuration.\<close> \<open>AppRegistry\<close> (\<open>config.rs\<close>): snapshots and updates refine an abstract map from
  topics, with the plan of modules and pools. \<open>SyncLoop\<close>: the reconnect loop of both processes, with
  the locale \<open>sync_sessions\<close>. \<open>ConfigSync\<close> (\<open>config_sync.rs\<close>) and \<open>RouteSync\<close> (\<open>route_sync.rs\<close>,
  \<open>route_table.rs\<close>) interpret it; whatever sessions failed before, a session leaves the snapshot followed
  by a beginning of the updates. \<open>SqlPool\<close> (\<open>sql_pool.rs\<close>): the pools kept per application.

  \<^bold>\<open>Invocations.\<close> \<open>Invocation\<close> (\<open>invocation.rs\<close>): deadline, cancellation and cleanup of one invocation.
  \<open>InvocationSupervisor\<close> (\<open>invocation_supervisor.rs\<close>, parts of \<open>nats.rs\<close>): the dispatch loop as a
  transition system. \<open>SupervisorSafety\<close> relates it to the ledger of \<open>DispatchMetrics\<close>;
  \<open>SupervisorProperties\<close> has the limits, the finality of revocation, the absence of panics in the
  collection of tasks, and the end of the drain.

  \<^bold>\<open>Intake.\<close> \<open>HostIntake\<close> (\<open>nats_client.rs\<close>, \<open>health.rs\<close>, the rest of \<open>nats.rs\<close>): the connection manager
  and the subscription manager over shared watch channels as a transition system, with what the host is
  subscribed to at rest and when it reports ready.

  \<^bold>\<open>Guests.\<close> \<open>UserMetrics\<close> (\<open>metrics.rs\<close>): the metrics that applications define, their synchronisation and
  the calls of guests. \<open>HostCall\<close>: sequences of awaits under the budget of \<open>Invocation\<close>, with the commands
  they send. \<open>GuestHost\<close> (\<open>runtime.rs\<close>, \<open>host_kv.rs\<close>, \<open>redis_client.rs\<close>, \<open>host_messaging.rs\<close>,
  \<open>host_metrics.rs\<close>, \<open>host_log.rs\<close>) and \<open>HostSql\<close> (\<open>host_sql.rs\<close>): the store of an invocation and every host
  function, the Lua script that Redis runs included. \<open>GuestProperties\<close>: mutations stay within the deadline
  and the keys of the application, a stopped invocation is refused everywhere, and a SQL job commits, is
  rolled back or has its backend terminated.

  \<^bold>\<open>Across the processes.\<close> \<open>RequestPath\<close>: an HTTP request from the gateway through the closure that the
  supervisor runs (\<open>invocation_supervisor.rs\<close>) and back, over a JSON codec with the laws of \<open>json_codec\<close>.
  \<open>Startup\<close> (\<open>main.rs\<close> of host and gateway, \<open>in_cluster\<close> of \<open>identity.rs\<close>, \<open>logging.rs\<close>): settings, credentials
  and the initial states of the transition systems, and the one account that the module cache admits.
  \<open>HostRun\<close> (\<open>main.rs\<close> of the host): \<open>main\<close> from the shutdown channel to its return, over the step relations
  of \<open>HostIntake\<close> and \<open>InvocationSupervisor\<close> run together; what the parts guarantee holds in the whole, and
  a shutdown ends it with nothing left. A signal before the first subscriber is lost. \<open>Servers\<close>
  (\<open>listener.rs\<close>, \<open>http_server.rs\<close>, \<open>main.rs\<close> of the module cache, the options of \<open>nats_client.rs\<close>, the
  metrics handlers): the connection tasks of a server are bounded by its permits and the worker threads of
  the runtime, and a module cache that was signalled serves nothing more. \<open>Redaction\<close> (the \<open>Debug\<close> printers of
  \<open>config.rs\<close>, \<open>http_types.rs\<close> and \<open>nats_client.rs\<close>): a log text shows exactly the visible fields.

  \<^bold>\<open>Modules.\<close> \<open>Oci\<close> (\<open>oci.rs\<close>, \<open>module_cache.rs\<close>): which registries are reached, and that an artifact
  pulled has the pinned digest. \<open>ModuleRegistry\<close> (\<open>modules.rs\<close>): preparation, compilation and
  registration as a transition system. \<open>ModuleSafety\<close> and \<open>ModuleProperties\<close>: budgets, provenance of
  every component, deadlines and progress.

  \<^bold>\<open>Gateway.\<close> \<open>GatewayConfig\<close> (\<open>config.rs\<close>): the limits read from the environment. \<open>PendingReplies\<close>
  (\<open>nats.rs\<close>): the registry of replies, with the locale \<open>reply_registry\<close>. \<open>Gateway\<close> (\<open>supervisor.rs\<close>,
  \<open>listener.rs\<close>, \<open>nats.rs\<close>, \<open>metrics.rs\<close>, \<open>main.rs\<close>): requests, leases, broker and sessions as a
  transition system. \<open>GatewaySafety\<close> has its invariants, \<open>GatewayProperties\<close> what they give: limits,
  correlation of replies, the authority, and the end of requests past their deadline.

  \<^bold>\<open>Not modelled.\<close> The operator and the command line tool (Go), deployment files and the example functions,
  which are guests of the platform. The routers, the set-up of tracing and the panic hook, which call
  libraries and keep no state. HTTP parsing, the text encoding of the metrics, and the execution of guest
  code by the Wasm engine with its linker. The code compiled for tests only.
\<close>

end
